(* ===== verification/Prelude.thy ===== *)
theory Prelude
  imports "HOL-Library.Word" "HOL-Library.Signed_Division"
begin

text \<open>
  Shared vocabulary of the development: the C integer types as machine words, the shape of
  an output pointer, the limits of the standard headers, and the generic lemmas on words
  and integers that the component theories use.

  Conventions.
  \<^item> A C integer of width \<open>w\<close> is a \<open>w word\<close>. Unsigned C arithmetic is word arithmetic (it
    wraps); a signed value is read with \<open>sint\<close> and compared with the signed orders. Where
    the source keeps signed arithmetic from overflowing, a lemma shows that \<open>sint\<close> of the
    result is the exact integer.
  \<^item> A pointer to an output cell is an option: \<open>None\<close> is NULL, \<open>Some v\<close> is a cell that holds
    \<open>v\<close>. A function that writes through it returns the new cell next to its status, so
    ``the output is unchanged on failure'' is an equation.
\<close>

unbundle bit_operations_syntax

type_synonym u8 = "8 word"
type_synonym u16 = "16 word"
type_synonym u32 = "32 word"
type_synonym u64 = "64 word"
type_synonym i8 = "8 word"
type_synonym i16 = "16 word"
type_synonym i32 = "32 word"
type_synonym i64 = "64 word"

type_synonym 'a ptr = "'a option"

abbreviation shl :: "'a::len word \<Rightarrow> nat \<Rightarrow> 'a word" where
  "shl x n \<equiv> push_bit n x"

abbreviation shr :: "'a::len word \<Rightarrow> nat \<Rightarrow> 'a word" where
  "shr x n \<equiv> drop_bit n x"

abbreviation INT64_MAX :: i64 where "INT64_MAX \<equiv> 0x7FFFFFFFFFFFFFFF"
abbreviation INT64_MIN :: i64 where "INT64_MIN \<equiv> 0x8000000000000000"
abbreviation UINT64_MAX :: u64 where "UINT64_MAX \<equiv> 0xFFFFFFFFFFFFFFFF"
abbreviation UINT32_MAX :: u32 where "UINT32_MAX \<equiv> 0xFFFFFFFF"
abbreviation INT32_MAX :: i32 where "INT32_MAX \<equiv> 0x7FFFFFFF"
abbreviation INT16_MAX :: i16 where "INT16_MAX \<equiv> 0x7FFF"

text \<open>Facts that turn word operations into integer arithmetic.\<close>

named_theorems word_to_int

lemma uint_shr [word_to_int]: "uint (drop_bit n x) = uint x div 2 ^ n" for x :: "'a::len word"
  by (simp only: unsigned_drop_bit_eq)
    (simp add: drop_bit_eq_div take_bit_int_eq_self [OF uint_ge_0 uint_lt2p])

lemma div_eq_0_int: "0 \<le> x \<Longrightarrow> 0 < d \<Longrightarrow> x div d = 0 \<longleftrightarrow> x < d" for x d :: int
  by (auto simp: zdiv_eq_0_iff)

lemma shr_eq_0_iff: "drop_bit n x = 0 \<longleftrightarrow> uint x < 2 ^ n" for x :: "'a::len word"
  using uint_shr [of n x] uint_0_iff [of "drop_bit n x"] by (simp add: div_eq_0_int)

lemma uint_shl [word_to_int]:
  "uint (push_bit n x) = (uint x * 2 ^ n) mod 2 ^ LENGTH('a)" for x :: "'a::len word"
  by (simp only: unsigned_push_bit_eq) (simp add: push_bit_eq_mult take_bit_eq_mod)

lemma sint_alt:
  "sint x = (if uint x < 2 ^ (LENGTH('a) - 1) then uint x else uint x - 2 ^ LENGTH('a))"
  for x :: "'a::len word"
proof -
  obtain m where m: "LENGTH('a) = Suc m" by (cases "LENGTH('a)") auto
  have b: "0 \<le> uint x" "uint x < 2 * 2 ^ m" using uint_lt2p [of x] by (auto simp: m)
  have "sint x = (uint x + 2 ^ m) mod (2 * 2 ^ m) - 2 ^ m"
    by (simp add: sint_uint m signed_take_bit_eq_take_bit_shift take_bit_eq_mod)
  moreover have "(uint x + 2 ^ m) mod (2 * 2 ^ m) = uint x + 2 ^ m" if "uint x < 2 ^ m"
    using that b by (intro mod_pos_pos_trivial) auto
  moreover have "(uint x + 2 ^ m) mod (2 * 2 ^ m) = uint x - 2 ^ m" if "\<not> uint x < 2 ^ m"
  proof -
    have "(uint x + 2 ^ m) mod (2 * 2 ^ m) = ((uint x - 2 ^ m) + 1 * (2 * 2 ^ m)) mod (2 * 2 ^ m)"
      by (simp add: algebra_simps)
    also have "\<dots> = (uint x - 2 ^ m) mod (2 * 2 ^ m)" by (simp only: mod_mult_self1)
    also have "\<dots> = uint x - 2 ^ m" using that b by (intro mod_pos_pos_trivial) auto
    finally show ?thesis .
  qed
  ultimately show ?thesis by (auto simp: m)
qed

lemma uint_of_sint: "uint x = sint x mod 2 ^ LENGTH('a)" for x :: "'a::len word"
  by (simp add: uint_sint take_bit_eq_mod)

lemma sint_word_of_int_fits:
  "- (2 ^ (LENGTH('a) - 1)) \<le> k \<Longrightarrow> k < 2 ^ (LENGTH('a) - 1) \<Longrightarrow> sint (word_of_int k :: 'a::len word) = k"
  by (simp add: sint_sbintrunc' signed_take_bit_int_eq_self)

lemma word_sint_eqI: "sint x = k \<Longrightarrow> word_of_int k = x" for x :: "'a::len word"
  by auto

lemma uint_or_disjoint: "x AND y = 0 \<Longrightarrow> uint (x OR y) = uint x + uint y"
  for x y :: "'a::len word"
  by (metis add_0 le_word_or2 uint_plus_simple word_plus_and_or)

lemma uint_and_low [word_to_int]: "uint (x AND (push_bit n 1 - 1)) = uint x mod 2 ^ n"
  for x :: "'a::len word"
  by (metis mask_eq_exp_minus_1 push_bit_of_1 take_bit_eq_mask take_bit_eq_mod unsigned_take_bit_eq)

lemma eq_word_of_intI: "sint x = k \<Longrightarrow> x = word_of_int k" for x :: "'a::len word"
  by auto

lemma ucast_down_of_int:
  "LENGTH('b) \<le> LENGTH('a) \<Longrightarrow> ucast (word_of_int k :: 'a::len word) = (word_of_int k :: 'b::len word)"
  by transfer (simp add: take_bit_take_bit min_def)

lemma ucast_down_sint:
  "LENGTH('b) \<le> LENGTH('a) \<Longrightarrow> ucast x = (word_of_int (sint x) :: 'b::len word)" for x :: "'a::len word"
  using ucast_down_of_int [where 'a = 'a and 'b = 'b and k = "sint x"] by simp

lemma sint_0_iff: "sint x = 0 \<longleftrightarrow> x = 0" for x :: "'a::len word"
  using word_sint_eqI [of x 0] by auto

lemma uint_minus_fits: "y \<le> x \<Longrightarrow> uint (x - y) = uint x - uint y" for x y :: "'a::len word"
  using uint_sub_lem [of y x] by (simp add: word_le_def)

lemma uint_bounds: "0 \<le> uint x" "uint x < 2 ^ LENGTH('a)" for x :: "'a::len word"
  by simp_all

lemma uint_sign_simps [simp]:
  "- numeral k < uint x" "- numeral k \<le> uint x" "- uint x < numeral k" "- uint x \<le> numeral k"
  "- 1 < uint x" "- 1 \<le> uint x"
  for x :: "'a::len word"
proof -
  have "0 \<le> uint x" "(0::int) < numeral k" by simp_all
  then show "- numeral k < uint x" "- numeral k \<le> uint x" "- uint x < numeral k"
    "- uint x \<le> numeral k" "- 1 < uint x" "- 1 \<le> uint x"
    by linarith+
qed

lemma mult_bound_int:
  fixes x y :: int
  assumes "0 \<le> x" "x \<le> m" "0 \<le> y" "y \<le> n"
  shows "0 \<le> x * y" and "x * y \<le> m * n"
  using assms by (auto intro: mult_mono)

lemma uint_ucast_up: "LENGTH('a) \<le> LENGTH('b) \<Longrightarrow> uint (ucast x :: 'b::len word) = uint x" for x :: "'a::len word"
  by (simp only: unsigned_ucast_eq take_bit_int_eq_self_iff) (auto intro: order_less_le_trans [OF uint_lt2p])

lemma unat_shl_or_byte:
  fixes x :: u32 and b :: u8
  assumes "unat x < 2 ^ 24"
  shows "unat (shl x 8 OR ucast b) = unat x * 2 ^ 8 + unat b"
proof -
  have "shl x 8 AND ucast b = 0"
    by (rule bit_word_eqI) (auto simp: bit_simps dest: bit_imp_le_length)
  then have "uint (shl x 8 OR ucast b) = uint (shl x 8) + uint b"
    using uint_ucast_up [of b, where 'b = 32] by (simp only: uint_or_disjoint) simp
  moreover have "int (unat x) < int (2 ^ 24)" using assms by (simp only: of_nat_less_iff)
  then have "uint (shl x 8) = uint x * 2 ^ 8"
    by (simp add: uint_shl)
  ultimately have "int (unat (shl x 8 OR ucast b)) = int (unat x * 2 ^ 8 + unat b)" by simp
  then show ?thesis by (simp only: of_nat_eq_iff)
qed
lemma unat_and_mask6: "unat (x AND 0x3F) = unat x mod 64" for x :: u32
proof -
  have "x AND 0x3F = take_bit 6 x" by (simp add: take_bit_eq_mask mask_eq_exp_minus_1)
  then show ?thesis by (simp only: unsigned_take_bit_eq) (simp add: take_bit_eq_mod)
qed
lemma unat_shr: "unat (shr x n) = unat x div 2 ^ n" for x :: "'a::len word"
  by (simp only: unat_drop_bit_eq) (simp add: drop_bit_eq_div)

end
