(* ===== verification/Numeric.thy ===== *)
theory Numeric
  imports Prelude
begin

text \<open>
  Model of the integer core of the linear-algebra library: the private two-limb arithmetic
  of \<open>libs/linears/src/numeric_internal.h\<close>, the public fixed-point operations of
  \<open>libs/linears/src/numeric.c\<close> and the inline conversions of
  \<open>libs/linears/include/linears_numeric.h\<close>.

  A static helper that always receives a valid pointer takes the old contents of the cell
  and returns the new ones; a public operation takes a \<open>ptr\<close> and handles NULL. The lemmas
  are in the theories \<open>Numeric_Limbs\<close> and \<open>Numeric_Spec\<close>.
\<close>

section \<open>Data\<close>

datatype linears_status_t =
    LINEARS_OK
  | LINEARS_ERROR_ARGUMENT
  | LINEARS_ERROR_DIMENSION
  | LINEARS_ERROR_SIZE
  | LINEARS_ERROR_WORKSPACE
  | LINEARS_ERROR_ALIAS
  | LINEARS_ERROR_RANGE
  | LINEARS_ERROR_DOMAIN
  | LINEARS_ERROR_SINGULAR
  | LINEARS_ERROR_NOT_POSITIVE_DEFINITE
  | LINEARS_ERROR_NO_CONVERGENCE

record linears_accum_t =
  acc_low :: u64
  acc_high :: u64

type_synonym linears_fixed_t = i64
type_synonym linears_q15_t = i16
type_synonym linears_q31_t = i32

definition LINEARS_FIXED_ONE :: linears_fixed_t where
  "LINEARS_FIXED_ONE = 2147483648"

definition linears_fixed_from_q15 :: "linears_q15_t \<Rightarrow> linears_fixed_t" where
  "linears_fixed_from_q15 v = scast v * 65536"

definition linears_fixed_from_q31 :: "linears_q31_t \<Rightarrow> linears_fixed_t" where
  "linears_fixed_from_q31 v = scast v"

definition linears_fixed_compare :: "linears_fixed_t \<Rightarrow> linears_fixed_t \<Rightarrow> int" where
  "linears_fixed_compare a b = of_bool (b <s a) - of_bool (a <s b)"

section \<open>Two-limb arithmetic\<close>

definition ln_magnitude :: "i64 \<Rightarrow> u64" where
  "ln_magnitude v = (if v <s 0 then - (v + 1) + 1 else v)"

definition ln_negate :: "linears_accum_t \<Rightarrow> linears_accum_t" where
  "ln_negate v =
     (let l = NOT (acc_low v) + 1
      in \<lparr>acc_low = l, acc_high = NOT (acc_high v) + of_bool (l = 0)\<rparr>)"

definition ln_negative :: "linears_accum_t \<Rightarrow> bool" where
  "ln_negative v \<longleftrightarrow> shr (acc_high v) 63 \<noteq> 0"

definition ln_absolute :: "linears_accum_t \<Rightarrow> linears_accum_t" where
  "ln_absolute v = (if ln_negative v then ln_negate v else v)"

definition ln_compare_unsigned :: "linears_accum_t \<Rightarrow> linears_accum_t \<Rightarrow> int" where
  "ln_compare_unsigned a b =
     (if acc_high a \<noteq> acc_high b then (if acc_high b < acc_high a then 1 else -1)
      else of_bool (acc_low b < acc_low a) - of_bool (acc_low a < acc_low b))"

definition ln_shift_u64 :: "u64 \<Rightarrow> nat \<Rightarrow> linears_accum_t" where
  "ln_shift_u64 v amount = \<lparr>acc_low = shl v amount, acc_high = shr v (64 - amount)\<rparr>"

definition ln_shift_i64 :: "i64 \<Rightarrow> nat \<Rightarrow> linears_accum_t" where
  "ln_shift_i64 v amount =
     (let result = ln_shift_u64 (ln_magnitude v) amount
      in if v <s 0 then ln_negate result else result)"

definition ln_multiply_unsigned :: "u64 \<Rightarrow> u64 \<Rightarrow> linears_accum_t" where
  "ln_multiply_unsigned a b =
     (if a OR b \<le> ucast UINT32_MAX
      then \<lparr>acc_low = ucast (ucast a :: u32) * ucast (ucast b :: u32), acc_high = 0\<rparr>
      else
        let a0 = ucast (ucast a :: u32); a1 = shr a 32;
            b0 = ucast (ucast b :: u32); b1 = shr b 32;
            p00 = a0 * b0;
            t = a1 * b0 + shr p00 32;
            carry = shr t 32;
            t' = ucast (ucast t :: u32) + a0 * b1
        in \<lparr>acc_low = shl t' 32 OR ucast (ucast p00 :: u32),
            acc_high = a1 * b1 + carry + shr t' 32\<rparr>)"

definition ln_product :: "i64 \<Rightarrow> i64 \<Rightarrow> linears_accum_t" where
  "ln_product a b =
     (let result = ln_multiply_unsigned (ln_magnitude a) (ln_magnitude b)
      in if (a <s 0) \<noteq> (b <s 0) then ln_negate result else result)"

definition ln_add_unchecked :: "linears_accum_t \<Rightarrow> linears_accum_t \<Rightarrow> linears_accum_t" where
  "ln_add_unchecked a b =
     (let l = acc_low a + acc_low b
      in \<lparr>acc_low = l, acc_high = acc_high a + acc_high b + of_bool (l < acc_low a)\<rparr>)"

definition ln_shift_accum :: "linears_accum_t \<Rightarrow> nat \<Rightarrow> linears_accum_t" where
  "ln_shift_accum v amount =
     \<lparr>acc_low = shl (acc_low v) amount,
      acc_high = shl (acc_high v) amount OR shr (acc_low v) (64 - amount)\<rparr>"

definition ln_add_checked ::
  "linears_accum_t \<Rightarrow> linears_accum_t \<Rightarrow> linears_accum_t \<Rightarrow> linears_status_t \<times> linears_accum_t" where
  "ln_add_checked a b out =
     (let result = ln_add_unchecked a b
      in if ln_negative a = ln_negative b \<and> ln_negative result \<noteq> ln_negative a
         then (LINEARS_ERROR_RANGE, out)
         else (LINEARS_OK, result))"

definition ln_add_product64 :: "linears_accum_t \<Rightarrow> i64 \<Rightarrow> linears_accum_t" where
  "ln_add_product64 acc p =
     (let l = acc_low acc + p
      in \<lparr>acc_low = l,
          acc_high = acc_high acc
            + ((if p <s 0 then UINT64_MAX else 0) + of_bool (l < acc_low acc))\<rparr>)"

text \<open>The two loops of \<open>ln_sqrt_floor64\<close>: normalise the trial bit, then restore.\<close>

lemma shr2_less: "b \<noteq> 0 \<Longrightarrow> unat (drop_bit 2 b) < unat b" for b :: "64 word"
  using unat_gt_0 [of b] by (simp only: unat_drop_bit_eq) (simp add: drop_bit_eq_div)

function sqrt_first_bit :: "u64 \<Rightarrow> u64 \<Rightarrow> u64" where
  "sqrt_first_bit b v = (if v < b then sqrt_first_bit (shr b 2) v else b)"
  by pat_completeness auto
termination
  by (relation "measure (\<lambda>(b, v). unat b)") (auto intro: shr2_less)

function sqrt_restore :: "u64 \<Rightarrow> u64 \<Rightarrow> u64 \<Rightarrow> u64 \<times> u64" where
  "sqrt_restore b root v =
     (if b \<noteq> 0 then
        if root + b \<le> v
        then sqrt_restore (shr b 2) (shr root 1 + b) (v - (root + b))
        else sqrt_restore (shr b 2) (shr root 1) v
      else (root, v))"
  by pat_completeness auto
termination
  by (relation "measure (\<lambda>(b, rt, v). unat b)") (auto intro: shr2_less)

definition ln_sqrt_floor64 :: "u64 \<Rightarrow> u64 \<times> u64" where
  "ln_sqrt_floor64 v = sqrt_restore (sqrt_first_bit (shl 1 62) v) 0 v"

definition ln_sqrt_nearest64 :: "u64 \<Rightarrow> u64" where
  "ln_sqrt_nearest64 v =
     (let (root, remainder) = ln_sqrt_floor64 v
      in root + of_bool (root + 1 \<le> remainder))"

section \<open>Rounding and division of magnitudes\<close>

definition signed_result :: "u64 \<Rightarrow> bool \<Rightarrow> i64 \<Rightarrow> linears_status_t \<times> i64" where
  "signed_result magnitude negative out =
     (let limit = (if negative then shl 1 63 else INT64_MAX)
      in if limit < magnitude then (LINEARS_ERROR_RANGE, out)
         else (LINEARS_OK,
               if negative then (if magnitude = shl 1 63 then INT64_MIN else - magnitude)
               else magnitude))"

definition round_shift ::
  "linears_accum_t \<Rightarrow> nat \<Rightarrow> bool \<Rightarrow> i64 \<Rightarrow> linears_status_t \<times> i64" where
  "round_shift magnitude shift negative out =
     (if shr (acc_high magnitude) shift \<noteq> 0 then (LINEARS_ERROR_RANGE, out)
      else
        let q = shr (acc_low magnitude) shift OR shl (acc_high magnitude) (64 - shift);
            remainder = acc_low magnitude AND (shl 1 shift - 1)
        in if shl 1 (shift - 1) \<le> remainder
           then if q = UINT64_MAX then (LINEARS_ERROR_RANGE, out)
                else signed_result (q + 1) negative out
           else signed_result q negative out)"

fun divide_restore :: "nat \<Rightarrow> u64 \<Rightarrow> u64 \<Rightarrow> u64 \<Rightarrow> u64 \<Rightarrow> u64 \<times> u64" where
  "divide_restore 0 lo divisor q r = (q, r)"
| "divide_restore (Suc i) lo divisor q r =
     (let carry = shr r 63;
          r' = shl r 1 OR (shr lo i AND 1);
          q' = shl q 1
      in if carry \<noteq> 0 \<or> divisor \<le> r'
         then divide_restore i lo divisor (q' OR 1) (r' - divisor)
         else divide_restore i lo divisor q' r')"

definition divide_magnitude :: "u64 \<Rightarrow> u64 \<Rightarrow> u64 \<Rightarrow> u64 \<times> u64" where
  "divide_magnitude hi lo divisor =
     (if hi = 0 then (lo div divisor, lo mod divisor)
      else divide_restore 64 lo divisor 0 hi)"

definition rounded_division ::
  "linears_accum_t \<Rightarrow> u64 \<Rightarrow> bool \<Rightarrow> linears_fixed_t \<Rightarrow> linears_status_t \<times> linears_fixed_t" where
  "rounded_division numerator divisor negative out =
     (if divisor \<le> acc_high numerator then (LINEARS_ERROR_RANGE, out)
      else
        let (q, remainder) =
              divide_magnitude (acc_high numerator) (acc_low numerator) divisor
        in if divisor - remainder \<le> remainder
           then if q = UINT64_MAX then (LINEARS_ERROR_RANGE, out)
                else signed_result (q + 1) negative out
           else signed_result q negative out)"

section \<open>Public operations on working values\<close>

definition linears_fixed_from_int ::
  "i64 \<Rightarrow> linears_fixed_t ptr \<Rightarrow> linears_status_t \<times> linears_fixed_t ptr" where
  "linears_fixed_from_int integer out =
     (case out of None \<Rightarrow> (LINEARS_ERROR_ARGUMENT, None)
      | Some _ \<Rightarrow>
          if integer <s - 4294967296 \<or> 4294967295 <s integer then (LINEARS_ERROR_RANGE, out)
          else (LINEARS_OK, Some (integer * LINEARS_FIXED_ONE)))"

definition linears_fixed_add ::
  "linears_fixed_t \<Rightarrow> linears_fixed_t \<Rightarrow> linears_fixed_t ptr \<Rightarrow> linears_status_t \<times> linears_fixed_t ptr" where
  "linears_fixed_add a b out =
     (case out of None \<Rightarrow> (LINEARS_ERROR_ARGUMENT, None)
      | Some _ \<Rightarrow>
          if (0 <s b \<and> INT64_MAX - b <s a) \<or> (b <s 0 \<and> a <s INT64_MIN - b)
          then (LINEARS_ERROR_RANGE, out)
          else (LINEARS_OK, Some (a + b)))"

definition linears_fixed_sub ::
  "linears_fixed_t \<Rightarrow> linears_fixed_t \<Rightarrow> linears_fixed_t ptr \<Rightarrow> linears_status_t \<times> linears_fixed_t ptr" where
  "linears_fixed_sub a b out =
     (case out of None \<Rightarrow> (LINEARS_ERROR_ARGUMENT, None)
      | Some _ \<Rightarrow>
          if (0 <s b \<and> a <s INT64_MIN + b) \<or> (b <s 0 \<and> INT64_MAX + b <s a)
          then (LINEARS_ERROR_RANGE, out)
          else (LINEARS_OK, Some (a - b)))"

definition linears_fixed_mul ::
  "linears_fixed_t \<Rightarrow> linears_fixed_t \<Rightarrow> linears_fixed_t ptr \<Rightarrow> linears_status_t \<times> linears_fixed_t ptr" where
  "linears_fixed_mul a b out =
     (case out of None \<Rightarrow> (LINEARS_ERROR_ARGUMENT, None)
      | Some old \<Rightarrow>
          map_prod id Some
            (round_shift (ln_multiply_unsigned (ln_magnitude a) (ln_magnitude b)) 31
               ((a <s 0) \<noteq> (b <s 0)) old))"

definition linears_fixed_div ::
  "linears_fixed_t \<Rightarrow> linears_fixed_t \<Rightarrow> linears_fixed_t ptr \<Rightarrow> linears_status_t \<times> linears_fixed_t ptr" where
  "linears_fixed_div a b out =
     (case out of None \<Rightarrow> (LINEARS_ERROR_ARGUMENT, None)
      | Some old \<Rightarrow>
          if b = 0 then (LINEARS_ERROR_DOMAIN, out)
          else map_prod id Some
            (rounded_division (ln_shift_u64 (ln_magnitude a) 31) (ln_magnitude b)
               ((a <s 0) \<noteq> (b <s 0)) old))"

definition linears_fixed_muldiv ::
  "linears_fixed_t \<Rightarrow> linears_fixed_t \<Rightarrow> linears_fixed_t \<Rightarrow> linears_fixed_t ptr
    \<Rightarrow> linears_status_t \<times> linears_fixed_t ptr" where
  "linears_fixed_muldiv a b divisor out =
     (case out of None \<Rightarrow> (LINEARS_ERROR_ARGUMENT, None)
      | Some old \<Rightarrow>
          if divisor = 0 then (LINEARS_ERROR_DOMAIN, out)
          else map_prod id Some
            (rounded_division (ln_multiply_unsigned (ln_magnitude a) (ln_magnitude b))
               (ln_magnitude divisor) (((a <s 0) \<noteq> (b <s 0)) \<noteq> (divisor <s 0)) old))"

text \<open>The 48-digit base-4 restoring loop of \<open>linears_fixed_sqrt\<close>.\<close>

fun sqrt_digits :: "nat \<Rightarrow> linears_accum_t \<Rightarrow> u64 \<Rightarrow> u64 \<Rightarrow> u64 \<times> u64" where
  "sqrt_digits 0 radicand rt remainder = (rt, remainder)"
| "sqrt_digits (Suc p) radicand rt remainder =
     (let position = 2 * p;
          digit = (if 64 \<le> position then shr (acc_high radicand) (position - 64) AND 3
                   else shr (acc_low radicand) position AND 3);
          remainder' = shl remainder 2 OR digit;
          rt' = shl rt 1;
          trial = shl rt' 1 OR 1
      in if trial \<le> remainder' then sqrt_digits p radicand (rt' + 1) (remainder' - trial)
         else sqrt_digits p radicand rt' remainder')"

definition linears_fixed_sqrt ::
  "linears_fixed_t \<Rightarrow> linears_fixed_t ptr \<Rightarrow> linears_status_t \<times> linears_fixed_t ptr" where
  "linears_fixed_sqrt v out =
     (case out of None \<Rightarrow> (LINEARS_ERROR_ARGUMENT, None)
      | Some _ \<Rightarrow>
          if v <s 0 then (LINEARS_ERROR_DOMAIN, out)
          else
            let radicand = ln_shift_u64 v 31
            in if acc_high radicand = 0
               then (LINEARS_OK, Some (ln_sqrt_nearest64 (acc_low radicand)))
               else
                 let (rt, remainder) = sqrt_digits 48 radicand 0 0
                 in (LINEARS_OK, Some (rt + of_bool (rt + 1 \<le> remainder))))"

definition linears_fixed_neg ::
  "linears_fixed_t \<Rightarrow> linears_fixed_t ptr \<Rightarrow> linears_status_t \<times> linears_fixed_t ptr" where
  "linears_fixed_neg v out =
     (case out of None \<Rightarrow> (LINEARS_ERROR_ARGUMENT, None)
      | Some _ \<Rightarrow>
          if v = INT64_MIN then (LINEARS_ERROR_RANGE, out) else (LINEARS_OK, Some (- v)))"

definition linears_fixed_abs ::
  "linears_fixed_t \<Rightarrow> linears_fixed_t ptr \<Rightarrow> linears_status_t \<times> linears_fixed_t ptr" where
  "linears_fixed_abs v out =
     (case out of None \<Rightarrow> (LINEARS_ERROR_ARGUMENT, None)
      | Some _ \<Rightarrow>
          if v = INT64_MIN then (LINEARS_ERROR_RANGE, out)
          else (LINEARS_OK, Some (if v <s 0 then - v else v)))"

section \<open>Quantisation to the signal formats\<close>

definition linears_fixed_to_q15 ::
  "linears_fixed_t \<Rightarrow> linears_q15_t ptr \<Rightarrow> linears_status_t \<times> linears_q15_t ptr" where
  "linears_fixed_to_q15 v out =
     (case out of None \<Rightarrow> (LINEARS_ERROR_ARGUMENT, None)
      | Some _ \<Rightarrow>
          if v <s - LINEARS_FIXED_ONE \<or> LINEARS_FIXED_ONE <s v then (LINEARS_ERROR_RANGE, out)
          else
            let magnitude = ln_magnitude v;
                raw = shr magnitude 16 + of_bool (32768 \<le> magnitude AND 65535);
                raw' = (if 0 \<le>s v \<and> raw = 32768 then scast INT16_MAX else raw)
            in (LINEARS_OK, Some (ucast (if v <s 0 then - (ucast raw' :: i32) else ucast raw'))))"

definition linears_fixed_to_q31 ::
  "linears_fixed_t \<Rightarrow> linears_q31_t ptr \<Rightarrow> linears_status_t \<times> linears_q31_t ptr" where
  "linears_fixed_to_q31 v out =
     (case out of None \<Rightarrow> (LINEARS_ERROR_ARGUMENT, None)
      | Some _ \<Rightarrow>
          if v <s - LINEARS_FIXED_ONE \<or> LINEARS_FIXED_ONE <s v then (LINEARS_ERROR_RANGE, out)
          else (LINEARS_OK, Some (if v = LINEARS_FIXED_ONE then INT32_MAX else ucast v)))"

section \<open>Accumulator operations\<close>

definition linears_fixed_mac ::
  "linears_accum_t ptr \<Rightarrow> linears_fixed_t \<Rightarrow> linears_fixed_t \<Rightarrow> linears_status_t \<times> linears_accum_t ptr" where
  "linears_fixed_mac accumulator a b =
     (case accumulator of None \<Rightarrow> (LINEARS_ERROR_ARGUMENT, None)
      | Some acc \<Rightarrow> map_prod id Some (ln_add_checked acc (ln_product a b) acc))"

definition linears_fixed_msu ::
  "linears_accum_t ptr \<Rightarrow> linears_fixed_t \<Rightarrow> linears_fixed_t \<Rightarrow> linears_status_t \<times> linears_accum_t ptr" where
  "linears_fixed_msu accumulator a b =
     (case accumulator of None \<Rightarrow> (LINEARS_ERROR_ARGUMENT, None)
      | Some acc \<Rightarrow> map_prod id Some (ln_add_checked acc (ln_negate (ln_product a b)) acc))"

definition linears_accum_to_fixed ::
  "linears_accum_t \<Rightarrow> linears_fixed_t ptr \<Rightarrow> linears_status_t \<times> linears_fixed_t ptr" where
  "linears_accum_to_fixed v out =
     (case out of None \<Rightarrow> (LINEARS_ERROR_ARGUMENT, None)
      | Some old \<Rightarrow> map_prod id Some (round_shift (ln_absolute v) 31 (ln_negative v) old))"

definition quantize_unit :: "u64 \<Rightarrow> bool \<Rightarrow> nat \<Rightarrow> i64" where
  "quantize_unit magnitude negative bits =
     (let shift = 62 - bits;
          raw = shr magnitude shift
            + of_bool (shl 1 (shift - 1) \<le> magnitude AND (shl 1 shift - 1));
          raw' = (if \<not> negative \<and> raw = shl 1 bits then raw - 1 else raw)
      in if negative then - raw' else raw')"

definition quantize_accumulator :: "linears_accum_t \<Rightarrow> nat \<Rightarrow> i64 \<Rightarrow> linears_status_t \<times> i64" where
  "quantize_accumulator v bits out =
     (let magnitude = ln_absolute v
      in if acc_high magnitude \<noteq> 0 \<or> shl 1 62 < acc_low magnitude
         then (LINEARS_ERROR_RANGE, out)
         else (LINEARS_OK, quantize_unit (acc_low magnitude) (ln_negative v) bits))"

text \<open>
  The local variable \<open>raw\<close> of the four wrappers below is uninitialised when the callee
  fails; its value is never read then. It is passed as \<open>0\<close>.
\<close>

definition linears_accum_to_q15 ::
  "linears_accum_t \<Rightarrow> linears_q15_t ptr \<Rightarrow> linears_status_t \<times> linears_q15_t ptr" where
  "linears_accum_to_q15 v out =
     (case out of None \<Rightarrow> (LINEARS_ERROR_ARGUMENT, None)
      | Some _ \<Rightarrow>
          (let (status, raw) = quantize_accumulator v 15 0
           in (status, if status = LINEARS_OK then Some (ucast raw) else out)))"

definition linears_accum_to_q31 ::
  "linears_accum_t \<Rightarrow> linears_q31_t ptr \<Rightarrow> linears_status_t \<times> linears_q31_t ptr" where
  "linears_accum_to_q31 v out =
     (case out of None \<Rightarrow> (LINEARS_ERROR_ARGUMENT, None)
      | Some _ \<Rightarrow>
          (let (status, raw) = quantize_accumulator v 31 0
           in (status, if status = LINEARS_OK then Some (ucast raw) else out)))"

definition quantize_mean ::
  "linears_accum_t \<Rightarrow> u64 \<Rightarrow> nat \<Rightarrow> i64 \<Rightarrow> linears_status_t \<times> i64" where
  "quantize_mean acc n bits out =
     (if n = 0 then (LINEARS_ERROR_DOMAIN, out)
      else
        let magnitude = ln_absolute acc;
            bound = ln_shift_u64 n 62
        in if 0 < ln_compare_unsigned magnitude bound then (LINEARS_ERROR_RANGE, out)
           else
             let (q, remainder) = divide_magnitude (acc_high magnitude) (acc_low magnitude) n
             in (LINEARS_OK, quantize_unit q (ln_negative acc) bits))"

definition linears_accum_mean_q15 ::
  "linears_accum_t \<Rightarrow> u64 \<Rightarrow> linears_q15_t ptr \<Rightarrow> linears_status_t \<times> linears_q15_t ptr" where
  "linears_accum_mean_q15 acc n out =
     (case out of None \<Rightarrow> (LINEARS_ERROR_ARGUMENT, None)
      | Some _ \<Rightarrow>
          (let (status, raw) = quantize_mean acc n 15 0
           in (status, if status = LINEARS_OK then Some (ucast raw) else out)))"

definition linears_accum_mean_q31 ::
  "linears_accum_t \<Rightarrow> u64 \<Rightarrow> linears_q31_t ptr \<Rightarrow> linears_status_t \<times> linears_q31_t ptr" where
  "linears_accum_mean_q31 acc n out =
     (case out of None \<Rightarrow> (LINEARS_ERROR_ARGUMENT, None)
      | Some _ \<Rightarrow>
          (let (status, raw) = quantize_mean acc n 31 0
           in (status, if status = LINEARS_OK then Some (ucast raw) else out)))"

section \<open>Array export\<close>

text \<open>
  \<open>size_t\<close> and \<open>uintptr_t\<close> are words of a common width \<open>'s\<close>, since the library is built for
  32-bit and 64-bit targets; address \<open>0\<close> is NULL. The contents of the two arrays are lists:
  the alias check returns before any element of overlapping arrays is read. The \<open>bits\<close>
  argument of \<open>export_values\<close> selects the element width, its alignment (both \<open>width\<close> here) and
  the conversion of one element; those two are the arguments of the model.
\<close>

definition overlaps :: "'s::len word \<Rightarrow> 's word \<Rightarrow> 's word \<Rightarrow> 's word \<Rightarrow> bool" where
  "overlaps x asize y bsize =
     (if asize = 0 \<or> bsize = 0 then False
      else if x \<le> y then y - x < asize else x - y < bsize)"

definition export_values ::
  "'s::len word \<Rightarrow> (linears_fixed_t \<Rightarrow> 'q ptr \<Rightarrow> linears_status_t \<times> 'q ptr)
    \<Rightarrow> 's word \<Rightarrow> linears_fixed_t list \<Rightarrow> 's word \<Rightarrow> 's word \<Rightarrow> 'q list
    \<Rightarrow> linears_status_t \<times> 'q list" where
  "export_values width convert values_at values n out_at out =
     (if n \<noteq> 0 \<and> (values_at = 0 \<or> out_at = 0 \<or> values_at mod 8 \<noteq> 0 \<or> out_at mod width \<noteq> 0)
      then (LINEARS_ERROR_ARGUMENT, out)
      else if (- 1) div 8 < n \<or> (- 1) div width < n then (LINEARS_ERROR_SIZE, out)
      else if (- 1) - values_at < n * 8 \<or> (- 1) - out_at < n * width then (LINEARS_ERROR_SIZE, out)
      else if overlaps values_at (n * 8) out_at (n * width) then (LINEARS_ERROR_ALIAS, out)
      else if list_ex (\<lambda>v. v <s - LINEARS_FIXED_ONE \<or> LINEARS_FIXED_ONE <s v) (take (unat n) values)
      then (LINEARS_ERROR_RANGE, out)
      else (LINEARS_OK,
            foldl (\<lambda>o' i. case snd (convert (values ! i) (Some (o' ! i))) of
                     None \<Rightarrow> o' | Some q \<Rightarrow> o'[i := q])
              out [0..<unat n]))"

definition linears_fixed_export_q15 ::
  "'s::len word \<Rightarrow> linears_fixed_t list \<Rightarrow> 's word \<Rightarrow> 's word \<Rightarrow> linears_q15_t list
    \<Rightarrow> linears_status_t \<times> linears_q15_t list" where
  "linears_fixed_export_q15 = export_values 2 linears_fixed_to_q15"

definition linears_fixed_export_q31 ::
  "'s::len word \<Rightarrow> linears_fixed_t list \<Rightarrow> 's word \<Rightarrow> 's word \<Rightarrow> linears_q31_t list
    \<Rightarrow> linears_status_t \<times> linears_q31_t list" where
  "linears_fixed_export_q31 = export_values 4 linears_fixed_to_q31"

end
