(* ===== verification/Numeric_Limbs.thy ===== *)
theory Numeric_Limbs
  imports Numeric
begin

text \<open>
  What the private helpers compute, as integers: the value of a two-limb accumulator, exact
  64 by 64 bit products, checked 128-bit sums, round-to-nearest division of magnitudes and
  the two restoring square roots.
\<close>

section \<open>Integer readings and the rounding functions\<close>

definition accum_uval :: "linears_accum_t \<Rightarrow> int" where
  "accum_uval a = uint (acc_high a) * 2 ^ 64 + uint (acc_low a)"

definition accum_val :: "linears_accum_t \<Rightarrow> int" where
  "accum_val a = sint (acc_high a) * 2 ^ 64 + uint (acc_low a)"

definition round_half :: "int \<Rightarrow> int \<Rightarrow> int" where
  "round_half m d = (2 * m + d) div (2 * d)"

definition round_away :: "int \<Rightarrow> int \<Rightarrow> int" where
  "round_away n d = sgn n * sgn d * round_half \<bar>n\<bar> \<bar>d\<bar>"

definition fit_i64 :: "int \<Rightarrow> i64 \<Rightarrow> linears_status_t \<times> i64" where
  "fit_i64 r out =
     (if - (2 ^ 63) \<le> r \<and> r < 2 ^ 63 then (LINEARS_OK, word_of_int r) else (LINEARS_ERROR_RANGE, out))"

definition sqrt_inv :: "int \<Rightarrow> nat \<Rightarrow> int \<Rightarrow> u64 \<Rightarrow> u64 \<Rightarrow> bool" where
  "sqrt_inv n k P rt v \<longleftrightarrow> 0 \<le> P \<and> P + 2 ^ k \<le> 2 ^ 32 \<and> uint rt = P * 2 ^ k
     \<and> P * P + uint v = n \<and> n < (P + 2 ^ k) * (P + 2 ^ k)"

definition saturate_unit :: "nat \<Rightarrow> bool \<Rightarrow> int \<Rightarrow> int" where
  "saturate_unit bits neg r = (if neg then - r else min r (2 ^ bits - 1))"

definition nearest_sqrt :: "int \<Rightarrow> int \<Rightarrow> bool" where
  "nearest_sqrt n r \<longleftrightarrow> 0 \<le> r \<and> n \<le> r * (r + 1) \<and> (r = 0 \<or> r * (r - 1) < n)"

section \<open>Accumulator values\<close>

lemma accum_val_num: "accum_val a = sint (acc_high a) * 18446744073709551616 + uint (acc_low a)"
  by (simp add: accum_val_def)

lemma accum_uval_num: "accum_uval a = uint (acc_high a) * 18446744073709551616 + uint (acc_low a)"
  by (simp add: accum_uval_def)

lemma u64_bounds: "0 \<le> uint x" "uint x \<le> 18446744073709551615" for x :: "64 word"
  using uint_lt2p [of x] by simp_all

lemma i64_bounds: "- 9223372036854775808 \<le> sint x" "sint x \<le> 9223372036854775807" for x :: "64 word"
  using sint_ge [of x] sint_lt [of x] by simp_all

lemma sint64: "sint x = (if uint x < 9223372036854775808 then uint x else uint x - 18446744073709551616)"
  for x :: "64 word"
  using sint_alt [of x] by simp

lemma accum_limbs:
  obtains h l where "0 \<le> h" "h \<le> 18446744073709551615" "0 \<le> l" "l \<le> 18446744073709551615"
    "uint (acc_high a) = h" "uint (acc_low a) = l"
  using u64_bounds [of "acc_low a"] u64_bounds [of "acc_high a"] by blast

lemma accum_uval_bounds: "0 \<le> accum_uval a" "accum_uval a < 2 ^ 128"
  using u64_bounds [of "acc_high a"] u64_bounds [of "acc_low a"] by (auto simp: accum_uval_def)

lemma ln_negative_iff: "ln_negative a \<longleftrightarrow> accum_val a < 0"
proof -
  have "ln_negative a \<longleftrightarrow> uint (drop_bit 63 (acc_high a)) \<noteq> 0"
    by (simp add: ln_negative_def uint_0_iff)
  also have "\<dots> \<longleftrightarrow> sint (acc_high a) < 0"
    using u64_bounds [of "acc_high a"] by (auto simp: uint_shr sint64 div_eq_0_iff)
  also have "\<dots> \<longleftrightarrow> accum_val a < 0"
    using u64_bounds [of "acc_low a"] unfolding accum_val_num by (intro iffI) linarith+
  finally show ?thesis .
qed

lemma accum_val_alt:
  "accum_val a = (if accum_uval a < 2 ^ 127 then accum_uval a else accum_uval a - 2 ^ 128)"
  by (cases a rule: accum_limbs) (auto simp: accum_val_def accum_uval_def sint64)

lemma accum_val_bounds: "- (2 ^ 127) \<le> accum_val a" "accum_val a < 2 ^ 127"
  using accum_uval_bounds [of a] by (auto simp: accum_val_alt)

lemma uint_not64: "uint (NOT x) = 18446744073709551615 - uint x" for x :: "64 word"
  proof -
  have "uint (NOT x) = (- uint x - 1) mod 18446744073709551616"
    by (simp add: unsigned_not_eq) (simp add: not_int_def take_bit_eq_mod)
  also have "- uint x - 1 = 18446744073709551615 - uint x + (-1) * 18446744073709551616"
    by simp
  also have "\<dots> mod 18446744073709551616 = (18446744073709551615 - uint x) mod 18446744073709551616"
    by (simp only: mod_mult_self1)
  also have "\<dots> = 18446744073709551615 - uint x"
    using u64_bounds [of x] by (intro mod_pos_pos_trivial) linarith+
  finally show ?thesis .
qed

lemma u64_add: "uint (x + y) = (if uint x + uint y < 18446744073709551616 then uint x + uint y else uint x + uint y - 18446744073709551616)" for x y :: "64 word"
  using uint_plus_if' [of x y] by simp

lemma accum_uval_negate: "accum_uval (ln_negate a) = (if accum_uval a = 0 then 0 else 2 ^ 128 - accum_uval a)"
  by (cases a rule: accum_limbs)
    (auto simp: accum_uval_def ln_negate_def Let_def u64_add uint_not64 word_uint_eq_iff)

lemma accum_uval_absolute: "accum_uval (ln_absolute a) = \<bar>accum_val a\<bar>"
  using accum_uval_bounds [of a]
  by (auto simp: ln_absolute_def ln_negative_iff accum_val_alt accum_uval_negate)

lemma uint_ln_magnitude: "uint (ln_magnitude v) = \<bar>sint v\<bar>"
proof -
  have "- (v + 1) + 1 = - v" by simp
  then show ?thesis
    using u64_bounds [of v] by (auto simp: ln_magnitude_def word_sless_alt sint64 uint_word_ariths zmod_zminus1_eq_if)
qed

lemma ln_negate_val: "accum_uval a \<le> 2 ^ 127 \<Longrightarrow> accum_val (ln_negate a) = - accum_uval a"
  using accum_uval_bounds [of a]
  by (auto simp: accum_val_alt accum_uval_negate)

lemma schoolbook:
  fixes a0 a1 b0 b1 :: int
  assumes "0 \<le> a0" "a0 \<le> 4294967295" "0 \<le> a1" "a1 \<le> 4294967295"
    "0 \<le> b0" "b0 \<le> 4294967295" "0 \<le> b1" "b1 \<le> 4294967295"
  defines "t \<equiv> a1 * b0 + a0 * b0 div 4294967296"
  defines "u \<equiv> t mod 4294967296 + a0 * b1"
  shows "0 \<le> a0 * b0" "a0 * b0 < 18446744073709551616"
    "0 \<le> t" "t < 18446744073709551616"
    "0 \<le> u" "u < 18446744073709551616"
    "0 \<le> a1 * b1 + t div 4294967296 + u div 4294967296"
    "a1 * b1 + t div 4294967296 + u div 4294967296 < 18446744073709551616"
    "(a1 * b1 + t div 4294967296 + u div 4294967296) * 18446744073709551616
      + (u * 4294967296 mod 18446744073709551616 + a0 * b0 mod 4294967296)
     = (a1 * 4294967296 + a0) * (b1 * 4294967296 + b0)"
proof -
  define p where "p = a0 * b0"
  define q where "q = a1 * b0"
  define r where "r = a0 * b1"
  define s where "s = a1 * b1"
  note b = mult_bound_int [OF assms(1,2,5,6)] mult_bound_int [OF assms(3,4,5,6)]
    mult_bound_int [OF assms(1,2,7,8)] mult_bound_int [OF assms(3,4,7,8)]
  have bb: "0 \<le> p" "p \<le> 18446744065119617025" "0 \<le> q" "q \<le> 18446744065119617025"
     "0 \<le> r" "r \<le> 18446744065119617025" "0 \<le> s" "s \<le> 18446744065119617025"
    using b by (simp_all add: p_def q_def r_def s_def)
  have t: "t = q + p div 4294967296" and u: "u = t mod 4294967296 + r"
    by (simp_all add: t_def u_def p_def q_def r_def)
  have rhs: "(a1 * 4294967296 + a0) * (b1 * 4294967296 + b0)
     = s * 18446744073709551616 + (q + r) * 4294967296 + p"
    by (simp add: algebra_simps p_def q_def r_def s_def)
  show "0 \<le> a0 * b0" "a0 * b0 < 18446744073709551616" using bb by (simp_all add: p_def)
  show t1: "0 \<le> t" "t < 18446744073709551616" using bb by (simp_all add: t)
  show u1: "0 \<le> u" "u < 18446744073709551616" 
    using bb pos_mod_bound [of 4294967296 t] pos_mod_sign [of 4294967296 t] unfolding u by linarith+
  have um: "u * 4294967296 mod 18446744073709551616 = (u mod 4294967296) * 4294967296"
    using mod_mult_mult2 [of u 4294967296 4294967296] by simp
  note split = div_mult_mod_eq [of p 4294967296] div_mult_mod_eq [of t 4294967296]
    div_mult_mod_eq [of u 4294967296]
  have lin: "(s + t1 + u1) * 18446744073709551616 + (u0 * 4294967296 + p0)
     = s * 18446744073709551616 + (q + r) * 4294967296 + p"
    if "p1 * 4294967296 + p0 = p" "t1 * 4294967296 + t0 = t'" "u1 * 4294967296 + u0 = u'"
      "t' = q + p1" "u' = t0 + r" for p1 p0 t1 t0 u1 u0 t' u'
  proof -
    have "q = t1 * 4294967296 + u1 * 4294967296 + u0 - r - p1"
      using that by (simp add: algebra_simps)
    then show ?thesis
      using that(1) by (simp add: algebra_simps)
  qed
  have "(s + t div 4294967296 + u div 4294967296) * 18446744073709551616
      + (u * 4294967296 mod 18446744073709551616 + p mod 4294967296)
     = s * 18446744073709551616 + (q + r) * 4294967296 + p"
    unfolding um by (rule lin [OF split t u])
  then show eq: "(a1 * b1 + t div 4294967296 + u div 4294967296) * 18446744073709551616
      + (u * 4294967296 mod 18446744073709551616 + a0 * b0 mod 4294967296)
     = (a1 * 4294967296 + a0) * (b1 * 4294967296 + b0)"
    by (simp add: rhs p_def s_def)
  show "0 \<le> a1 * b1 + t div 4294967296 + u div 4294967296"
    using bb t1 u1 by (simp add: s_def)
  have "0 \<le> u * 4294967296 mod 18446744073709551616" "0 \<le> p mod 4294967296" by simp_all
  then have "(s + t div 4294967296 + u div 4294967296) * 18446744073709551616
     \<le> s * 18446744073709551616 + (q + r) * 4294967296 + p"
    using eq by (simp only: rhs p_def [symmetric] s_def [symmetric])
  then have "s + t div 4294967296 + u div 4294967296 < 18446744073709551616"
    using bb by (simp add: algebra_simps)
  then show "a1 * b1 + t div 4294967296 + u div 4294967296 < 18446744073709551616"
    by (simp add: s_def)
qed

lemma uint_ucast32: "uint (ucast (ucast x :: 32 word) :: 64 word) = uint x mod 4294967296" for x :: "64 word"
  by (simp add: unsigned_ucast_eq take_bit_eq_mod uint_mod)

lemma u64_mult: "uint x * uint y < 18446744073709551616 \<Longrightarrow> uint (x * y) = uint x * uint y" for x y :: "64 word"
  by (simp add: uint_word_ariths)

lemma u64_add_fits: "uint x + uint y < 18446744073709551616 \<Longrightarrow> uint (x + y) = uint x + uint y" for x y :: "64 word"
  by (simp add: u64_add)

lemma or_le_32:
  assumes "x OR y \<le> (ucast UINT32_MAX :: 64 word)"
  shows "uint x \<le> 4294967295" "uint y \<le> 4294967295"
proof -
  have "x \<le> x OR y" "y \<le> x OR y" by (simp_all add: le_word_or1 le_word_or2)
  with assms have "x \<le> 4294967295" "y \<le> 4294967295" by (auto dest: order_trans)
  then show "uint x \<le> 4294967295" "uint y \<le> 4294967295" by (auto simp: word_le_def)
qed

lemma shl32_or_low: "uint (push_bit 32 x OR ucast (ucast y :: 32 word)) = uint x * 4294967296 mod 18446744073709551616 + uint y mod 4294967296"
  for x y :: "64 word"
proof -
  have "push_bit 32 x AND ucast (ucast y :: 32 word) = 0"
    by (rule bit_word_eqI) (auto simp: bit_simps)
  then show ?thesis
    by (simp only: uint_or_disjoint uint_shl uint_ucast32) simp
qed

lemma accum_uval_multiply: "accum_uval (ln_multiply_unsigned a b) = uint a * uint b"
proof (cases "a OR b \<le> ucast UINT32_MAX")
  case True
  note ub = or_le_32 [OF True]
  have "uint a * uint b \<le> 4294967295 * 4294967295"
    by (rule mult_bound_int) (use ub in auto)
  then show ?thesis
    using True ub u64_bounds(1)[of a] u64_bounds(1)[of b]
    by (simp add: ln_multiply_unsigned_def accum_uval_num u64_mult uint_ucast32)
next
  case False
  define a0 a1 b0 b1 where "a0 = uint a mod 4294967296" and "a1 = uint a div 4294967296"
    and "b0 = uint b mod 4294967296" and "b1 = uint b div 4294967296"
  have bnds: "0 \<le> a0" "a0 \<le> 4294967295" "0 \<le> a1" "a1 \<le> 4294967295"
    "0 \<le> b0" "b0 \<le> 4294967295" "0 \<le> b1" "b1 \<le> 4294967295"
    using u64_bounds [of a] u64_bounds [of b]
    by (auto simp: a0_def a1_def b0_def b1_def pos_imp_zdiv_nonneg_iff)
  note sb = schoolbook [OF bnds]
  define p where "p = (ucast (ucast a :: 32 word) * ucast (ucast b :: 32 word) :: 64 word)"
  define t where "t = drop_bit 32 a * ucast (ucast b :: 32 word) + drop_bit 32 p"
  define u where "u = ucast (ucast t :: 32 word) + ucast (ucast a :: 32 word) * drop_bit 32 b"
  have p: "uint p = a0 * b0"
    using sb(2) by (simp add: p_def u64_mult uint_ucast32 a0_def b0_def)
  have b1: "uint (drop_bit 32 a * ucast (ucast b :: 32 word)) = a1 * b0"
    using mult_bound_int(2) [OF bnds(3,4,5,6)] by (simp add: u64_mult uint_ucast32 uint_shr a1_def b0_def)
  have b2: "uint (ucast (ucast a :: 32 word) * drop_bit 32 b) = a0 * b1"
    using mult_bound_int(2) [OF bnds(1,2,7,8)] by (simp add: u64_mult uint_ucast32 uint_shr a0_def b1_def)
  have b3: "uint (drop_bit 32 a * drop_bit 32 b) = a1 * b1"
    using mult_bound_int(2) [OF bnds(3,4,7,8)] by (simp add: u64_mult uint_shr a1_def b1_def)
  have t: "uint t = a1 * b0 + a0 * b0 div 4294967296"
    using sb(4) unfolding t_def by (subst u64_add_fits) (simp_all add: b1 uint_shr p)
  have u: "uint u = uint t mod 4294967296 + a0 * b1"
    using sb(6) unfolding u_def by (subst u64_add_fits) (simp_all add: b2 uint_ucast32 t)
  have u0: "0 \<le> uint u div 4294967296" by (simp add: pos_imp_zdiv_nonneg_iff)
  have h1: "uint (drop_bit 32 a * drop_bit 32 b + drop_bit 32 t) = a1 * b1 + uint t div 4294967296"
    using sb(8) u0 by (subst u64_add_fits) (simp_all add: b3 uint_shr t u)
  have h: "uint (drop_bit 32 a * drop_bit 32 b + drop_bit 32 t + drop_bit 32 u)
     = a1 * b1 + uint t div 4294967296 + uint u div 4294967296"
    using sb(8) by (subst u64_add_fits) (simp_all add: h1 uint_shr t u)
  have "ln_multiply_unsigned a b =
     \<lparr>acc_low = push_bit 32 u OR ucast (ucast p :: 32 word),
      acc_high = drop_bit 32 a * drop_bit 32 b + drop_bit 32 t + drop_bit 32 u\<rparr>"
    using False by (simp add: ln_multiply_unsigned_def Let_def p_def t_def u_def)
  then have "accum_uval (ln_multiply_unsigned a b) =
     (a1 * b1 + uint t div 4294967296 + uint u div 4294967296) * 18446744073709551616
      + (uint u * 4294967296 mod 18446744073709551616 + uint p mod 4294967296)"
    by (simp add: accum_uval_num h shl32_or_low)
  also have "\<dots> = (a1 * 4294967296 + a0) * (b1 * 4294967296 + b0)"
    using sb(9) by (simp only: t u p)
  also have "\<dots> = uint a * uint b"
    by (simp only: a0_def a1_def b0_def b1_def div_mult_mod_eq)
  finally show ?thesis .
qed

section \<open>Signed products and sums\<close>

lemma abs_sint_bound: "\<bar>sint x\<bar> \<le> 9223372036854775808" for x :: "64 word"
  using i64_bounds [of x] by linarith

lemma accum_val_small: "accum_uval a < 2 ^ 127 \<Longrightarrow> accum_val a = accum_uval a"
  by (simp add: accum_val_alt)

lemma accum_val_product: "accum_val (ln_product a b) = sint a * sint b"
proof -
  let ?m = "ln_multiply_unsigned (ln_magnitude a) (ln_magnitude b)"
  have m: "accum_uval ?m = \<bar>sint a * sint b\<bar>"
    by (simp add: accum_uval_multiply uint_ln_magnitude abs_mult)
  have "\<bar>sint a\<bar> * \<bar>sint b\<bar> \<le> 9223372036854775808 * 9223372036854775808"
    by (rule mult_mono) (use abs_sint_bound in auto)
  then have bound: "accum_uval ?m < 2 ^ 127" by (simp add: m abs_mult)
  show ?thesis
  proof (cases "(a <s 0) \<noteq> (b <s 0)")
    case True
    then have "accum_val (ln_product a b) = - \<bar>sint a * sint b\<bar>"
      using bound by (simp add: ln_product_def Let_def ln_negate_val m)
    also have "\<dots> = sint a * sint b"
      using True by (auto simp: word_sless_alt abs_if mult_less_0_iff zero_less_mult_iff not_less)
    finally show ?thesis .
  next
    case False
    then have "accum_val (ln_product a b) = \<bar>sint a * sint b\<bar>"
      using bound by (simp add: ln_product_def Let_def accum_val_small m)
    also have "\<dots> = sint a * sint b"
      using False by (auto simp: word_sless_alt abs_if mult_less_0_iff not_less)
    finally show ?thesis .
  qed
qed

lemma u64_less_iff_add: "x + y < x \<longleftrightarrow> 18446744073709551616 \<le> uint x + uint y" for x y :: "64 word"
  using u64_bounds [of x] u64_bounds [of y] by (auto simp: word_less_def u64_add)

lemma limb_mod:
  fixes X y B :: int
  assumes "0 \<le> y" "y < B"
  shows "X mod B * B + y = (X * B + y) mod (B * B)"
proof -
  from assms have B: "0 < B" by simp
  have "X * B + y = (X mod B * B + y) + X div B * (B * B)"
    using div_mult_mod_eq [of X B, symmetric] by (metis add.commute add.left_commute distrib_right mult.assoc)
  then have "(X * B + y) mod (B * B) = (X mod B * B + y) mod (B * B)"
    by (simp only: mod_mult_self1)
  also have "\<dots> = X mod B * B + y"
  proof (rule mod_pos_pos_trivial)
    have "X mod B * B \<le> (B - 1) * B" using B by (intro mult_right_mono) (auto intro: order.strict_implies_order)
    then show "X mod B * B + y < B * B" using assms by (simp add: algebra_simps)
  qed (use assms B in simp)
  finally show ?thesis ..
qed

lemma u64_plus_mod: "uint (x + y) = (uint x + uint y) mod 18446744073709551616" for x y :: "64 word"
  by (simp add: uint_word_ariths)

lemma accum_uval_add_unchecked:
  "accum_uval (ln_add_unchecked a b) = (accum_uval a + accum_uval b) mod 2 ^ 128"
proof -
  let ?l = "uint (acc_low a) + uint (acc_low b)" and ?h = "uint (acc_high a) + uint (acc_high b)"
  have carry: "uint (of_bool (acc_low a + acc_low b < acc_low a) :: 64 word) = ?l div 18446744073709551616"
    using u64_bounds [of "acc_low a"] u64_bounds [of "acc_low b"]
    by (auto simp: u64_less_iff_add div_pos_pos_trivial not_le)
  have "accum_uval (ln_add_unchecked a b) =
     (?h + ?l div 18446744073709551616) mod 18446744073709551616 * 18446744073709551616
       + ?l mod 18446744073709551616"
    by (simp add: accum_uval_num ln_add_unchecked_def Let_def u64_plus_mod carry mod_add_left_eq)
  also have "\<dots> = ((?h + ?l div 18446744073709551616) * 18446744073709551616
       + ?l mod 18446744073709551616) mod (18446744073709551616 * 18446744073709551616)"
    by (rule limb_mod) simp_all
  also have "(?h + ?l div 18446744073709551616) * 18446744073709551616 + ?l mod 18446744073709551616
      = accum_uval a + accum_uval b"
    using div_mult_mod_eq [of ?l 18446744073709551616] by (simp add: accum_uval_num algebra_simps)
  finally show ?thesis by simp
qed

lemma accum_val_eqI:
  assumes "accum_uval a = k mod 2 ^ 128" "- (2 ^ 127) \<le> k" "k < 2 ^ 127"
  shows "accum_val a = k"
proof (cases "0 \<le> k")
  case True
  then have "accum_uval a = k" using assms by (simp add: mod_pos_pos_trivial)
  then show ?thesis using assms by (simp add: accum_val_alt)
next
  case False
  have "k mod 2 ^ 128 = (k + 2 ^ 128) mod 2 ^ 128" by simp
  also have "\<dots> = k + 2 ^ 128" using assms False by (intro mod_pos_pos_trivial) auto
  finally have "accum_uval a = k + 2 ^ 128" using assms by simp
  then show ?thesis using assms False by (simp add: accum_val_alt)
qed

lemma accum_uval_of_val: "accum_uval a mod 2 ^ 128 = accum_val a mod 2 ^ 128"
  by (simp add: accum_val_alt)

lemma add_unchecked_cong: "accum_uval (ln_add_unchecked a b) = (accum_val a + accum_val b) mod 2 ^ 128"
  unfolding accum_uval_add_unchecked
  by (metis accum_uval_of_val mod_add_eq)

lemma ln_add_unchecked_val:
  "- (2 ^ 127) \<le> accum_val a + accum_val b \<Longrightarrow> accum_val a + accum_val b < 2 ^ 127 \<Longrightarrow>
    accum_val (ln_add_unchecked a b) = accum_val a + accum_val b"
  by (rule accum_val_eqI [OF add_unchecked_cong])

lemma ln_add_checked_spec:
  "ln_add_checked a b out =
     (if - (2 ^ 127) \<le> accum_val a + accum_val b \<and> accum_val a + accum_val b < 2 ^ 127
      then (LINEARS_OK, ln_add_unchecked a b) else (LINEARS_ERROR_RANGE, out))"
  (is "_ = (if ?fits then _ else _)")
proof -
  let ?s = "accum_val a + accum_val b" and ?r = "ln_add_unchecked a b"
  note ab = accum_val_bounds [of a] accum_val_bounds [of b]
  have big: "accum_val ?r = ?s - 2 ^ 128" if "2 ^ 127 \<le> ?s"
    by (rule accum_val_eqI) (use that ab in \<open>auto simp: add_unchecked_cong\<close>)
  have small: "accum_val ?r = ?s + 2 ^ 128" if "?s < - (2 ^ 127)"
    by (rule accum_val_eqI) (use that ab in \<open>auto simp: add_unchecked_cong\<close>)
  have "(accum_val a < 0) = (accum_val b < 0) \<and> (accum_val ?r < 0) \<noteq> (accum_val a < 0) \<longleftrightarrow> \<not> ?fits"
  proof (cases "?fits")
    case True
    then show ?thesis using ln_add_unchecked_val [of a b] by auto
  next
    case False
    then consider "2 ^ 127 \<le> ?s" | "?s < - (2 ^ 127)" by linarith
    then show ?thesis
    proof cases
      case 1
      then show ?thesis using big [OF 1] ab by auto
    next
      case 2
      then show ?thesis using small [OF 2] ab by auto
    qed
  qed
  then show ?thesis by (simp add: ln_add_checked_def Let_def ln_negative_iff)
qed

lemma ln_add_product64_val:
  assumes "- (2 ^ 127) \<le> accum_val a + sint p" "accum_val a + sint p < 2 ^ 127"
  shows "accum_val (ln_add_product64 a p) = accum_val a + sint p"
proof -
  define b where "b = \<lparr>acc_low = p, acc_high = (if p <s 0 then UINT64_MAX else 0)\<rparr>"
  have b: "accum_val b = sint p"
    using u64_bounds [of p] by (auto simp: b_def accum_val_num word_sless_alt sint64)
  have "ln_add_product64 a p = ln_add_unchecked a b"
    by (simp add: ln_add_product64_def ln_add_unchecked_def b_def Let_def add.assoc)
  then show ?thesis using ln_add_unchecked_val [of a b] assms by (simp add: b)
qed

lemma accum_uval_shift_u64:
  assumes "0 < n" "n < 64"
  shows "accum_uval (ln_shift_u64 v n) = uint v * 2 ^ n"
proof -
  have split: "(2::int) ^ 64 = 2 ^ (64 - n) * 2 ^ n"
    using assms by (simp flip: power_add)
  have "uint v * 2 ^ n mod 2 ^ 64 = uint v mod 2 ^ (64 - n) * 2 ^ n"
    by (simp only: split mod_mult_mult2)
  then have "accum_uval (ln_shift_u64 v n) =
      uint v div 2 ^ (64 - n) * (2 ^ (64 - n) * 2 ^ n) + uint v mod 2 ^ (64 - n) * 2 ^ n"
    by (simp add: accum_uval_def ln_shift_u64_def uint_shl uint_shr flip: split)
  also have "\<dots> = (uint v div 2 ^ (64 - n) * 2 ^ (64 - n) + uint v mod 2 ^ (64 - n)) * 2 ^ n"
    by (simp only: distrib_right mult.assoc)
  finally show ?thesis by (simp only: div_mult_mod_eq)
qed

section \<open>Rounding shifts\<close>

lemma round_half_alt:
  assumes "0 < d"
  shows "round_half m d = m div d + of_bool (d \<le> 2 * (m mod d))"
proof -
  have b: "0 \<le> m mod d" "m mod d < d" using assms by simp_all
  have m: "2 * m = 2 * (d * (m div d)) + 2 * (m mod d)"
    by (simp only: distrib_left [symmetric] mult_div_mod_eq)
  define q where "q = m div d + of_bool (d \<le> 2 * (m mod d))"
  define r where "r = 2 * (m mod d) + d - 2 * d * of_bool (d \<le> 2 * (m mod d))"
  have "2 * m + d = 2 * d * q + r"
    unfolding q_def r_def m by (simp add: algebra_simps)
  moreover have "0 \<le> r" "r < 2 * d" using b by (auto simp: r_def)
  ultimately have "(2 * m + d) div (2 * d) = q"
    by (rule int_div_pos_eq)
  then show ?thesis by (simp add: round_half_def q_def)
qed

lemma round_half_mono: "0 < d \<Longrightarrow> k * d \<le> m \<Longrightarrow> k \<le> round_half m d"
  using zdiv_mono1 [of "k * (2 * d)" "2 * m + d" "2 * d"] by (simp add: round_half_def)

lemma round_half_nonneg: "0 \<le> m \<Longrightarrow> 0 < d \<Longrightarrow> 0 \<le> round_half m d"
  by (simp add: round_half_def pos_imp_zdiv_nonneg_iff)

lemma round_half_zero: "0 < d \<Longrightarrow> round_half 0 d = 0"
  by (simp add: round_half_def)

lemma round_away_if:
  assumes "d \<noteq> 0"
  shows "round_away n d = (if (n < 0) \<noteq> (d < 0) then - round_half \<bar>n\<bar> \<bar>d\<bar> else round_half \<bar>n\<bar> \<bar>d\<bar>)"
  using assms by (auto simp: round_away_def sgn_if round_half_zero)

lemma signed_result_fit:
  "signed_result m neg out = fit_i64 (if neg then - uint m else uint m) out"
proof -
  have big: "m = 9223372036854775808 \<longleftrightarrow> uint m = 9223372036854775808"
    by (simp add: word_uint_eq_iff)
  have min: "uint m = 9223372036854775808 \<Longrightarrow> - m = INT64_MIN"
    using big by auto
  show ?thesis
    using min u64_bounds [of m]
    by (auto simp: signed_result_def fit_i64_def Let_def word_less_def big simp del: unsigned_greater_eq uint_ge_0)
qed

lemma round_shift_fit:
  assumes s: "0 < s" "s < 64"
  shows "round_shift m s neg out =
    fit_i64 (if neg then - round_half (accum_uval m) (2 ^ s) else round_half (accum_uval m) (2 ^ s)) out"
proof (cases "uint (acc_high m) div 2 ^ s = 0")
  case False
  let ?r = "round_half (accum_uval m) (2 ^ s)"
  have "1 \<le> uint (acc_high m) div 2 ^ s"
    using False pos_imp_zdiv_nonneg_iff [of "2 ^ s" "uint (acc_high m)"] by simp
  then have "2 ^ s \<le> uint (acc_high m)" 
    by (metis False div_pos_pos_trivial linorder_not_le uint_ge_0)
  then have "2 ^ s * 2 ^ 64 \<le> uint (acc_high m) * 2 ^ 64"
    by (intro mult_right_mono) auto
  also have "\<dots> \<le> accum_uval m" by (simp add: accum_uval_def)
  finally have "2 ^ 64 * 2 ^ s \<le> accum_uval m" by (simp only: mult.commute)
  then have "2 ^ 64 \<le> ?r"
    by (intro round_half_mono) auto
  moreover have "round_shift m s neg out = (LINEARS_ERROR_RANGE, out)"
    using False by (simp add: round_shift_def uint_shr flip: uint_0_iff)
  ultimately show ?thesis by (auto simp: fit_i64_def)
next
  case True
  define h l where "h = uint (acc_high m)" and "l = uint (acc_low m)"
  have h: "h < 2 ^ s"
    using True by (simp add: h_def div_eq_0_int)
  have h0: "0 \<le> h" "0 \<le> l" "l < 2 ^ 64" using uint_lt2p [of "acc_low m"] by (simp_all add: h_def l_def)
  have split: "(2::int) ^ 64 = 2 ^ (64 - s) * 2 ^ s"
    using s by (simp flip: power_add)
  let ?q = "drop_bit s (acc_low m) OR push_bit (64 - s) (acc_high m)"
  have hl: "h * 2 ^ (64 - s) mod 2 ^ 64 = h * 2 ^ (64 - s)"
  proof (rule mod_pos_pos_trivial)
    show "h * 2 ^ (64 - s) < 2 ^ 64" using h by (simp only: split mult.commute [of _ "2 ^ s"]) simp
  qed (use h0 in simp)
  have "drop_bit s (acc_low m) AND push_bit (64 - s) (acc_high m) = 0"
    using s by (intro bit_word_eqI) (auto simp: bit_simps dest: bit_imp_le_length)
  then have q: "uint ?q = h * 2 ^ (64 - s) + l div 2 ^ s"
    using hl by (simp only: uint_or_disjoint uint_shl uint_shr) (simp add: h_def l_def)
  have "accum_uval m = (h * 2 ^ (64 - s)) * 2 ^ s + l"
    by (simp only: accum_uval_def h_def l_def split mult.assoc)
  then have dv: "accum_uval m div 2 ^ s = uint ?q" and md: "accum_uval m mod 2 ^ s = l mod 2 ^ s"
    by (simp_all add: q)
  have half: "2 ^ s \<le> 2 * (l mod 2 ^ s) \<longleftrightarrow> 2 ^ (s - 1) \<le> l mod 2 ^ s"
    using s by (cases s) auto
  have rem: "push_bit (s - 1) 1 \<le> acc_low m AND (push_bit s 1 - 1) \<longleftrightarrow> 2 ^ (s - 1) \<le> l mod 2 ^ s"
  proof -
    have "(2::int) ^ (s - 1) < 2 ^ 64" using s by (intro power_strict_increasing) auto
    then have "(2::int) ^ (s - 1) mod 2 ^ 64 = 2 ^ (s - 1)" by (intro mod_pos_pos_trivial) auto
    then show ?thesis
      by (simp only: word_le_def uint_and_low uint_shl) (simp add: l_def)
  qed
  have r: "round_half (accum_uval m) (2 ^ s) = uint ?q + of_bool (2 ^ (s - 1) \<le> l mod 2 ^ s)"
    by (simp add: round_half_alt dv md half)
  have inc: "uint (?q + 1) = uint ?q + 1" if "?q \<noteq> UINT64_MAX"
    using that u64_bounds [of ?q] by (simp only: u64_add word_uint_eq_iff) simp
  have top: "fit_i64 (if neg then - (UINT + 1) else UINT + 1) out = (LINEARS_ERROR_RANGE, out)"
    if "UINT = 18446744073709551615" for UINT :: int
    using that by (simp add: fit_i64_def)
  show ?thesis
    using h inc top [of "uint ?q"]
    unfolding round_shift_def Let_def rem r shr_eq_0_iff h_def [symmetric]
    by (auto simp: signed_result_fit)
qed

section \<open>Restoring division\<close>

lemma uint_and1: "uint (x AND 1) = uint x mod 2" for x :: "64 word"
  by (simp add: unsigned_and_eq and_one_eq uint_mod)

lemma shl1_or_bit: "uint (push_bit 1 r OR (x AND 1)) = (2 * uint r) mod 18446744073709551616 + uint x mod 2"
  for r x :: "64 word"
proof -
  have "push_bit 1 r AND (x AND 1) = 0"
    by (rule bit_word_eqI) (auto simp: bit_simps simp del: push_bit_Suc push_bit_eq_mult dest: bit_imp_possible_bit)
  then show ?thesis by (simp only: uint_or_disjoint uint_and1 uint_shl) (simp add: mult.commute)
qed

lemma carry_iff: "drop_bit 63 r \<noteq> 0 \<longleftrightarrow> 9223372036854775808 \<le> uint r" for r :: "64 word"
  by (simp add: shr_eq_0_iff not_less)

lemma divide_step:
  fixes r d x :: "64 word"
  assumes "uint r < uint d"
  defines "n \<equiv> 2 * uint r + uint x mod 2"
  defines "r' \<equiv> push_bit 1 r OR (x AND 1)"
  shows "(drop_bit 63 r \<noteq> 0 \<or> d \<le> r') \<longleftrightarrow> uint d \<le> n"
    and "uint d \<le> n \<Longrightarrow> uint (r' - d) = n - uint d"
    and "\<not> uint d \<le> n \<Longrightarrow> uint r' = n"
proof -
  define b where "b = uint x mod 2"
  have b: "0 \<le> b" "b \<le> 1" by (auto simp: b_def)
  have n: "n = 2 * uint r + b" by (simp add: n_def b_def)
  note bd = u64_bounds [of r] u64_bounds [of d]
  have r': "uint r' = (if 9223372036854775808 \<le> uint r then n - 18446744073709551616 else n)"
  proof -
    have "uint r' = (2 * uint r) mod 18446744073709551616 + b"
      by (simp only: r'_def shl1_or_bit b_def)
    moreover have "(2 * uint r) mod 18446744073709551616 = 2 * uint r - 18446744073709551616" if "9223372036854775808 \<le> uint r"
      using that bd by (intro int_mod_pos_eq [of _ _ 1]) auto
    moreover have "(2 * uint r) mod 18446744073709551616 = 2 * uint r" if "\<not> 9223372036854775808 \<le> uint r"
      using that bd by (intro mod_pos_pos_trivial) auto
    ultimately show ?thesis by (auto simp: n)
  qed
  show "(drop_bit 63 r \<noteq> 0 \<or> d \<le> r') \<longleftrightarrow> uint d \<le> n"
    unfolding carry_iff word_le_def r' using n b bd by (auto simp del: unsigned_greater_eq)
  show "\<not> uint d \<le> n \<Longrightarrow> uint r' = n"
    unfolding r' using n b bd by auto
  have "uint (r' - d) = (n - uint d) mod 18446744073709551616"
  proof -
    have "uint (r' - d) = (uint r' - uint d) mod 18446744073709551616"
      by (simp add: uint_word_ariths)
    moreover have "uint r' - uint d = n - uint d \<or> uint r' - uint d = n - uint d + (-1) * 18446744073709551616"
      by (simp add: r')
    ultimately show ?thesis by (metis mod_mult_self1)
  qed
  then show "uint d \<le> n \<Longrightarrow> uint (r' - d) = n - uint d"
    using n b bd assms(1) by (simp add: mod_pos_pos_trivial)
qed

lemma shl1_or_1: "uint q < 9223372036854775808 \<Longrightarrow> uint (push_bit 1 q OR 1) = 2 * uint q + 1" for q :: "64 word"
  using shl1_or_bit [of q 1] by simp

lemma shl1: "uint q < 9223372036854775808 \<Longrightarrow> uint (push_bit 1 q) = 2 * uint q" for q :: "64 word"
  by (simp only: uint_shl) (simp add: mult.commute)

lemma low_bits_Suc: "uint lo mod 2 ^ Suc i = (uint (drop_bit i lo) mod 2) * 2 ^ i + uint lo mod 2 ^ i" for lo :: "64 word"
  using zmod_zmult2_eq [of 2 "uint lo" "2 ^ i"] by (simp add: uint_shr mult.commute)

lemma divide_restore_spec:
  assumes "uint r < uint d" "(uint q + 1) * 2 ^ i \<le> 2 ^ 64"
    and "divide_restore i lo d q r = (q', r')"
  shows "uint q' * uint d + uint r' = (uint q * uint d + uint r) * 2 ^ i + uint lo mod 2 ^ i
    \<and> uint r' < uint d"
  using assms
proof (induction i arbitrary: q r)
  case 0
  then show ?case by simp
next
  case (Suc i)
  define x where "x = drop_bit i lo"
  define n where "n = 2 * uint r + uint x mod 2"
  note step = divide_step [OF Suc.prems(1), of x, folded n_def]
  have "(uint q + 1) * 2 ^ 1 \<le> (uint q + 1) * 2 ^ Suc i"
    by (intro mult_left_mono power_increasing) auto
  then have q: "uint q < 9223372036854775808" using Suc.prems(2) by simp
  note q2 = shl1 [OF q] shl1_or_1 [OF q]
  have prem: "(2 * uint q + 1 + 1) * 2 ^ i \<le> 2 ^ 64" 
    using Suc.prems(2) by (simp add: algebra_simps)
  have prem0: "(2 * uint q + 1) * 2 ^ i \<le> 2 ^ 64" 
    using prem by (rule order_trans [rotated]) (intro mult_right_mono; simp)
  note low = low_bits_Suc [of lo i, folded x_def]
  show ?case
  proof (cases "uint d \<le> n")
    case True
    then have eq: "divide_restore i lo d (push_bit 1 q OR 1) ((push_bit 1 r OR (x AND 1)) - d) = (q', r')"
      using Suc.prems(3) step(1) by (auto simp: Let_def x_def simp del: push_bit_Suc One_nat_def split: if_splits)
    have "n - uint d < uint d" using Suc.prems(1) unfolding n_def by presburger
    then have "uint q' * uint d + uint r' = ((2 * uint q + 1) * uint d + (n - uint d)) * 2 ^ i + uint lo mod 2 ^ i \<and> uint r' < uint d"
      using Suc.IH [OF _ _ eq] prem by (simp only: step(2) [OF True] q2)
    then show ?thesis unfolding low n_def by (simp add: algebra_simps)
  next
    case False
    then have eq: "divide_restore i lo d (push_bit 1 q) (push_bit 1 r OR (x AND 1)) = (q', r')"
      using Suc.prems(3) step(1) by (auto simp: Let_def x_def simp del: push_bit_Suc One_nat_def split: if_splits)
    have "uint q' * uint d + uint r' = ((2 * uint q) * uint d + n) * 2 ^ i + uint lo mod 2 ^ i \<and> uint r' < uint d"
      using Suc.IH [OF _ _ eq] prem0 False by (simp only: step(3) [OF False] q2 not_le)
    then show ?thesis unfolding low n_def by (simp add: algebra_simps)
  qed
qed

lemma divide_magnitude_spec:
  assumes "uint hi < uint d"
  shows "uint (fst (divide_magnitude hi lo d)) = (uint hi * 2 ^ 64 + uint lo) div uint d"
    and "uint (snd (divide_magnitude hi lo d)) = (uint hi * 2 ^ 64 + uint lo) mod uint d"
proof -
  obtain q r where qr: "divide_magnitude hi lo d = (q, r)" by (cases "divide_magnitude hi lo d")
  have "uint q * uint d + uint r = uint hi * 2 ^ 64 + uint lo \<and> uint r < uint d"
  proof (cases "hi = 0")
    case True
    with qr assms show ?thesis by (auto simp: divide_magnitude_def uint_div uint_mod)
  next
    case False
    with qr have "divide_restore 64 lo d 0 hi = (q, r)" by (simp add: divide_magnitude_def)
    from divide_restore_spec [OF assms _ this] show ?thesis
      using uint_lt2p [of lo] by (simp add: mod_pos_pos_trivial)
  qed
  then have e: "uint hi * 2 ^ 64 + uint lo = uint d * uint q + uint r" and lt: "uint r < uint d"
    by (simp_all add: mult.commute)
  show "uint (fst (divide_magnitude hi lo d)) = (uint hi * 2 ^ 64 + uint lo) div uint d"
    using int_div_pos_eq [OF e uint_ge_0 lt] by (simp add: qr)
  show "uint (snd (divide_magnitude hi lo d)) = (uint hi * 2 ^ 64 + uint lo) mod uint d"
    using int_mod_pos_eq [OF e uint_ge_0 lt] by (simp add: qr)
qed

lemma rounded_division_fit:
  assumes "d \<noteq> 0"
  shows "rounded_division n d neg out =
    fit_i64 (if neg then - round_half (accum_uval n) (uint d) else round_half (accum_uval n) (uint d)) out"
    (is "_ = fit_i64 (if neg then - ?r else ?r) out")
proof -
  have d: "0 < uint d" using assms by (simp add: order_less_le uint_0_iff)
  show ?thesis
  proof (cases "acc_high n < d")
    case False
    then have "uint d * 2 ^ 64 \<le> uint (acc_high n) * 2 ^ 64"
      by (intro mult_right_mono) (auto simp: word_less_def)
    also have "\<dots> \<le> accum_uval n" by (simp add: accum_uval_def)
    finally have "2 ^ 64 \<le> ?r" by (intro round_half_mono [OF d]) (simp only: mult.commute)
    then show ?thesis using False by (auto simp: rounded_division_def fit_i64_def not_less)
  next
    case True
    then have lt: "uint (acc_high n) < uint d" by (simp add: word_less_def)
    obtain q r where qr: "divide_magnitude (acc_high n) (acc_low n) d = (q, r)"
      by (cases "divide_magnitude (acc_high n) (acc_low n) d")
    have q: "uint q = accum_uval n div uint d" and r: "uint r = accum_uval n mod uint d"
      using divide_magnitude_spec [OF lt, of "acc_low n"] by (simp_all add: qr accum_uval_def)
    have rd: "uint r < uint d" using d by (simp add: r)
    then have "uint (d - r) = uint d - uint r"
      by (intro uint_minus_fits) (simp add: word_le_def)
    then have cond: "d - r \<le> r \<longleftrightarrow> uint d \<le> 2 * uint r" by (auto simp: word_le_def)
    have rr: "?r = uint q + of_bool (uint d \<le> 2 * uint r)"
      using round_half_alt [OF d] by (simp add: q r)
    have inc: "uint (q + 1) = uint q + 1" if "q \<noteq> UINT64_MAX"
      using that u64_bounds [of q] by (simp only: u64_add word_uint_eq_iff) simp
    have top: "fit_i64 (if neg then - (k + 1) else k + 1) out = (LINEARS_ERROR_RANGE, out)"
      if "k = 18446744073709551615" for k :: int
      using that by (simp add: fit_i64_def)
    show ?thesis
      using True inc top [of "uint q"]
      by (auto simp: rounded_division_def qr cond rr signed_result_fit not_le)
  qed
qed

section \<open>The 64-bit restoring square root\<close>

lemma sqrt_step:
  assumes b: "uint b = 4 ^ m" and inv: "sqrt_inv n (Suc m) P rt v"
  shows "rt + b \<le> v \<Longrightarrow> sqrt_inv n m (P + 2 ^ m) (drop_bit 1 rt + b) (v - (rt + b))"
    and "\<not> rt + b \<le> v \<Longrightarrow> sqrt_inv n m P (drop_bit 1 rt) v"
proof -
  define x :: int where "x = 2 ^ m"
  have x1: "1 \<le> x" by (simp add: x_def)
  have bx: "uint b = x * x" using b by (simp add: x_def flip: power_mult_distrib)
  from inv have P: "0 \<le> P" "P + 2 * x \<le> 4294967296" and rt: "uint rt = P * (2 * x)"
    and n: "P * P + uint v = n" "n < (P + 2 * x) * (P + 2 * x)"
    by (simp_all add: sqrt_inv_def x_def)
  have "(P + x) * (P + x) \<le> 4294967295 * 4294967295"
    using P x1 by (intro mult_mono) auto
  then have bound: "P * (2 * x) + x * x \<le> 18446744065119617025"
    using P(1) by (simp add: algebra_simps) (use mult_nonneg_nonneg [OF P(1) P(1)] in linarith)
  have T: "uint (rt + b) = P * (2 * x) + x * x"
    using bound by (subst u64_add_fits) (simp_all add: rt bx)
  have half: "uint (drop_bit 1 rt) = P * x" by (simp add: uint_shr rt)
  have "P * x + x * x \<le> P * (2 * x) + x * x" using P x1 by simp
  then have half_b: "uint (drop_bit 1 rt + b) = (P + x) * x"
    using bound by (subst u64_add_fits) (simp_all add: half bx distrib_right del: One_nat_def)
  show "sqrt_inv n m (P + 2 ^ m) (drop_bit 1 rt + b) (v - (rt + b))" if le: "rt + b \<le> v"
  proof -
    have "uint (v - (rt + b)) = uint v - (P * (2 * x) + x * x)"
      using uint_minus_fits [OF le] by (simp add: T)
    then show ?thesis
      unfolding sqrt_inv_def half_b x_def [symmetric]
      using P n x1 by (simp add: algebra_simps)
  qed
  show "sqrt_inv n m P (drop_bit 1 rt) v" if "\<not> rt + b \<le> v"
    using that P n x1 unfolding sqrt_inv_def half word_le_def T x_def [symmetric]
    by (simp add: algebra_simps)
qed

lemma sqrt_restore_spec:
  assumes "uint b = 4 ^ m" "sqrt_inv n (Suc m) P rt v"
    and "sqrt_restore b rt v = (root', v')"
  shows "\<exists>P'. sqrt_inv n 0 P' root' v'"
  using assms
proof (induction m arbitrary: b rt v P)
  case 0
  then have "b = 1" by (simp add: word_uint_eq_iff)
  note step = sqrt_step [OF 0(1,2)]
  have z: "drop_bit 2 b = 0" using \<open>b = 1\<close> by (simp add: shr_eq_0_iff)
  show ?case
    using step 0(3) \<open>b = 1\<close> z by (auto simp: sqrt_restore.simps [of b] sqrt_restore.simps [of 0] split: if_splits)
next
  case (Suc m)
  note step = sqrt_step [OF Suc.prems(1,2)]
  have nz: "b \<noteq> 0" using Suc.prems(1) by (auto simp flip: uint_0_iff)
  have b4: "uint (drop_bit 2 b) = 4 ^ m" using Suc.prems(1) by (simp add: uint_shr)
  show ?case
  proof (cases "rt + b \<le> v")
    case True
    show ?thesis
      by (rule Suc.IH [OF b4 step(1) [OF True]])
        (use Suc.prems(3) nz True in \<open>simp add: sqrt_restore.simps [of b]\<close>)
  next
    case False
    show ?thesis
      by (rule Suc.IH [OF b4 step(2) [OF False]])
        (use Suc.prems(3) nz False in \<open>simp add: sqrt_restore.simps [of b]\<close>)
  qed
qed

lemma sqrt_first_bit_spec:
  assumes "uint b = 4 ^ m" "uint v < 4 ^ Suc m" "m \<le> 31"
  shows "(v = 0 \<and> sqrt_first_bit b v = 0) \<or>
    (\<exists>k \<le> 31. uint (sqrt_first_bit b v) = 4 ^ k \<and> uint v < 4 ^ Suc k)"
  using assms
proof (induction m arbitrary: b)
  case 0
  then have "b = 1" by (simp add: word_uint_eq_iff)
  have z: "drop_bit 2 b = 0" using \<open>b = 1\<close> by (simp add: shr_eq_0_iff)
  show ?case
  proof (cases "v = 0")
    case True
    then show ?thesis using z \<open>b = 1\<close>
      by (simp add: sqrt_first_bit.simps [of b] sqrt_first_bit.simps [of 0])
  next
    case False
    then have "\<not> v < b" using \<open>b = 1\<close> by (simp add: word_less_1)
    then show ?thesis using 0 by (auto simp: sqrt_first_bit.simps [of b])
  qed
next
  case (Suc m)
  show ?case
  proof (cases "v < b")
    case True
    then have "uint v < 4 ^ Suc m" using Suc.prems(1) by (simp add: word_less_def)
    moreover have "uint (drop_bit 2 b) = 4 ^ m" using Suc.prems(1) by (simp add: uint_shr)
    ultimately show ?thesis using Suc.IH [of "drop_bit 2 b"] Suc.prems(3) True
      by (simp add: sqrt_first_bit.simps [of b])
  next
    case False
    then have "sqrt_first_bit b v = b" by (simp add: sqrt_first_bit.simps [of b])
    then show ?thesis using Suc.prems by (intro disjI2 exI [of _ "Suc m"]) simp
  qed
qed

lemma ln_sqrt_floor64_spec:
  assumes "ln_sqrt_floor64 v = (rt, rm)"
  shows "uint rt * uint rt + uint rm = uint v" "uint rm \<le> 2 * uint rt" "uint rt < 2 ^ 32"
proof -
  let ?b = "sqrt_first_bit (push_bit 62 1) v"
  have "uint v < 4 ^ Suc 31" using uint_lt2p [of v] by simp
  from sqrt_first_bit_spec [of "push_bit 62 1" 31 v, OF _ this]
  consider "v = 0" "?b = 0" | k where "k \<le> 31" "uint ?b = 4 ^ k" "uint v < 4 ^ Suc k" by auto
  then have "\<exists>P. sqrt_inv (uint v) 0 P rt rm"
  proof cases
    case 1
    then have "rt = 0" "rm = 0"
      using assms by (simp_all add: ln_sqrt_floor64_def sqrt_restore.simps [of 0])
    then show ?thesis using 1 by (intro exI [of _ 0]) (simp add: sqrt_inv_def)
  next
    case (2 k)
    have "(2::int) ^ Suc k \<le> 2 ^ 32" using 2(1) by (intro power_increasing) auto
    moreover have "(4::int) ^ Suc k = 2 ^ Suc k * 2 ^ Suc k"
      by (simp flip: power_mult_distrib)
    ultimately have "sqrt_inv (uint v) (Suc k) 0 0 v" using 2(3) by (simp add: sqrt_inv_def)
    then show ?thesis
      using sqrt_restore_spec [OF 2(2)] assms by (simp add: ln_sqrt_floor64_def)
  qed
  then obtain P where P: "sqrt_inv (uint v) 0 P rt rm" ..
  then show "uint rt * uint rt + uint rm = uint v" "uint rt < 2 ^ 32" by (auto simp: sqrt_inv_def)
  from P have "P * P + uint rm < (P + 1) * (P + 1)" "uint rt = P" by (auto simp: sqrt_inv_def)
  then show "uint rm \<le> 2 * uint rt" by (simp add: algebra_simps)
qed

end
