(* ===== verification/Numeric_Spec.thy ===== *)
theory Numeric_Spec
  imports Numeric_Limbs
begin

text \<open>
  Complete functional descriptions of the public operations on working values, signals and
  accumulators, on every branch.
\<close>

section \<open>Arithmetic on working values\<close>

lemma round_away_mult:
  assumes "d \<noteq> 0"
  shows "round_away (x * y) d =
    (if ((x < 0) \<noteq> (y < 0)) \<noteq> (d < 0) then - round_half \<bar>x * y\<bar> \<bar>d\<bar> else round_half \<bar>x * y\<bar> \<bar>d\<bar>)"
proof (cases "x * y = 0")
  case True
  show ?thesis using assms unfolding True round_away_def by (simp add: round_half_zero)
next
  case False
  then have "x * y < 0 \<longleftrightarrow> (x < 0) \<noteq> (y < 0)" by (auto simp: mult_less_0_iff)
  then show ?thesis using assms by (simp add: round_away_if)
qed

lemma linears_fixed_mul_spec:
  "linears_fixed_mul a b (Some old) = map_prod id Some (fit_i64 (round_away (sint a * sint b) (2 ^ 31)) old)"
  by (simp add: linears_fixed_mul_def round_shift_fit accum_uval_multiply uint_ln_magnitude
      round_away_mult word_sless_alt flip: abs_mult)

lemma ln_magnitude_eq_0: "ln_magnitude b = 0 \<longleftrightarrow> b = 0"
  using uint_ln_magnitude [of b] uint_0_iff [of "ln_magnitude b"] by (simp add: sint_0_iff)

lemma linears_fixed_div_spec:
  assumes "b \<noteq> 0"
  shows "linears_fixed_div a b (Some old) = map_prod id Some (fit_i64 (round_away (sint a * 2 ^ 31) (sint b)) old)"
proof -
  have sb: "sint b \<noteq> 0" using assms by (simp add: sint_0_iff)
  have "(if (a <s 0) \<noteq> (b <s 0) then - round_half (\<bar>sint a\<bar> * 2 ^ 31) \<bar>sint b\<bar>
      else round_half (\<bar>sint a\<bar> * 2 ^ 31) \<bar>sint b\<bar>) = round_away (sint a * 2 ^ 31) (sint b)"
    by (auto simp: round_away_if [OF sb] word_sless_alt mult_less_0_iff abs_mult)
  note eq = this [symmetric]
  show ?thesis unfolding eq
    using assms by (simp add: linears_fixed_div_def rounded_division_fit ln_magnitude_eq_0
        accum_uval_shift_u64 uint_ln_magnitude)
qed

lemma linears_fixed_muldiv_spec:
  assumes "d \<noteq> 0"
  shows "linears_fixed_muldiv a b d (Some old) = map_prod id Some (fit_i64 (round_away (sint a * sint b) (sint d)) old)"
  using assms
  by (simp add: linears_fixed_muldiv_def rounded_division_fit ln_magnitude_eq_0 sint_0_iff
      accum_uval_multiply uint_ln_magnitude round_away_mult word_sless_alt flip: abs_mult)

lemma sint_plus64: "- 9223372036854775808 \<le> sint a + sint b \<Longrightarrow> sint a + sint b < 9223372036854775808 \<Longrightarrow> sint (a + b) = sint a + sint b"
  for a b :: "64 word"
  by (simp add: signed_take_bit_int_eq_self sint_word_ariths)

lemma sint_minus64: "- 9223372036854775808 \<le> sint a - sint b \<Longrightarrow> sint a - sint b < 9223372036854775808 \<Longrightarrow> sint (a - b) = sint a - sint b"
  for a b :: "64 word"
  by (simp add: signed_take_bit_int_eq_self sint_word_ariths)

lemma linears_fixed_add_spec:
  "linears_fixed_add a b (Some old) = map_prod id Some (fit_i64 (sint a + sint b) old)"
proof -
  have up: "sint (INT64_MAX - b) = 9223372036854775807 - sint b" if "0 <s b"
    using that i64_bounds [of b] by (subst sint_minus64) (auto simp: word_sless_alt)
  have lo: "sint (INT64_MIN - b) = - 9223372036854775808 - sint b" if "b <s 0"
    using that i64_bounds [of b] by (subst sint_minus64) (auto simp: word_sless_alt)
  have "(0 <s b \<and> INT64_MAX - b <s a) \<or> (b <s 0 \<and> a <s INT64_MIN - b) \<longleftrightarrow>
      \<not> (- (2 ^ 63) \<le> sint a + sint b \<and> sint a + sint b < 2 ^ 63)"
    using up lo i64_bounds [of a] i64_bounds [of b] by (auto simp: word_sless_alt)
  then show ?thesis by (simp add: linears_fixed_add_def fit_i64_def)
qed

lemma linears_fixed_sub_spec:
  "linears_fixed_sub a b (Some old) = map_prod id Some (fit_i64 (sint a - sint b) old)"
proof -
  have up: "sint (INT64_MIN + b) = - 9223372036854775808 + sint b" if "0 <s b"
    using that i64_bounds [of b] by (subst sint_plus64) (auto simp: word_sless_alt)
  have lo: "sint (INT64_MAX + b) = 9223372036854775807 + sint b" if "b <s 0"
    using that i64_bounds [of b] by (subst sint_plus64) (auto simp: word_sless_alt)
  have "(0 <s b \<and> a <s INT64_MIN + b) \<or> (b <s 0 \<and> INT64_MAX + b <s a) \<longleftrightarrow>
      \<not> (- (2 ^ 63) \<le> sint a - sint b \<and> sint a - sint b < 2 ^ 63)"
    using up lo i64_bounds [of a] i64_bounds [of b] by (auto simp: word_sless_alt)
  then show ?thesis by (simp add: linears_fixed_sub_def fit_i64_def)
qed

lemma INT64_MIN_iff: "v = INT64_MIN \<longleftrightarrow> sint v = - 9223372036854775808"
proof 
  assume "sint v = - 9223372036854775808"
  then show "v = INT64_MIN" using word_sint_eqI [of v] by auto
qed simp

lemma linears_fixed_neg_spec:
  "linears_fixed_neg v (Some old) = map_prod id Some (fit_i64 (- sint v) old)"
  using i64_bounds [of v] by (auto simp: linears_fixed_neg_def fit_i64_def INT64_MIN_iff)

lemma linears_fixed_abs_spec:
  "linears_fixed_abs v (Some old) = map_prod id Some (fit_i64 \<bar>sint v\<bar> old)"
  using i64_bounds [of v] by (auto simp: linears_fixed_abs_def fit_i64_def INT64_MIN_iff word_sless_alt)

lemma linears_fixed_from_int_spec:
  "linears_fixed_from_int k (Some old) = map_prod id Some (fit_i64 (sint k * 2 ^ 31) old)"
proof -
  have "word_of_int (sint k * 2 ^ 31) = k * LINEARS_FIXED_ONE"
    by (simp add: LINEARS_FIXED_ONE_def wi_hom_mult [symmetric])
  then show ?thesis
    by (auto simp: linears_fixed_from_int_def fit_i64_def word_sless_alt)
qed

lemma linears_fixed_mac_spec:
  "linears_fixed_mac (Some acc) a b =
    (if - (2 ^ 127) \<le> accum_val acc + sint a * sint b \<and> accum_val acc + sint a * sint b < 2 ^ 127
     then (LINEARS_OK, Some (ln_add_unchecked acc (ln_product a b)))
     else (LINEARS_ERROR_RANGE, Some acc))"
  by (simp add: linears_fixed_mac_def ln_add_checked_spec accum_val_product)

lemma accum_val_neg_product: "accum_val (ln_negate (ln_product a b)) = - (sint a * sint b)"
proof -
  let ?p = "ln_product a b"
  have "\<bar>sint a\<bar> * \<bar>sint b\<bar> \<le> 9223372036854775808 * 9223372036854775808"
    by (rule mult_mono) (use abs_sint_bound in auto)
  then have "\<bar>accum_val ?p\<bar> \<le> 2 ^ 126" by (simp add: accum_val_product abs_mult)
  moreover have "accum_val (ln_negate ?p) = - accum_val ?p" if "accum_val ?p \<noteq> - (2 ^ 127)"
    using that accum_uval_bounds [of ?p]
    by (auto simp: accum_val_alt accum_uval_negate split: if_splits)
  ultimately show ?thesis by (simp add: accum_val_product)
qed

lemma linears_fixed_msu_spec:
  "linears_fixed_msu (Some acc) a b =
    (if - (2 ^ 127) \<le> accum_val acc - sint a * sint b \<and> accum_val acc - sint a * sint b < 2 ^ 127
     then (LINEARS_OK, Some (ln_add_unchecked acc (ln_negate (ln_product a b))))
     else (LINEARS_ERROR_RANGE, Some acc))"
  by (simp add: linears_fixed_msu_def ln_add_checked_spec accum_val_neg_product)

lemma linears_accum_to_fixed_spec:
  "linears_accum_to_fixed v (Some old) = map_prod id Some (fit_i64 (round_away (accum_val v) (2 ^ 31)) old)"
  by (simp add: linears_accum_to_fixed_def round_shift_fit accum_uval_absolute ln_negative_iff round_away_if)

section \<open>Quantisation\<close>

lemma round_half_even: "0 < e \<Longrightarrow> round_half m (2 * e) = (m + e) div (2 * e)"
  using div_mult_mult1 [of 2 "m + e" "2 * e"] by (simp add: round_half_def)

lemma round_half_div:
  assumes "0 < n" "0 < e"
  shows "round_half (m div n) (2 * e) = round_half m (n * (2 * e))"
proof -
  have "round_half m (n * (2 * e)) = (m + n * e) div (n * (2 * e))"
    using round_half_even [of "n * e" m] assms by (simp add: mult.left_commute)
  also have "\<dots> = ((m + n * e) div n) div (2 * e)"
    using assms by (simp add: zdiv_zmult2_eq)
  also have "(m + n * e) div n = m div n + e" using assms by simp
  finally show ?thesis using round_half_even [OF assms(2)] by simp
qed

lemma round_half_le: "0 < d \<Longrightarrow> m \<le> k * d \<Longrightarrow> round_half m d \<le> k"
proof -
  assume "0 < d" "m \<le> k * d"
  then have "2 * m + d \<le> k * (2 * d) + d" by simp
  then have "(2 * m + d) div (2 * d) \<le> (k * (2 * d) + d) div (2 * d)" 
    using \<open>0 < d\<close> by (intro zdiv_mono1) auto
  also have "\<dots> = k" using \<open>0 < d\<close> by (simp add: div_pos_pos_trivial)
  finally show ?thesis by (simp add: round_half_def)
qed

lemma quantize_raw:
  fixes m :: u64
  assumes "uint m \<le> 2 ^ 62" "0 < s" "s < 62"
  shows "uint (drop_bit s m + of_bool (push_bit (s - 1) 1 \<le> m AND (push_bit s 1 - 1))) = round_half (uint m) (2 ^ s)"
    (is "uint (?q + of_bool ?c) = _")
proof -
  have c: "?c \<longleftrightarrow> 2 ^ s \<le> 2 * (uint m mod 2 ^ s)"
  proof -
    have "(2::int) ^ (s - 1) < 2 ^ 64" using assms by (intro power_strict_increasing) auto
    then have "(2::int) ^ (s - 1) mod 2 ^ 64 = 2 ^ (s - 1)" by (intro mod_pos_pos_trivial) auto
    then have "?c \<longleftrightarrow> 2 ^ (s - 1) \<le> uint m mod 2 ^ s"
      by (simp only: word_le_def uint_and_low uint_shl) simp
    also have "\<dots> \<longleftrightarrow> 2 ^ s \<le> 2 * (uint m mod 2 ^ s)"
      using assms by (cases s) auto
    finally show ?thesis .
  qed
  have q: "uint ?q = uint m div 2 ^ s" by (rule uint_shr)
  have "uint m div 2 ^ s \<le> uint m" using zdiv_mono2 [of "uint m" 1 "2 ^ s"] by simp
  then have "uint ?q + uint (of_bool ?c :: 64 word) < 18446744073709551616"
    using assms(1) by (simp add: q)
  then have "uint (?q + of_bool ?c) = uint ?q + uint (of_bool ?c :: 64 word)"
    by (rule u64_add_fits)
  also have "\<dots> = uint m div 2 ^ s + of_bool (2 ^ s \<le> 2 * (uint m mod 2 ^ s))"
    unfolding q c by simp
  finally show ?thesis by (simp only: round_half_alt zero_less_power zero_less_numeral)
qed

lemma sint_small: "uint x < 9223372036854775808 \<Longrightarrow> sint x = uint x" for x :: "64 word"
  by (simp add: sint64)

lemma quantize_unit_spec:
  assumes "uint m \<le> 2 ^ 62" "bits = 15 \<or> bits = 31"
  shows "sint (quantize_unit m neg bits) = saturate_unit bits neg (round_half (uint m) (2 ^ (62 - bits)))"
proof -
  define s where "s = 62 - bits"
  have s: "0 < s" "s < 62" "s + bits = 62" using assms(2) by (auto simp: s_def)
  define raw where "raw = drop_bit s m + of_bool (push_bit (s - 1) 1 \<le> m AND (push_bit s 1 - 1))"
  have raw: "uint raw = round_half (uint m) (2 ^ s)"
    unfolding raw_def by (rule quantize_raw [OF assms(1) s(1,2)])
  have "(2::int) ^ 62 = 2 ^ bits * 2 ^ s" using s(3) by (simp flip: power_add add: add.commute)
  then have le: "uint raw \<le> 2 ^ bits"
    unfolding raw using assms(1) by (intro round_half_le) auto
  have b31: "(2::int) ^ bits \<le> 2 ^ 31" using assms(2) by auto
  then have small: "uint raw \<le> 2147483648" using le by simp
  have one: "uint (push_bit bits 1 :: 64 word) = 2 ^ bits" using assms(2) by auto
  have sr: "sint raw = uint raw" using small by (intro sint_small) simp
  have ng: "sint (- raw) = - uint raw"
    using sint_minus64 [of 0 raw] small uint_ge_0 [of raw] unfolding sr by simp
  have dec: "sint (raw - 1) = uint raw - 1"
    using sint_minus64 [of raw 1] small by (simp add: sr)
  have top: "raw = push_bit bits 1 \<longleftrightarrow> uint raw = 2 ^ bits"
    by (simp only: word_uint_eq_iff one)
  have "quantize_unit m neg bits =
     (let raw' = (if \<not> neg \<and> raw = push_bit bits 1 then raw - 1 else raw) in if neg then - raw' else raw')"
    by (simp only: quantize_unit_def Let_def raw_def s_def)
  then show ?thesis
    using le unfolding saturate_unit_def raw [symmetric] s_def [symmetric] top
    by (auto simp: Let_def ng dec sr)
qed

lemma limbs_less_iff:
  fixes h h' l l' :: int
  assumes "0 \<le> l" "l \<le> 18446744073709551615" "0 \<le> l'" "l' \<le> 18446744073709551615"
  shows "h' * 18446744073709551616 + l' < h * 18446744073709551616 + l \<longleftrightarrow> h' < h \<or> h' = h \<and> l' < l"
  using assms by auto

lemma limbs_le_iff:
  fixes h l c :: int
  assumes "0 \<le> h" "0 \<le> l" "c \<le> 18446744073709551615"
  shows "h * 18446744073709551616 + l \<le> c \<longleftrightarrow> h = 0 \<and> l \<le> c"
  using assms by auto

lemma ln_compare_unsigned_pos: "0 < ln_compare_unsigned a b \<longleftrightarrow> accum_uval b < accum_uval a"
  unfolding accum_uval_num limbs_less_iff [OF u64_bounds u64_bounds]
  by (auto simp: ln_compare_unsigned_def word_less_def word_uint_eq_iff)

lemma quantize_accumulator_spec:
  assumes "bits = 15 \<or> bits = 31"
  shows "quantize_accumulator v bits out =
    (if \<bar>accum_val v\<bar> \<le> 2 ^ 62
     then (LINEARS_OK, word_of_int (saturate_unit bits (accum_val v < 0) (round_half \<bar>accum_val v\<bar> (2 ^ (62 - bits)))))
     else (LINEARS_ERROR_RANGE, out))"
proof -
  let ?m = "ln_absolute v"
  have "acc_high ?m \<noteq> 0 \<or> push_bit 62 1 < acc_low ?m \<longleftrightarrow> \<not> accum_uval ?m \<le> 2 ^ 62"
    by (simp add: accum_uval_num limbs_le_iff word_less_def uint_0_iff not_le)
  moreover have "acc_high ?m = 0 \<Longrightarrow> accum_uval ?m = uint (acc_low ?m)" by (simp add: accum_uval_num)
  ultimately show ?thesis
    using quantize_unit_spec [OF _ assms, of "acc_low ?m" "accum_val v < 0"]
    by (auto simp: quantize_accumulator_def Let_def ln_negative_iff accum_uval_absolute intro: eq_word_of_intI)
qed

lemma quantize_mean_spec:
  assumes "bits = 15 \<or> bits = 31" "n \<noteq> 0"
  shows "quantize_mean v n bits out =
    (if \<bar>accum_val v\<bar> \<le> uint n * 2 ^ 62
     then (LINEARS_OK, word_of_int (saturate_unit bits (accum_val v < 0)
        (round_half \<bar>accum_val v\<bar> (uint n * 2 ^ (62 - bits)))))
     else (LINEARS_ERROR_RANGE, out))"
proof -
  let ?m = "ln_absolute v"
  have n: "0 < uint n" using assms(2) by (simp add: order_less_le uint_0_iff)
  have cmp: "0 < ln_compare_unsigned ?m (ln_shift_u64 n 62) \<longleftrightarrow> \<not> \<bar>accum_val v\<bar> \<le> uint n * 2 ^ 62"
    by (simp add: ln_compare_unsigned_pos accum_uval_shift_u64 accum_uval_absolute not_le)
  show ?thesis
  proof (cases "\<bar>accum_val v\<bar> \<le> uint n * 2 ^ 62")
    case False
    then show ?thesis using assms(2) by (simp add: quantize_mean_def cmp Let_def del: power_numeral)
  next
    case True
    then have le: "accum_uval ?m \<le> uint n * 2 ^ 62" by (simp add: accum_uval_absolute)
    have "uint (acc_high ?m) < uint n"
    proof (rule ccontr)
      assume "\<not> ?thesis"
      then have "uint n * 2 ^ 64 \<le> accum_uval ?m"
        unfolding accum_uval_num
        by (intro order_trans [OF _ add_increasing2 [OF uint_ge_0 order_refl]]) simp
      then show False using le n by simp
    qed
    note dm = divide_magnitude_spec [OF this, of "acc_low ?m"]
    obtain q r where qr: "divide_magnitude (acc_high ?m) (acc_low ?m) n = (q, r)"
      by (cases "divide_magnitude (acc_high ?m) (acc_low ?m) n")
    have q: "uint q = \<bar>accum_val v\<bar> div uint n"
      using dm(1) by (simp add: qr flip: accum_uval_absolute) (simp add: accum_uval_num)
    have "\<bar>accum_val v\<bar> div uint n \<le> (2 ^ 62 * uint n) div uint n"
      using True n by (intro zdiv_mono1) (simp_all add: mult.commute)
    then have qle: "uint q \<le> 2 ^ 62" using n by (simp add: q)
    have e: "(2::int) ^ (62 - bits) = 2 * 2 ^ (61 - bits)" using assms(1) by auto
    have "round_half (uint q) (2 ^ (62 - bits)) = round_half \<bar>accum_val v\<bar> (uint n * 2 ^ (62 - bits))"
      unfolding q e by (rule round_half_div [OF n]) simp
    then show ?thesis
      using True assms(2) quantize_unit_spec [OF qle assms(1), of "accum_val v < 0"] cmp
      by (auto simp: quantize_mean_def Let_def qr ln_negative_iff intro: eq_word_of_intI)
  qed
qed

lemma saturate_unit_round_away:
  "0 < d \<Longrightarrow> saturate_unit bits (n < 0) (round_half \<bar>n\<bar> d) = min (round_away n d) (2 ^ bits - 1)"
  using round_half_nonneg [of "\<bar>n\<bar>" d]
  by (auto simp: saturate_unit_def round_away_if min_def not_le intro: order.strict_trans1 [of _ 0])

lemma and_65535: "uint (m AND 65535) = uint m mod 65536" for m :: u64
  using uint_and_low [of m 16] by simp

lemma linears_fixed_to_q15_spec:
  "linears_fixed_to_q15 v (Some old) =
     (if \<bar>sint v\<bar> \<le> 2 ^ 31
      then (LINEARS_OK, Some (word_of_int (min (round_away (sint v) (2 ^ 16)) (2 ^ 15 - 1))))
      else (LINEARS_ERROR_RANGE, Some old))"
proof -
  have range: "v <s - LINEARS_FIXED_ONE \<or> LINEARS_FIXED_ONE <s v \<longleftrightarrow> \<not> \<bar>sint v\<bar> \<le> 2 ^ 31"
    by (auto simp: word_sless_alt LINEARS_FIXED_ONE_def)
  define raw where "raw = drop_bit 16 (ln_magnitude v) + of_bool (32768 \<le> ln_magnitude v AND 65535)"
  have raw: "uint raw = round_half \<bar>sint v\<bar> 65536" and le: "uint raw \<le> 32768" if b: "\<bar>sint v\<bar> \<le> 2 ^ 31"
  proof -
    have "uint (ln_magnitude v) \<le> 2 ^ 62" using b by (simp add: uint_ln_magnitude)
    from quantize_raw [OF this, of 16] show "uint raw = round_half \<bar>sint v\<bar> 65536"
      by (simp add: raw_def uint_ln_magnitude)
    then show "uint raw \<le> 32768" using round_half_le [of 65536 "\<bar>sint v\<bar>" 32768] b by simp
  qed
  have eq: "linears_fixed_to_q15 v (Some old) = (if v <s - LINEARS_FIXED_ONE \<or> LINEARS_FIXED_ONE <s v then (LINEARS_ERROR_RANGE, Some old)
      else (LINEARS_OK, Some (ucast (if v <s 0 then - (ucast (if 0 \<le>s v \<and> raw = 32768 then 32767 else raw) :: i32) else ucast (if 0 \<le>s v \<and> raw = 32768 then 32767 else raw)))))"
    by (simp add: linears_fixed_to_q15_def Let_def raw_def)
  show ?thesis 
  proof (cases "\<bar>sint v\<bar> \<le> 2 ^ 31")
    case True
    note r = raw [OF True] le [OF True]
    have c: "ucast raw = (word_of_int (uint raw) :: 32 word)"
      using ucast_down_of_int [where 'a = 64 and 'b = 32 and k = "uint raw"] by simp
    have neg: "ucast (- (ucast raw :: i32)) = (word_of_int (- uint raw) :: 16 word)"
      unfolding c using ucast_down_of_int [where 'a = 32 and 'b = 16 and k = "- uint raw"]
      by (simp add: wi_hom_neg)
    have pos: "ucast (ucast raw :: i32) = (word_of_int (uint raw) :: 16 word)"
      unfolding c using ucast_down_of_int [where 'a = 32 and 'b = 16 and k = "uint raw"] by simp
    have top: "raw = 32768 \<longleftrightarrow> uint raw = 32768" by (simp add: word_uint_eq_iff)
    have "min (round_away (sint v) (2 ^ 16)) (2 ^ 15 - 1)
        = (if sint v < 0 then - uint raw else if uint raw = 32768 then 32767 else uint raw)"
      using r round_half_nonneg [of "\<bar>sint v\<bar>" 65536] by (auto simp: round_away_if)
    then show ?thesis
      using True r(2) neg pos unfolding eq range
      by (auto simp: top word_sless_alt word_sle_eq)
  qed (simp add: eq range)
qed

lemma linears_fixed_to_q31_spec:
  "linears_fixed_to_q31 v (Some old) =
     (if \<bar>sint v\<bar> \<le> 2 ^ 31
      then (LINEARS_OK, Some (word_of_int (min (sint v) (2 ^ 31 - 1))))
      else (LINEARS_ERROR_RANGE, Some old))"
proof -
  have range: "v <s - LINEARS_FIXED_ONE \<or> LINEARS_FIXED_ONE <s v \<longleftrightarrow> \<not> \<bar>sint v\<bar> \<le> 2 ^ 31"
    by (auto simp: word_sless_alt LINEARS_FIXED_ONE_def)
  have one: "v = LINEARS_FIXED_ONE \<longleftrightarrow> sint v = 2 ^ 31"
    by (auto simp: LINEARS_FIXED_ONE_def dest: eq_word_of_intI)
  have c: "ucast v = (word_of_int (sint v) :: 32 word)" by (rule ucast_down_sint) simp
  show ?thesis
    by (auto simp: linears_fixed_to_q31_def range one c min_def)
qed

lemma linears_accum_to_q15_spec:
  "linears_accum_to_q15 v (Some old) =
     (if \<bar>accum_val v\<bar> \<le> 2 ^ 62
      then (LINEARS_OK, Some (word_of_int (min (round_away (accum_val v) (2 ^ 47)) (2 ^ 15 - 1))))
      else (LINEARS_ERROR_RANGE, Some old))"
  by (simp add: linears_accum_to_q15_def quantize_accumulator_spec saturate_unit_round_away
      ucast_down_of_int)

lemma linears_accum_to_q31_spec:
  "linears_accum_to_q31 v (Some old) =
     (if \<bar>accum_val v\<bar> \<le> 2 ^ 62
      then (LINEARS_OK, Some (word_of_int (min (round_away (accum_val v) (2 ^ 31)) (2 ^ 31 - 1))))
      else (LINEARS_ERROR_RANGE, Some old))"
  by (simp add: linears_accum_to_q31_def quantize_accumulator_spec saturate_unit_round_away
      ucast_down_of_int)

lemma linears_accum_mean_q15_spec:
  "linears_accum_mean_q15 v n (Some old) =
     (if n = 0 then (LINEARS_ERROR_DOMAIN, Some old)
      else if \<bar>accum_val v\<bar> \<le> uint n * 2 ^ 62
      then (LINEARS_OK, Some (word_of_int (min (round_away (accum_val v) (uint n * 2 ^ 47)) (2 ^ 15 - 1))))
      else (LINEARS_ERROR_RANGE, Some old))"
proof (cases "n = 0")
  case False
  then have "0 < uint n * 2 ^ 47" by (simp add: order_less_le uint_0_iff)
  with False show ?thesis
    by (simp add: linears_accum_mean_q15_def quantize_mean_spec saturate_unit_round_away ucast_down_of_int)
qed (simp add: linears_accum_mean_q15_def quantize_mean_def)

lemma linears_accum_mean_q31_spec:
  "linears_accum_mean_q31 v n (Some old) =
     (if n = 0 then (LINEARS_ERROR_DOMAIN, Some old)
      else if \<bar>accum_val v\<bar> \<le> uint n * 2 ^ 62
      then (LINEARS_OK, Some (word_of_int (min (round_away (accum_val v) (uint n * 2 ^ 31)) (2 ^ 31 - 1))))
      else (LINEARS_ERROR_RANGE, Some old))"
proof (cases "n = 0")
  case False
  then have "0 < uint n * 2 ^ 31" by (simp add: order_less_le uint_0_iff)
  with False show ?thesis
    by (simp add: linears_accum_mean_q31_def quantize_mean_spec saturate_unit_round_away ucast_down_of_int)
qed (simp add: linears_accum_mean_q31_def quantize_mean_def)

section \<open>The two-limb restoring square root\<close>

lemma and_3: "uint (x AND 3) = uint x mod 4" for x :: u64
  using uint_and_low [of x 2] by simp

lemma shl2_or_digit: "uint r < 2 ^ 62 \<Longrightarrow> uint (push_bit 2 r OR (x AND 3)) = 4 * uint r + uint x mod 4" for r x :: u64
proof -
  assume r: "uint r < 2 ^ 62"
  have three: "(3 :: u64) = mask 2" by (simp add: mask_eq_exp_minus_1)
  have "push_bit 2 r AND (x AND 3) = 0"
    unfolding three by (rule bit_word_eqI) (auto simp: bit_simps)
  then have "uint (push_bit 2 r OR (x AND 3)) = uint (push_bit 2 r) + uint (x AND 3)"
    by (rule uint_or_disjoint)
  also have "uint (push_bit 2 r) = 4 * uint r" unfolding uint_shl using r by simp
  finally show ?thesis by (simp add: and_3)
qed

lemma accum_digit:
  "uint (if 64 \<le> 2 * p then drop_bit (2 * p - 64) (acc_high a) AND 3 else drop_bit (2 * p) (acc_low a) AND 3)
     = accum_uval a div 4 ^ p mod 4"
proof (cases "64 \<le> 2 * p")
  case True
  have "(4::int) ^ p = 2 ^ 64 * 2 ^ (2 * p - 64)" 
  proof -
    have "2 * p = 64 + (2 * p - 64)" using True by simp
    then have "(2::int) ^ (2 * p) = 2 ^ 64 * 2 ^ (2 * p - 64)" by (metis power_add)
    then show ?thesis by (simp only: power_mult) simp
  qed
  then have "accum_uval a div 4 ^ p = (accum_uval a div 2 ^ 64) div 2 ^ (2 * p - 64)"
    by (simp only: zdiv_zmult2_eq) (simp add: zdiv_zmult2_eq)
  also have "accum_uval a div 2 ^ 64 = uint (acc_high a)"
    using uint_lt2p [of "acc_low a"] by (simp add: accum_uval_def)
  finally show ?thesis using True by (simp add: and_3 uint_shr)
next
  case False
  have p4: "(2::int) ^ (2 * p) = 4 ^ p" by (simp add: power_mult)
  have "2 * p + 2 + (62 - 2 * p) = 64" using False by simp
  then have "(2::int) ^ 64 = 2 ^ (2 * p) * 2 ^ 2 * 2 ^ (62 - 2 * p)"
    by (metis power_add)
  then have "accum_uval a = (uint (acc_high a) * 2 ^ (62 - 2 * p) * 4) * 4 ^ p + uint (acc_low a)"
    unfolding accum_uval_def p4 by (simp add: mult_ac)
  then have "accum_uval a div 4 ^ p = uint (acc_high a) * 2 ^ (62 - 2 * p) * 4 + uint (acc_low a) div 4 ^ p"
    by simp
  then show ?thesis using False by (simp add: and_3 uint_shr p4)
qed

lemma sqrt_digits_spec:
  assumes "p \<le> 48" "uint rt * uint rt + uint rm = accum_uval a div 4 ^ p" "uint rm \<le> 2 * uint rt"
    "uint rt < 2 ^ (48 - p)"
    and "sqrt_digits p a rt rm = (rt', rm')"
  shows "uint rt' * uint rt' + uint rm' = accum_uval a \<and> uint rm' \<le> 2 * uint rt' \<and> uint rt' < 2 ^ 48"
  using assms
proof (induction p arbitrary: rt rm)
  case 0
  then show ?case by simp
next
  case (Suc p)
  let ?d = "if 64 \<le> 2 * p then drop_bit (2 * p - 64) (acc_high a) AND 3 else drop_bit (2 * p) (acc_low a) AND 3"
  have dd: "?d = (if 64 \<le> 2 * p then drop_bit (2 * p - 64) (acc_high a) else drop_bit (2 * p) (acc_low a)) AND 3"
    by simp
  define d where "d = accum_uval a div 4 ^ p mod 4"
  have d: "0 \<le> d" "d \<le> 3" "uint ?d = d" using accum_digit by (simp_all add: d_def)
  have e: "accum_uval a div 4 ^ p = 4 * (uint rt * uint rt + uint rm) + d"
  proof -
    have "accum_uval a div 4 ^ Suc p = accum_uval a div 4 ^ p div 4"
      by (simp only: power_Suc mult.commute [of 4]) (simp add: zdiv_zmult2_eq)
    then show ?thesis using Suc.prems(2) by (simp add: d_def)
  qed
  have "(2::int) ^ (48 - Suc p) \<le> 2 ^ 48" by (intro power_increasing) auto
  then have rt: "uint rt < 281474976710656" using Suc.prems(4) by simp
  have rm4: "uint (push_bit 2 rm OR ?d) = 4 * uint rm + d"
    unfolding dd using shl2_or_digit [of rm] Suc.prems(3) rt d(3) unfolding dd and_3 by simp
  have rt2: "uint (push_bit 1 rt) = 2 * uint rt" using rt by (intro shl1) simp
  have tr: "uint (push_bit 1 (push_bit 1 rt) OR 1) = 4 * uint rt + 1"
    using rt shl1_or_1 [of "push_bit 1 rt"] by (simp only: rt2)
  have bound: "2 * uint rt + 1 < 2 ^ (48 - p)"
  proof -
    have "48 - p = Suc (48 - Suc p)" using Suc.prems(1) by simp
    then show ?thesis using Suc.prems(4) by simp
  qed
  show ?case
  proof (cases "push_bit 1 (push_bit 1 rt) OR 1 \<le> push_bit 2 rm OR ?d")
    case True
    have v: "uint ((push_bit 2 rm OR ?d) - (push_bit 1 (push_bit 1 rt) OR 1)) = 4 * uint rm + d - (4 * uint rt + 1)"
      unfolding uint_minus_fits [OF True] rm4 tr ..
    have w: "uint (push_bit 1 rt + 1) = 2 * uint rt + 1"
      using rt by (subst u64_add_fits) (simp_all add: rt2 del: One_nat_def)
    show ?thesis
    proof (rule Suc.IH)
      show "sqrt_digits p a (push_bit 1 rt + 1) ((push_bit 2 rm OR ?d) - (push_bit 1 (push_bit 1 rt) OR 1)) = (rt', rm')"
        using Suc.prems(5) True by (simp add: Let_def del: push_bit_Suc One_nat_def)
      show "p \<le> 48" using Suc.prems(1) by simp
      show "uint (push_bit 1 rt + 1) < 2 ^ (48 - p)" unfolding w by (rule bound)
    qed (use Suc.prems d e in \<open>simp_all only: v w, auto simp: algebra_simps\<close>)
  next
    case False
    show ?thesis
    proof (rule Suc.IH)
      show "sqrt_digits p a (push_bit 1 rt) (push_bit 2 rm OR ?d) = (rt', rm')"
        using Suc.prems(5) False by (simp add: Let_def del: push_bit_Suc One_nat_def)
      show "uint (push_bit 2 rm OR ?d) \<le> 2 * uint (push_bit 1 rt)"
        using False unfolding word_le_def rm4 tr rt2 by simp
      show "p \<le> 48" using Suc.prems(1) by simp
      show "uint (push_bit 1 rt) < 2 ^ (48 - p)" unfolding rt2 using bound by simp
    qed (use e in \<open>simp only: rm4 rt2, auto simp: algebra_simps\<close>)
  qed
qed

lemma nearest_sqrt_of_floor:
  fixes t m n :: int
  assumes "t * t + m = n" "0 \<le> t" "0 \<le> m" "m \<le> 2 * t"
  shows "nearest_sqrt n (t + of_bool (t + 1 \<le> m))"
  using assms by (auto simp: nearest_sqrt_def algebra_simps)

lemma linears_fixed_sqrt_spec:
  assumes "0 \<le> sint v"
  shows "\<exists>r. linears_fixed_sqrt v (Some old) = (LINEARS_OK, Some r) \<and> nearest_sqrt (sint v * 2 ^ 31) (sint r)"
proof -
  have nn: "\<not> v <s 0" using assms by (simp add: word_sless_alt)
  have uv: "uint v = sint v" using assms u64_bounds [of v] by (auto simp: sint64 split: if_splits)
  have rad: "accum_uval (ln_shift_u64 v 31) = sint v * 2 ^ 31" by (simp add: accum_uval_shift_u64 uv)
  have fin: "nearest_sqrt (sint v * 2 ^ 31) (sint (t + of_bool (t + 1 \<le> m)))"
    if "uint t * uint t + uint m = sint v * 2 ^ 31" "uint m \<le> 2 * uint t" "uint t < 2 ^ 48" for t m :: u64
  proof -
    have t1: "uint (t + 1) = uint t + 1" using that(3) by (subst u64_add_fits) simp_all
    have "uint (t + of_bool (t + 1 \<le> m)) = uint t + of_bool (uint t + 1 \<le> uint m)"
      using that(3) by (subst u64_add_fits) (simp_all add: word_le_def t1)
    moreover from this have "sint (t + of_bool (t + 1 \<le> m)) = uint (t + of_bool (t + 1 \<le> m))"
      using that(3) by (intro sint_small) simp
    ultimately show ?thesis using nearest_sqrt_of_floor [OF that(1) _ _ that(2)] by simp
  qed
  show ?thesis
  proof (cases "acc_high (ln_shift_u64 v 31) = 0")
    case True
    obtain t m where tm: "ln_sqrt_floor64 (acc_low (ln_shift_u64 v 31)) = (t, m)" by fastforce
    have "uint (acc_low (ln_shift_u64 v 31)) = sint v * 2 ^ 31"
      using rad True by (simp add: accum_uval_num)
    then show ?thesis
      using fin [of t m] ln_sqrt_floor64_spec [OF tm] nn True
      by (auto simp: linears_fixed_sqrt_def Let_def ln_sqrt_nearest64_def tm)
  next
    case False
    obtain t m where tm: "sqrt_digits 48 (ln_shift_u64 v 31) 0 0 = (t, m)" by fastforce
    have "sint v * 2 ^ 31 div 4 ^ 48 = 0"
      using i64_bounds [of v] assms by (simp add: div_pos_pos_trivial)
    then have "uint t * uint t + uint m = sint v * 2 ^ 31 \<and> uint m \<le> 2 * uint t \<and> uint t < 2 ^ 48"
      using sqrt_digits_spec [OF _ _ _ _ tm] by (simp add: rad)
    then show ?thesis
      using fin [of t m] nn False
      by (auto simp: linears_fixed_sqrt_def Let_def tm)
  qed
qed

end
