(* ===== verification/Out_Contract.thy ===== *)
theory Out_Contract
  imports Numeric
begin

text \<open>
  The calling convention the numeric operations share, as interfaces. An operation with an
  output pointer rejects NULL, writes the cell on success and leaves it alone on failure; its
  status and its value depend on the inputs only. An accumulating operation adds one exact
  term to a wide register or refuses. The clients' lemmas are proved here once and are
  available for every operation that provides the laws.
\<close>

section \<open>Operations that use the interfaces\<close>

text \<open>Calls that run only while the status is OK and otherwise return \<open>dflt\<close>.\<close>

definition sticky_call ::
  "'o \<Rightarrow> ('o ptr \<Rightarrow> linears_status_t \<times> 'o ptr) \<Rightarrow> linears_status_t \<Rightarrow> linears_status_t \<times> 'o" where
  "sticky_call dflt op status =
     (if status = LINEARS_OK
      then (case op (Some dflt) of
              (s, Some r) \<Rightarrow> (s, r)
            | (s, None) \<Rightarrow> (s, dflt))
      else (status, dflt))"

text \<open>A loop that accumulates the terms of a list and stops at the first refusal.\<close>

fun accumulate_all ::
  "('a \<Rightarrow> 't \<Rightarrow> linears_status_t \<times> 'a) \<Rightarrow> 'a \<Rightarrow> 't list \<Rightarrow> linears_status_t \<times> 'a" where
  "accumulate_all step acc [] = (LINEARS_OK, acc)"
| "accumulate_all step acc (t # ts) =
     (case step acc t of
        (LINEARS_OK, acc') \<Rightarrow> accumulate_all step acc' ts
      | (e, acc') \<Rightarrow> (e, acc'))"

text \<open>Every partial sum, starting from \<open>s\<close>, lies in the half-open range.\<close>

fun prefix_sums_fit :: "int \<Rightarrow> int \<Rightarrow> int \<Rightarrow> int list \<Rightarrow> bool" where
  "prefix_sums_fit lo hi s [] = True"
| "prefix_sums_fit lo hi s (w # ws) =
     (lo \<le> s + w \<and> s + w < hi \<and> prefix_sums_fit lo hi (s + w) ws)"

section \<open>Output-pointer contract\<close>

locale out_op =
  fixes f :: "'i \<Rightarrow> 'o ptr \<Rightarrow> linears_status_t \<times> 'o ptr"
    and result :: "'i \<Rightarrow> linears_status_t + 'o"
  assumes null_argument: "f i None = (LINEARS_ERROR_ARGUMENT, None)"
    and cell: "f i (Some old) =
      (case result i of Inl e \<Rightarrow> (e, Some old) | Inr v \<Rightarrow> (LINEARS_OK, Some v))"
    and error_status: "result i \<noteq> Inl LINEARS_OK"
begin

lemma failure_keeps_output: "fst (f i out) \<noteq> LINEARS_OK \<Longrightarrow> snd (f i out) = out"
  by (cases out) (auto simp: null_argument cell split: sum.splits)

lemma ok_iff: "fst (f i (Some old)) = LINEARS_OK \<longleftrightarrow> (\<exists>v. result i = Inr v)"
  using error_status [of i] by (auto simp: cell split: sum.splits)

lemma ok_value: "f i (Some old) = (LINEARS_OK, out) \<Longrightarrow> \<exists>v. out = Some v \<and> result i = Inr v"
  using error_status [of i] by (auto simp: cell split: sum.splits)

lemma sticky_ok:
  "sticky_call dflt (f i) LINEARS_OK = (case result i of Inl e \<Rightarrow> (e, dflt) | Inr v \<Rightarrow> (LINEARS_OK, v))"
  by (auto simp: sticky_call_def cell split: sum.splits)

lemma sticky_propagates:
  "fst (sticky_call dflt (f i) s) = LINEARS_OK \<Longrightarrow> s = LINEARS_OK \<and> (\<exists>v. result i = Inr v)"
  using error_status [of i] by (auto simp: sticky_call_def cell split: sum.splits if_splits)

end

section \<open>Exact accumulation\<close>

locale exact_accumulator =
  fixes step :: "'a \<Rightarrow> 't \<Rightarrow> linears_status_t \<times> 'a"
    and val :: "'a \<Rightarrow> int"
    and weight :: "'t \<Rightarrow> int"
    and lower :: int
    and upper :: int
  assumes step_fits: "lower \<le> val a + weight t \<Longrightarrow> val a + weight t < upper \<Longrightarrow>
      \<exists>a'. step a t = (LINEARS_OK, a') \<and> val a' = val a + weight t"
    and step_refuses: "\<not> (lower \<le> val a + weight t \<and> val a + weight t < upper) \<Longrightarrow>
      step a t = (LINEARS_ERROR_RANGE, a)"
begin

lemma accumulate_exact:
  "prefix_sums_fit lower upper (val a) (map weight ts) \<Longrightarrow>
    \<exists>a'. accumulate_all step a ts = (LINEARS_OK, a') \<and> val a' = val a + sum_list (map weight ts)"
proof (induction ts arbitrary: a)
  case (Cons t ts)
  from Cons.prems obtain a1 where "step a t = (LINEARS_OK, a1)" "val a1 = val a + weight t"
    using step_fits [of a t] by auto
  with Cons.IH [of a1] Cons.prems show ?case by (auto simp: add.assoc)
qed simp

lemma accumulate_refuses:
  "\<not> prefix_sums_fit lower upper (val a) (map weight ts) \<Longrightarrow> fst (accumulate_all step a ts) = LINEARS_ERROR_RANGE"
proof (induction ts arbitrary: a)
  case (Cons t ts)
  show ?case
  proof (cases "lower \<le> val a + weight t \<and> val a + weight t < upper")
    case True
    then obtain a1 where "step a t = (LINEARS_OK, a1)" "val a1 = val a + weight t"
      using step_fits [of a t] by auto
    with True Cons show ?thesis by simp
  next
    case False
    then show ?thesis by (simp add: step_refuses)
  qed
qed simp

end

end
