(* ===== verification/Status_Monad.thy ===== *)
theory Status_Monad
  imports Out_Contract "HOL-Library.State_Monad"
begin

text \<open>
  Computations that carry a \<open>linears_status_t\<close>. The control and filter libraries either pass a status
  pointer to every arithmetic helper, which does nothing once the status has failed, or return
  at the first failing call (\<open>F_TRY\<close>). Both are a state monad whose state is the status.

  \<open>sticky m\<close> says that a failed status stays failed under \<open>m\<close>, \<open>ok_run m r\<close> that \<open>m\<close> runs to the
  result \<open>r\<close> with status OK. A sequence of sticky steps succeeds exactly when every step does.
\<close>

section \<open>The status monad\<close>

type_synonym 'a fc = "(linears_status_t, 'a) state"

definition fc_op :: "'o \<Rightarrow> ('o ptr \<Rightarrow> linears_status_t \<times> 'o ptr) \<Rightarrow> 'o fc" where
  "fc_op dflt op = State (\<lambda>s. case sticky_call dflt op s of (s', r) \<Rightarrow> (r, s'))"

definition fc_status :: "linears_status_t fc" where
  "fc_status = State (\<lambda>s. (s, s))"

text \<open>An early \<open>return e\<close> guarded by \<open>c\<close>, in a place where a failed status returns as well.\<close>

definition fc_fail_if :: "bool \<Rightarrow> linears_status_t \<Rightarrow> unit fc" where
  "fc_fail_if c e = State (\<lambda>s. ((), if s = LINEARS_OK \<and> c then e else s))"

text \<open>
  The frame of a public function: run the body with status OK, store the result only when the
  final status is OK.
\<close>

definition fc_commit :: "'o ptr \<Rightarrow> 'o fc \<Rightarrow> linears_status_t \<times> 'o ptr" where
  "fc_commit out body =
     (case out of None \<Rightarrow> (LINEARS_ERROR_ARGUMENT, None)
      | Some old \<Rightarrow> (case run_state body LINEARS_OK of
          (r, s) \<Rightarrow> (s, if s = LINEARS_OK then Some r else out)))"

text \<open>Two structures updated together: both are replaced on success and neither on failure.\<close>

definition fc_commit2 :: "'a ptr \<Rightarrow> 'b ptr \<Rightarrow> bool \<Rightarrow> ('a \<Rightarrow> ('a \<times> 'b) fc) \<Rightarrow> linears_status_t \<times> 'a ptr \<times> 'b ptr" where
  "fc_commit2 ctx output overlap body =
     (case (ctx, output) of
        (Some c, Some old) \<Rightarrow>
          if overlap then (LINEARS_ERROR_ALIAS, ctx, output)
          else (case run_state (body c) LINEARS_OK of
             ((c', r), s) \<Rightarrow> (s, if s = LINEARS_OK then (Some c', Some r) else (ctx, output)))
      | _ \<Rightarrow> (LINEARS_ERROR_ARGUMENT, ctx, output))"

text \<open>A multiply-accumulate call on a local accumulator.\<close>

definition fc_mac :: "linears_accum_t \<Rightarrow> linears_fixed_t \<Rightarrow> linears_fixed_t \<Rightarrow> linears_accum_t fc" where
  "fc_mac acc a b = fc_op acc (\<lambda>p. linears_fixed_mac p a b)"

definition fc_msu :: "linears_accum_t \<Rightarrow> linears_fixed_t \<Rightarrow> linears_fixed_t \<Rightarrow> linears_accum_t fc" where
  "fc_msu acc a b = fc_op acc (\<lambda>p. linears_fixed_msu p a b)"

abbreviation accum_zero :: linears_accum_t where "accum_zero \<equiv> \<lparr>acc_low = 0, acc_high = 0\<rparr>"

section \<open>Successful runs\<close>

definition sticky :: "'a fc \<Rightarrow> bool" where
  "sticky m \<longleftrightarrow> (\<forall>s. s \<noteq> LINEARS_OK \<longrightarrow> snd (run_state m s) \<noteq> LINEARS_OK)"

definition ok_run :: "'a fc \<Rightarrow> 'a \<Rightarrow> bool" where
  "ok_run m r \<longleftrightarrow> run_state m LINEARS_OK = (r, LINEARS_OK)"

lemma sticky_return [simp]: "sticky (State_Monad.return a)"
  by (simp add: sticky_def State_Monad.return_def)

lemma ok_return [simp]: "ok_run (State_Monad.return a) r \<longleftrightarrow> r = a"
  by (auto simp: ok_run_def State_Monad.return_def)

lemma sticky_status [simp]: "sticky fc_status"
  by (simp add: sticky_def fc_status_def)

lemma ok_status [simp]: "ok_run fc_status s \<longleftrightarrow> s = LINEARS_OK"
  by (auto simp: ok_run_def fc_status_def)

lemma sticky_fail_if [simp]: "sticky (fc_fail_if c e)"
  by (simp add: sticky_def fc_fail_if_def)

lemma ok_fail_if [simp]: "e \<noteq> LINEARS_OK \<Longrightarrow> ok_run (fc_fail_if c e) u \<longleftrightarrow> \<not> c"
  by (auto simp: ok_run_def fc_fail_if_def)

lemma sticky_op [simp]: "sticky (fc_op dflt f)"
  by (simp add: sticky_def fc_op_def sticky_call_def)

lemma sticky_bind [simp]: "sticky m \<Longrightarrow> (\<And>a. sticky (f a)) \<Longrightarrow> sticky (m \<bind> f)"
  by (auto simp: sticky_def State_Monad.bind_def split: prod.splits)

lemma sticky_if [simp]: "sticky m \<Longrightarrow> sticky n \<Longrightarrow> sticky (if c then m else n)"
  by simp

lemma sticky_case_prod [simp]: "(\<And>a b. sticky (f a b)) \<Longrightarrow> sticky (case p of (a, b) \<Rightarrow> f a b)"
  by (cases p) simp

lemma sticky_Let [simp]: "(\<And>a. sticky (f a)) \<Longrightarrow> sticky (let a = x in f a)"
  by (simp add: Let_def)

lemma ok_bind [simp]:
  "(\<And>a. sticky (f a)) \<Longrightarrow> ok_run (m \<bind> f) r \<longleftrightarrow> (\<exists>a. ok_run m a \<and> ok_run (f a) r)"
proof -
  assume st: "\<And>a. sticky (f a)"
  obtain a s where m: "run_state m LINEARS_OK = (a, s)" by (cases "run_state m LINEARS_OK")
  have "snd (run_state (f a) s) \<noteq> LINEARS_OK" if "s \<noteq> LINEARS_OK"
    using st [of a] that by (simp add: sticky_def)
  then show ?thesis
    by (cases "s = LINEARS_OK") (auto simp: ok_run_def State_Monad.bind_def m)
qed

lemma ok_unique: "ok_run m r \<Longrightarrow> ok_run m r' \<Longrightarrow> r = r'"
  by (simp add: ok_run_def)

lemma fc_commit_ok: "fc_commit (Some old) body = (LINEARS_OK, Some r) \<longleftrightarrow> ok_run body r"
  by (auto simp: fc_commit_def ok_run_def split: prod.splits)

lemma fc_commit_failure: "fst (fc_commit out body) \<noteq> LINEARS_OK \<Longrightarrow> snd (fc_commit out body) = out"
  by (auto simp: fc_commit_def split: option.splits prod.splits)

context out_op
begin

lemma ok_fc_op: "ok_run (fc_op dflt (f i)) v \<longleftrightarrow> result i = Inr v"
  using error_status [of i] by (auto simp: ok_run_def fc_op_def sticky_ok split: sum.splits)

end

lemma fc_commit2_ok:
  "fc_commit2 (Some c) (Some old) overlap body = (LINEARS_OK, Some c', Some r) \<longleftrightarrow> \<not> overlap \<and> ok_run (body c) (c', r)"
  by (auto simp: fc_commit2_def ok_run_def split: prod.splits)

lemma fc_commit2_failure:
  "fst (fc_commit2 ctx out overlap body) \<noteq> LINEARS_OK \<Longrightarrow> snd (fc_commit2 ctx out overlap body) = (ctx, out)"
  by (auto simp: fc_commit2_def split: option.splits prod.splits)

lemma fc_commit2_null:
  "ctx = None \<or> out = None \<Longrightarrow> fst (fc_commit2 ctx out overlap body) = LINEARS_ERROR_ARGUMENT"
  by (auto simp: fc_commit2_def split: option.splits)

lemma fc_commit2_alias:
  "fc_commit2 (Some c) (Some old) True body = (LINEARS_ERROR_ALIAS, Some c, Some old)"
  by (simp add: fc_commit2_def)

end
