(* ===== verification/Numeric_Props.thy ===== *)
theory Numeric_Props
  imports Complex_Main Numeric_Spec Status_Monad
begin

text \<open>
  The contracts of \<open>Out_Contract\<close> interpreted on the numeric operations, the real-number
  error bounds that the header of \<open>linears_numeric.h\<close> promises, and the properties of the
  numeric core.
\<close>

section \<open>Results as sums\<close>

definition check_i64 :: "int \<Rightarrow> linears_status_t + i64" where
  "check_i64 r = (if - (2 ^ 63) \<le> r \<and> r < 2 ^ 63 then Inr (word_of_int r) else Inl LINEARS_ERROR_RANGE)"

definition div_result :: "linears_fixed_t \<Rightarrow> linears_fixed_t \<Rightarrow> linears_status_t + linears_fixed_t" where
  "div_result a b = (if b = 0 then Inl LINEARS_ERROR_DOMAIN else check_i64 (round_away (sint a * 2 ^ 31) (sint b)))"

definition muldiv_result ::
  "linears_fixed_t \<Rightarrow> linears_fixed_t \<Rightarrow> linears_fixed_t \<Rightarrow> linears_status_t + linears_fixed_t" where
  "muldiv_result a b d = (if d = 0 then Inl LINEARS_ERROR_DOMAIN else check_i64 (round_away (sint a * sint b) (sint d)))"

definition sqrt_result :: "linears_fixed_t \<Rightarrow> linears_status_t + linears_fixed_t" where
  "sqrt_result v =
     (if v <s 0 then Inl LINEARS_ERROR_DOMAIN
      else case snd (linears_fixed_sqrt v (Some 0)) of Some r \<Rightarrow> Inr r | None \<Rightarrow> Inl LINEARS_ERROR_ARGUMENT)"

definition q15_result :: "linears_fixed_t \<Rightarrow> linears_status_t + linears_q15_t" where
  "q15_result v = (if \<bar>sint v\<bar> \<le> 2 ^ 31
     then Inr (word_of_int (min (round_away (sint v) (2 ^ 16)) (2 ^ 15 - 1))) else Inl LINEARS_ERROR_RANGE)"

definition q31_result :: "linears_fixed_t \<Rightarrow> linears_status_t + linears_q31_t" where
  "q31_result v = (if \<bar>sint v\<bar> \<le> 2 ^ 31
     then Inr (word_of_int (min (sint v) (2 ^ 31 - 1))) else Inl LINEARS_ERROR_RANGE)"

text \<open>One multiply-accumulate call through a valid pointer.\<close>

definition mac_step :: "linears_accum_t \<Rightarrow> i64 \<times> i64 \<Rightarrow> linears_status_t \<times> linears_accum_t" where
  "mac_step acc ab =
     (case linears_fixed_mac (Some acc) (fst ab) (snd ab) of
        (s, Some acc') \<Rightarrow> (s, acc') | (s, None) \<Rightarrow> (s, acc))"

definition msu_step :: "linears_accum_t \<Rightarrow> i64 \<times> i64 \<Rightarrow> linears_status_t \<times> linears_accum_t" where
  "msu_step acc ab =
     (case linears_fixed_msu (Some acc) (fst ab) (snd ab) of
        (s, Some acc') \<Rightarrow> (s, acc') | (s, None) \<Rightarrow> (s, acc))"

lemma check_i64_fit:
  "map_prod id Some (fit_i64 r old) =
    (case check_i64 r of Inl e \<Rightarrow> (e, Some old) | Inr v \<Rightarrow> (LINEARS_OK, Some v))"
  by (simp add: check_i64_def fit_i64_def)

lemma check_i64_error: "check_i64 r \<noteq> Inl LINEARS_OK"
  by (simp add: check_i64_def)

lemmas result_defs = div_result_def muldiv_result_def sqrt_result_def q15_result_def q31_result_def

lemma fixed_sqrt_cell:
  "linears_fixed_sqrt v (Some old) =
    (case sqrt_result v of Inl e \<Rightarrow> (e, Some old) | Inr r \<Rightarrow> (LINEARS_OK, Some r))"
  by (simp add: sqrt_result_def linears_fixed_sqrt_def Let_def split: prod.splits)

section \<open>Interpretations\<close>

interpretation fx_add: out_op "\<lambda>(a, b). linears_fixed_add a b" "\<lambda>(a, b). check_i64 (sint a + sint b)"
  by unfold_locales
    (auto simp: linears_fixed_add_def [of _ _ None] linears_fixed_add_spec check_i64_fit check_i64_error)

interpretation fx_sub: out_op "\<lambda>(a, b). linears_fixed_sub a b" "\<lambda>(a, b). check_i64 (sint a - sint b)"
  by unfold_locales
    (auto simp: linears_fixed_sub_def [of _ _ None] linears_fixed_sub_spec check_i64_fit check_i64_error)

interpretation fx_mul: out_op "\<lambda>(a, b). linears_fixed_mul a b"
    "\<lambda>(a, b). check_i64 (round_away (sint a * sint b) (2 ^ 31))"
  by unfold_locales
    (auto simp: linears_fixed_mul_def [of _ _ None] linears_fixed_mul_spec check_i64_fit check_i64_error)

interpretation fx_div: out_op "\<lambda>(a, b). linears_fixed_div a b" "\<lambda>(a, b). div_result a b"
  by unfold_locales
    (auto simp: linears_fixed_div_def [of _ _ None] linears_fixed_div_def [of _ 0] linears_fixed_div_spec
       check_i64_fit check_i64_error div_result_def split: if_splits)

interpretation fx_muldiv: out_op "\<lambda>(a, b, d). linears_fixed_muldiv a b d" "\<lambda>(a, b, d). muldiv_result a b d"
  by unfold_locales
    (auto simp: linears_fixed_muldiv_def [of _ _ _ None] linears_fixed_muldiv_def [of _ _ 0]
       linears_fixed_muldiv_spec check_i64_fit check_i64_error muldiv_result_def
       split: if_splits)

interpretation fx_neg: out_op linears_fixed_neg "\<lambda>v. check_i64 (- sint v)"
  by unfold_locales
    (auto simp: linears_fixed_neg_def [of _ None] linears_fixed_neg_spec check_i64_fit check_i64_error)

interpretation fx_abs: out_op linears_fixed_abs "\<lambda>v. check_i64 \<bar>sint v\<bar>"
  by unfold_locales
    (auto simp: linears_fixed_abs_def [of _ None] linears_fixed_abs_spec check_i64_fit check_i64_error)

interpretation fx_from_int: out_op linears_fixed_from_int "\<lambda>v. check_i64 (sint v * 2 ^ 31)"
  by unfold_locales
    (auto simp: linears_fixed_from_int_def [of _ None] linears_fixed_from_int_spec check_i64_fit check_i64_error
      simp del: power_numeral)

interpretation fx_sqrt: out_op linears_fixed_sqrt sqrt_result
proof (unfold_locales, goal_cases)
  case (1 v)
  show ?case by (simp add: linears_fixed_sqrt_def)
next
  case (2 v old)
  show ?case by (rule fixed_sqrt_cell)
next
  case (3 v)
  show ?case by (simp add: sqrt_result_def split: option.splits)
qed

interpretation fx_q15: out_op linears_fixed_to_q15 q15_result
  by unfold_locales
    (auto simp: linears_fixed_to_q15_def [of _ None] linears_fixed_to_q15_spec q15_result_def)

interpretation fx_q31: out_op linears_fixed_to_q31 q31_result
  by unfold_locales
    (auto simp: linears_fixed_to_q31_def [of _ None] linears_fixed_to_q31_spec q31_result_def)

interpretation fx_accum: out_op linears_accum_to_fixed "\<lambda>v. check_i64 (round_away (accum_val v) (2 ^ 31))"
  by unfold_locales
    (auto simp: linears_accum_to_fixed_def [of _ None] linears_accum_to_fixed_spec check_i64_fit check_i64_error)

interpretation mac: exact_accumulator mac_step accum_val "\<lambda>(a, b). sint a * sint b" "- (2 ^ 127)" "2 ^ 127"
  by unfold_locales
    (auto simp: mac_step_def linears_fixed_mac_spec ln_add_unchecked_val accum_val_product)

interpretation msu: exact_accumulator msu_step accum_val "\<lambda>(a, b). - (sint a * sint b)" "- (2 ^ 127)" "2 ^ 127"
  by unfold_locales
    (auto simp: msu_step_def linears_fixed_msu_spec ln_add_unchecked_val accum_val_neg_product)

section \<open>Error bounds over the reals\<close>

lemma round_half_error:
  assumes "0 < d"
  shows "\<bar>real_of_int (round_half m d) - real_of_int m / real_of_int d\<bar> \<le> 1 / 2"
proof -
  have "round_half m d = \<lfloor>real_of_int (2 * m + d) / real_of_int (2 * d)\<rfloor>"
    by (simp only: round_half_def floor_divide_of_int_eq)
  also have "real_of_int (2 * m + d) / real_of_int (2 * d) = real_of_int m / real_of_int d + 1 / 2"
    using assms by (simp add: field_simps)
  finally show ?thesis by linarith
qed

lemma round_away_error:
  assumes "d \<noteq> 0"
  shows "\<bar>real_of_int (round_away n d) - real_of_int n / real_of_int d\<bar> \<le> 1 / 2"
proof -
  have e: "\<bar>real_of_int (round_half \<bar>n\<bar> \<bar>d\<bar>) - \<bar>real_of_int n\<bar> / \<bar>real_of_int d\<bar>\<bar> \<le> 1 / 2"
    using round_half_error [of "\<bar>d\<bar>" "\<bar>n\<bar>"] assms by simp
  have "real_of_int n / real_of_int d = (if (n < 0) \<noteq> (d < 0) then -1 else 1) * (\<bar>real_of_int n\<bar> / \<bar>real_of_int d\<bar>)"
    using assms by (auto simp: abs_if field_simps)
  with e show ?thesis
    unfolding round_away_if [OF assms] by (auto simp: abs_minus_commute)
qed


lemma nearest_sqrt_error:
  assumes "nearest_sqrt n r" "0 \<le> n"
  shows "\<bar>real_of_int r - sqrt (real_of_int n)\<bar> \<le> 1 / 2"
proof -
  have r0: "0 \<le> r" and up: "n \<le> r * (r + 1)" and lo: "r = 0 \<or> r * (r - 1) < n"
    using assms(1) by (auto simp: nearest_sqrt_def)
  have "real_of_int n \<le> real_of_int (r * (r + 1))" using up by (simp only: of_int_le_iff)
  also have "\<dots> \<le> (real_of_int r + 1 / 2)\<^sup>2" by (simp add: power2_eq_square algebra_simps)
  finally have "sqrt (real_of_int n) \<le> real_of_int r + 1 / 2"
    using r0 by (intro real_le_lsqrt) auto
  moreover have "real_of_int r - 1 / 2 \<le> sqrt (real_of_int n)"
  proof (cases "r = 0")
    case False
    then have "real_of_int (r * (r - 1) + 1) \<le> real_of_int n" using lo by (simp only: of_int_le_iff) simp
    moreover have "(real_of_int r - 1 / 2)\<^sup>2 \<le> real_of_int (r * (r - 1) + 1)"
      by (simp add: power2_eq_square algebra_simps)
    ultimately show ?thesis by (intro real_le_rsqrt) linarith
  qed (use up assms(2) in simp)
  ultimately show ?thesis by linarith
qed

lemma scaled_error:
  assumes "\<bar>real_of_int r - x * 2 ^ 31\<bar> \<le> 1 / 2"
  shows "\<bar>real_of_int r / 2 ^ 31 - x\<bar> \<le> 1 / 2 ^ 32"
proof -
  have "real_of_int r / 2 ^ 31 - x = (real_of_int r - x * 2 ^ 31) / 2 ^ 31" by (simp add: field_simps)
  then have "\<bar>real_of_int r / 2 ^ 31 - x\<bar> = \<bar>real_of_int r - x * 2 ^ 31\<bar> / 2 ^ 31"
    by (simp only: abs_divide) simp
  with assms show ?thesis by simp
qed

lemma check_i64_Inr: "check_i64 r = Inr v \<Longrightarrow> sint v = r"
  by (auto simp: check_i64_def sint_word_of_int_fits split: if_splits)

section \<open>Array export\<close>

lemma overlaps_disjoint:
  fixes x y a b :: "'s::len word"
  assumes "\<not> overlaps x a y b" "a \<le> - 1 - x" "b \<le> - 1 - y"
  shows "a = 0 \<or> b = 0 \<or> uint x + uint a \<le> uint y \<or> uint y + uint b \<le> uint x"
proof (cases "x \<le> y")
  case True
  with assms(1) have "a = 0 \<or> b = 0 \<or> a \<le> y - x" by (auto simp: overlaps_def not_less split: if_splits)
  with True show ?thesis using uint_minus_fits [OF True] by (auto simp: word_le_def)
next
  case False
  then have le: "y \<le> x" by simp
  with assms(1) False have "a = 0 \<or> b = 0 \<or> b \<le> x - y"
    by (auto simp: overlaps_def not_less split: if_splits)
  then show ?thesis using uint_minus_fits [OF le] by (auto simp: word_le_def)
qed

lemma foldl_update_map:
  assumes "m \<le> length out" "\<And>i o'. i < m \<Longrightarrow> h i o' = o'[i := g i]"
  shows "foldl (\<lambda>o' i. h i o') out [0..<m] = map g [0..<m] @ drop m out"
  using assms
proof (induction m)
  case (Suc m)
  then have "drop m out = out ! m # drop (Suc m) out" by (simp add: Cons_nth_drop_Suc)
  with Suc show ?case by (simp add: list_update_append)
qed simp

lemma uint_mult_width:
  fixes n w :: "'s::len word"
  assumes "n \<le> - 1 div w" "w \<noteq> 0"
  shows "uint (n * w) = uint n * uint w"
proof -
  have d: "0 < uint w" using assms(2) by (simp add: order_less_le uint_0_iff)
  have "uint n \<le> (2 ^ LENGTH('s) - 1) div uint w"
    using assms(1) by (simp add: word_le_def uint_div unsigned_minus_1_eq_mask mask_eq_exp_minus_1)
  then have "uint n * uint w \<le> (2 ^ LENGTH('s) - 1) div uint w * uint w"
    by (intro mult_right_mono) auto
  also have "\<dots> \<le> 2 ^ LENGTH('s) - 1" 
    using div_mult_mod_eq [of "2 ^ LENGTH('s) - 1" "uint w"] pos_mod_sign [OF d, of "2 ^ LENGTH('s) - 1"]
    by linarith
  finally show ?thesis by (simp add: uint_word_ariths mod_pos_pos_trivial)
qed

lemma export_values_cases:
  fixes values_at out_at n w :: "'s::len word"
  assumes conv: "\<And>v old. \<bar>sint v\<bar> \<le> 2 ^ 31 \<Longrightarrow> convert v (Some old) = (LINEARS_OK, Some (g v))"
    and len: "unat n \<le> length vs" "unat n \<le> length out"
    and w: "w \<noteq> 0" "(8 :: 's word) \<noteq> 0"
    and run: "export_values w convert values_at vs n out_at out = (st, out')"
  shows "st \<noteq> LINEARS_OK \<Longrightarrow> out' = out"
    and "st = LINEARS_OK \<Longrightarrow> list_all (\<lambda>v. \<bar>sint v\<bar> \<le> 2 ^ 31) (take (unat n) vs)
      \<and> out' = map g (take (unat n) vs) @ drop (unat n) out
      \<and> (n = 0 \<or> uint values_at + uint n * uint (8 :: 's word) \<le> uint out_at
           \<or> uint out_at + uint n * uint w \<le> uint values_at)"
proof -
  have range: "(v <s - LINEARS_FIXED_ONE \<or> LINEARS_FIXED_ONE <s v) \<longleftrightarrow> \<not> \<bar>sint v\<bar> \<le> 2 ^ 31" for v
    by (auto simp: word_sless_alt LINEARS_FIXED_ONE_def)
  show "st \<noteq> LINEARS_OK \<Longrightarrow> out' = out"
    using run by (auto simp: export_values_def split: if_splits)
  assume ok: "st = LINEARS_OK"
  then have chk: "n \<le> - 1 div 8" "n \<le> - 1 div w" "n * 8 \<le> - 1 - values_at" "n * w \<le> - 1 - out_at"
      "\<not> overlaps values_at (n * 8) out_at (n * w)"
      "list_all (\<lambda>v. \<bar>sint v\<bar> \<le> 2 ^ 31) (take (unat n) vs)"
    and out: "out' = foldl (\<lambda>o' i. case snd (convert (vs ! i) (Some (o' ! i))) of
         None \<Rightarrow> o' | Some q \<Rightarrow> o'[i := q]) out [0..<unat n]"
    using run unfolding export_values_def range
    by (auto simp: not_less list_ex_iff list_all_iff split: if_splits)
  have "out' = map (\<lambda>i. g (vs ! i)) [0..<unat n] @ drop (unat n) out"
    unfolding out
  proof (rule foldl_update_map)
    fix i o'
    assume "i < unat n"
    with chk(6) len(1) have "\<bar>sint (vs ! i)\<bar> \<le> 2 ^ 31" by (simp add: list_all_length)
    then show "(case snd (convert (vs ! i) (Some (o' ! i))) of None \<Rightarrow> o' | Some q \<Rightarrow> o'[i := q]) = o'[i := g (vs ! i)]"
      by (simp add: conv)
  qed (rule len)
  also have "map (\<lambda>i. g (vs ! i)) [0..<unat n] = map g (take (unat n) vs)"
    using len(1) by (auto intro: nth_equalityI)
  finally have o: "out' = map g (take (unat n) vs) @ drop (unat n) out" .
  have zero: "n = 0" if "n * v = 0" "n \<le> - 1 div v" "v \<noteq> 0" for v
    using uint_mult_width [OF that(2,3)] that by (simp add: uint_0_iff)
  have "n = 0 \<or> uint values_at + uint (n * 8) \<le> uint out_at \<or> uint out_at + uint (n * w) \<le> uint values_at"
    using overlaps_disjoint [OF chk(5,3,4)] zero [of 8] zero [of w] chk(1,2) w by blast
  then show "list_all (\<lambda>v. \<bar>sint v\<bar> \<le> 2 ^ 31) (take (unat n) vs)
      \<and> out' = map g (take (unat n) vs) @ drop (unat n) out
      \<and> (n = 0 \<or> uint values_at + uint n * uint (8 :: 's word) \<le> uint out_at
           \<or> uint out_at + uint n * uint w \<le> uint values_at)"
    using chk(6) o uint_mult_width [OF chk(1) w(2)] uint_mult_width [OF chk(2) w(1)] by simp
qed

section \<open>Properties\<close>

text \<open>
  C7: \<open>linears_fixed_mul\<close> rejects a NULL output; otherwise it stores the product of the two raw
  values divided by \<open>2^31\<close> and rounded once to nearest, halfway cases away from zero, when
  that integer fits a signed 64-bit value, and reports RANGE with the output unchanged when
  it does not.
\<close>

theorem fixed_mul_correct:
  "linears_fixed_mul a b out =
     (case out of
        None \<Rightarrow> (LINEARS_ERROR_ARGUMENT, None)
      | Some old \<Rightarrow>
          let r = round_away (sint a * sint b) (2 ^ 31)
          in if - (2 ^ 63) \<le> r \<and> r < 2 ^ 63 then (LINEARS_OK, Some (word_of_int r))
             else (LINEARS_ERROR_RANGE, Some old))"
  by (cases out) (simp_all add: fx_mul.null_argument [of "(a, b)", simplified]
      fx_mul.cell [of "(a, b)", simplified] check_i64_def Let_def)

text \<open>
  \<open>linears_fixed_muldiv\<close> divides the exact 128-bit product by the divisor with a single
  rounding to nearest, away from zero on ties; a zero divisor is a DOMAIN error, a quotient
  that does not fit 64 bits a RANGE error, and no failure touches the output.
\<close>

theorem fixed_muldiv_correct:
  "linears_fixed_muldiv a b d out =
     (case out of
        None \<Rightarrow> (LINEARS_ERROR_ARGUMENT, None)
      | Some old \<Rightarrow>
          if d = 0 then (LINEARS_ERROR_DOMAIN, Some old)
          else let r = round_away (sint a * sint b) (sint d)
               in if - (2 ^ 63) \<le> r \<and> r < 2 ^ 63 then (LINEARS_OK, Some (word_of_int r))
                  else (LINEARS_ERROR_RANGE, Some old))"
  by (cases out) (simp_all add: fx_muldiv.null_argument [of "(a, b, d)", simplified]
      fx_muldiv.cell [of "(a, b, d)", simplified] muldiv_result_def check_i64_def Let_def)

text \<open>
  C16: a successful product or quotient of working values differs from the exact real result
  by at most \<open>2^-32\<close>, where a raw integer \<open>n\<close> stands for the real \<open>n / 2^31\<close>.
\<close>

theorem fixed_product_error:
  "(linears_fixed_mul a b (Some old) = (LINEARS_OK, Some r) \<longrightarrow>
      \<bar>real_of_int (sint r) / 2 ^ 31 - (sint a / 2 ^ 31) * (sint b / 2 ^ 31)\<bar> \<le> 1 / 2 ^ 32)
   \<and> (linears_fixed_div a b (Some old) = (LINEARS_OK, Some q) \<longrightarrow>
      \<bar>real_of_int (sint q) / 2 ^ 31 - (sint a / 2 ^ 31) / (sint b / 2 ^ 31)\<bar> \<le> 1 / 2 ^ 32)"
proof (intro conjI impI)
  assume "linears_fixed_mul a b (Some old) = (LINEARS_OK, Some r)"
  then have r: "sint r = round_away (sint a * sint b) (2 ^ 31)"
    using fx_mul.ok_value [of "(a, b)" old] by (auto dest: check_i64_Inr)
  have "(sint a / 2 ^ 31) * (sint b / 2 ^ 31) * 2 ^ 31 = real_of_int (sint a * sint b) / real_of_int (2 ^ 31)"
    by simp
  then show "\<bar>real_of_int (sint r) / 2 ^ 31 - (sint a / 2 ^ 31) * (sint b / 2 ^ 31)\<bar> \<le> 1 / 2 ^ 32"
    using round_away_error [of "2 ^ 31" "sint a * sint b"] unfolding r by (intro scaled_error) simp
next
  assume ok: "linears_fixed_div a b (Some old) = (LINEARS_OK, Some q)"
  then have b: "b \<noteq> 0" by (auto simp: linears_fixed_div_def)
  then have sb: "sint b \<noteq> 0" by (simp add: sint_0_iff)
  from ok b have q: "sint q = round_away (sint a * 2 ^ 31) (sint b)"
    using fx_div.ok_value [of "(a, b)" old] by (auto simp: div_result_def dest: check_i64_Inr)
  have "(sint a / 2 ^ 31) / (sint b / 2 ^ 31) * 2 ^ 31 = real_of_int (sint a * 2 ^ 31) / real_of_int (sint b)"
    by simp
  then show "\<bar>real_of_int (sint q) / 2 ^ 31 - (sint a / 2 ^ 31) / (sint b / 2 ^ 31)\<bar> \<le> 1 / 2 ^ 32"
    using round_away_error [OF sb, of "sint a * 2 ^ 31"] unfolding q by (intro scaled_error) simp
qed

theorem fixed_product_error_witness:
  "linears_fixed_mul 3221225472 (- 4294967296) (Some 0) = (LINEARS_OK, Some (- 6442450944))
   \<and> \<bar>real_of_int (sint (- 6442450944 :: i64)) / 2 ^ 31
       - (sint (3221225472 :: i64) / 2 ^ 31) * (sint (- 4294967296 :: i64) / 2 ^ 31)\<bar> \<le> 1 / 2 ^ 32"
proof -
  have "linears_fixed_mul 3221225472 (- 4294967296) (Some 0) = (LINEARS_OK, Some (- 6442450944))"
    by code_simp
  with fixed_product_error show ?thesis by blast
qed

text \<open>
  C17: the square root of a nonnegative working value always succeeds and is within \<open>2^-32\<close> of
  the real square root: the stored raw value is the nearest integer to the root of the
  radicand \<open>raw * 2^31\<close>, for the one-limb and the two-limb restoring loop alike.
\<close>

theorem fixed_sqrt_correct:
  assumes v: "0 \<le> sint v"
  shows "\<exists>q. linears_fixed_sqrt v (Some old) = (LINEARS_OK, Some q)
    \<and> nearest_sqrt (sint v * 2 ^ 31) (sint q)
    \<and> \<bar>real_of_int (sint q) / 2 ^ 31 - sqrt (sint v / 2 ^ 31)\<bar> \<le> 1 / 2 ^ 32"
proof -
  obtain q where q: "linears_fixed_sqrt v (Some old) = (LINEARS_OK, Some q)"
    and n: "nearest_sqrt (sint v * 2 ^ 31) (sint q)"
    using linears_fixed_sqrt_spec [OF v] by blast
  have p: "(2 ^ 31 :: real) = sqrt ((2 ^ 31)\<^sup>2)" by (simp only: real_sqrt_abs) simp
  have "sqrt (sint v / 2 ^ 31) * 2 ^ 31 = sqrt ((sint v / 2 ^ 31) * (2 ^ 31)\<^sup>2)"
    by (subst (2) p) (simp only: real_sqrt_mult)
  also have "(sint v / 2 ^ 31) * (2 ^ 31)\<^sup>2 = real_of_int (sint v * 2 ^ 31)" by simp
  finally have "\<bar>real_of_int (sint q) / 2 ^ 31 - sqrt (sint v / 2 ^ 31)\<bar> \<le> 1 / 2 ^ 32"
    using nearest_sqrt_error [OF n] v by (intro scaled_error) simp
  with q n show ?thesis by blast
qed

theorem fixed_sqrt_correct_witness:
  "0 \<le> sint (4294967296 :: i64)
   \<and> (\<exists>q. linears_fixed_sqrt 4294967296 (Some 7) = (LINEARS_OK, Some q)
        \<and> nearest_sqrt (sint (4294967296 :: i64) * 2 ^ 31) (sint q)
        \<and> \<bar>real_of_int (sint q) / 2 ^ 31 - sqrt (sint (4294967296 :: i64) / 2 ^ 31)\<bar> \<le> 1 / 2 ^ 32)"
proof -
  have h: "0 \<le> sint (4294967296 :: i64)" by simp
  from fixed_sqrt_correct [OF h, of 7] h show ?thesis by blast
qed

text \<open>
  C4: multiply-accumulate keeps every bit: running \<open>linears_fixed_mac\<close> over a list of factor
  pairs succeeds exactly when every partial sum fits the signed 128-bit accumulator, and then
  the accumulator holds the exact sum of the products.
\<close>

theorem mac_list_exact:
  "(if prefix_sums_fit (- (2 ^ 127)) (2 ^ 127) (accum_val acc) (map (\<lambda>(a, b). sint a * sint b) ps)
    then \<exists>acc'. accumulate_all mac_step acc ps = (LINEARS_OK, acc')
           \<and> accum_val acc' = accum_val acc + (\<Sum>(a, b)\<leftarrow>ps. sint a * sint b)
    else fst (accumulate_all mac_step acc ps) = LINEARS_ERROR_RANGE)"
  using mac.accumulate_exact [of acc ps] mac.accumulate_refuses [of acc ps] by simp

text \<open>
  The mean of an exact accumulator is quantised to q15 with one rounding: flooring the
  division by the count first does not change the nearest-away result. A zero count is a DOMAIN
  error, a mean outside \<open>[-1, 1]\<close> a RANGE error, and the value \<open>+1\<close> becomes the largest q15.
\<close>

theorem accum_mean_q15_correct:
  "linears_accum_mean_q15 acc n out =
     (case out of
        None \<Rightarrow> (LINEARS_ERROR_ARGUMENT, None)
      | Some old \<Rightarrow>
          if n = 0 then (LINEARS_ERROR_DOMAIN, Some old)
          else if \<bar>accum_val acc\<bar> \<le> uint n * 2 ^ 62
          then (LINEARS_OK,
                Some (word_of_int (min (round_away (accum_val acc) (uint n * 2 ^ 47)) (2 ^ 15 - 1))))
          else (LINEARS_ERROR_RANGE, Some old))"
  by (cases out) (simp_all add: linears_accum_mean_q15_spec linears_accum_mean_q15_def [of _ _ None])

end
