(* ===== verification/Memory.thy ===== *)
theory Memory
  imports Prelude "HOL-Library.Monad_Syntax"
begin

text \<open>
  C arrays as lists with checked accesses. A read or a write outside the object is the value
  \<open>None\<close> of the enclosing computation, so that a theorem which concludes \<open>Some\<close> also states
  that no access was out of bounds.
\<close>

definition buf_read :: "nat \<Rightarrow> 'a list \<Rightarrow> 'a option" where
  "buf_read i xs = (if i < length xs then Some (xs ! i) else None)"

definition buf_write :: "nat \<Rightarrow> 'a \<Rightarrow> 'a list \<Rightarrow> 'a list option" where
  "buf_write i v xs = (if i < length xs then Some (xs[i := v]) else None)"

text \<open>The loop that stores \<open>v\<close> in the first \<open>n\<close> elements.\<close>

fun buf_fill :: "nat \<Rightarrow> 'a \<Rightarrow> 'a list \<Rightarrow> 'a list option" where
  "buf_fill 0 v xs = Some xs"
| "buf_fill (Suc n) v xs = do { ys \<leftarrow> buf_fill n v xs; buf_write n v ys }"

text \<open>C strings: the characters before the first NUL of the object.\<close>

definition NUL :: char where
  "NUL = CHR 0x00"

definition c_str :: "string \<Rightarrow> string" where
  "c_str s = takeWhile (\<lambda>c. c \<noteq> NUL) s"

text \<open>Reading a byte object through a \<open>char\<close> pointer and back.\<close>

definition char_of_byte :: "u8 \<Rightarrow> char" where
  "char_of_byte b = char_of (unat b)"

definition byte_of_char :: "char \<Rightarrow> u8" where
  "byte_of_char c = of_nat (of_char c)"

section \<open>Laws of the accesses\<close>

lemma buf_read_Some [simp]: "i < length xs \<Longrightarrow> buf_read i xs = Some (xs ! i)"
  by (simp add: buf_read_def)

lemma buf_write_length: "buf_write i v xs = Some ys \<Longrightarrow> length ys = length xs"
  by (auto simp: buf_write_def split: if_splits)

lemma buf_write_append [simp]: "buf_write (length p) v (p @ x # q) = Some (p @ v # q)"
  by (simp add: buf_write_def)

lemma buf_write_append_None [simp]: "buf_write (length p) v p = None"
  by (simp add: buf_write_def)

lemma buf_write_at:
  "i = length p \<Longrightarrow> q \<noteq> [] \<Longrightarrow> buf_write i v (p @ q) = Some ((p @ [v]) @ tl q)"
  by (cases q) auto

lemma buf_write_read:
  "buf_write i v xs = Some ys \<Longrightarrow> buf_read j ys = (if j = i then Some v else buf_read j xs)"
  by (auto simp: buf_write_def buf_read_def split: if_splits)

lemma buf_fill_Some: "n \<le> length xs \<Longrightarrow> buf_fill n v xs = Some (replicate n v @ drop n xs)"
proof (induction n)
  case (Suc n)
  then show ?case
    by (simp add: buf_write_def list_update_append replicate_append_same flip: Cons_nth_drop_Suc)
qed simp

lemma those_reads: "those (map (\<lambda>i. buf_read i cs) is) = Some ys \<Longrightarrow> i \<in> set is \<Longrightarrow> i < length cs"
  by (induction "is" arbitrary: ys) (auto simp: buf_read_def split: if_splits)

lemma buf_fill_length: "buf_fill n v xs = Some ys \<Longrightarrow> n \<le> length xs \<and> length ys = length xs"
proof (induction n arbitrary: ys)
  case (Suc n)
  then show ?case by (auto simp: buf_write_def Suc_le_eq split: bind_splits if_splits)
qed simp

lemma buf_two: "buf_fill 2 v [a, b] = Some [v, v]" "those (map (\<lambda>i. buf_read i [p, q]) [0..<2]) = Some [p, q]"
  by (simp_all add: numeral_2_eq_2 buf_write_def)

lemma c_str_append_NUL [simp]: "NUL \<notin> set s \<Longrightarrow> c_str (s @ [NUL]) = s"
  unfolding c_str_def by (subst takeWhile_append2) auto

lemma c_str_clean: "NUL \<notin> set (c_str s)"
  by (auto simp: c_str_def dest: set_takeWhileD)

lemma char_of_byte_inverse [simp]: "char_of_byte (byte_of_char c) = c"
  by (simp add: char_of_byte_def byte_of_char_def unat_of_nat take_bit_eq_mod)

lemma byte_of_char_inverse [simp]: "byte_of_char (char_of_byte b) = b"
proof -
  have "unat b < 256" using unsigned_less [of b] by simp
  then show ?thesis by (simp add: char_of_byte_def byte_of_char_def)
qed

end
