(* ===== verification/Base64.thy ===== *)
theory Base64
  imports Memory
begin

text \<open>
  Model of \<open>libs/base64/src/base64.c\<close>. Characters are \<open>char\<close>, bytes are \<open>u8\<close>, the bit buffers of
  the two loops are 32-bit words as in the source. Loop counters never exceed the length of
  the input object and are naturals; the size formulas, which can wrap, are reduced modulo
  \<open>2 ^ W\<close>, where \<open>W\<close> is the width of \<open>size_t\<close> on the target.
\<close>

section \<open>Tables\<close>



text \<open>The array has a terminating NUL that \<open>sizeof\<close> counts.\<close>

definition base64_lut :: string where
  "base64_lut = ''ABCDEFGHIJKLMNOPQRSTUVWXYZabcdefghijklmnopqrstuvwxyz0123456789+/='' @ [NUL]"

definition decode_table :: "i8 list" where
  "decode_table = [
    -1,-1,-1,-1, -1,-1,-1,-1, -1,-1,-1,-1, -1,-1,-1,-1,
    -1,-1,-1,-1, -1,-1,-1,-1, -1,-1,-1,-1, -1,-1,-1,-1,
    -1,-1,-1,-1, -1,-1,-1,-1, -1,-1,-1,62,  -1,-1,-1,63,
    52,53,54,55, 56,57,58,59, 60,61,-1,-1, -1,-1,-1,-1,
    -1, 0, 1, 2,  3, 4, 5, 6,  7, 8, 9,10, 11,12,13,14,
    15,16,17,18, 19,20,21,22, 23,24,25,-1, -1,-1,-1,-1,
    -1,26,27,28, 29,30,31,32, 33,34,35,36, 37,38,39,40,
    41,42,43,44, 45,46,47,48, 49,50,51,-1, -1,-1,-1,-1,
    -1,-1,-1,-1, -1,-1,-1,-1, -1,-1,-1,-1, -1,-1,-1,-1,
    -1,-1,-1,-1, -1,-1,-1,-1, -1,-1,-1,-1, -1,-1,-1,-1,
    -1,-1,-1,-1, -1,-1,-1,-1, -1,-1,-1,-1, -1,-1,-1,-1,
    -1,-1,-1,-1, -1,-1,-1,-1, -1,-1,-1,-1, -1,-1,-1,-1,
    -1,-1,-1,-1, -1,-1,-1,-1, -1,-1,-1,-1, -1,-1,-1,-1,
    -1,-1,-1,-1, -1,-1,-1,-1, -1,-1,-1,-1, -1,-1,-1,-1,
    -1,-1,-1,-1, -1,-1,-1,-1, -1,-1,-1,-1, -1,-1,-1,-1,
    -1,-1,-1,-1, -1,-1,-1,-1, -1,-1,-1,-1, -1,-1,-1,-1]"

definition base64_char_decode :: "char \<Rightarrow> i8" where
  "base64_char_decode c = decode_table ! of_char c"

text \<open>The decoder selected by \<open>BASE64_USE_RANGE_CHECK_DECODER\<close>; \<open>char\<close> is unsigned here, and
  every bound is an ASCII character.\<close>

definition base64_char_decode_range :: "char \<Rightarrow> i8" where
  "base64_char_decode_range c =
     (let n = of_char c :: nat
      in if of_char (CHR ''A'') \<le> n \<and> n \<le> of_char (CHR ''Z'') then of_nat (n - of_char (CHR ''A''))
         else if of_char (CHR ''a'') \<le> n \<and> n \<le> of_char (CHR ''z'') then of_nat (n - of_char (CHR ''a'') + 26)
         else if of_char (CHR ''0'') \<le> n \<and> n \<le> of_char (CHR ''9'') then of_nat (n - of_char (CHR ''0'') + 52)
         else if c = CHR ''+'' then 62
         else if c = CHR ''/'' then 63
         else -1)"

section \<open>Operations\<close>

text \<open>\<open>str\<close> is NULL or an object of at least \<open>len\<close> characters.\<close>

definition is_base64 :: "string ptr \<Rightarrow> nat \<Rightarrow> bool" where
  "is_base64 str len =
     (case str of None \<Rightarrow> False
      | Some s \<Rightarrow> len \<noteq> 0 \<and> list_all (\<lambda>c. c \<in> set base64_lut) (take len s))"

fun decode_loop :: "string \<Rightarrow> u32 \<Rightarrow> nat \<Rightarrow> nat \<Rightarrow> u8 list \<Rightarrow> (nat \<times> u8 list) option" where
  "decode_loop [] buffer buffer_bits out_index out = Some (out_index, out)"
| "decode_loop (c # cs) buffer buffer_bits out_index out =
     (if c = CHR ''='' then Some (out_index, out)
      else let value = base64_char_decode c
      in if value = -1 then decode_loop cs buffer buffer_bits out_index out
      else let buffer' = shl buffer 6 OR scast value; bits' = buffer_bits + 6
      in if 8 \<le> bits'
         then do {
           out' \<leftarrow> buf_write out_index (ucast (shr buffer' (bits' - 8) AND 0xFF)) out;
           decode_loop cs buffer' (bits' - 8) (out_index + 1) out'
         }
         else decode_loop cs buffer' bits' out_index out)"

definition decoded_size :: "nat \<Rightarrow> string \<Rightarrow> nat" where
  "decoded_size W s =
     (let len = length s;
          padding = (if 0 < len \<and> s ! (len - 1) = CHR ''='' then 1 else 0)
            + (if 1 < len \<and> s ! (len - 2) = CHR ''='' then 1 else 0)
      in (len * 3 mod 2 ^ W div 4 + (2 ^ W - padding)) mod 2 ^ W)"

text \<open>
  The result is the returned size next to the output object; \<open>None\<close> is a write outside the
  output object.
\<close>

definition base64_decode :: "nat \<Rightarrow> string ptr \<Rightarrow> u8 list ptr \<Rightarrow> (nat \<times> u8 list ptr) option" where
  "base64_decode W base64 output =
     (case base64 of None \<Rightarrow> Some (0, output)
      | Some obj \<Rightarrow>
          let s = c_str obj
          in if length s = 0 then Some (0, output)
             else case output of
                 None \<Rightarrow> Some (decoded_size W s, None)
               | Some out \<Rightarrow> do {
                   (n, out') \<leftarrow> decode_loop s 0 0 0 out;
                   Some (n, Some out')
                 })"

definition pack_group :: "u8 list \<Rightarrow> u32" where
  "pack_group chunk =
     ((\<lambda>buffer. shl buffer 8) ^^ (3 - length chunk))
       (foldl (\<lambda>buffer b. shl buffer 8 OR ucast b) 0 chunk)"

text \<open>The inner loop over the four digits of one group; \<open>k\<close> digits are left.\<close>

fun extract_digits :: "nat \<Rightarrow> u32 \<Rightarrow> nat \<Rightarrow> nat \<Rightarrow> nat \<Rightarrow> string \<Rightarrow> string option" where
  "extract_digits 0 buffer bytes_to_process grp output_len out = Some out"
| "extract_digits (Suc k) buffer bytes_to_process grp output_len out =
     (let j = 3 - k; index = grp * 4 + j
      in if output_len \<le> index then Some out
         else do {
           out' \<leftarrow> buf_write index
             (if j < bytes_to_process + 1
              then base64_lut ! unat (shr buffer (18 - j * 6) AND 0x3F)
              else CHR ''='') out;
           extract_digits k buffer bytes_to_process grp output_len out'
         })"

function encode_loop :: "nat \<Rightarrow> u8 list \<Rightarrow> nat \<Rightarrow> nat \<Rightarrow> string \<Rightarrow> string option" where
  "encode_loop i bytes len output_len out =
     (if i < len then
        let bytes_to_process = (if 3 \<le> len - i then 3 else len - i);
            buffer = pack_group (take bytes_to_process (drop i bytes))
        in do {
          out' \<leftarrow> extract_digits 4 buffer bytes_to_process (i div 3) output_len out;
          encode_loop (i + 3) bytes len output_len out'
        }
      else Some out)"
  by pat_completeness auto
termination
  by (relation "measure (\<lambda>(i, bytes, len, output_len, out). len - i)") auto

text \<open>\<open>data\<close> is NULL or an object of at least \<open>len\<close> bytes.\<close>

definition base64_encode ::
  "nat \<Rightarrow> u8 list ptr \<Rightarrow> nat \<Rightarrow> string ptr \<Rightarrow> (nat \<times> string ptr) option" where
  "base64_encode W data len output =
     (case data of None \<Rightarrow> Some (0, output)
      | Some bytes \<Rightarrow>
          if len = 0 then Some (0, output)
          else let output_len = ((len + 2) mod 2 ^ W div 3) * 4 mod 2 ^ W
          in case output of
              None \<Rightarrow> Some (output_len, None)
            | Some out \<Rightarrow> do {
                out' \<leftarrow> encode_loop 0 bytes len output_len out;
                Some (output_len, Some out')
              })"

declare encode_loop.simps [simp del]

section \<open>Reference text\<close>

text \<open>The text of RFC 4648: three octets are a 24-bit number, written as four base-64 digits.\<close>

definition b64_digit :: "nat \<Rightarrow> char" where
  "b64_digit n = base64_lut ! (n mod 64)"

definition b64_quad :: "u8 \<Rightarrow> u8 \<Rightarrow> u8 \<Rightarrow> string" where
  "b64_quad a b c =
     (let n = unat a * 2 ^ 16 + unat b * 2 ^ 8 + unat c
      in [b64_digit (n div 2 ^ 18), b64_digit (n div 2 ^ 12), b64_digit (n div 2 ^ 6), b64_digit n])"

fun b64_text :: "u8 list \<Rightarrow> string" where
  "b64_text [] = []"
| "b64_text [a] = take 2 (b64_quad a 0 0) @ ''==''"
| "b64_text [a, b] = take 3 (b64_quad a b 0) @ ''=''"
| "b64_text (a # b # c # bs) = b64_quad a b c @ b64_text bs"

lemma length_b64_text: "length (b64_text bs) = (length bs + 2) div 3 * 4"
  by (induction bs rule: b64_text.induct) (simp_all add: b64_quad_def Let_def, presburger)

lemma decode_table_blocks:
  "decode_table = replicate 43 (-1) @ [62] @ replicate 3 (-1) @ [63] @ map of_nat [52..<62] @ replicate 7 (-1)
     @ map of_nat [0..<26] @ replicate 6 (-1) @ map of_nat [26..<52] @ replicate 133 (-1)"
  unfolding decode_table_def by (simp add: numeral_eq_Suc del: upt_rec_numeral)

lemma decode_table_nth:
  "n < 256 \<Longrightarrow> decode_table ! n =
     (if 65 \<le> n \<and> n \<le> 90 then of_nat (n - 65) else if 97 \<le> n \<and> n \<le> 122 then of_nat (n - 97 + 26)
      else if 48 \<le> n \<and> n \<le> 57 then of_nat (n - 48 + 52) else if n = 43 then 62 else if n = 47 then 63 else -1)"
proof -
  assume "n < 256"
  then consider "n < 43" | "n = 43" | "44 \<le> n" "n < 47" | "n = 47" | "48 \<le> n" "n < 58" | "58 \<le> n" "n < 65"
    | "65 \<le> n" "n < 91" | "91 \<le> n" "n < 97" | "97 \<le> n" "n < 123" | "123 \<le> n" "n < 256"
    by linarith
  then show ?thesis
    by cases (auto simp: decode_table_blocks nth_append simp del: upt_rec_numeral)
qed

lemma char_decode_equiv: "base64_char_decode c = base64_char_decode_range c"
proof -
  have n: "of_char c < (256::nat)" by simp
  have pm: "c = CHR ''+'' \<longleftrightarrow> of_char c = (43::nat)" "c = CHR ''/'' \<longleftrightarrow> of_char c = (47::nat)"
    by (auto simp flip: of_char_eq_iff [where 'a = nat])
  show ?thesis
    unfolding base64_char_decode_def base64_char_decode_range_def pm Let_def decode_table_nth [OF n] by simp
qed

lemma lut_digits:
  "map base64_char_decode (take 64 base64_lut) = map of_nat [0..<64]"
  "list_all (\<lambda>c. c \<noteq> CHR ''='' \<and> c \<noteq> NUL) (take 64 base64_lut)"
  by (simp_all add: char_decode_equiv base64_char_decode_range_def base64_lut_def NUL_def upt_rec [of _ 64])

lemma length_lut: "length base64_lut = 66"
  by (simp add: base64_lut_def)

lemma char_decode_lut: "k < 64 \<Longrightarrow> base64_char_decode (base64_lut ! k) = of_nat k"
  using arg_cong [OF lut_digits(1), where f = "\<lambda>xs. xs ! k"] by (simp add: length_lut del: upt_rec_numeral)

lemma lut_not_special: "k < 64 \<Longrightarrow> base64_lut ! k \<noteq> CHR ''='' \<and> base64_lut ! k \<noteq> NUL"
  using lut_digits(2) by (auto simp: list_all_length length_lut)

lemma b64_digit_not_special: "b64_digit n \<noteq> CHR ''=''" "b64_digit n \<noteq> NUL"
  using lut_not_special [of "n mod 64"] by (auto simp: b64_digit_def)

lemma char_decode_digit: "base64_char_decode (b64_digit n) = of_nat (n mod 64)"
  by (simp add: b64_digit_def char_decode_lut)

lemma b64_text_no_NUL: "NUL \<notin> set (b64_text bs)"
  by (induction bs rule: b64_text.induct)
    (auto simp: b64_quad_def Let_def NUL_def b64_digit_not_special [symmetric, unfolded NUL_def])

section \<open>Encoding\<close>

lemma unat_pack_group:
  "unat (pack_group [a, b, c]) = unat a * 2 ^ 16 + unat b * 2 ^ 8 + unat c"
proof -
  have s: "unat (x :: u8) < 256" for x using unsigned_less [of x] by simp
  have 0: "unat (ucast a :: u32) = unat a"
    using unat_shl_or_byte [of 0 a] by simp
  have 1: "unat (shl (ucast a :: u32) 8 OR ucast b) = unat a * 2 ^ 8 + unat b"
    using unat_shl_or_byte [of "ucast a" b] s [of a] by (simp add: 0)
  have "unat (shl (ucast a :: u32) 8 OR ucast b) < 2 ^ 24"
    unfolding 1 using s [of a] s [of b] by simp
  from unat_shl_or_byte [OF this, of c] show ?thesis
    by (simp add: pack_group_def 1)
qed

lemma digit_of_buffer:
  "base64_lut ! unat (shr x s AND 0x3F) = b64_digit (unat x div 2 ^ s)" for x :: u32
  by (simp only: unat_and_mask6 unat_shr b64_digit_def)

lemma pack_group_short: "pack_group [a] = pack_group [a, 0, 0]" "pack_group [a, b] = pack_group [a, b, 0]"
  by (simp_all add: pack_group_def numeral_eq_Suc)

lemma extract_digit_step:
  assumes "length p = grp * 4" "grp * 4 + 4 \<le> output_len" "j + k = 3" "length ys \<ge> 4"
  shows "extract_digits (Suc k) x n grp output_len (p @ ys) =
    extract_digits k x n grp output_len
      (p @ ys[j := (if j < n + 1 then b64_digit (unat x div 2 ^ (18 - j * 6)) else CHR ''='')])"
proof -
  have j: "3 - k = j" using assms(3) by simp
  have w: "buf_write (grp * 4 + j) v (p @ ys) = Some (p @ ys[j := v])" for v
    using assms by (simp add: buf_write_def list_update_append)
  show ?thesis
    unfolding extract_digits.simps(2) Let_def j w digit_of_buffer using assms by simp
qed

lemma extract_digits_writes:
  assumes "length p = grp * 4" "grp * 4 + 4 \<le> output_len" "length q = 4"
  shows "extract_digits 4 x n grp output_len (p @ q @ r) =
    Some (p @ map (\<lambda>j. if j < n + 1 then b64_digit (unat x div 2 ^ (18 - j * 6)) else CHR ''='') [0, 1, 2, 3] @ r)"
    (is "_ = Some (p @ map ?D _ @ r)")
proof -
  obtain a b c d where q: "q = [a, b, c, d]" using assms(3) by (auto simp: length_Suc_conv numeral_eq_Suc)
  define D where "D = ?D"
  have step: "extract_digits (Suc k) x n grp output_len (p @ ys) = extract_digits k x n grp output_len (p @ ys[j := D j])"
    if "j + k = 3" "length ys \<ge> 4" for j k ys
    using extract_digit_step [OF assms(1,2) that] by (simp add: D_def del: extract_digits.simps)
  have "extract_digits (Suc 3) x n grp output_len (p @ a # b # c # d # r) =
      extract_digits (Suc 2) x n grp output_len (p @ D 0 # b # c # d # r)"
    using step [of 0 3 "a # b # c # d # r"] by (simp add: numeral_3_eq_3 numeral_2_eq_2 del: extract_digits.simps)
  also have "\<dots> = extract_digits (Suc 1) x n grp output_len (p @ D 0 # D 1 # c # d # r)"
    using step [of 1 2 "D 0 # b # c # d # r"] by (simp add: numeral_2_eq_2 del: extract_digits.simps)
  also have "\<dots> = extract_digits (Suc 0) x n grp output_len (p @ D 0 # D 1 # D 2 # d # r)"
    using step [of 2 1 "D 0 # D 1 # c # d # r"] by (simp add: numeral_2_eq_2 del: extract_digits.simps)
  also have "\<dots> = extract_digits 0 x n grp output_len (p @ D 0 # D 1 # D 2 # D 3 # r)"
    using step [of 3 0 "D 0 # D 1 # D 2 # d # r"] by (simp add: numeral_3_eq_3 del: extract_digits.simps)
  finally have "extract_digits (Suc 3) x n grp output_len (p @ a # b # c # d # r) = Some (p @ map D [0, 1, 2, 3] @ r)"
    by (simp only: extract_digits.simps(1) list.map append.simps)
  moreover have "(4::nat) = Suc 3" by simp
  ultimately show ?thesis by (simp only: q D_def append.simps)
qed

lemma group_text:
  assumes "chunk \<noteq> []" "length chunk \<le> 3"
  shows "map (\<lambda>j. if j < length chunk + 1 then b64_digit (unat (pack_group chunk) div 2 ^ (18 - j * 6)) else CHR ''='') [0, 1, 2, 3]
    = b64_text chunk"
proof -
  from assms consider a where "chunk = [a]" | a b where "chunk = [a, b]" | a b c where "chunk = [a, b, c]"
    by (cases chunk rule: b64_text.cases) auto
  then show ?thesis
    by cases (simp_all add: pack_group_short unat_pack_group b64_quad_def Let_def)
qed

lemma b64_text_take_drop: "b64_text (take 3 bs) @ b64_text (drop 3 bs) = b64_text bs"
  by (cases bs rule: b64_text.cases) (simp_all add: numeral_3_eq_3 numeral_2_eq_2)

lemma encode_loop_step:
  assumes "i < len" "len \<le> length bytes" "length p = i div 3 * 4" "length q = 4" "length p + 4 \<le> output_len"
  shows "encode_loop i bytes len output_len (p @ q @ r) =
    encode_loop (i + 3) bytes len output_len (p @ b64_text (take 3 (drop i (take len bytes))) @ r)"
proof -
  define n where "n = (if 3 \<le> len - i then 3 else len - i)"
  define chunk where "chunk = take n (drop i bytes)"
  have c: "chunk = take 3 (drop i (take len bytes))" "length chunk = n" "chunk \<noteq> []" "n \<le> 3"
    using assms(1,2) by (auto simp: chunk_def n_def drop_take min_def)
  have "extract_digits 4 (pack_group chunk) n (i div 3) output_len (p @ q @ r) = Some (p @ b64_text chunk @ r)"
    using assms(3,5)
    by (simp only: extract_digits_writes [OF assms(3) _ assms(4)] group_text [OF c(3), unfolded c(2), OF c(4)])
  then show ?thesis
    using assms(1) by (subst encode_loop.simps) (simp add: n_def [symmetric] chunk_def [symmetric] c(1) [symmetric] Let_def)
qed

lemma encode_loop_text:
  assumes "len \<le> length bytes" "length p = i div 3 * 4"
    "output_len = length p + length (b64_text (drop i (take len bytes)))" "output_len \<le> length p + length q"
  shows "encode_loop i bytes len output_len (p @ q) =
    Some (p @ b64_text (drop i (take len bytes)) @ drop (length (b64_text (drop i (take len bytes)))) q)"
  using assms
proof (induction "len - i" arbitrary: i p q rule: less_induct)
  case less
  show ?case
  proof (cases "i < len")
    case False
    then show ?thesis by (subst encode_loop.simps) simp
  next
    case True
    define bs where "bs = drop i (take len bytes)"
    have bs: "bs \<noteq> []" "drop (i + 3) (take len bytes) = drop 3 bs"
      using True less.prems(1) by (auto simp: bs_def add.commute)
    have len: "length (b64_text (take 3 bs)) = 4"
      using bs(1) by (cases bs rule: b64_text.cases) (auto simp: b64_quad_def Let_def numeral_3_eq_3)
    have split: "b64_text bs = b64_text (take 3 bs) @ b64_text (drop 3 bs)" by (rule b64_text_take_drop [symmetric])
    have q: "q = take 4 q @ drop 4 q" "length (take 4 q) = 4"
      using less.prems(3,4) by (auto simp: bs_def [symmetric] split len)
    have "encode_loop i bytes len output_len (p @ q)
        = encode_loop (i + 3) bytes len output_len ((p @ b64_text (take 3 bs)) @ drop 4 q)"
      using encode_loop_step [OF True less.prems(1,2) q(2), of output_len "drop 4 q"] less.prems(3)
      by (simp add: bs_def [symmetric] split len)
    also have "\<dots> = Some ((p @ b64_text (take 3 bs)) @ b64_text (drop 3 bs)
        @ drop (length (b64_text (drop 3 bs))) (drop 4 q))"
      unfolding bs(2) [symmetric]
      using div_add_self2 [of 3 i] True less.prems by (intro less.hyps) (auto simp: bs(2) bs_def [symmetric] split len)
    finally show ?thesis by (simp add: bs_def [symmetric] split len add.commute)
  qed
qed

text \<open>
  The complete encoder: with an output object of at least the announced size it writes exactly
  the RFC text and leaves the rest of the object alone.
\<close>

lemma base64_encode_text:
  assumes "0 < len" "len \<le> length bytes" "(len + 2) div 3 * 4 \<le> length out" "(len + 2) div 3 * 4 < 2 ^ W"
  shows "base64_encode W (Some bytes) len (Some out) =
    Some ((len + 2) div 3 * 4,
          Some (b64_text (take len bytes) @ drop ((len + 2) div 3 * 4) out))"
proof -
  have "0 < (len + 2) div 3" using assms(1) by (simp add: div_greater_zero_iff)
  with assms(4) have "(2::nat) ^ 2 < 2 ^ W" by simp
  then have "2 < W" by (simp only: power_strict_increasing_iff)
  then obtain m where "W = 2 + m" using less_imp_le le_Suc_ex by blast
  then have p: "(2::nat) ^ W = 4 * 2 ^ m" by (simp only: power_add) simp
  have "len + 2 < 4 * P" if "(len + 2) div 3 * 4 < 4 * P" for P
  proof -
    have "(len + 2) div 3 * 3 + (len + 2) mod 3 = len + 2" by (rule div_mult_mod_eq)
    moreover have "(len + 2) mod 3 < 3" by simp
    moreover have "(len + 2) div 3 < P" using that by simp
    ultimately show ?thesis by linarith
  qed
  with assms(4) have "len + 2 < 2 ^ W" by (simp add: p)
  then show ?thesis
    using encode_loop_text [of len bytes "[]" 0 "(len + 2) div 3 * 4" out] assms
    by (simp add: base64_encode_def Let_def length_b64_text)
qed


section \<open>Decoding\<close>

lemma of_nat_digit: "(of_nat (unat w div 2 ^ s mod 64) :: u32) = take_bit 6 (shr w s)" for w :: u32
proof -
  have "unat (take_bit 6 (shr w s)) = unat w div 2 ^ s mod 64"
    by (simp only: unsigned_take_bit_eq unat_shr) (simp add: take_bit_eq_mod)
  then have "of_nat (unat (take_bit 6 (shr w s))) = (of_nat (unat w div 2 ^ s mod 64) :: u32)" by simp
  then show ?thesis by simp
qed

lemma low_byte: "(ucast (x AND 0xFF) :: u8) = ucast x" for x :: u32
proof -
  have "(0xFF :: u32) = mask 8" by (simp add: mask_eq_exp_minus_1)
  then show ?thesis by (simp only: take_bit_eq_mask [symmetric]) (rule bit_word_eqI, auto simp: bit_simps)
qed

lemma bit_digit_push:
  "k < 32 \<Longrightarrow> bit (shl x 6 OR take_bit 6 y) k = (if k < 6 then bit y k else bit x (k - 6))" for x y :: u32
  by (auto simp: bit_simps)

lemma bit_shr: "bit (shr w n) k = bit w (n + k)" for w :: u32
  by (simp add: bit_drop_bit_eq)

lemma digits_to_bytes:
  fixes x w :: u32
  defines "x1 \<equiv> shl x 6 OR take_bit 6 (shr w 18)"
  defines "x2 \<equiv> shl x1 6 OR take_bit 6 (shr w 12)"
  defines "x3 \<equiv> shl x2 6 OR take_bit 6 (shr w 6)"
  defines "x4 \<equiv> shl x3 6 OR take_bit 6 (shr w 0)"
  shows "(ucast (shr x2 4) :: u8) = ucast (shr w 16)" 
    "(ucast (shr x3 2) :: u8) = ucast (shr w 8)" "(ucast (shr x4 0) :: u8) = ucast w"
proof -
  have u: "(ucast (shr y i) :: u8) = ucast (shr w j)"
    if "\<And>k. k < 8 \<Longrightarrow> bit y (i + k) = bit w (j + k)" for y :: u32 and i j
    using that by (intro bit_word_eqI) (simp add: bit_ucast_iff bit_shr)
  have b: "k < 32 \<Longrightarrow> bit x1 k = (if k < 6 then bit w (18 + k) else bit x (k - 6))"
    "k < 32 \<Longrightarrow> bit x2 k = (if k < 6 then bit w (12 + k) else bit x1 (k - 6))"
    "k < 32 \<Longrightarrow> bit x3 k = (if k < 6 then bit w (6 + k) else bit x2 (k - 6))"
    "k < 32 \<Longrightarrow> bit x4 k = (if k < 6 then bit w k else bit x3 (k - 6))" for k
    unfolding x1_def x2_def x3_def x4_def by (simp_all only: bit_digit_push bit_shr add_0)
  show "(ucast (shr x2 4) :: u8) = ucast (shr w 16)" by (rule u) (auto simp: b)
  show "(ucast (shr x3 2) :: u8) = ucast (shr w 8)" by (rule u) (auto simp: b)
  have "bit x4 (0 + k) = bit w (0 + k)" if "k < 8" for k using that by (auto simp: b)
  from u [OF this] show "(ucast (shr x4 0) :: u8) = ucast w" by simp
qed

lemma pack_group_bytes:
  "(ucast (shr (pack_group [a, b, c]) 16) :: u8) = a" "(ucast (shr (pack_group [a, b, c]) 8) :: u8) = b"
  "(ucast (pack_group [a, b, c]) :: u8) = c"
  by (rule bit_word_eqI, auto simp: pack_group_def bit_simps dest: bit_imp_le_length)+

lemma scast_digit: "scast (of_nat (n mod 64) :: i8) = (of_nat (n mod 64) :: u32)"
proof -
  have "sint (of_nat (n mod 64) :: i8) = int (n mod 64)"
    using sint_word_of_int_fits [where 'a = 8, of "int (n mod 64)"] by simp
  then show ?thesis by (simp add: scast_eq)
qed

lemma digit_valid: "(of_nat (n mod 64) :: i8) \<noteq> - 1"
proof
  assume "(of_nat (n mod 64) :: i8) = - 1"
  then have "unat (of_nat (n mod 64) :: i8) = unat (- 1 :: i8)" by simp
  then show False using mod_less_divisor [of 64 n] by (simp add: unat_of_nat unsigned_minus_1_eq_mask mask_eq_exp_minus_1)
qed

text \<open>The digit of a 24-bit group that starts at bit \<open>s\<close>.\<close>

definition word_digit :: "u32 \<Rightarrow> nat \<Rightarrow> char" where
  "word_digit w s = b64_digit (unat w div 2 ^ s)"

definition push_digit :: "u32 \<Rightarrow> u32 \<Rightarrow> nat \<Rightarrow> u32" where
  "push_digit x w s = shl x 6 OR take_bit 6 (shr w s)"

lemma decode_loop_digit:
  "decode_loop (word_digit w s # cs) x k oi out =
    (if 2 \<le> k
     then do {
       out' \<leftarrow> buf_write oi (ucast (shr (push_digit x w s) (k - 2))) out;
       decode_loop cs (push_digit x w s) (k - 2) (oi + 1) out'
     }
     else decode_loop cs (push_digit x w s) (k + 6) oi out)"
  by (simp add: word_digit_def push_digit_def of_nat_digit [symmetric] digit_valid b64_digit_not_special
      char_decode_digit scast_digit Let_def low_byte)

lemma decode_loop_pad: "decode_loop (CHR ''='' # cs) x k oi out = Some (oi, out)"
  by simp

declare decode_loop.simps(2) [simp del]

lemma decode_digit_first:
  "decode_loop (word_digit w s # cs) x 0 oi out = decode_loop cs (push_digit x w s) 6 oi out"
  by (simp add: decode_loop_digit)

lemma decode_digit_next:
  assumes "k = k' + 2" "oi = length p"
  shows "decode_loop (word_digit w s # cs) x k oi (p @ y # q) =
    decode_loop cs (push_digit x w s) k' (length (p @ [y]))
      ((p @ [ucast (shr (push_digit x w s) k')]) @ q)"
  using assms by (simp add: decode_loop_digit)

lemma push_digits_bytes:
  "ucast (shr (push_digit (push_digit x (pack_group [a, b, c]) 18) (pack_group [a, b, c]) 12) 4) = a"
  "ucast (shr (push_digit (push_digit (push_digit x (pack_group [a, b, c]) 18)
      (pack_group [a, b, c]) 12) (pack_group [a, b, c]) 6) 2) = b"
  "ucast (shr (push_digit (push_digit (push_digit (push_digit x (pack_group [a, b, c]) 18)
      (pack_group [a, b, c]) 12) (pack_group [a, b, c]) 6) (pack_group [a, b, c]) 0) 0) = c"
  by (simp_all only: push_digit_def digits_to_bytes pack_group_bytes)

lemma b64_quad_digits:
  "b64_quad a b c = map (word_digit (pack_group [a, b, c])) [18, 12, 6, 0]"
  by (simp add: b64_quad_def unat_pack_group Let_def word_digit_def)

lemma decode_pair:
  assumes "w = pack_group [a, b, c]"
  shows "decode_loop (word_digit w 18 # word_digit w 12 # cs) x 0 (length p) (p @ y # q)
    = decode_loop cs (push_digit (push_digit x w 18) w 12) 4 (length p + 1) (p @ a # q)"
  using assms by (simp add: decode_digit_first decode_digit_next [of 6 4] push_digits_bytes)

lemma decode_triple:
  assumes "w = pack_group [a, b, c]"
  shows "decode_loop (word_digit w 18 # word_digit w 12 # word_digit w 6 # cs) x 0 (length p) (p @ y # z # q)
    = decode_loop cs (push_digit (push_digit (push_digit x w 18) w 12) w 6) 2 (length p + 2) (p @ a # b # q)"
  using assms decode_digit_next [of 4 2 "length p + 1" "p @ [a]" w 6 cs _ z q]
  by (simp add: decode_digit_first decode_digit_next [of 6 4] push_digits_bytes)

lemma decode_quad:
  assumes "w = pack_group [a, b, c]"
  shows "decode_loop (word_digit w 18 # word_digit w 12 # word_digit w 6 # word_digit w 0 # cs) x 0
      (length p) (p @ u # y # z # q)
    = decode_loop cs (push_digit (push_digit (push_digit (push_digit x w 18) w 12) w 6) w 0) 0
        (length p + 3) (p @ a # b # c # q)"
  using assms decode_digit_next [of 2 0 "length p + 2" "p @ [a, b]" w 0 cs _ z q]
    push_digits_bytes(3) [of x a b c]
  by (simp add: decode_triple numeral_3_eq_3)

lemma decode_text:
  assumes "length bs \<le> length q"
  shows "decode_loop (b64_text bs) x 0 (length p) (p @ q) = Some (length p + length bs, p @ bs @ drop (length bs) q)"
  using assms
proof (induction bs arbitrary: x p q rule: b64_text.induct)
  case (2 a)
  then obtain y q' where q: "q = y # q'" by (cases q) auto
  show ?case by (simp add: b64_quad_digits decode_pair decode_loop_pad q)
next
  case (3 a b)
  then obtain y z q' where q: "q = y # z # q'" by (cases q; cases "tl q") auto
  show ?case by (simp add: b64_quad_digits decode_triple decode_loop_pad q)
next
  case (4 a b c bs)
  then obtain u y z q' where q: "q = u # y # z # q'"
    by (cases q; cases "tl q"; cases "tl (tl q)") auto
  show ?case using 4(1) [of q' _ "p @ [a, b, c]"] 4(2)
    by (simp add: q b64_quad_digits decode_quad numeral_3_eq_3)
qed simp

lemma base64_decode_text:
  assumes "bs \<noteq> []" "length bs \<le> length out"
  shows "base64_decode W (Some (b64_text bs @ [NUL])) (Some out) = Some (length bs, Some (bs @ drop (length bs) out))"
proof -
  have "b64_text bs \<noteq> []" using assms(1) by (cases bs rule: b64_text.cases) (auto simp: b64_quad_def Let_def)
  with decode_text [of bs out 0 "[]"] assms(2) show ?thesis
    by (simp add: base64_decode_def b64_text_no_NUL Let_def)
qed

section \<open>Sizes\<close>

text \<open>The digits of a text: what the decoder consumes before the first padding character.\<close>

definition digits_of :: "string \<Rightarrow> string" where
  "digits_of s = filter (\<lambda>c. base64_char_decode c \<noteq> -1) (takeWhile (\<lambda>c. c \<noteq> CHR ''='') s)"

lemma decode_loop_length:
  assumes "k < 8" "k mod 2 = 0"
  shows "(\<exists>out'. decode_loop s x k oi out = Some (oi + (6 * length (digits_of s) + k) div 8, out') \<and> length out' = length out)
    \<or> (decode_loop s x k oi out = None \<and> length out < oi + (6 * length (digits_of s) + k) div 8)"
  using assms
proof (induction s arbitrary: x k oi out)
  case (Cons c s)
  consider "c = CHR ''=''" | "c \<noteq> CHR ''=''" "base64_char_decode c = -1"
    | "c \<noteq> CHR ''=''" "base64_char_decode c \<noteq> -1" by blast
  then show ?case
  proof cases
    case 3
    then have d: "digits_of (c # s) = c # digits_of s" by (simp add: digits_of_def)
    define x' where "x' = shl x 6 OR scast (base64_char_decode c)"
    show ?thesis
    proof (cases "2 \<le> k")
      case True
      define v :: u8 where "v = ucast (shr x' (k - 2) AND 0xFF)"
      have e: "decode_loop (c # s) x k oi out =
          (buf_write oi v out \<bind> decode_loop s x' (k - 2) (oi + 1))"
        using 3 True by (simp add: decode_loop.simps(2) x'_def v_def Let_def)
      have n: "oi + 1 + (6 * length (digits_of s) + (k - 2)) div 8 = oi + (6 * length (digits_of (c # s)) + k) div 8"
        using True by (simp add: d)
      show ?thesis
      proof (cases "oi < length out")
        case True
        then show ?thesis
          using Cons.IH [of "k - 2" x' "oi + 1" "out[oi := v]"] Cons.prems \<open>2 \<le> k\<close>
          unfolding e n by (auto simp: buf_write_def)
      next
        case False
        then show ?thesis unfolding e n [symmetric] by (simp add: buf_write_def)
      qed
    next
      case False
      then have k0: "k = 0" using Cons.prems by (cases k; cases "k - 1") auto
      have "decode_loop (c # s) x k oi out = decode_loop s x' 6 oi out"
        using 3 by (simp add: decode_loop.simps(2) x'_def k0 Let_def)
      then show ?thesis using Cons.IH [of 6 x' oi out] by (simp add: d k0 algebra_simps)
    qed
  qed (use Cons in \<open>simp_all add: decode_loop.simps(2) digits_of_def\<close>)
qed (simp add: digits_of_def)

end
