(* ===== verification/Base64_Native.thy ===== *)
theory Base64_Native
  imports Base64
begin

text \<open>
  Model of \<open>native_modules/xhive/base64/base64.c\<close>, the build tool's Lua module. The Lua API and
  the allocator are parameters: \<open>checklstring lua n\<close> is the string argument \<open>n\<close> or \<open>None\<close> when
  \<open>luaL_checklstring\<close> raises, and \<open>malloc n\<close> is a fresh object with arbitrary contents or \<open>None\<close>
  for NULL. A Lua string is followed by a NUL byte. The result is the value pushed, or the
  message of the error raised; the outer \<open>None\<close> is an access outside an object.
\<close>

datatype lua_result =
    Lua_Bad_Argument
  | Lua_Raise string
  | Lua_String string
  | Lua_Boolean bool

definition is_valid_string :: "string ptr \<Rightarrow> nat \<Rightarrow> bool" where
  "is_valid_string str len \<longleftrightarrow> str \<noteq> None \<and> 0 < len"

definition is_b64_char :: "char \<Rightarrow> bool" where
  "is_b64_char c \<longleftrightarrow>
     (let n = of_char c :: nat
      in (of_char (CHR ''A'') \<le> n \<and> n \<le> of_char (CHR ''Z''))
       \<or> (of_char (CHR ''a'') \<le> n \<and> n \<le> of_char (CHR ''z''))
       \<or> (of_char (CHR ''0'') \<le> n \<and> n \<le> of_char (CHR ''9''))
       \<or> c = CHR ''+'' \<or> c = CHR ''/'' \<or> c = CHR ''-'' \<or> c = CHR ''_'')"

fun scan_chars :: "string \<Rightarrow> bool" where
  "scan_chars [] = True"
| "scan_chars (c # cs) =
     (if is_b64_char c then scan_chars cs
      else if c = CHR ''='' then list_all (\<lambda>d. d = CHR ''='') (c # cs)
      else False)"

text \<open>
  The loop \<open>for (i = len - 1; i >= 0 && str[i] == '='; i--)\<close>: \<open>i\<close> is unsigned, so the test
  \<open>i >= 0\<close> never ends it and after index \<open>0\<close> the loop reads \<open>str[SIZE_MAX]\<close>.
\<close>

fun count_padding :: "string \<Rightarrow> nat \<Rightarrow> nat \<Rightarrow> nat option" where
  "count_padding str 0 n = (if str ! 0 = CHR ''='' then None else Some n)"
| "count_padding str (Suc i) n =
     (if str ! Suc i = CHR ''='' then count_padding str i (n + 1) else Some n)"

definition is_valid_base64_string :: "string ptr \<Rightarrow> nat \<Rightarrow> bool option" where
  "is_valid_base64_string str len =
     (if \<not> is_valid_string str len then Some False
      else case str of None \<Rightarrow> Some False
        | Some s \<Rightarrow>
            if \<not> scan_chars (take len s) then Some False
            else if len < 4 then Some False
            else do {
              padding_count \<leftarrow> count_padding s (len - 1) 0;
              Some (\<not> 2 < padding_count)
            })"

definition lua_encode ::
  "('l \<Rightarrow> nat \<Rightarrow> string option) \<Rightarrow> (nat \<Rightarrow> u8 list option) \<Rightarrow> nat \<Rightarrow> 'l \<Rightarrow> lua_result option" where
  "lua_encode checklstring malloc W lua =
     (case checklstring lua 1 of
        None \<Rightarrow> Some Lua_Bad_Argument
      | Some input_str \<Rightarrow>
          let input_len = length input_str; bytes = map byte_of_char input_str
          in if \<not> is_valid_string (Some input_str) input_len
             then Some (Lua_Raise ''Input must be a non-empty string'')
             else do {
               (encoded_len, _) \<leftarrow> base64_encode W (Some bytes) input_len None;
               if encoded_len = 0 then Some (Lua_Raise ''Failed to calculate encoded size'')
               else case malloc ((encoded_len + 1) mod 2 ^ W) of
                   None \<Rightarrow> Some (Lua_Raise ''Memory allocation failed'')
                 | Some obj \<Rightarrow> do {
                     (actual_len, r) \<leftarrow> base64_encode W (Some bytes) input_len (Some (map char_of_byte obj));
                     encoded_str \<leftarrow> r;
                     if actual_len = 0 then Some (Lua_Raise ''Base64 encoding failed'')
                     else do {
                       encoded_str' \<leftarrow> buf_write actual_len NUL encoded_str;
                       Some (Lua_String (take actual_len encoded_str'))
                     }
                   }
             })"

definition lua_decode ::
  "('l \<Rightarrow> nat \<Rightarrow> string option) \<Rightarrow> (nat \<Rightarrow> u8 list option) \<Rightarrow> nat \<Rightarrow> 'l \<Rightarrow> lua_result option" where
  "lua_decode checklstring malloc W lua =
     (case checklstring lua 1 of
        None \<Rightarrow> Some Lua_Bad_Argument
      | Some base64_str \<Rightarrow>
          let base64_len = length base64_str; obj = base64_str @ [NUL]
          in do {
            valid \<leftarrow> is_valid_base64_string (Some obj) base64_len;
            if \<not> valid then Some (Lua_Raise ''Input must be a valid Base64 encoded string'')
            else do {
              (decoded_len, _) \<leftarrow> base64_decode W (Some obj) None;
              if decoded_len = 0 then Some (Lua_Raise ''Invalid Base64 format or decode failed'')
              else case malloc ((decoded_len + 1) mod 2 ^ W) of
                  None \<Rightarrow> Some (Lua_Raise ''Memory allocation failed'')
                | Some buf \<Rightarrow> do {
                    (actual_len, r) \<leftarrow> base64_decode W (Some obj) (Some buf);
                    decoded_str \<leftarrow> r;
                    if actual_len = 0 then Some (Lua_Raise ''Base64 decoding failed'')
                    else do {
                      decoded_str' \<leftarrow> buf_write actual_len 0 decoded_str;
                      Some (Lua_String (map char_of_byte (take actual_len decoded_str')))
                    }
                  }
            }
          })"

definition lua_is_valid :: "('l \<Rightarrow> nat \<Rightarrow> string option) \<Rightarrow> 'l \<Rightarrow> lua_result option" where
  "lua_is_valid checklstring lua =
     (case checklstring lua 1 of
        None \<Rightarrow> Some Lua_Bad_Argument
      | Some input_str \<Rightarrow> do {
          valid \<leftarrow> is_valid_base64_string (Some (input_str @ [NUL])) (length input_str);
          Some (Lua_Boolean valid)
        })"

section \<open>The validity check\<close>

lemma b64_char_ascii: "is_b64_char c \<Longrightarrow> c \<noteq> NUL \<and> c \<noteq> CHR ''=''"
  by (auto simp: is_b64_char_def NUL_def)

lemma last_b64_char: "list_all is_b64_char body \<Longrightarrow> body \<noteq> [] \<Longrightarrow> last body \<noteq> CHR ''=''"
  using b64_char_ascii last_in_set by (fastforce simp: list_all_iff)

lemma all_eq_replicate: "list_all (\<lambda>d. d = x) xs \<longleftrightarrow> (\<exists>n. xs = replicate n x)"
proof
  assume "list_all (\<lambda>d. d = x) xs"
  then have "xs = replicate (length xs) x" by (intro replicate_length_same [symmetric]) (auto simp: list_all_iff)
  then show "\<exists>n. xs = replicate n x" ..
qed (auto simp: list_all_iff)

lemma scan_chars_iff:
  "scan_chars s \<longleftrightarrow> (\<exists>body n. s = body @ replicate n (CHR ''='') \<and> list_all is_b64_char body)"
proof (induction s)
  case (Cons c s)
  have eq: "\<not> is_b64_char (CHR ''='')" by (simp add: is_b64_char_def)
  show ?case
  proof (cases "is_b64_char c")
    case True
    have "(\<exists>body n. c # s = body @ replicate n (CHR ''='') \<and> list_all is_b64_char body)
        \<longleftrightarrow> (\<exists>body n. s = body @ replicate n (CHR ''='') \<and> list_all is_b64_char body)" (is "?l = ?r")
    proof
      assume ?l
      then obtain body n where b: "c # s = body @ replicate n (CHR ''='')" "list_all is_b64_char body" by blast
      with True eq obtain body' where "body = c # body'" by (cases body; cases n) auto
      with b show ?r by (intro exI [of _ body'] exI [of _ n]) simp
    next
      assume ?r
      then obtain body n where "s = body @ replicate n (CHR ''='')" "list_all is_b64_char body" by blast
      with True show ?l by (intro exI [of _ "c # body"] exI [of _ n]) simp
    qed
    with True Cons.IH show ?thesis by simp
  next
    case False
    have "list_all (\<lambda>d. d = CHR ''='') (c # s) \<longleftrightarrow> (\<exists>n. c # s = replicate n (CHR ''=''))"
      by (rule all_eq_replicate)
    moreover have "(\<exists>body n. c # s = body @ replicate n (CHR ''='') \<and> list_all is_b64_char body)
        \<longleftrightarrow> (\<exists>n. c # s = replicate n (CHR ''=''))"
    proof
      assume "\<exists>body n. c # s = body @ replicate n (CHR ''='') \<and> list_all is_b64_char body"
      then obtain body n where "c # s = body @ replicate n (CHR ''='')" "list_all is_b64_char body" by blast
      with False show "\<exists>n. c # s = replicate n (CHR ''='')" by (cases body) auto
    qed (auto intro: exI [of _ "[]"])
    ultimately show ?thesis using False by auto
  qed
qed (auto intro: exI [of _ "[]"] exI [of _ 0])

lemma count_padding_body:
  assumes "body \<noteq> []" "last body \<noteq> CHR ''=''" "k \<le> p"
  shows "count_padding (body @ replicate p (CHR ''='') @ r) (length body + k - 1) n = Some (n + k)"
  using assms(3)
proof (induction k arbitrary: n)
  case 0
  have "(body @ q) ! (length body - 1) \<noteq> CHR ''=''" for q
    using assms(1,2) by (simp add: nth_append last_conv_nth)
  then show ?case by (cases "length body - 1") auto
next
  case (Suc k)
  obtain j where j: "length body + k = Suc j" "length body + k - 1 = j"
    using assms(1) by (cases "length body") auto
  have "(body @ replicate p (CHR ''='') @ r) ! (length body + k) = CHR ''=''"
    using Suc.prems by (simp add: nth_append)
  then show ?case using Suc j by simp
qed

lemma count_padding_all: "i < p \<Longrightarrow> count_padding (replicate p (CHR ''='') @ r) i n = None"
  by (induction i arbitrary: n) (simp_all add: nth_append)

text \<open>A valid string: at least four characters, of which at most the last two are padding.\<close>

lemma is_valid_base64_string_iff:
  assumes "s = body @ replicate p (CHR ''='')" "list_all is_b64_char body"
  shows "is_valid_base64_string (Some (s @ [NUL])) (length s) =
    (if length s < 4 then Some False else if body = [] then None else Some (p \<le> 2))"
proof -
  have "scan_chars s" using assms scan_chars_iff by blast
  moreover have "last body \<noteq> CHR ''=''" if "body \<noteq> []"
    using assms(2) that by (rule last_b64_char)
  then have "count_padding (s @ [NUL]) (length s - 1) 0 = (if body = [] then None else Some p)" if "4 \<le> length s"
    using that assms(1) count_padding_body [of body p p "[NUL]" 0] count_padding_all [of "p - 1" p "[NUL]" 0] by auto
  ultimately show ?thesis
    by (simp add: is_valid_base64_string_def is_valid_string_def) auto
qed

lemma is_valid_base64_stringD:
  assumes "is_valid_base64_string (Some (s @ [NUL])) (length s) = Some True"
  obtains body p where "s = body @ replicate p (CHR ''='')" "list_all is_b64_char body" "body \<noteq> []" "p \<le> 2" "4 \<le> length s"
proof -
  have "scan_chars s" using assms by (auto simp: is_valid_base64_string_def split: if_splits)
  then obtain body p where b: "s = body @ replicate p (CHR ''='')" "list_all is_b64_char body"
    using scan_chars_iff by blast
  with assms show ?thesis
    using is_valid_base64_string_iff [OF b] by (intro that [OF b]) (auto split: if_splits)
qed

section \<open>The size query\<close>

lemma decoded_size_padding:
  assumes s: "s = body @ replicate p (CHR ''='')" and b: "list_all is_b64_char body" "body \<noteq> []" "p \<le> 2"
    and len: "4 \<le> length s" "length s * 3 < 2 ^ W"
  shows "decoded_size W s = length s * 3 div 4 - p"
proof -
  have last: "last body \<noteq> CHR ''=''" using b(1,2) by (rule last_b64_char)
  have "s ! (length s - 1) = CHR ''='' \<longleftrightarrow> 1 \<le> p"
    using s b(2) last by (cases p) (auto simp: nth_append last_conv_nth simp flip: replicate_Suc)
  moreover have "s ! (length s - 2) = CHR ''='' \<longleftrightarrow> p = 2"
  proof -
    consider "p = 0" | "p = 1" | "p = 2" using b(3) by linarith
    then show ?thesis
    proof cases
      case 1
      then have "s ! (length s - 2) \<in> set body" using s len(1) by auto
      with b(1) show ?thesis using 1 b64_char_ascii by (auto simp: list_all_iff)
    qed (use s b(2) last in \<open>auto simp: nth_append last_conv_nth numeral_2_eq_2\<close>)
  qed
  ultimately have "(if 0 < length s \<and> s ! (length s - 1) = CHR ''='' then 1 else 0)
      + (if 1 < length s \<and> s ! (length s - 2) = CHR ''='' then 1 else 0) = p"
    using len(1) b(3) by auto
  then have "decoded_size W s = (length s * 3 mod 2 ^ W div 4 + (2 ^ W - p)) mod 2 ^ W"
    unfolding decoded_size_def Let_def by (simp only:)
  also have "\<dots> = (length s * 3 div 4 - p + 2 ^ W) mod 2 ^ W"
    using len b(3) by (intro arg_cong [where f = "\<lambda>x. x mod 2 ^ W"]) auto
  also have "\<dots> = length s * 3 div 4 - p"
    using len(2) by simp
  finally show ?thesis .
qed

section \<open>Allocation and the two calls\<close>

text \<open>What the C standard says of \<open>malloc\<close>: a non-NULL result is an object of the requested size.\<close>

definition malloc_contract :: "(nat \<Rightarrow> u8 list option) \<Rightarrow> bool" where
  "malloc_contract malloc \<longleftrightarrow> (\<forall>n obj. malloc n = Some obj \<longrightarrow> length obj = n)"

lemma digits_of_le: "s = body @ replicate p (CHR ''='') \<Longrightarrow> list_all is_b64_char body \<Longrightarrow> length (digits_of s) \<le> length body"
proof -
  assume s: "s = body @ replicate p (CHR ''='')" and b: "list_all is_b64_char body"
  have "takeWhile (\<lambda>c. c \<noteq> CHR ''='') s = body"
    using b b64_char_ascii unfolding s by (cases p) (auto simp: takeWhile_append list_all_iff)
  then show ?thesis by (simp add: digits_of_def)
qed

text \<open>
  With a validated argument and memory at hand, the decoder stays inside the allocated object
  exactly when the number of decoded bytes does not exceed the size query.
\<close>

lemma lua_decode_bounds:
  assumes v: "is_valid_base64_string (Some (s @ [NUL])) (length s) = Some True"
    and W: "length s * 3 < 2 ^ W"
    and m: "malloc_contract malloc" "malloc (decoded_size W s + 1) = Some obj"
    and arg: "checklstring lua 1 = Some s" and pos: "decoded_size W s \<noteq> 0"
  shows "lua_decode checklstring malloc W lua = None \<longleftrightarrow> decoded_size W s < 6 * length (digits_of s) div 8"
proof -
  obtain body p where b: "s = body @ replicate p (CHR ''='')" "list_all is_b64_char body" "body \<noteq> []" "p \<le> 2"
    and len: "4 \<le> length s" using is_valid_base64_stringD [OF v] by blast
  have size: "decoded_size W s = length s * 3 div 4 - p" by (rule decoded_size_padding [OF b len W])
  then have fits: "(decoded_size W s + 1) mod 2 ^ W = decoded_size W s + 1" using W len by simp
  have nul: "NUL \<notin> set s" "NUL \<noteq> CHR ''=''" using b(1,2) b64_char_ascii by (auto simp: list_all_iff NUL_def)
  have q: "base64_decode W (Some (s @ [NUL])) None = Some (decoded_size W s, None)"
    using nul len by (auto simp: base64_decode_def Let_def)
  have l: "length obj = decoded_size W s + 1" using m by (simp add: malloc_contract_def)
  define n where "n = 6 * length (digits_of s) div 8"
  from decode_loop_length [of 0 s 0 0 obj]
  consider out' where "decode_loop s 0 0 0 obj = Some (n, out')" "length out' = length obj"
    | "decode_loop s 0 0 0 obj = None" "length obj < n"
    by (auto simp: n_def)
  then show ?thesis
  proof cases
    case 1
    then have d: "base64_decode W (Some (s @ [NUL])) (Some obj) = Some (n, Some out')"
      using nul len by (auto simp: base64_decode_def Let_def)
    show ?thesis
      using v arg pos fits m(2) q d l 1(2)
      by (auto simp: lua_decode_def Let_def buf_write_def n_def [symmetric])
  next
    case 2
    then have d: "base64_decode W (Some (s @ [NUL])) (Some obj) = None"
      using nul len by (auto simp: base64_decode_def Let_def)
    show ?thesis
      using v arg pos fits m(2) q d l 2(2)
      by (auto simp: lua_decode_def Let_def n_def [symmetric])
  qed
qed

section \<open>Properties\<close>

text \<open>
  C18: the encoder writes the RFC 4648 text. For a nonempty input and an output object of at
  least the announced size, \<open>base64_encode\<close> returns \<open>4 * ceil(len / 3)\<close>, stores exactly the
  reference text, pads with \<open>=\<close> and leaves the rest of the output object unchanged; no write is
  out of bounds.
\<close>

theorem base64_encode_correct:
  assumes "0 < len" "len \<le> length bytes" "(len + 2) div 3 * 4 \<le> length out" "(len + 2) div 3 * 4 < 2 ^ W"
  shows "base64_encode W (Some bytes) len (Some out) =
    Some ((len + 2) div 3 * 4, Some (b64_text (take len bytes) @ drop ((len + 2) div 3 * 4) out))"
  using assms by (rule base64_encode_text)

theorem base64_encode_correct_witness:
  "base64_encode 32 (Some [0x4D, 0x61]) 2 (Some ''......'') = Some (4, Some (b64_text [0x4D, 0x61] @ ''..''))"
  using base64_encode_correct [of 2 "[0x4D, 0x61]" "''......''" 32] by simp

text \<open>
  C19: decoding inverts encoding. Encoding any nonempty byte sequence, terminating the text with
  NUL as the header asks, and decoding it into an object with room for the data returns the
  length of the data and restores every byte.
\<close>

theorem base64_roundtrip:
  assumes "bs \<noteq> []" "(length bs + 2) div 3 * 4 = length text_buf" "length text_buf < 2 ^ W" "length bs \<le> length out"
  shows "\<exists>txt. base64_encode W (Some bs) (length bs) (Some text_buf) = Some (length text_buf, Some txt)
    \<and> base64_decode W (Some (txt @ [NUL])) (Some out) = Some (length bs, Some (bs @ drop (length bs) out))"
  using assms base64_encode_text [of "length bs" bs text_buf W] base64_decode_text [of bs out W]
  by simp

theorem base64_roundtrip_witness:
  "\<exists>txt. base64_encode 32 (Some [1, 2, 3, 255]) (length [1, 2, 3, 255 :: u8]) (Some ''........'') = Some (length ''........'', Some txt)
    \<and> base64_decode 32 (Some (txt @ [NUL])) (Some [0, 0, 0, 0, 7])
        = Some (length [1, 2, 3, 255 :: u8], Some ([1, 2, 3, 255] @ drop (length [1, 2, 3, 255 :: u8]) [0, 0, 0, 0, 7]))"
  by (rule base64_roundtrip) simp_all

text \<open>
  The table decoder and the range-check decoder, the two builds of \<open>base64_char_decode\<close>, agree
  on all 256 characters.
\<close>

theorem base64_char_decode_variants: "base64_char_decode c = base64_char_decode_range c"
  by (rule char_decode_equiv)

text \<open>
  C20: the Lua module's \<open>decode\<close> writes inside the object it allocates whenever the validated
  string has a length divisible by four.
\<close>

theorem lua_decode_in_bounds:
  assumes "is_valid_base64_string (Some (s @ [NUL])) (length s) = Some True"
    and "length s mod 4 = 0" "length s * 3 < 2 ^ W"
    and "malloc_contract malloc" "checklstring lua 1 = Some s"
  shows "lua_decode checklstring malloc W lua \<noteq> None"
proof -
  obtain body p where b: "s = body @ replicate p (CHR ''='')" "list_all is_b64_char body" "body \<noteq> []" "p \<le> 2"
    and len: "4 \<le> length s" using is_valid_base64_stringD [OF assms(1)] by blast
  have size: "decoded_size W s = length s * 3 div 4 - p" by (rule decoded_size_padding [OF b len assms(3)])
  then have fits: "(decoded_size W s + 1) mod 2 ^ W = decoded_size W s + 1" using assms(3) len by simp
  have nul: "NUL \<notin> set s" using b(1,2) b64_char_ascii by (auto simp: list_all_iff NUL_def)
  have q: "base64_decode W (Some (s @ [NUL])) None = Some (decoded_size W s, None)"
    using nul len by (auto simp: base64_decode_def Let_def)
  have "length (digits_of s) \<le> length s - p" using digits_of_le [OF b(1,2)] b(1) by simp
  moreover have "6 * d div 8 \<le> n * 3 div 4 - p" if d: "d \<le> n - p" "n mod 4 = 0" "p \<le> 2" "4 \<le> n" for d n
  proof -
    obtain m where m: "n = 4 * m" using d(2) by auto
    have "d + p \<le> 4 * m" "p \<le> 3 * m" using d(1,3,4) unfolding m by linarith+
    then obtain k where "3 * m = p + k" "d + p \<le> 4 * m" using le_Suc_ex by blast
    then have "6 * d < (3 * m - p + 1) * 8" using d(3) by simp
    from less_mult_imp_div_less [OF this] show ?thesis by (simp add: m)
  qed
  ultimately have le: "\<not> decoded_size W s < 6 * length (digits_of s) div 8"
    unfolding size using assms(2) b(4) len by (simp add: not_less)
  show ?thesis
  proof (cases "decoded_size W s = 0 \<or> malloc (decoded_size W s + 1) = None")
    case True
    then show ?thesis using assms(1,5) q fits by (auto simp: lua_decode_def Let_def)
  next
    case False
    then obtain obj where "malloc (decoded_size W s + 1) = Some obj" by auto
    with lua_decode_bounds [OF assms(1,3,4) this, where checklstring = checklstring and lua = lua]
      assms(5) False le show ?thesis by simp
  qed
qed

theorem lua_decode_in_bounds_witness:
  "lua_decode (\<lambda>_ _. Some ''TWE='') (\<lambda>n. Some (replicate n 0)) 64 () \<noteq> None"
proof (rule lua_decode_in_bounds [of "''TWE=''"])
  show "is_valid_base64_string (Some (''TWE='' @ [NUL])) (length ''TWE='') = Some True"
    by (subst is_valid_base64_string_iff [of _ "''TWE''" 1]) (simp_all add: is_b64_char_def)
qed (simp_all add: malloc_contract_def)

text \<open>
  C21: the module accepts \<open>AAAA=\<close> as valid and then writes past the end of the decode buffer: the
  size query gives two bytes, three bytes and the terminator are stored. Every allocator that
  returns an object of the requested size is affected.
\<close>

theorem lua_decode_overflow:
  assumes "malloc_contract malloc" "malloc 3 = Some obj" "checklstring lua 1 = Some ''AAAA=''"
  shows "lua_decode checklstring malloc 64 lua = None"
proof -
  let ?s = "''AAAA=''"
  have v: "is_valid_base64_string (Some (?s @ [NUL])) (length ?s) = Some True"
    by (subst is_valid_base64_string_iff [of _ "''AAAA''" 1]) (simp_all add: is_b64_char_def)
  have size: "decoded_size 64 ?s = 2" by (simp add: decoded_size_def)
  have "length (digits_of ?s) = 4"
    by (simp add: digits_of_def char_decode_equiv base64_char_decode_range_def)
  with lua_decode_bounds [of ?s 64 malloc obj checklstring lua] v size assms show ?thesis by simp
qed

theorem lua_decode_overflow_witness:
  "lua_decode (\<lambda>_ _. Some ''AAAA='') (\<lambda>n. Some (replicate n 0)) 64 () = None"
  by (rule lua_decode_overflow [of _ "[0, 0, 0]"]) (simp_all add: malloc_contract_def numeral_3_eq_3)

lemma is_valid_all_padding_overread: "is_valid_base64_string (Some (''===='' @ [NUL])) 4 = None"
  by (simp add: is_valid_base64_string_def is_valid_string_def is_b64_char_def numeral_3_eq_3)

end
