(* ===== verification/Bitmap.thy ===== *)
theory Bitmap
  imports Memory
begin

text \<open>
  Model of \<open>libs/bitmap/inc/xhive/bitmap.h\<close>. A bitmap is its words and its number of bits. The
  value \<open>None\<close> of an operation is a failed \<open>bitmap_assert\<close> (the program aborts), an access outside
  the data array or an undefined shift. Indices and counters stay below \<open>2^64\<close> and are
  naturals, except in the size computation of \<open>xh_bitmap_create\<close>, which wraps.
\<close>

section \<open>Data and operations\<close>

type_synonym bitdat_t = u64

abbreviation (input) BITDAT_BITS :: nat where "BITDAT_BITS \<equiv> 64"
abbreviation (input) BITDAT_MAX :: bitdat_t where "BITDAT_MAX \<equiv> NOT 0"

text \<open>The value \<open>BITDAT_MAX\<close> as an index result: not found.\<close>

definition NOT_FOUND :: nat where
  "NOT_FOUND = 2 ^ 64 - 1"

record xh_bitmap_t =
  bm_data :: "bitdat_t list"
  bm_bits :: nat

text \<open>
  \<open>malloc_ok\<close> says whether the structure was allocated and \<open>calloc n\<close> is a zeroed array of \<open>n\<close>
  words, or \<open>None\<close> for NULL. The result \<open>None\<close> is NULL.
\<close>

definition xh_bitmap_create :: "bool \<Rightarrow> (nat \<Rightarrow> bitdat_t list option) \<Rightarrow> u64 \<Rightarrow> xh_bitmap_t option" where
  "xh_bitmap_create malloc_ok calloc bits =
     (if malloc_ok
      then case calloc (unat ((bits + 64 - 1) div 64)) of
             None \<Rightarrow> None
           | Some d \<Rightarrow> Some \<lparr>bm_data = d, bm_bits = unat bits\<rparr>
      else None)"

fun fill_words :: "nat \<Rightarrow> nat \<Rightarrow> bitdat_t \<Rightarrow> bitdat_t list \<Rightarrow> bitdat_t list option" where
  "fill_words i 0 v d = Some d"
| "fill_words i (Suc k) v d = do { d' \<leftarrow> buf_write i v d; fill_words (Suc i) k v d' }"

definition xh_bitmap_all_to :: "xh_bitmap_t ptr \<Rightarrow> bool \<Rightarrow> xh_bitmap_t option" where
  "xh_bitmap_all_to bitmap value = do {
     bm \<leftarrow> bitmap;
     let qty = bm_bits bm div BITDAT_BITS;
     let r = bm_bits bm mod BITDAT_BITS;
     d \<leftarrow> fill_words 0 qty (if value then BITDAT_MAX else 0) (bm_data bm);
     d' \<leftarrow> (if r \<noteq> 0
            then buf_write qty (if value then shr (shl (NOT 0) (BITDAT_BITS - r)) (BITDAT_BITS - r) else 0) d
            else Some d);
     Some (bm\<lparr>bm_data := d'\<rparr>)
   }"

definition xh_bitmap_set :: "xh_bitmap_t ptr \<Rightarrow> nat \<Rightarrow> xh_bitmap_t option" where
  "xh_bitmap_set bitmap index = do {
     bm \<leftarrow> bitmap;
     if index < bm_bits bm then do {
       w \<leftarrow> buf_read (index div BITDAT_BITS) (bm_data bm);
       d \<leftarrow> buf_write (index div BITDAT_BITS) (w OR shl 1 (index mod BITDAT_BITS)) (bm_data bm);
       Some (bm\<lparr>bm_data := d\<rparr>)
     } else None
   }"

definition xh_bitmap_clear :: "xh_bitmap_t ptr \<Rightarrow> nat \<Rightarrow> xh_bitmap_t option" where
  "xh_bitmap_clear bitmap index = do {
     bm \<leftarrow> bitmap;
     if index < bm_bits bm then do {
       w \<leftarrow> buf_read (index div BITDAT_BITS) (bm_data bm);
       d \<leftarrow> buf_write (index div BITDAT_BITS) (w AND NOT (shl 1 (index mod BITDAT_BITS))) (bm_data bm);
       Some (bm\<lparr>bm_data := d\<rparr>)
     } else None
   }"

definition xh_bitmap_test :: "xh_bitmap_t ptr \<Rightarrow> nat \<Rightarrow> bool option" where
  "xh_bitmap_test bitmap index = do {
     bm \<leftarrow> bitmap;
     if index < bm_bits bm then do {
       w \<leftarrow> buf_read (index div BITDAT_BITS) (bm_data bm);
       Some (w AND shl 1 (index mod BITDAT_BITS) \<noteq> 0)
     } else None
   }"

text \<open>\<open>__builtin_popcountll\<close>: the number of one bits.\<close>

definition POPCOUNT64 :: "u64 \<Rightarrow> nat" where
  "POPCOUNT64 x = length (filter (bit x) [0..<64])"

fun count_words :: "nat \<Rightarrow> nat \<Rightarrow> bitdat_t list \<Rightarrow> nat \<Rightarrow> nat option" where
  "count_words i 0 d n = Some n"
| "count_words i (Suc k) d n = do { w \<leftarrow> buf_read i d; count_words (Suc i) k d (n + POPCOUNT64 w) }"

definition xh_bitmap_count_set_bits :: "xh_bitmap_t ptr \<Rightarrow> nat option" where
  "xh_bitmap_count_set_bits bitmap = do {
     bm \<leftarrow> bitmap;
     count_words 0 ((bm_bits bm + BITDAT_BITS - 1) mod 2 ^ 64 div BITDAT_BITS) (bm_data bm) 0
   }"

text \<open>
  The searches towards index \<open>0\<close> build the mask as \<open>1U << j\<close>: a 32-bit value, for which a shift
  by 32 or more is undefined.
\<close>

definition mask_1U :: "nat \<Rightarrow> u64 option" where
  "mask_1U j = (if j < 32 then Some (ucast (shl 1 j :: u32)) else None)"

text \<open>The inner loop from bit \<open>j\<close> down to \<open>0\<close>: the position of the first bit equal to \<open>v\<close>.\<close>

fun scan_down :: "u64 \<Rightarrow> bool \<Rightarrow> nat \<Rightarrow> nat option option" where
  "scan_down w v 0 = do { m \<leftarrow> mask_1U 0; Some (if (w AND m \<noteq> 0) = v then Some 0 else None) }"
| "scan_down w v (Suc j) = do {
     m \<leftarrow> mask_1U (Suc j);
     if (w AND m \<noteq> 0) = v then Some (Some (Suc j)) else scan_down w v j
   }"

text \<open>The outer loop from word \<open>i\<close> down to \<open>0\<close>; \<open>j0\<close> is the first bit position in word \<open>i\<close>.\<close>

fun left_words :: "(u64 \<Rightarrow> bool) \<Rightarrow> bool \<Rightarrow> bitdat_t list \<Rightarrow> nat \<Rightarrow> nat \<Rightarrow> nat option" where
  "left_words skip v d 0 j0 = do {
     w \<leftarrow> buf_read 0 d;
     if skip w then Some NOT_FOUND
     else do {
       r \<leftarrow> scan_down w v j0;
       Some (case r of Some j \<Rightarrow> 0 * BITDAT_BITS OR j | None \<Rightarrow> NOT_FOUND)
     }
   }"
| "left_words skip v d (Suc i) j0 = do {
     w \<leftarrow> buf_read (Suc i) d;
     if skip w then left_words skip v d i (BITDAT_BITS - 1)
     else do {
       r \<leftarrow> scan_down w v j0;
       case r of Some j \<Rightarrow> Some (Suc i * BITDAT_BITS OR j) | None \<Rightarrow> left_words skip v d i (BITDAT_BITS - 1)
     }
   }"

definition xh_bitmap_index_of_left_set :: "xh_bitmap_t ptr \<Rightarrow> nat \<Rightarrow> nat option" where
  "xh_bitmap_index_of_left_set bitmap start_index = do {
     bm \<leftarrow> bitmap;
     if start_index < bm_bits bm
     then left_words (\<lambda>w. w = 0) True (bm_data bm) (start_index div BITDAT_BITS) (start_index mod BITDAT_BITS)
     else None
   }"

definition xh_bitmap_index_of_left :: "xh_bitmap_t ptr \<Rightarrow> nat \<Rightarrow> bool \<Rightarrow> nat option" where
  "xh_bitmap_index_of_left bitmap start_index bit_value = do {
     bm \<leftarrow> bitmap;
     if start_index < bm_bits bm
     then left_words (\<lambda>w. (bit_value \<and> w = 0) \<or> (\<not> bit_value \<and> w \<noteq> 0)) bit_value
            (bm_data bm) (start_index div BITDAT_BITS) (start_index mod BITDAT_BITS)
     else None
   }"

text \<open>The search towards higher indices uses a 64-bit mask. \<open>k\<close> bits of the word are left.\<close>

fun scan_up :: "u64 \<Rightarrow> nat \<Rightarrow> nat \<Rightarrow> nat option" where
  "scan_up w j 0 = None"
| "scan_up w j (Suc k) = (if w AND shl 1 j = 0 then scan_up w (Suc j) k else Some j)"

fun right_words :: "nat \<Rightarrow> bitdat_t list \<Rightarrow> nat \<Rightarrow> nat \<Rightarrow> nat \<Rightarrow> nat option" where
  "right_words bits d i 0 j0 = Some NOT_FOUND"
| "right_words bits d i (Suc k) j0 = do {
     w \<leftarrow> buf_read i d;
     if w = 0 then right_words bits d (Suc i) k 0
     else case scan_up w j0 (BITDAT_BITS - j0) of
         None \<Rightarrow> right_words bits d (Suc i) k 0
       | Some j \<Rightarrow> Some (if i * BITDAT_BITS OR j < bits then i * BITDAT_BITS OR j else NOT_FOUND)
   }"

definition xh_bitmap_index_of_right_set :: "xh_bitmap_t ptr \<Rightarrow> nat \<Rightarrow> nat option" where
  "xh_bitmap_index_of_right_set bitmap start_index = do {
     bm \<leftarrow> bitmap;
     if start_index < bm_bits bm
     then let qty = bm_bits bm div BITDAT_BITS;
              r = bm_bits bm mod BITDAT_BITS;
              start_qty = start_index div BITDAT_BITS
          in right_words (bm_bits bm) (bm_data bm) start_qty
               (qty + (if r \<noteq> 0 then 1 else 0) - start_qty) (start_index mod BITDAT_BITS)
     else None
   }"

section \<open>Abstraction\<close>

text \<open>A well-formed bitmap has one word per 64 bits, rounded up, and no bit set beyond its size.\<close>

definition bitmap_abs :: "xh_bitmap_t \<Rightarrow> nat set" where
  "bitmap_abs bm = {i. i div 64 < length (bm_data bm) \<and> bit (bm_data bm ! (i div 64)) (i mod 64)}"

definition bitmap_wf :: "xh_bitmap_t \<Rightarrow> bool" where
  "bitmap_wf bm \<longleftrightarrow> bm_bits bm + 63 < 2 ^ 64 \<and> length (bm_data bm) = (bm_bits bm + 63) div 64
     \<and> bitmap_abs bm \<subseteq> {..<bm_bits bm}"

lemma word_index: "index < bm_bits bm \<Longrightarrow> bitmap_wf bm \<Longrightarrow> index div 64 < length (bm_data bm)"
  by (auto simp: bitmap_wf_def)

lemma and_single_bit: "(w AND shl 1 n \<noteq> 0) = bit w n" if "n < 64" for w :: u64
proof -
  have "w AND shl 1 n = (if bit w n then shl 1 n else 0)"
    by (rule bit_word_eqI) (auto simp: bit_simps)
  moreover have "(shl 1 n :: u64) \<noteq> 0" using that by simp
  ultimately show ?thesis by simp
qed

lemma div_mod_64_eq: "i div 64 = j div 64 \<and> i mod 64 = j mod 64 \<longleftrightarrow> i = j" for i j :: nat
  by (metis div_mult_mod_eq)

lemma abs_update:
  assumes "k < length d" "\<And>n. n < 64 \<Longrightarrow> bit v n = P (k * 64 + n)"
    and "\<And>i. i div 64 \<noteq> k \<Longrightarrow> P i \<longleftrightarrow> i \<in> bitmap_abs bm" "bm_data bm = d"
  shows "bitmap_abs (bm\<lparr>bm_data := d[k := v]\<rparr>) = {i. P i}"
proof -
  have "bit (d[k := v] ! (i div 64)) (i mod 64) = P i" if "i div 64 < length d" for i
  proof (cases "i div 64 = k")
    case True
    then have "k * 64 + i mod 64 = i" using div_mult_mod_eq [of i 64] by simp
    then show ?thesis using assms(1,2) True by auto
  next
    case False
    with assms(3) [of i] that show ?thesis by (simp add: bitmap_abs_def assms(4))
  qed
  moreover have "\<not> P i" if "\<not> i div 64 < length d" for i
    using that assms(1) assms(3) [of i] by (auto simp: bitmap_abs_def assms(4))
  ultimately show ?thesis by (auto simp: bitmap_abs_def assms(4))
qed

lemma xh_bitmap_set_abs:
  assumes "bitmap_wf bm" "i < bm_bits bm"
  shows "\<exists>bm'. xh_bitmap_set (Some bm) i = Some bm' \<and> bitmap_wf bm' \<and> bm_bits bm' = bm_bits bm
    \<and> bitmap_abs bm' = insert i (bitmap_abs bm)"
proof -
  have k: "i div 64 < length (bm_data bm)" using word_index assms by blast
  define v where "v = bm_data bm ! (i div 64) OR shl 1 (i mod 64)"
  have "bitmap_abs (bm\<lparr>bm_data := (bm_data bm)[i div 64 := v]\<rparr>) = {j. j = i \<or> j \<in> bitmap_abs bm}"
  proof (rule abs_update [OF k])
    fix n :: nat assume "n < 64"
    then show "bit v n = (i div 64 * 64 + n = i \<or> i div 64 * 64 + n \<in> bitmap_abs bm)"
      using k div_mod_64_eq [of "i div 64 * 64 + n" i]
      by (auto simp: v_def bit_simps bitmap_abs_def)
  qed auto
  then have "bitmap_abs (bm\<lparr>bm_data := (bm_data bm)[i div 64 := v]\<rparr>) = insert i (bitmap_abs bm)" by auto
  with k assms show ?thesis
    by (simp add: xh_bitmap_set_def buf_write_def v_def bitmap_wf_def)
qed

lemma xh_bitmap_clear_abs:
  assumes "bitmap_wf bm" "i < bm_bits bm"
  shows "\<exists>bm'. xh_bitmap_clear (Some bm) i = Some bm' \<and> bitmap_wf bm' \<and> bm_bits bm' = bm_bits bm
    \<and> bitmap_abs bm' = bitmap_abs bm - {i}"
proof -
  have k: "i div 64 < length (bm_data bm)" using word_index assms by blast
  define v where "v = bm_data bm ! (i div 64) AND NOT (shl 1 (i mod 64))"
  have "bitmap_abs (bm\<lparr>bm_data := (bm_data bm)[i div 64 := v]\<rparr>) = {j. j \<noteq> i \<and> j \<in> bitmap_abs bm}"
  proof (rule abs_update [OF k])
    fix n :: nat assume "n < 64"
    then show "bit v n = (i div 64 * 64 + n \<noteq> i \<and> i div 64 * 64 + n \<in> bitmap_abs bm)"
      using k div_mod_64_eq [of "i div 64 * 64 + n" i]
      by (auto simp: v_def bit_simps bitmap_abs_def)
  qed auto
  then have "bitmap_abs (bm\<lparr>bm_data := (bm_data bm)[i div 64 := v]\<rparr>) = bitmap_abs bm - {i}" by auto
  with k assms show ?thesis
    by (auto simp: xh_bitmap_clear_def buf_write_def v_def bitmap_wf_def)
qed

lemma xh_bitmap_test_abs:
  "bitmap_wf bm \<Longrightarrow> xh_bitmap_test (Some bm) i = (if i < bm_bits bm then Some (i \<in> bitmap_abs bm) else None)"
  using word_index [of i bm] and_single_bit [of "i mod 64" "bm_data bm ! (i div 64)"]
  by (simp add: xh_bitmap_test_def bitmap_abs_def)

section \<open>Whole-map operations\<close>

lemma fill_words_eq:
  "i + k \<le> length d \<Longrightarrow> fill_words i k v d = Some (take i d @ replicate k v @ drop (i + k) d)"
proof (induction k arbitrary: i d)
  case (Suc k)
  then have "take (Suc i) (d[i := v]) = take i d @ [v]"
    by (simp add: take_Suc_conv_app_nth)
  with Suc show ?case by (simp add: buf_write_def)
qed simp

lemma low_ones: "0 < r \<Longrightarrow> r < 64 \<Longrightarrow> bit (shr (shl (NOT 0) (64 - r)) (64 - r) :: u64) n \<longleftrightarrow> n < r"
  by (auto simp: bit_simps)

lemma bits_split:
  fixes bits :: nat
  shows "(bits + 63) div 64 = bits div 64 + (if bits mod 64 \<noteq> 0 then 1 else 0)"
proof -
  define q r where "q = bits div 64" and "r = bits mod 64"
  have "bits = q * 64 + r" "r < 64" by (simp_all add: q_def r_def)
  then show ?thesis unfolding q_def [symmetric] r_def [symmetric] by auto
qed

lemma below_split: "i < bits \<longleftrightarrow> i div 64 < bits div 64 \<or> (i div 64 = bits div 64 \<and> i mod 64 < bits mod 64)"
  for i bits :: nat
proof -
  define q r a b where "q = bits div 64" and "r = bits mod 64" and "a = i div 64" and "b = i mod 64"
  have "bits = q * 64 + r" "r < 64" "i = a * 64 + b" "b < 64" by (simp_all add: q_def r_def a_def b_def)
  then show ?thesis unfolding q_def [symmetric] r_def [symmetric] a_def [symmetric] b_def [symmetric] by auto
qed

lemma xh_bitmap_all_to_abs:
  assumes "bitmap_wf bm"
  shows "\<exists>bm'. xh_bitmap_all_to (Some bm) value = Some bm' \<and> bitmap_wf bm' \<and> bm_bits bm' = bm_bits bm
    \<and> bitmap_abs bm' = (if value then {..<bm_bits bm} else {})"
proof -
  define q r where "q = bm_bits bm div 64" and "r = bm_bits bm mod 64"
  define w :: u64 where "w = (if value then NOT 0 else 0)"
  define t :: u64 where "t = (if value then shr (shl (NOT 0) (64 - r)) (64 - r) else 0)"
  have r: "r < 64" by (simp add: r_def)
  have len: "length (bm_data bm) = q + (if r \<noteq> 0 then 1 else 0)"
    using assms by (simp only: bitmap_wf_def bits_split q_def r_def)
  define d where "d = replicate q w @ (if r \<noteq> 0 then [t] else [])"
  have "xh_bitmap_all_to (Some bm) value = Some (bm\<lparr>bm_data := d\<rparr>)"
  proof (cases "r = 0")
    case True
    then show ?thesis using len fill_words_eq [of 0 q "bm_data bm" w]
      by (simp add: xh_bitmap_all_to_def q_def [symmetric] r_def [symmetric] w_def [symmetric] d_def)
  next
    case False
    then obtain l where "drop q (bm_data bm) = [l]" using len by (cases "drop q (bm_data bm)") (auto dest: arg_cong [where f = length])
    then show ?thesis using False len fill_words_eq [of 0 q "bm_data bm" w]
      by (simp add: xh_bitmap_all_to_def q_def [symmetric] r_def [symmetric] w_def [symmetric] t_def [symmetric] d_def
          buf_write_def list_update_append)
  qed
  moreover have "i \<in> bitmap_abs (bm\<lparr>bm_data := d\<rparr>) \<longleftrightarrow> value \<and> i < bm_bits bm" for i
    unfolding below_split [of i] q_def [symmetric] r_def [symmetric] bitmap_abs_def
    using r low_ones [of r "i mod 64"]
    by (auto simp: d_def w_def t_def nth_append bit_simps split: if_splits)
  then have "bitmap_abs (bm\<lparr>bm_data := d\<rparr>) = (if value then {..<bm_bits bm} else {})" by auto
  moreover have "length d = length (bm_data bm)" by (simp add: len d_def)
  ultimately show ?thesis using assms by (auto simp: bitmap_wf_def)
qed

lemma POPCOUNT64_card: "POPCOUNT64 x = card {j. j < 64 \<and> bit x j}"
proof -
  have "POPCOUNT64 x = card (set (filter (bit x) [0..<64]))"
    by (simp only: POPCOUNT64_def distinct_card distinct_filter distinct_upt)
  also have "set (filter (bit x) [0..<64]) = {j. j < 64 \<and> bit x j}" by auto
  finally show ?thesis .
qed

lemma card_words:
  "finite {i. i div 64 < length d \<and> bit (d ! (i div 64)) (i mod 64)}
    \<and> card {i. i div 64 < length d \<and> bit (d ! (i div 64)) (i mod 64)} = sum_list (map POPCOUNT64 d)"
  for d :: "u64 list"
proof (induction d rule: rev_induct)
  case (snoc w d)
  let ?A = "{i. i div 64 < length d \<and> bit (d ! (i div 64)) (i mod 64)}"
  let ?B = "(\<lambda>j. length d * 64 + j) ` {j. j < 64 \<and> bit w j}"
  have "{i. i div 64 < length (d @ [w]) \<and> bit ((d @ [w]) ! (i div 64)) (i mod 64)} = ?A \<union> ?B"
  proof (intro set_eqI iffI)
    fix i
    assume "i \<in> {i. i div 64 < length (d @ [w]) \<and> bit ((d @ [w]) ! (i div 64)) (i mod 64)}"
    moreover have "i = length d * 64 + i mod 64" if "i div 64 = length d"
      using div_mult_mod_eq [of i 64] that by simp
    ultimately show "i \<in> ?A \<union> ?B"
      by (cases "i div 64 < length d") (auto simp: nth_append less_Suc_eq intro!: image_eqI [of _ _ "i mod 64"])
  qed (auto simp: nth_append)
  moreover have "?A \<inter> ?B = {}" by auto
  moreover have "card ?B = POPCOUNT64 w" by (simp add: POPCOUNT64_card card_image inj_on_def)
  ultimately show ?case using snoc.IH by (simp add: card_Un_disjoint)
qed simp

lemma count_words_eq:
  "i + k \<le> length d \<Longrightarrow> count_words i k d n = Some (n + sum_list (map POPCOUNT64 (take k (drop i d))))"
proof (induction k arbitrary: i n)
  case (Suc k)
  then have "take (Suc k) (drop i d) = d ! i # take k (drop (Suc i) d)"
    by (simp add: Cons_nth_drop_Suc [symmetric])
  with Suc show ?case by simp
qed simp

lemma xh_bitmap_count_abs:
  assumes "bitmap_wf bm"
  shows "xh_bitmap_count_set_bits (Some bm) = Some (card (bitmap_abs bm))"
proof -
  have "xh_bitmap_count_set_bits (Some bm) = Some (sum_list (map POPCOUNT64 (bm_data bm)))"
    using assms count_words_eq [of 0 "length (bm_data bm)" "bm_data bm" 0]
    by (simp add: xh_bitmap_count_set_bits_def bitmap_wf_def add.commute)
  then show ?thesis by (simp add: bitmap_abs_def card_words)
qed

section \<open>Searches\<close>

lemma word_index_or: "j < 64 \<Longrightarrow> i * 64 OR j = i * 64 + j" for i j :: nat
proof -
  assume j: "j < 64"
  have high: "\<not> bit j n" if "6 \<le> n" for n
  proof -
    have "j < 2 ^ n" using j power_increasing [OF that, of "2::nat"] by simp
    then show ?thesis by (simp add: bit_iff_odd)
  qed
  have "push_bit 6 i + j = push_bit 6 i OR j"
    using high by (intro disjunctive_add) (auto simp: bit_push_bit_iff_nat)
  then show ?thesis by (simp add: push_bit_eq_mult)
qed

lemma scan_up_cases:
  assumes "j + k = 64"
  shows "(\<exists>m. scan_up w j k = Some m \<and> j \<le> m \<and> m < 64 \<and> bit w m \<and> (\<forall>n. j \<le> n \<and> n < m \<longrightarrow> \<not> bit w n))
    \<or> (scan_up w j k = None \<and> (\<forall>n. j \<le> n \<and> n < 64 \<longrightarrow> \<not> bit w n))"
  using assms
proof (induction k arbitrary: j)
  case (Suc k)
  have b: "(w AND shl 1 j = 0) = (\<not> bit w j)" using and_single_bit [of j w] Suc.prems by auto
  show ?case
  proof (cases "bit w j")
    case False
    then have ext: "\<forall>n. j \<le> n \<and> n < m \<longrightarrow> \<not> bit w n" if "\<forall>n. Suc j \<le> n \<and> n < m \<longrightarrow> \<not> bit w n" for m
      using that by (metis Suc_leI le_neq_implies_less)
    from Suc.IH [of "Suc j"] Suc.prems
    consider m where "scan_up w (Suc j) k = Some m" "Suc j \<le> m" "m < 64" "bit w m"
        "\<forall>n. Suc j \<le> n \<and> n < m \<longrightarrow> \<not> bit w n"
      | "scan_up w (Suc j) k = None" "\<forall>n. Suc j \<le> n \<and> n < 64 \<longrightarrow> \<not> bit w n"
      by auto
    then show ?thesis
    proof cases
      case 1
      then show ?thesis using ext [OF 1(5)] False b by (intro disjI1 exI [of _ m]) simp
    next
      case 2
      then show ?thesis using ext [OF 2(2)] False b by simp
    qed
  qed (use b Suc.prems in auto)
qed auto

text \<open>The least element of \<open>S\<close>, or the value for not found.\<close>

definition first_index :: "nat set \<Rightarrow> nat" where
  "first_index S = (if S = {} then NOT_FOUND else Min S)"

lemma first_index_least:
  "m \<in> S \<Longrightarrow> (\<And>n. n \<in> S \<Longrightarrow> m \<le> n) \<Longrightarrow> finite S \<Longrightarrow> first_index S = m"
  by (auto simp: first_index_def intro: Min_eqI)

lemma right_words_spec:
  assumes "i + k = length (bm_data bm)" "bitmap_abs bm \<subseteq> {..<bits}" "j0 < 64"
  shows "right_words bits (bm_data bm) i k j0 = Some (first_index {n \<in> bitmap_abs bm. i * 64 + j0 \<le> n})"
  using assms(1,3)
proof (induction k arbitrary: i j0)
  case 0
  have "i * 64 + j0 \<le> n \<Longrightarrow> i \<le> n div 64" for n by linarith
  with 0 have "{n \<in> bitmap_abs bm. i * 64 + j0 \<le> n} = {}" by (fastforce simp: bitmap_abs_def)
  then show ?case by (simp add: first_index_def)
next
  case (Suc k)
  define w where "w = bm_data bm ! i"
  have i: "i < length (bm_data bm)" using Suc.prems by simp
  have mem: "i * 64 + n \<in> bitmap_abs bm \<longleftrightarrow> bit w n" if "n < 64" for n
    using that i by (simp add: bitmap_abs_def w_def)
  have fin: "finite {n \<in> bitmap_abs bm. i * 64 + j0 \<le> n}"
    using assms(2) by (auto intro: finite_subset [of _ "{..<bits}"])
  have skip: "{n \<in> bitmap_abs bm. i * 64 + j0 \<le> n} = {n \<in> bitmap_abs bm. Suc i * 64 + 0 \<le> n}"
    if none: "\<forall>n. j0 \<le> n \<and> n < 64 \<longrightarrow> \<not> bit w n"
  proof -
    have "Suc i * 64 \<le> n" if "n \<in> bitmap_abs bm" "i * 64 + j0 \<le> n" for n
    proof (rule ccontr)
      assume "\<not> Suc i * 64 \<le> n"
      with that(2) have "j0 \<le> n - i * 64" "n - i * 64 < 64" "i * 64 + (n - i * 64) = n" by auto
      with none mem [of "n - i * 64"] that(1) show False by simp
    qed
    moreover have "i * 64 + j0 \<le> n" if "Suc i * 64 \<le> n" for n using that Suc.prems(2) by simp
    ultimately show ?thesis by auto
  qed
  note IH = Suc.IH [of "Suc i" 0]
  have zero: "\<forall>n. j0 \<le> n \<and> n < 64 \<longrightarrow> \<not> bit w n" if "w = 0" using that by simp
  from scan_up_cases [of j0 "64 - j0" w] Suc.prems(2)
  consider m where "scan_up w j0 (64 - j0) = Some m" "j0 \<le> m" "m < 64" "bit w m" "\<forall>n. j0 \<le> n \<and> n < m \<longrightarrow> \<not> bit w n"
    | "scan_up w j0 (64 - j0) = None" "\<forall>n. j0 \<le> n \<and> n < 64 \<longrightarrow> \<not> bit w n"
    by auto
  then show ?case
  proof cases
    case 1
    have "first_index {n \<in> bitmap_abs bm. i * 64 + j0 \<le> n} = i * 64 + m"
    proof (rule first_index_least [OF _ _ fin])
      show "i * 64 + m \<in> {n \<in> bitmap_abs bm. i * 64 + j0 \<le> n}" using 1 mem by simp
      fix n assume n: "n \<in> {n \<in> bitmap_abs bm. i * 64 + j0 \<le> n}"
      show "i * 64 + m \<le> n"
      proof (rule ccontr)
        assume "\<not> i * 64 + m \<le> n"
        with n 1(3) have "j0 \<le> n - i * 64" "n - i * 64 < m" "i * 64 + (n - i * 64) = n" "n - i * 64 < 64" by auto
        with 1(5) mem [of "n - i * 64"] n show False by simp
      qed
    qed
    moreover have "w \<noteq> 0" using 1(4) by auto
    moreover have "i * 64 + m < bits" using mem [OF 1(3)] 1(4) assms(2) by auto
    ultimately show ?thesis using 1 i by (simp add: w_def [symmetric] word_index_or)
  next
    case 2
    then show ?thesis using IH skip Suc.prems i by (simp add: w_def [symmetric])
  qed
qed

lemma xh_bitmap_index_of_right_set_abs:
  assumes "bitmap_wf bm" "start < bm_bits bm"
  shows "xh_bitmap_index_of_right_set (Some bm) start = Some (first_index {n \<in> bitmap_abs bm. start \<le> n})"
proof -
  define q where "q = bm_bits bm div 64 + (if bm_bits bm mod 64 \<noteq> 0 then 1 else 0)"
  have q: "q = length (bm_data bm)" using assms(1) by (simp only: q_def bitmap_wf_def bits_split)
  have le: "start div 64 \<le> q" using word_index [OF assms(2,1)] q by simp
  have "xh_bitmap_index_of_right_set (Some bm) start =
      right_words (bm_bits bm) (bm_data bm) (start div 64) (q - start div 64) (start mod 64)"
    using assms(2) by (simp add: xh_bitmap_index_of_right_set_def Let_def q_def)
  also have "\<dots> = Some (first_index {n \<in> bitmap_abs bm. start div 64 * 64 + start mod 64 \<le> n})"
    using le assms(1) q by (intro right_words_spec) (auto simp: bitmap_wf_def)
  finally show ?thesis by simp
qed

text \<open>
  The search towards index \<open>0\<close>. Its mask is 32 bits wide, so it is correct for the low half of
  the first word; \<open>bitmap_left_search_defects\<close> below shows what happens above.
\<close>

lemma mask_1U_bit: "j < 32 \<Longrightarrow> mask_1U j = Some (shl 1 j)"
  by (auto simp: mask_1U_def intro!: bit_word_eqI simp: bit_simps)

lemma scan_down_spec:
  "j < 32 \<Longrightarrow> scan_down w True j = Some (if \<exists>n\<le>j. bit w n then Some (GREATEST n. n \<le> j \<and> bit w n) else None)"
proof (induction j)
  case 0
  have "(GREATEST n. n \<le> 0 \<and> bit w n) = 0" if "bit w 0" using that by (intro Greatest_equality) auto
  then show ?case using and_single_bit [of 0 w] by (simp add: mask_1U_bit)
next
  case (Suc j)
  show ?case
  proof (cases "bit w (Suc j)")
    case True
    then have "(GREATEST n. n \<le> Suc j \<and> bit w n) = Suc j" by (intro Greatest_equality) auto
    with True Suc.prems and_single_bit [of "Suc j" w] show ?thesis
      by (auto simp: mask_1U_bit simp del: push_bit_Suc)
  next
    case False
    then have "(n \<le> Suc j \<and> bit w n) = (n \<le> j \<and> bit w n)" for n by (auto simp: le_Suc_eq)
    with False Suc and_single_bit [of "Suc j" w] show ?thesis
      by (auto simp: mask_1U_bit simp del: push_bit_Suc)
  qed
qed

lemma index_of_left_set_abs:
  assumes "bitmap_wf bm" "start < bm_bits bm" "start < 32"
  shows "xh_bitmap_index_of_left_set (Some bm) start =
    Some (if {n \<in> bitmap_abs bm. n \<le> start} = {} then NOT_FOUND else Max {n \<in> bitmap_abs bm. n \<le> start})"
proof -
  define w where "w = bm_data bm ! 0"
  have k: "0 < length (bm_data bm)" using word_index [of 0 bm] assms by simp
  have z: "start div 64 = 0" "start mod 64 = start" using assms(3) by simp_all
  have mem: "n \<in> bitmap_abs bm \<longleftrightarrow> bit w n" if "n \<le> start" for n
    using that assms(3) k by (simp add: bitmap_abs_def w_def)
  have eq: "xh_bitmap_index_of_left_set (Some bm) start =
      (if w = 0 then Some NOT_FOUND else do {
         r \<leftarrow> scan_down w True start;
         Some (case r of Some j \<Rightarrow> j | None \<Rightarrow> NOT_FOUND) })"
    using assms(2) k by (simp add: xh_bitmap_index_of_left_set_def z w_def [symmetric] del: scan_down.simps
        cong: option.case_cong)
  have S: "{n \<in> bitmap_abs bm. n \<le> start} = {n. n \<le> start \<and> bit w n}" using mem by auto
  have "Max {n. n \<le> start \<and> bit w n} = (GREATEST n. n \<le> start \<and> bit w n)" if "\<exists>n. n \<le> start \<and> bit w n"
    using that Max_in [of "{n. n \<le> start \<and> bit w n}"] by (intro Greatest_equality [symmetric]) (auto intro: Max_ge)
  then show ?thesis unfolding eq S using scan_down_spec [OF assms(3), of w] by auto
qed

section \<open>Sequences of updates\<close>

datatype bitmap_op = Op_set nat | Op_clear nat

fun apply_op :: "bitmap_op \<Rightarrow> nat set \<Rightarrow> nat set" where
  "apply_op (Op_set i) S = insert i S"
| "apply_op (Op_clear i) S = S - {i}"

fun op_index :: "bitmap_op \<Rightarrow> nat" where
  "op_index (Op_set i) = i"
| "op_index (Op_clear i) = i"

fun run_ops :: "('b \<Rightarrow> nat \<Rightarrow> 'b option) \<Rightarrow> ('b \<Rightarrow> nat \<Rightarrow> 'b option) \<Rightarrow> 'b \<Rightarrow> bitmap_op list \<Rightarrow> 'b option" where
  "run_ops ins del b [] = Some b"
| "run_ops ins del b (Op_set i # ops) = do { b' \<leftarrow> ins b i; run_ops ins del b' ops }"
| "run_ops ins del b (Op_clear i # ops) = do { b' \<leftarrow> del b i; run_ops ins del b' ops }"

text \<open>The contract of a set over the numbers below a bound.\<close>

locale bounded_set =
  fixes inv :: "'b \<Rightarrow> bool" and abs :: "'b \<Rightarrow> nat set" and bound :: "'b \<Rightarrow> nat"
    and ins :: "'b \<Rightarrow> nat \<Rightarrow> 'b option" and del :: "'b \<Rightarrow> nat \<Rightarrow> 'b option" and mem :: "'b \<Rightarrow> nat \<Rightarrow> bool option"
  assumes ins_ok: "inv b \<Longrightarrow> i < bound b \<Longrightarrow>
      \<exists>b'. ins b i = Some b' \<and> inv b' \<and> bound b' = bound b \<and> abs b' = insert i (abs b)"
    and del_ok: "inv b \<Longrightarrow> i < bound b \<Longrightarrow>
      \<exists>b'. del b i = Some b' \<and> inv b' \<and> bound b' = bound b \<and> abs b' = abs b - {i}"
    and mem_ok: "inv b \<Longrightarrow> mem b i = (if i < bound b then Some (i \<in> abs b) else None)"
begin

lemma run_ops_ok:
  "inv b \<Longrightarrow> list_all (\<lambda>p. op_index p < bound b) ops \<Longrightarrow>
    \<exists>b'. run_ops ins del b ops = Some b' \<and> inv b' \<and> bound b' = bound b
      \<and> abs b' = foldl (\<lambda>S p. apply_op p S) (abs b) ops"
proof (induction ops arbitrary: b)
  case (Cons p ops)
  show ?case
  proof (cases p)
    case (Op_set i)
    with Cons.prems ins_ok [of b i] obtain b1 where
      "ins b i = Some b1" "inv b1" "bound b1 = bound b" "abs b1 = insert i (abs b)" by auto
    with Cons.IH [of b1] Cons.prems Op_set show ?thesis by auto
  next
    case (Op_clear i)
    with Cons.prems del_ok [of b i] obtain b1 where
      "del b i = Some b1" "inv b1" "bound b1 = bound b" "abs b1 = abs b - {i}" by auto
    with Cons.IH [of b1] Cons.prems Op_clear show ?thesis by auto
  qed
qed simp

lemma test_after_ops:
  assumes "inv b" "list_all (\<lambda>p. op_index p < bound b) ops" "i < bound b"
  shows "(run_ops ins del b ops \<bind> (\<lambda>b'. mem b' i)) = Some (i \<in> foldl (\<lambda>S p. apply_op p S) (abs b) ops)"
  using run_ops_ok [OF assms(1,2)] mem_ok assms(3) by auto

end

interpretation bm: bounded_set bitmap_wf bitmap_abs bm_bits
  "\<lambda>b. xh_bitmap_set (Some b)" "\<lambda>b. xh_bitmap_clear (Some b)" "\<lambda>b. xh_bitmap_test (Some b)"
  by unfold_locales (simp_all add: xh_bitmap_set_abs xh_bitmap_clear_abs xh_bitmap_test_abs)

text \<open>A fresh bitmap is well formed and empty, when rounding the size up does not wrap.\<close>

lemma xh_bitmap_create_wf:
  assumes "\<And>n d. calloc n = Some d \<Longrightarrow> d = replicate n 0" "unat bits + 63 < 2 ^ 64"
    and "xh_bitmap_create ok calloc bits = Some bm"
  shows "bitmap_wf bm \<and> bitmap_abs bm = {} \<and> bm_bits bm = unat bits"
proof -
  have "unat (bits + 64 - 1) = unat bits + 63"
    using assms(2) by (simp add: unat_word_ariths)
  then have "unat ((bits + 64 - 1) div 64) = (unat bits + 63) div 64"
    by (simp only: unat_div) simp
  with assms obtain d where "bm = \<lparr>bm_data = replicate ((unat bits + 63) div 64) 0, bm_bits = unat bits\<rparr>"
    by (auto simp: xh_bitmap_create_def split: option.splits if_splits)
  then show ?thesis using assms(2) by (auto simp: bitmap_wf_def bitmap_abs_def)
qed

section \<open>Properties\<close>

text \<open>
  C22: after any sequence of \<open>xh_bitmap_set\<close> and \<open>xh_bitmap_clear\<close> calls with indices below the
  size, every call succeeds inside the data array and \<open>xh_bitmap_test\<close> answers as a
  mathematical set updated by the same sequence.
\<close>

theorem bitmap_updates_refine_set:
  assumes "bitmap_wf b" "list_all (\<lambda>p. op_index p < bm_bits b) ops" "i < bm_bits b"
  shows "(run_ops (\<lambda>b. xh_bitmap_set (Some b)) (\<lambda>b. xh_bitmap_clear (Some b)) b ops
      \<bind> (\<lambda>b'. xh_bitmap_test (Some b') i))
    = Some (i \<in> foldl (\<lambda>S p. apply_op p S) (bitmap_abs b) ops)"
  using assms by (rule bm.test_after_ops)

theorem bitmap_updates_refine_set_witness:
  "(run_ops (\<lambda>b. xh_bitmap_set (Some b)) (\<lambda>b. xh_bitmap_clear (Some b)) \<lparr>bm_data = [0, 0], bm_bits = 70\<rparr>
      [Op_set 69, Op_set 3, Op_clear 3] \<bind> (\<lambda>b'. xh_bitmap_test (Some b') 69)) = Some True"
proof -
  let ?b = "\<lparr>bm_data = [0, 0], bm_bits = 70\<rparr>"
  have "bitmap_wf ?b" by (auto simp: bitmap_wf_def bitmap_abs_def nth_Cons')
  then show ?thesis
    using bitmap_updates_refine_set [of ?b "[Op_set 69, Op_set 3, Op_clear 3]" 69] by simp
qed

text \<open>
  \<open>xh_bitmap_all_to\<close> sets exactly the bits below the size, or clears all of them, keeps the
  bits beyond the size at zero, and afterwards \<open>xh_bitmap_count_set_bits\<close> counts the elements.
\<close>

theorem bitmap_all_to_count:
  assumes "bitmap_wf b"
  shows "\<exists>b'. xh_bitmap_all_to (Some b) v = Some b' \<and> bitmap_wf b'
    \<and> bitmap_abs b' = (if v then {..<bm_bits b} else {})
    \<and> xh_bitmap_count_set_bits (Some b') = Some (if v then bm_bits b else 0)"
  using xh_bitmap_all_to_abs [OF assms, of v] xh_bitmap_count_abs by fastforce

theorem bitmap_all_to_count_witness:
  "\<exists>b'. xh_bitmap_all_to (Some \<lparr>bm_data = [0, 0], bm_bits = 70\<rparr>) True = Some b' \<and> bitmap_wf b'
    \<and> bitmap_abs b' = {..<70} \<and> xh_bitmap_count_set_bits (Some b') = Some 70"
proof -
  let ?b = "\<lparr>bm_data = [0, 0], bm_bits = 70\<rparr>"
  have "bitmap_wf ?b" by (auto simp: bitmap_wf_def bitmap_abs_def nth_Cons')
  from bitmap_all_to_count [OF this, of True] show ?thesis by simp
qed

text \<open>
  \<open>xh_bitmap_index_of_right_set\<close> finds the least set index not below the start index, and
  returns the not-found value exactly when there is none.
\<close>

theorem bitmap_index_of_right_set_correct:
  assumes "bitmap_wf b" "start < bm_bits b"
  shows "xh_bitmap_index_of_right_set (Some b) start = Some (first_index {n \<in> bitmap_abs b. start \<le> n})"
  using assms by (rule xh_bitmap_index_of_right_set_abs)

theorem bitmap_index_of_right_set_correct_witness:
  "xh_bitmap_index_of_right_set (Some \<lparr>bm_data = [1, 1], bm_bits = 70\<rparr>) 1
    = Some (first_index {n \<in> bitmap_abs \<lparr>bm_data = [1, 1], bm_bits = 70\<rparr>. 1 \<le> n})"
proof (rule bitmap_index_of_right_set_correct)
  have "i < 70" if "i div 64 < Suc (Suc 0)" "i mod 64 = 0" for i :: nat
    using that div_mult_mod_eq [of i 64] by linarith
  then show "bitmap_wf \<lparr>bm_data = [1, 1], bm_bits = 70\<rparr>"
    by (auto simp: bitmap_wf_def bitmap_abs_def nth_Cons' bit_1_iff split: if_splits)
qed simp

lemma scan_down_undefined: "32 \<le> j \<Longrightarrow> scan_down w v j = None"
  by (cases j) (simp_all add: mask_1U_def)

text \<open>A search whose first word is not skipped shifts at once by the position in the word.\<close>

lemma left_words_undefined:
  "i < length d \<Longrightarrow> \<not> skip (d ! i) \<Longrightarrow> 32 \<le> j \<Longrightarrow> left_words skip v d i j = None"
  by (cases i) (simp_all add: buf_read_def scan_down_undefined)

lemma left_words_skip: "i < length d \<Longrightarrow> \<forall>k\<le>i. skip (d ! k) \<Longrightarrow> left_words skip v d i j = Some NOT_FOUND"
  by (induction i arbitrary: j) (simp_all add: buf_read_def)

text \<open>
  C23: where the searches towards index \<open>0\<close> fail. For every well-formed bitmap and every start index inside
  it, a search for a set bit that starts at position 32 or above of a word that is not zero has no
  defined result, since it shifts a 32-bit one by the position, 32 to 63 places; the index itself is
  valid, and \<open>xh_bitmap_test\<close> reads it. From the low half of the first word the result is defined and right.
  A search for a zero bit reports not found whenever the words up to the start index all
  contain a set bit, even when the bit at the start index is zero.
\<close>

theorem bitmap_left_search_defects:
  assumes "bitmap_wf b" "start < bm_bits b"
  shows "(32 \<le> start mod 64 \<and> bm_data b ! (start div 64) \<noteq> 0 \<longrightarrow>
      xh_bitmap_index_of_left_set (Some b) start = None \<and> xh_bitmap_index_of_left (Some b) start True = None
      \<and> mask_1U (start mod 64) = None \<and> xh_bitmap_test (Some b) start = Some (start \<in> bitmap_abs b))
    \<and> (start < 32 \<longrightarrow> xh_bitmap_index_of_left_set (Some b) start =
        Some (if {n \<in> bitmap_abs b. n \<le> start} = {} then NOT_FOUND else Max {n \<in> bitmap_abs b. n \<le> start}))
    \<and> ((\<forall>k \<le> start div 64. bm_data b ! k \<noteq> 0) \<longrightarrow> xh_bitmap_index_of_left (Some b) start False = Some NOT_FOUND
        \<and> xh_bitmap_test (Some b) start = Some (start \<in> bitmap_abs b))"
proof -
  have i: "start div 64 < length (bm_data b)" using assms(2,1) by (rule word_index)
  have t: "xh_bitmap_test (Some b) start = Some (start \<in> bitmap_abs b)" using assms by (simp add: xh_bitmap_test_abs)
  show ?thesis
    using assms t left_words_undefined [OF i] left_words_skip [OF i] index_of_left_set_abs [OF assms]
    by (simp add: xh_bitmap_index_of_left_set_def xh_bitmap_index_of_left_def mask_1U_def)
qed

theorem bitmap_left_search_defects_witness:
  "xh_bitmap_index_of_left_set (Some \<lparr>bm_data = [1, shl 1 40], bm_bits = 128\<rparr>) 104 = None
    \<and> xh_bitmap_index_of_left (Some \<lparr>bm_data = [1, shl 1 40], bm_bits = 128\<rparr>) 105 False = Some NOT_FOUND
    \<and> xh_bitmap_test (Some \<lparr>bm_data = [1, shl 1 40], bm_bits = 128\<rparr>) 105 = Some False
    \<and> xh_bitmap_index_of_left_set (Some \<lparr>bm_data = [1, shl 1 40], bm_bits = 128\<rparr>) 9 = Some 0"
proof -
  let ?b = "\<lparr>bm_data = [1, shl 1 40], bm_bits = 128\<rparr>"
  have n: "(shl 1 40 :: u64) \<noteq> 0" by simp
  have i: "i < 128" if "i div 64 < Suc (Suc 0)" for i :: nat using that by linarith
  have wf: "bitmap_wf ?b" by (auto simp: bitmap_wf_def bitmap_abs_def intro: i)
  have low: "{m \<in> bitmap_abs ?b. m \<le> 9} = {0}" by (auto simp: bitmap_abs_def bit_1_iff)
  have off: "105 \<notin> bitmap_abs ?b" by (simp add: bitmap_abs_def bit_push_bit_iff bit_1_iff)
  have all: "\<forall>k\<le>1. [1, shl 1 40 :: u64] ! k \<noteq> 0" using n by (auto simp: le_Suc_eq nth_Cons')
  have "xh_bitmap_index_of_left_set (Some ?b) 9 = Some 0"
    using bitmap_left_search_defects [OF wf, of 9] unfolding low by simp
  then show ?thesis
    using bitmap_left_search_defects [OF wf, of 104] bitmap_left_search_defects [OF wf, of 105] n off all by simp
qed

end
