(* ===== verification/Fc_Arith.thy ===== *)
theory Fc_Arith
  imports Status_Monad
begin

text \<open>
  Model of \<open>libs/fieldctrl/src/fieldctrl_arith.h\<close> (the fixed-point half), \<open>cordic.c\<close> and the
  variant selection of \<open>fieldctrl_variant.h\<close>.

  Every helper of that header takes a pointer to a status: it computes only while the status
  is OK, and a failure makes all later helpers return zero. They are computations in the
  status monad. Nested calls are sequenced from left to right; since a failed helper never
  changes the status again, the order of two arguments can only change which error is reported.
\<close>

section \<open>Scalar helpers\<close>

definition fc_overlap :: "'s::len word \<Rightarrow> 's word \<Rightarrow> 's word \<Rightarrow> 's word \<Rightarrow> bool" where
  "fc_overlap x na y nb = (if x \<le> y then y - x < na else x - y < nb)"

definition fcq_add :: "linears_fixed_t \<Rightarrow> linears_fixed_t \<Rightarrow> linears_fixed_t fc" where
  "fcq_add a b = fc_op 0 (linears_fixed_add a b)"

definition fcq_sub :: "linears_fixed_t \<Rightarrow> linears_fixed_t \<Rightarrow> linears_fixed_t fc" where
  "fcq_sub a b = fc_op 0 (linears_fixed_sub a b)"

definition fcq_mul :: "linears_fixed_t \<Rightarrow> linears_fixed_t \<Rightarrow> linears_fixed_t fc" where
  "fcq_mul a b = fc_op 0 (linears_fixed_mul a b)"

definition fcq_div :: "linears_fixed_t \<Rightarrow> linears_fixed_t \<Rightarrow> linears_fixed_t fc" where
  "fcq_div a b = fc_op 0 (linears_fixed_div a b)"

definition fcq_neg :: "linears_fixed_t \<Rightarrow> linears_fixed_t fc" where
  "fcq_neg a = fc_op 0 (linears_fixed_neg a)"

definition fcq_abs :: "linears_fixed_t \<Rightarrow> linears_fixed_t fc" where
  "fcq_abs a = fc_op 0 (linears_fixed_abs a)"

definition fcq_sqrt :: "linears_fixed_t \<Rightarrow> linears_fixed_t fc" where
  "fcq_sqrt a = fc_op 0 (linears_fixed_sqrt a)"

definition fcq_i :: "i64 \<Rightarrow> linears_fixed_t fc" where
  "fcq_i x = fc_op 0 (linears_fixed_from_int x)"

definition fcq_work_load :: "linears_fixed_t \<Rightarrow> linears_fixed_t fc" where
  "fcq_work_load x = State (\<lambda>s. (if s = LINEARS_OK then x else 0, s))"

definition fcq15_load :: "linears_q15_t \<Rightarrow> linears_fixed_t fc" where
  "fcq15_load x = fcq_work_load (linears_fixed_from_q15 x)"

definition fcq31_load :: "linears_q31_t \<Rightarrow> linears_fixed_t fc" where
  "fcq31_load x = fcq_work_load (linears_fixed_from_q31 x)"

text \<open>
  The stores write a local variable of the caller that is used only when the status stays OK;
  its value after a failure is given as zero.
\<close>

definition fcq_work_store :: "linears_fixed_t \<Rightarrow> linears_fixed_t fc" where
  "fcq_work_store x = State (\<lambda>s. (if s = LINEARS_OK then x else 0, s))"

definition fcq15_store :: "linears_fixed_t \<Rightarrow> linears_q15_t fc" where
  "fcq15_store x = fc_op 0 (linears_fixed_to_q15 x)"

definition fcq31_store :: "linears_fixed_t \<Rightarrow> linears_q31_t fc" where
  "fcq31_store x = fc_op 0 (linears_fixed_to_q31 x)"

definition fcq_cmp :: "linears_fixed_t \<Rightarrow> linears_fixed_t \<Rightarrow> int" where
  "fcq_cmp a b = linears_fixed_compare a b"

definition fcq_rescale :: "linears_fixed_t \<Rightarrow> linears_fixed_t \<Rightarrow> linears_fixed_t \<Rightarrow> linears_fixed_t fc" where
  "fcq_rescale a numerator denominator = fc_op 0 (linears_fixed_muldiv a numerator denominator)"

definition fcq_hypot :: "linears_fixed_t \<Rightarrow> linears_fixed_t \<Rightarrow> linears_fixed_t fc" where
  "fcq_hypot a b = do {
     aa \<leftarrow> fcq_abs a;
     bb \<leftarrow> fcq_abs b;
     let hi = (if 0 \<le> fcq_cmp aa bb then aa else bb);
     let lo = (if 0 \<le> fcq_cmp aa bb then bb else aa);
     s \<leftarrow> fc_status;
     if hi = 0 \<or> s \<noteq> LINEARS_OK then State_Monad.return 0
     else do {
       ratio \<leftarrow> fcq_div lo hi;
       s1 \<leftarrow> fcq_mul ratio ratio;
       s2 \<leftarrow> fcq_add LINEARS_FIXED_ONE s1;
       rt \<leftarrow> fcq_sqrt s2;
       fcq_mul hi rt
     }
   }"

section \<open>Turn arithmetic and CORDIC\<close>

definition fc_atan_turns :: "i64 list" where
  "fc_atan_turns = [
     576460752303423488, 340304653033718298,
     179807632645220259, 91273161881380487,
     45813697873323707, 22929182573009054,
     11467389120678282, 5734044481687724,
     2867065987018958, 1433538461969102,
     716769914547871, 358385042719534,
     179192532040472, 89596267355325,
     44798133844548, 22399066943135,
     11199533474175, 5599766737413,
     2799883368747, 1399941684379,
     699970842190, 349985421095,
     174992710548, 87496355274,
     43748177637, 21874088818,
     10937044409, 5468522205,
     2734261102, 1367130551,
     683565276, 341782638]"

definition fc_coord_shift :: "i64 \<Rightarrow> nat \<Rightarrow> i64" where
  "fc_coord_shift value bits =
     (let magnitude = (if value <s 0 then 0 - value else value);
          shifted = shr magnitude bits
      in if value <s 0 then - shifted else shifted)"

definition fcq_wrap :: "linears_fixed_t \<Rightarrow> linears_fixed_t fc" where
  "fcq_wrap x = do {
     s \<leftarrow> fc_status;
     if s \<noteq> LINEARS_OK then State_Monad.return 0
     else let remainder = word_of_int (sint x smod sint LINEARS_FIXED_ONE)
          in State_Monad.return (if remainder <s 0 then remainder + LINEARS_FIXED_ONE else remainder)
   }"

definition cordic_turn :: i64 where "cordic_turn = 4611686018427387904"
definition cordic_quarter :: i64 where "cordic_quarter = 1152921504606846976"

fun rotate_step :: "i64 \<times> i64 \<times> i64 \<Rightarrow> nat \<Rightarrow> i64 \<times> i64 \<times> i64" where
  "rotate_step (x, y, z) i =
     (let dx = fc_coord_shift x i; dy = fc_coord_shift y i
      in if 0 \<le>s z then (x - dy, y + dx, z - fc_atan_turns ! i)
         else (x + dy, y - dx, z + fc_atan_turns ! i))"

definition fcq_sincos ::
  "linears_fixed_t \<Rightarrow> linears_fixed_t \<Rightarrow> linears_fixed_t \<Rightarrow> (linears_fixed_t \<times> linears_fixed_t) fc" where
  "fcq_sincos a sn cs = do {
     w \<leftarrow> fcq_wrap a;
     s \<leftarrow> fc_status;
     if s \<noteq> LINEARS_OK then State_Monad.return (sn, cs)
     else
       let z = w * LINEARS_FIXED_ONE
       in if z = 0 \<or> z = cordic_quarter \<or> z = 2 * cordic_quarter \<or> z = 3 * cordic_quarter
          then State_Monad.return
            ((if z = cordic_quarter then LINEARS_FIXED_ONE
              else if z = 3 * cordic_quarter then - LINEARS_FIXED_ONE else 0),
             (if z = 0 then LINEARS_FIXED_ONE
              else if z = 2 * cordic_quarter then - LINEARS_FIXED_ONE else 0))
          else
            let z1 = (if 2 * cordic_quarter \<le>s z then z - cordic_turn else z);
                (z2, sign) = (if cordic_quarter <s z1 then (z1 - 2 * cordic_quarter, - 1)
                  else if z1 <s - cordic_quarter then (z1 + 2 * cordic_quarter, - 1)
                  else (z1, 1));
                (x, y, _) = foldl rotate_step (700114967507363239, 0, z2) [0..<32]
            in do {
              sv \<leftarrow> fc_op 0 (linears_fixed_muldiv (sign * y) 1 536870912);
              cv \<leftarrow> fc_op 0 (linears_fixed_muldiv (sign * x) 1 536870912);
              s' \<leftarrow> fc_status;
              State_Monad.return (if s' = LINEARS_OK then (sv, cv) else (sn, cs))
            }
   }"

fun vector_loop :: "i64 \<Rightarrow> i64 \<Rightarrow> i64 \<Rightarrow> nat list \<Rightarrow> i64" where
  "vector_loop x y z [] = z"
| "vector_loop x y z (i # is) =
     (if y = 0 then z
      else let dx = fc_coord_shift x i; dy = fc_coord_shift y i
      in if 0 <s y then vector_loop (x + dy) (y - dx) (z + fc_atan_turns ! i) is
         else vector_loop (x - dy) (y + dx) (z - fc_atan_turns ! i) is)"

definition fcq_atan2 :: "linears_fixed_t \<Rightarrow> linears_fixed_t \<Rightarrow> linears_fixed_t fc" where
  "fcq_atan2 fy fx = do {
     s \<leftarrow> fc_status;
     if s \<noteq> LINEARS_OK then State_Monad.return 0
     else if fx = 0 \<and> fy = 0 then do { _ \<leftarrow> fc_fail_if True LINEARS_ERROR_DOMAIN; State_Monad.return 0 }
     else if fy = 0 then State_Monad.return (if 0 <s fx then 0 else LINEARS_FIXED_ONE div 2)
     else if fx = 0 then State_Monad.return
       (if 0 <s fy then LINEARS_FIXED_ONE div 4 else 3 * (LINEARS_FIXED_ONE div 4))
     else do {
       ax \<leftarrow> fcq_abs fx;
       ay \<leftarrow> fcq_abs fy;
       let largest = (if ay \<le>s ax then ax else ay);
       nx \<leftarrow> fcq_div fx largest;
       ny \<leftarrow> fcq_div fy largest;
       s' \<leftarrow> fc_status;
       if s' \<noteq> LINEARS_OK then State_Monad.return 0
       else
         let x = nx * 536870912; y = ny * 536870912;
             (x1, y1, z) = (if x <s 0 then (- x, - y, cordic_turn div 2) else (x, y, 0));
             z1 = vector_loop x1 y1 z [0..<32];
             z2 = (if z1 <s 0 then z1 + cordic_turn else z1);
             z3 = (if cordic_turn \<le>s z2 then z2 - cordic_turn else z2)
         in do {
           a \<leftarrow> fc_op 0 (linears_fixed_muldiv z3 1 LINEARS_FIXED_ONE);
           fcq_wrap a
         }
     }
   }"

section \<open>Signal formats\<close>

text \<open>
  What \<open>fieldctrl_variant.h\<close> selects for a fixed-point signal type \<open>'t\<close>: its zero, the conversion to the
  working format (\<open>FC_FIELD\<close>, and \<open>FC_LOAD\<close> through the status), \<open>FC_STORE\<close>, and the circular
  \<open>FC_ANGLE_STORE\<close>, which differs between q15 and q31.
\<close>

record 't fc_format =
  fv_zero :: 't
  fv_field :: "'t \<Rightarrow> linears_fixed_t"
  fv_store :: "linears_fixed_t \<Rightarrow> 't fc"
  fv_angle_store :: "linears_fixed_t \<Rightarrow> 't fc"

definition FC_LOAD :: "'t fc_format \<Rightarrow> 't \<Rightarrow> linears_fixed_t fc" where
  "FC_LOAD V x = fcq_work_load (fv_field V x)"

definition angle_store_q15 :: "linears_fixed_t \<Rightarrow> linears_q15_t fc" where
  "angle_store_q15 x = do {
     fc_angle_work \<leftarrow> fcq_wrap x;
     s \<leftarrow> fc_status;
     if s = LINEARS_OK then
       if LINEARS_FIXED_ONE - 32768 \<le>s fc_angle_work then State_Monad.return 0
       else fcq15_store fc_angle_work
     else State_Monad.return 0
   }"

definition angle_store_q31 :: "linears_fixed_t \<Rightarrow> linears_q31_t fc" where
  "angle_store_q31 x = do {
     fc_angle_work \<leftarrow> fcq_wrap x;
     fc_angle_temp \<leftarrow> fcq31_store fc_angle_work;
     s \<leftarrow> fc_status;
     if s = LINEARS_OK then do {
       w \<leftarrow> fcq31_load fc_angle_temp;
       one \<leftarrow> fcq_i 1;
       t \<leftarrow> (if 0 \<le> fcq_cmp w one
             then do { z \<leftarrow> fcq_i 0; fcq31_store z }
             else State_Monad.return fc_angle_temp);
       s' \<leftarrow> fc_status;
       State_Monad.return (if s' = LINEARS_OK then t else 0)
     }
     else State_Monad.return 0
   }"

definition fc_q15 :: "linears_q15_t fc_format" where
  "fc_q15 = \<lparr>fv_zero = 0, fv_field = linears_fixed_from_q15, fv_store = fcq15_store, fv_angle_store = angle_store_q15\<rparr>"

definition fc_q31 :: "linears_q31_t fc_format" where
  "fc_q31 = \<lparr>fv_zero = 0, fv_field = linears_fixed_from_q31, fv_store = fcq31_store, fv_angle_store = angle_store_q31\<rparr>"

definition FC_RATIO :: "i64 \<Rightarrow> i64 \<Rightarrow> linears_fixed_t fc" where
  "FC_RATIO n d = do { a \<leftarrow> fcq_i n; b \<leftarrow> fcq_i d; fcq_div a b }"

end
