(* ===== verification/Fc_Base.thy ===== *)
theory Fc_Base
  imports Fc_Arith
begin

text \<open>
  Model of the fixed-point instantiations of \<open>libs/fieldctrl/src/base_impl.h\<close>: coordinate
  transforms, limiting, space-vector modulation, the PID controller and the V/f generator. The
  parameter \<open>V\<close> is the signal format, \<open>fc_q15\<close> or \<open>fc_q31\<close>. A structure passed by pointer is a
  cell (\<open>None\<close> for NULL); where two structures could overlap, the result of \<open>fc_overlap\<close> on their
  addresses is the argument \<open>overlap\<close>.
\<close>

section \<open>Data\<close>

record 't abc =
  abc_a :: 't
  abc_b :: 't
  abc_c :: 't

record 't ab =
  ab_alpha :: 't
  ab_beta :: 't

record 't dq =
  dq_d :: 't
  dq_q :: 't

text \<open>\<open>pc_derivative\<close> is a C enum, which can hold values outside its two enumerators.\<close>

record 't pid_config =
  pc_kp :: linears_fixed_t
  pc_ki :: linears_fixed_t
  pc_kd :: linears_fixed_t
  pc_lower :: 't
  pc_upper :: 't
  pc_options :: u32
  pc_derivative :: int
  pc_derivative_filter :: linears_fixed_t
  pc_setpoint_weight :: linears_fixed_t
  pc_integral_lower :: 't
  pc_integral_upper :: 't
  pc_separation :: 't

record 't pid =
  pid_config :: "'t pid_config"
  pid_integral :: linears_fixed_t
  pid_previous_error :: linears_fixed_t
  pid_previous_measurement :: linears_fixed_t
  pid_derivative :: linears_fixed_t
  pid_cached_dt :: linears_fixed_t
  pid_integral_step :: linears_fixed_t
  pid_derivative_gain :: linears_fixed_t
  pid_filter_weight :: linears_fixed_t
  pid_history :: bool

record 't pid_output =
  po_output :: 't
  po_proportional :: linears_fixed_t
  po_integral :: linears_fixed_t
  po_derivative :: linears_fixed_t
  po_saturated :: bool

record vvvf =
  vvvf_angle :: linears_fixed_t

record 't vvvf_output =
  vo_angle :: 't
  vo_voltage :: "'t ab"
  vo_duty :: "'t abc"
  vo_saturated :: bool

abbreviation (input) FIELDCTRL_PID_DERIVATIVE_ON_ERROR :: int where "FIELDCTRL_PID_DERIVATIVE_ON_ERROR \<equiv> 0"
abbreviation (input) FIELDCTRL_PID_DERIVATIVE_ON_MEASUREMENT :: int where "FIELDCTRL_PID_DERIVATIVE_ON_MEASUREMENT \<equiv> 1"
abbreviation (input) FIELDCTRL_PID_OPT_INTEGRAL_LIMIT :: u32 where "FIELDCTRL_PID_OPT_INTEGRAL_LIMIT \<equiv> 1"
abbreviation (input) FIELDCTRL_PID_OPT_INTEGRAL_SEPARATION :: u32 where "FIELDCTRL_PID_OPT_INTEGRAL_SEPARATION \<equiv> 2"
abbreviation (input) FIELDCTRL_PID_OPT_SETPOINT_WEIGHT :: u32 where "FIELDCTRL_PID_OPT_SETPOINT_WEIGHT \<equiv> 4"

definition FIELDCTRL_PID_OPTIONS :: u32 where
  "FIELDCTRL_PID_OPTIONS = FIELDCTRL_PID_OPT_INTEGRAL_LIMIT OR FIELDCTRL_PID_OPT_INTEGRAL_SEPARATION
     OR FIELDCTRL_PID_OPT_SETPOINT_WEIGHT"

section \<open>Clamping, limiting and modulation\<close>

definition base_clamp :: "linears_fixed_t \<Rightarrow> linears_fixed_t \<Rightarrow> linears_fixed_t \<Rightarrow> linears_fixed_t" where
  "base_clamp x lo hi = (if fcq_cmp x lo < 0 then lo else if 0 < fcq_cmp x hi then hi else x)"

text \<open>On failure the outputs keep the values \<open>a\<close> and \<open>b\<close>, as every caller passes their addresses.\<close>

definition base_limit ::
  "linears_fixed_t \<Rightarrow> linears_fixed_t \<Rightarrow> linears_fixed_t \<Rightarrow> (linears_fixed_t \<times> linears_fixed_t) fc" where
  "base_limit a b limit = do {
     magnitude \<leftarrow> fcq_hypot a b;
     (a', b') \<leftarrow> (if 0 < fcq_cmp magnitude limit
       then do { x \<leftarrow> fcq_rescale a limit magnitude; y \<leftarrow> fcq_rescale b limit magnitude; State_Monad.return (x, y) }
       else State_Monad.return (a, b));
     s \<leftarrow> fc_status;
     State_Monad.return (if s = LINEARS_OK then (a', b') else (a, b))
   }"

definition base_pwm ::
  "'t fc_format \<Rightarrow> linears_fixed_t \<Rightarrow> linears_fixed_t \<Rightarrow> linears_fixed_t \<Rightarrow> 't abc fc" where
  "base_pwm V a b bus = do {
     three \<leftarrow> fcq_i 3;
     root3 \<leftarrow> fcq_sqrt three;
     one \<leftarrow> fcq_i 1;
     limit \<leftarrow> fcq_div one root3;
     half \<leftarrow> FC_RATIO 1 2;
     aa \<leftarrow> fcq_abs a;
     bb \<leftarrow> fcq_abs b;
     let scale0 = (if 0 < fcq_cmp aa bb then aa else bb);
     let scale = (if fcq_cmp scale0 bus < 0 then bus else scale0);
     a1 \<leftarrow> fcq_div a scale;
     b1 \<leftarrow> fcq_div b scale;
     (a2, b2) \<leftarrow> base_limit a1 b1 limit;
     let p = a2;
     rb \<leftarrow> fcq_mul root3 b2;
     d1 \<leftarrow> fcq_sub rb a2;
     q \<leftarrow> fcq_mul half d1;
     rb' \<leftarrow> fcq_mul root3 b2;
     d2 \<leftarrow> fcq_add a2 rb';
     d3 \<leftarrow> fcq_neg d2;
     r \<leftarrow> fcq_mul half d3;
     let lo0 = (if fcq_cmp p q < 0 then p else q);
     let lo = (if fcq_cmp lo0 r < 0 then lo0 else r);
     let hi0 = (if 0 < fcq_cmp p q then p else q);
     let hi = (if 0 < fcq_cmp hi0 r then hi0 else r);
     lh \<leftarrow> fcq_add lo hi;
     offset \<leftarrow> fcq_mul half lh;
     p1 \<leftarrow> fcq_sub p offset;
     p2 \<leftarrow> fcq_add half p1;
     q1 \<leftarrow> fcq_sub q offset;
     q2 \<leftarrow> fcq_add half q1;
     r1 \<leftarrow> fcq_sub r offset;
     r2 \<leftarrow> fcq_add half r1;
     zero \<leftarrow> fcq_i 0;
     one' \<leftarrow> fcq_i 1;
     pa \<leftarrow> fv_store V (base_clamp p2 zero one');
     pb \<leftarrow> fv_store V (base_clamp q2 zero one');
     pc \<leftarrow> fv_store V (base_clamp r2 zero one');
     State_Monad.return \<lparr>abc_a = pa, abc_b = pb, abc_c = pc\<rparr>
   }"

section \<open>Angles and coordinate transforms\<close>

definition fieldctrl_wrap :: "'t fc_format \<Rightarrow> 't \<Rightarrow> 't ptr \<Rightarrow> linears_status_t \<times> 't ptr" where
  "fieldctrl_wrap V angle output = fc_commit output (do {
     a \<leftarrow> FC_LOAD V angle;
     fv_angle_store V a
   })"

definition fieldctrl_sincos ::
  "'t fc_format \<Rightarrow> bool \<Rightarrow> 't \<Rightarrow> 't ptr \<Rightarrow> 't ptr \<Rightarrow> linears_status_t \<times> 't ptr \<times> 't ptr" where
  "fieldctrl_sincos V overlap angle sine cosine =
     (if sine = None \<or> cosine = None then (LINEARS_ERROR_ARGUMENT, sine, cosine)
      else if overlap then (LINEARS_ERROR_ALIAS, sine, cosine)
      else case run_state (do {
             s0 \<leftarrow> fcq_i 0;
             c0 \<leftarrow> fcq_i 0;
             a \<leftarrow> FC_LOAD V angle;
             (s, c) \<leftarrow> fcq_sincos a s0 c0;
             sout \<leftarrow> fv_store V s;
             cout \<leftarrow> fv_store V c;
             State_Monad.return (sout, cout)
           }) LINEARS_OK of
             ((sout, cout), status) \<Rightarrow>
               (status, if status = LINEARS_OK then (Some sout, Some cout) else (sine, cosine)))"

definition fieldctrl_atan2 :: "'t fc_format \<Rightarrow> 't \<Rightarrow> 't \<Rightarrow> 't ptr \<Rightarrow> linears_status_t \<times> 't ptr" where
  "fieldctrl_atan2 V y x angle = fc_commit angle (do {
     a \<leftarrow> FC_LOAD V y;
     b \<leftarrow> FC_LOAD V x;
     result \<leftarrow> fcq_atan2 a b;
     fv_angle_store V result
   })"

definition fieldctrl_clarke :: "'t fc_format \<Rightarrow> 't abc \<Rightarrow> 't ab ptr \<Rightarrow> linears_status_t \<times> 't ab ptr" where
  "fieldctrl_clarke V phase stationary = fc_commit stationary (do {
     a \<leftarrow> FC_LOAD V (abc_a phase);
     b \<leftarrow> FC_LOAD V (abc_b phase);
     c \<leftarrow> FC_LOAD V (abc_c phase);
     r23 \<leftarrow> FC_RATIO 2 3;
     ta \<leftarrow> fcq_mul a r23;
     three1 \<leftarrow> fcq_i 3;
     b3 \<leftarrow> fcq_div b three1;
     three2 \<leftarrow> fcq_i 3;
     c3 \<leftarrow> fcq_div c three2;
     bc \<leftarrow> fcq_add b3 c3;
     alpha \<leftarrow> fcq_sub ta bc;
     three3 \<leftarrow> fcq_i 3;
     root1 \<leftarrow> fcq_sqrt three3;
     br \<leftarrow> fcq_div b root1;
     three4 \<leftarrow> fcq_i 3;
     root2 \<leftarrow> fcq_sqrt three4;
     cr \<leftarrow> fcq_div c root2;
     beta \<leftarrow> fcq_sub br cr;
     ra \<leftarrow> fv_store V alpha;
     rb \<leftarrow> fv_store V beta;
     State_Monad.return \<lparr>ab_alpha = ra, ab_beta = rb\<rparr>
   })"

definition fieldctrl_inverse_clarke :: "'t fc_format \<Rightarrow> 't ab \<Rightarrow> 't abc ptr \<Rightarrow> linears_status_t \<times> 't abc ptr" where
  "fieldctrl_inverse_clarke V stationary phase = fc_commit phase (do {
     a \<leftarrow> FC_LOAD V (ab_alpha stationary);
     b \<leftarrow> FC_LOAD V (ab_beta stationary);
     half \<leftarrow> FC_RATIO 1 2;
     three \<leftarrow> fcq_i 3;
     root3 \<leftarrow> fcq_sqrt three;
     root3half \<leftarrow> fcq_mul root3 half;
     ra \<leftarrow> fv_store V a;
     m1 \<leftarrow> fcq_mul root3half b;
     m2 \<leftarrow> fcq_mul half a;
     d1 \<leftarrow> fcq_sub m1 m2;
     rb \<leftarrow> fv_store V d1;
     m3 \<leftarrow> fcq_mul half a;
     m4 \<leftarrow> fcq_mul root3half b;
     d2 \<leftarrow> fcq_add m3 m4;
     d3 \<leftarrow> fcq_neg d2;
     rc \<leftarrow> fv_store V d3;
     State_Monad.return \<lparr>abc_a = ra, abc_b = rb, abc_c = rc\<rparr>
   })"

definition park_body :: "'t fc_format \<Rightarrow> 't ab \<Rightarrow> 't \<Rightarrow> 't dq fc" where
  "park_body V stationary angle = do {
     s0 \<leftarrow> fcq_i 0;
     c0 \<leftarrow> fcq_i 0;
     a \<leftarrow> FC_LOAD V (ab_alpha stationary);
     b \<leftarrow> FC_LOAD V (ab_beta stationary);
     theta \<leftarrow> FC_LOAD V angle;
     (s, c) \<leftarrow> fcq_sincos theta s0 c0;
     m1 \<leftarrow> fcq_mul a c;
     m2 \<leftarrow> fcq_mul b s;
     t1 \<leftarrow> fcq_add m1 m2;
     d \<leftarrow> fv_store V t1;
     m3 \<leftarrow> fcq_mul b c;
     m4 \<leftarrow> fcq_mul a s;
     t2 \<leftarrow> fcq_sub m3 m4;
     q \<leftarrow> fv_store V t2;
     State_Monad.return \<lparr>dq_d = d, dq_q = q\<rparr>
   }"

definition fieldctrl_park :: "'t fc_format \<Rightarrow> 't ab \<Rightarrow> 't \<Rightarrow> 't dq ptr \<Rightarrow> linears_status_t \<times> 't dq ptr" where
  "fieldctrl_park V stationary angle rotating = fc_commit rotating (park_body V stationary angle)"

definition inverse_park_body :: "'t fc_format \<Rightarrow> 't dq \<Rightarrow> 't \<Rightarrow> 't ab fc" where
  "inverse_park_body V rotating angle = do {
     s0 \<leftarrow> fcq_i 0;
     c0 \<leftarrow> fcq_i 0;
     d \<leftarrow> FC_LOAD V (dq_d rotating);
     q \<leftarrow> FC_LOAD V (dq_q rotating);
     theta \<leftarrow> FC_LOAD V angle;
     (s, c) \<leftarrow> fcq_sincos theta s0 c0;
     m1 \<leftarrow> fcq_mul d c;
     m2 \<leftarrow> fcq_mul q s;
     t1 \<leftarrow> fcq_sub m1 m2;
     alpha \<leftarrow> fv_store V t1;
     m3 \<leftarrow> fcq_mul d s;
     m4 \<leftarrow> fcq_mul q c;
     t2 \<leftarrow> fcq_add m3 m4;
     beta \<leftarrow> fv_store V t2;
     State_Monad.return \<lparr>ab_alpha = alpha, ab_beta = beta\<rparr>
   }"

definition fieldctrl_inverse_park :: "'t fc_format \<Rightarrow> 't dq \<Rightarrow> 't \<Rightarrow> 't ab ptr \<Rightarrow> linears_status_t \<times> 't ab ptr" where
  "fieldctrl_inverse_park V rotating angle stationary = fc_commit stationary (inverse_park_body V rotating angle)"

definition fieldctrl_limit_voltage :: "'t fc_format \<Rightarrow> 't ab \<Rightarrow> 't \<Rightarrow> 't ab ptr \<Rightarrow> linears_status_t \<times> 't ab ptr" where
  "fieldctrl_limit_voltage V voltage limit limited = fc_commit limited (do {
     a \<leftarrow> FC_LOAD V (ab_alpha voltage);
     b \<leftarrow> FC_LOAD V (ab_beta voltage);
     bound \<leftarrow> FC_LOAD V limit;
     zero \<leftarrow> fcq_i 0;
     fc_fail_if (fcq_cmp bound zero < 0) LINEARS_ERROR_DOMAIN;
     (a', b') \<leftarrow> base_limit a b bound;
     ra \<leftarrow> fv_store V a';
     rb \<leftarrow> fv_store V b';
     State_Monad.return \<lparr>ab_alpha = ra, ab_beta = rb\<rparr>
   })"

definition svpwm_body :: "'t fc_format \<Rightarrow> 't ab \<Rightarrow> 't \<Rightarrow> 't abc fc" where
  "svpwm_body V voltage dc_bus = do {
     a \<leftarrow> FC_LOAD V (ab_alpha voltage);
     b \<leftarrow> FC_LOAD V (ab_beta voltage);
     bus \<leftarrow> FC_LOAD V dc_bus;
     zero \<leftarrow> fcq_i 0;
     fc_fail_if (fcq_cmp bus zero \<le> 0) LINEARS_ERROR_DOMAIN;
     base_pwm V a b bus
   }"

definition fieldctrl_svpwm :: "'t fc_format \<Rightarrow> 't ab \<Rightarrow> 't \<Rightarrow> 't abc ptr \<Rightarrow> linears_status_t \<times> 't abc ptr" where
  "fieldctrl_svpwm V voltage dc_bus duty = fc_commit duty (svpwm_body V voltage dc_bus)"

end
