(* ===== verification/Fc_Pid.thy ===== *)
theory Fc_Pid
  imports Fc_Base
begin

text \<open>
  The PID controller and the V/f generator of \<open>libs/fieldctrl/src/base_impl.h\<close>, fixed-point
  instantiations.
\<close>

section \<open>PID configuration\<close>

definition has_option :: "'t pid_config \<Rightarrow> u32 \<Rightarrow> bool" where
  "has_option config opt \<longleftrightarrow> pc_options config AND opt \<noteq> 0"

definition pid_integral_bounds :: "'t fc_format \<Rightarrow> 't pid_config \<Rightarrow> linears_fixed_t \<times> linears_fixed_t" where
  "pid_integral_bounds V config =
     (if has_option config FIELDCTRL_PID_OPT_INTEGRAL_LIMIT
      then (fv_field V (pc_integral_lower config), fv_field V (pc_integral_upper config))
      else (fv_field V (pc_lower config), fv_field V (pc_upper config)))"

definition pid_check :: "'t fc_format \<Rightarrow> 't pid_config \<Rightarrow> (linears_fixed_t \<times> linears_fixed_t) fc" where
  "pid_check V config = do {
     zero \<leftarrow> fcq_i 0;
     kp \<leftarrow> fcq_work_load (pc_kp config);
     ki \<leftarrow> fcq_work_load (pc_ki config);
     kd \<leftarrow> fcq_work_load (pc_kd config);
     lo \<leftarrow> FC_LOAD V (pc_lower config);
     hi \<leftarrow> FC_LOAD V (pc_upper config);
     flt \<leftarrow> fcq_work_load (pc_derivative_filter config);
     weight \<leftarrow> fcq_work_load (pc_setpoint_weight config);
     ilo \<leftarrow> FC_LOAD V (pc_integral_lower config);
     ihi \<leftarrow> FC_LOAD V (pc_integral_upper config);
     separation \<leftarrow> FC_LOAD V (pc_separation config);
     let positive = (0 < fcq_cmp kp zero \<or> 0 < fcq_cmp ki zero \<or> 0 < fcq_cmp kd zero);
     let negative = (fcq_cmp kp zero < 0 \<or> fcq_cmp ki zero < 0 \<or> fcq_cmp kd zero < 0);
     fc_fail_if ((positive \<and> negative) \<or> 0 \<le> fcq_cmp lo hi \<or> fcq_cmp flt zero < 0
       \<or> pc_options config AND NOT FIELDCTRL_PID_OPTIONS \<noteq> 0
       \<or> (pc_derivative config \<noteq> FIELDCTRL_PID_DERIVATIVE_ON_ERROR
           \<and> pc_derivative config \<noteq> FIELDCTRL_PID_DERIVATIVE_ON_MEASUREMENT)) LINEARS_ERROR_DOMAIN;
     one \<leftarrow> fcq_i 1;
     fc_fail_if (has_option config FIELDCTRL_PID_OPT_SETPOINT_WEIGHT
       \<and> (fcq_cmp weight zero < 0 \<or> 0 < fcq_cmp weight one)) LINEARS_ERROR_DOMAIN;
     fc_fail_if (has_option config FIELDCTRL_PID_OPT_INTEGRAL_SEPARATION \<and> fcq_cmp separation zero \<le> 0)
       LINEARS_ERROR_DOMAIN;
     if has_option config FIELDCTRL_PID_OPT_INTEGRAL_LIMIT
     then do {
       fc_fail_if (0 < fcq_cmp ilo ihi) LINEARS_ERROR_DOMAIN;
       State_Monad.return (ilo, ihi)
     }
     else State_Monad.return (lo, hi)
   }"

definition pid_init :: "'t fc_format \<Rightarrow> 't pid ptr \<Rightarrow> 't pid_config ptr \<Rightarrow> 't \<Rightarrow> linears_status_t \<times> 't pid ptr" where
  "pid_init V ctx config integral =
     (case config of None \<Rightarrow> (LINEARS_ERROR_ARGUMENT, ctx)
      | Some cfg \<Rightarrow> fc_commit ctx (do {
          zero \<leftarrow> fcq_i 0;
          initial \<leftarrow> FC_LOAD V integral;
          (lo, hi) \<leftarrow> pid_check V cfg;
          fc_fail_if (fcq_cmp initial lo < 0 \<or> 0 < fcq_cmp initial hi) LINEARS_ERROR_DOMAIN;
          State_Monad.return \<lparr>pid_config = cfg, pid_integral = initial, pid_previous_error = zero,
            pid_previous_measurement = zero, pid_derivative = zero, pid_cached_dt = zero,
            pid_integral_step = zero, pid_derivative_gain = zero, pid_filter_weight = zero,
            pid_history = False\<rparr>
        }))"

definition pid_retune :: "'t fc_format \<Rightarrow> 't pid ptr \<Rightarrow> 't pid_config ptr \<Rightarrow> linears_status_t \<times> 't pid ptr" where
  "pid_retune V ctx config =
     (case (ctx, config) of
        (Some c, Some cfg) \<Rightarrow> fc_commit ctx (do {
          zero \<leftarrow> fcq_i 0;
          (lo, hi) \<leftarrow> pid_check V cfg;
          let old = pid_config c;
          let c1 = (if fcq_cmp (pc_ki cfg) (pc_ki old) \<noteq> 0 \<or> fcq_cmp (pc_kd cfg) (pc_kd old) \<noteq> 0
              \<or> fcq_cmp (pc_derivative_filter cfg) (pc_derivative_filter old) \<noteq> 0
            then c\<lparr>pid_cached_dt := zero\<rparr> else c);
          let c2 = (if fcq_cmp (pc_kd cfg) zero = 0 then c1\<lparr>pid_derivative := zero\<rparr> else c1);
          State_Monad.return (c2\<lparr>pid_integral := base_clamp (pid_integral c2) lo hi, pid_config := cfg\<rparr>)
        })
      | _ \<Rightarrow> (LINEARS_ERROR_ARGUMENT, ctx))"

definition pid_reset :: "'t fc_format \<Rightarrow> 't pid ptr \<Rightarrow> 't \<Rightarrow> linears_status_t \<times> 't pid ptr" where
  "pid_reset V ctx integral =
     (case ctx of None \<Rightarrow> (LINEARS_ERROR_ARGUMENT, None)
      | Some c \<Rightarrow> fc_commit ctx (do {
          zero \<leftarrow> fcq_i 0;
          initial \<leftarrow> FC_LOAD V integral;
          let (lo, hi) = pid_integral_bounds V (pid_config c);
          fc_fail_if (fcq_cmp initial lo < 0 \<or> 0 < fcq_cmp initial hi) LINEARS_ERROR_DOMAIN;
          State_Monad.return (c\<lparr>pid_integral := initial, pid_previous_error := zero,
            pid_previous_measurement := zero, pid_derivative := zero, pid_history := False\<rparr>)
        }))"

section \<open>PID step\<close>

text \<open>The three period-derived coefficients, recomputed when the period differs from the cached one.\<close>

definition pid_coefficients ::
  "'t pid \<Rightarrow> linears_fixed_t \<Rightarrow> linears_fixed_t \<Rightarrow> (linears_fixed_t \<times> linears_fixed_t \<times> linears_fixed_t) fc" where
  "pid_coefficients ctx zero period =
     (let config = pid_config ctx; kd = pc_kd config; flt = pc_derivative_filter config
      in if fcq_cmp period (pid_cached_dt ctx) \<noteq> 0 then do {
           integral_step \<leftarrow> fcq_mul (pc_ki config) period;
           derivative_gain \<leftarrow> (if fcq_cmp kd zero \<noteq> 0 then fcq_div kd period
             else State_Monad.return (pid_derivative_gain ctx));
           filter_weight \<leftarrow> (if 0 < fcq_cmp flt zero
             then do { d \<leftarrow> fcq_add flt period; fcq_div period d }
             else State_Monad.return (pid_filter_weight ctx));
           State_Monad.return (integral_step, derivative_gain, filter_weight)
         }
         else State_Monad.return (pid_integral_step ctx, pid_derivative_gain ctx, pid_filter_weight ctx))"

definition pid_proportional ::
  "'t pid_config \<Rightarrow> linears_fixed_t \<Rightarrow> linears_fixed_t \<Rightarrow> linears_fixed_t \<Rightarrow> linears_fixed_t fc" where
  "pid_proportional config setpoint measurement error = do {
     p0 \<leftarrow> (if has_option config FIELDCTRL_PID_OPT_SETPOINT_WEIGHT
       then do { w \<leftarrow> fcq_mul (pc_setpoint_weight config) setpoint; fcq_sub w measurement }
       else State_Monad.return error);
     fcq_mul (pc_kp config) p0
   }"

definition pid_integrate ::
  "'t fc_format \<Rightarrow> 't pid \<Rightarrow> linears_fixed_t \<Rightarrow> linears_fixed_t \<Rightarrow> linears_fixed_t fc" where
  "pid_integrate V ctx integral_step error =
     (let config = pid_config ctx; old = pid_integral ctx; (ilo, ihi) = pid_integral_bounds V config
      in do {
        enabled \<leftarrow> (if \<not> has_option config FIELDCTRL_PID_OPT_INTEGRAL_SEPARATION then State_Monad.return True
          else do { m \<leftarrow> fcq_abs error; State_Monad.return (fcq_cmp m (fv_field V (pc_separation config)) \<le> 0) });
        if enabled
        then do {
          m \<leftarrow> fcq_mul integral_step error;
          i \<leftarrow> fcq_add old m;
          State_Monad.return (base_clamp i ilo ihi)
        }
        else State_Monad.return old
      })"

definition pid_differentiate ::
  "'t pid \<Rightarrow> linears_fixed_t \<Rightarrow> linears_fixed_t \<Rightarrow> linears_fixed_t \<Rightarrow> linears_fixed_t \<Rightarrow> linears_fixed_t
    \<Rightarrow> linears_fixed_t fc" where
  "pid_differentiate ctx zero derivative_gain filter_weight measurement error =
     (let config = pid_config ctx; d = pid_derivative ctx
      in if pid_history ctx \<and> fcq_cmp (pc_kd config) zero \<noteq> 0
         then do {
           delta0 \<leftarrow> (if pc_derivative config = FIELDCTRL_PID_DERIVATIVE_ON_MEASUREMENT
             then fcq_sub (pid_previous_measurement ctx) measurement
             else fcq_sub error (pid_previous_error ctx));
           delta \<leftarrow> fcq_mul derivative_gain delta0;
           if 0 < fcq_cmp (pc_derivative_filter config) zero
           then do { e \<leftarrow> fcq_sub delta d; m \<leftarrow> fcq_mul filter_weight e; fcq_add d m }
           else State_Monad.return delta
         }
         else State_Monad.return d)"

definition pid_anti_windup ::
  "linears_fixed_t \<Rightarrow> linears_fixed_t \<Rightarrow> linears_fixed_t \<Rightarrow> linears_fixed_t \<Rightarrow> linears_fixed_t \<Rightarrow> linears_fixed_t
    \<Rightarrow> linears_fixed_t fc" where
  "pid_anti_windup raw pd lo hi old i =
     (if 0 < fcq_cmp raw hi \<and> 0 < fcq_cmp i old
      then do { boundary \<leftarrow> fcq_sub hi pd; State_Monad.return (if 0 < fcq_cmp boundary old then boundary else old) }
      else if fcq_cmp raw lo < 0 \<and> fcq_cmp i old < 0
      then do { boundary \<leftarrow> fcq_sub lo pd; State_Monad.return (if fcq_cmp boundary old < 0 then boundary else old) }
      else State_Monad.return i)"

definition pid_step_work ::
  "'t fc_format \<Rightarrow> 't pid \<Rightarrow> linears_fixed_t \<Rightarrow> linears_fixed_t \<Rightarrow> linears_fixed_t \<Rightarrow> ('t pid \<times> 't pid_output) fc" where
  "pid_step_work V ctx setpoint measurement period = do {
     zero \<leftarrow> fcq_i 0;
     fc_fail_if (fcq_cmp period zero \<le> 0) LINEARS_ERROR_DOMAIN;
     let config = pid_config ctx;
     let lo = fv_field V (pc_lower config);
     let hi = fv_field V (pc_upper config);
     error \<leftarrow> fcq_sub setpoint measurement;
     p \<leftarrow> pid_proportional config setpoint measurement error;
     (integral_step, derivative_gain, filter_weight) \<leftarrow> pid_coefficients ctx zero period;
     let old = pid_integral ctx;
     i \<leftarrow> pid_integrate V ctx integral_step error;
     d \<leftarrow> pid_differentiate ctx zero derivative_gain filter_weight measurement error;
     pd \<leftarrow> fcq_add p d;
     raw \<leftarrow> fcq_add pd i;
     let saturated = (0 < fcq_cmp raw hi \<or> fcq_cmp raw lo < 0);
     out \<leftarrow> fv_store V (base_clamp raw lo hi);
     i' \<leftarrow> pid_anti_windup raw pd lo hi old i;
     rp \<leftarrow> fcq_work_store p;
     ri \<leftarrow> fcq_work_store i';
     rd \<leftarrow> fcq_work_store d;
     State_Monad.return
       (ctx\<lparr>pid_cached_dt := period, pid_integral_step := integral_step, pid_derivative_gain := derivative_gain,
          pid_filter_weight := filter_weight, pid_integral := i', pid_previous_error := error,
          pid_previous_measurement := measurement, pid_derivative := d, pid_history := True\<rparr>,
        \<lparr>po_output = out, po_proportional = rp, po_integral = ri, po_derivative = rd, po_saturated = saturated\<rparr>)
   }"

definition pid_step ::
  "'t fc_format \<Rightarrow> bool \<Rightarrow> 't pid ptr \<Rightarrow> 't \<Rightarrow> 't \<Rightarrow> 't \<Rightarrow> 't pid_output ptr
    \<Rightarrow> linears_status_t \<times> 't pid ptr \<times> 't pid_output ptr" where
  "pid_step V overlap ctx setpoint measurement dt output = fc_commit2 ctx output overlap (\<lambda>c. do {
     reference \<leftarrow> FC_LOAD V setpoint;
     feedback \<leftarrow> FC_LOAD V measurement;
     period \<leftarrow> FC_LOAD V dt;
     pid_step_work V c reference feedback period
   })"

section \<open>V/f generator\<close>

definition vvvf_init :: "'t fc_format \<Rightarrow> vvvf ptr \<Rightarrow> 't \<Rightarrow> linears_status_t \<times> vvvf ptr" where
  "vvvf_init V ctx angle = fc_commit ctx (do {
     a0 \<leftarrow> FC_LOAD V angle;
     a \<leftarrow> fcq_wrap a0;
     r \<leftarrow> fcq_work_store a;
     State_Monad.return \<lparr>vvvf_angle = r\<rparr>
   })"

definition vvvf_step ::
  "'t fc_format \<Rightarrow> bool \<Rightarrow> vvvf ptr \<Rightarrow> 't \<Rightarrow> 't \<Rightarrow> 't \<Rightarrow> 't \<Rightarrow> 't vvvf_output ptr
    \<Rightarrow> linears_status_t \<times> vvvf ptr \<times> 't vvvf_output ptr" where
  "vvvf_step V overlap ctx frequency amplitude dc_bus dt output = fc_commit2 ctx output overlap (\<lambda>c. do {
     s0 \<leftarrow> fcq_i 0;
     c0 \<leftarrow> fcq_i 0;
     f \<leftarrow> FC_LOAD V frequency;
     amp \<leftarrow> FC_LOAD V amplitude;
     bus \<leftarrow> FC_LOAD V dc_bus;
     period \<leftarrow> FC_LOAD V dt;
     zero \<leftarrow> fcq_i 0;
     fc_fail_if (fcq_cmp amp zero < 0 \<or> fcq_cmp bus zero \<le> 0 \<or> fcq_cmp period zero \<le> 0) LINEARS_ERROR_DOMAIN;
     advance \<leftarrow> fcq_mul f period;
     m \<leftarrow> fcq_abs advance;
     half \<leftarrow> FC_RATIO 1 2;
     fc_fail_if (0 < fcq_cmp m half) LINEARS_ERROR_DOMAIN;
     next_angle \<leftarrow> fcq_add (vvvf_angle c) advance;
     angle \<leftarrow> fcq_wrap next_angle;
     let scale = (if 0 < fcq_cmp amp bus then amp else bus);
     v0 \<leftarrow> fcq_div amp scale;
     one \<leftarrow> fcq_i 1;
     three \<leftarrow> fcq_i 3;
     root3 \<leftarrow> fcq_sqrt three;
     limit \<leftarrow> fcq_div one root3;
     let saturated = (0 < fcq_cmp v0 limit);
     let v = (if saturated then limit else v0);
     (s, cs) \<leftarrow> fcq_sincos angle s0 c0;
     a \<leftarrow> fcq_mul v cs;
     b \<leftarrow> fcq_mul v s;
     ma \<leftarrow> fcq_mul a bus;
     ra \<leftarrow> fv_store V ma;
     mb \<leftarrow> fcq_mul b bus;
     rb \<leftarrow> fv_store V mb;
     rangle \<leftarrow> fv_angle_store V angle;
     state_angle \<leftarrow> fcq_work_store angle;
     one' \<leftarrow> fcq_i 1;
     duty \<leftarrow> base_pwm V a b one';
     State_Monad.return (c\<lparr>vvvf_angle := state_angle\<rparr>,
       \<lparr>vo_angle = rangle, vo_voltage = \<lparr>ab_alpha = ra, ab_beta = rb\<rparr>, vo_duty = duty, vo_saturated = saturated\<rparr>)
   })"

end
