(* ===== verification/Status_Laws.thy ===== *)
theory Status_Laws
  imports Numeric_Props
begin

text \<open>
  Facts that the clients of the numeric core share: rounding, the conversions between the signal
  formats and the working format, and the accumulator calls of the status monad as equations
  over the integers. The collection \<open>fc_ok\<close> holds the equations.
\<close>

named_theorems fc_ok

section \<open>Rounding\<close>

lemma round_half_monotone: "0 < d \<Longrightarrow> m \<le> n \<Longrightarrow> round_half m d \<le> round_half n d"
  by (simp add: round_half_def zdiv_mono1)

lemma round_away_mono:
  assumes d: "0 < d" and le: "m \<le> n"
  shows "round_away m d \<le> round_away n d"
proof -
  have p: "0 \<le> round_half \<bar>k\<bar> d" for k by (rule round_half_nonneg) (use d in auto)
  have d0: "d \<noteq> 0" using d by simp
  show ?thesis
    unfolding round_away_if [OF d0]
    using d le p [of m] p [of n] round_half_monotone [OF d, of m n] round_half_monotone [OF d, of "- n" "- m"]
    by (auto simp: abs_if)
qed

lemma round_away_exact: "0 < d \<Longrightarrow> round_away (k * d) d = k"
proof -
  assume d: "0 < d"
  have "round_half \<bar>k * d\<bar> d = (d + \<bar>k\<bar> * (2 * d)) div (2 * d)"
    using d by (simp add: round_half_def abs_mult algebra_simps)
  also have "\<dots> = \<bar>k\<bar>" using d by (subst div_mult_self1) (auto simp: div_pos_pos_trivial)
  finally show ?thesis using d by (simp add: round_away_def sgn_mult sgn_mult_abs)
qed

lemma round_away_nonneg: "0 < d \<Longrightarrow> 0 \<le> n \<Longrightarrow> 0 \<le> round_away n d"
  using round_away_mono [of d 0 n] round_away_exact [of d 0] by simp

lemma round_away_bounds: "0 < d \<Longrightarrow> lo * d \<le> n \<Longrightarrow> n \<le> hi * d \<Longrightarrow> lo \<le> round_away n d \<and> round_away n d \<le> hi"
  using round_away_mono [of d "lo * d" n] round_away_mono [of d n "hi * d"] by (simp add: round_away_exact)

lemma round_away_dist: "0 < d \<Longrightarrow> 2 * \<bar>round_away n d * d - n\<bar> \<le> d"
proof -
  assume d: "0 < d"
  define q where "q = real_of_int n / real_of_int d"
  have n: "real_of_int n = q * real_of_int d" using d by (simp add: q_def)
  have "\<bar>real_of_int (round_away n d) - q\<bar> \<le> 1 / 2" using d round_away_error [of d n] by (simp add: q_def)
  then have "\<bar>(real_of_int (round_away n d) - q) * real_of_int d\<bar> \<le> 1 / 2 * real_of_int d"
    unfolding abs_mult using d by (intro mult_mono) auto
  then have "real_of_int (2 * \<bar>round_away n d * d - n\<bar>) \<le> real_of_int d"
    by (simp add: n left_diff_distrib)
  then show ?thesis by (simp only: of_int_le_iff)
qed

lemma round_away_scale: "0 < k \<Longrightarrow> 0 < d \<Longrightarrow> round_away (k * n) (k * d) = round_away n d"
proof -
  assume k: "0 < k" "0 < d"
  have "(2 * (k * m) + k * d) div (2 * (k * d)) = (2 * m + d) div (2 * d)" for m
    using div_mult_mult1 [of k "2 * m + d" "2 * d"] k by (simp add: algebra_simps)
  note half = this [of "\<bar>n\<bar>"]
  have "round_half \<bar>k * n\<bar> \<bar>k * d\<bar> = round_half \<bar>n\<bar> \<bar>d\<bar>"
    using k half by (simp add: round_half_def abs_mult)
  then show ?thesis using k by (simp only: round_away_def sgn_mult) simp
qed

section \<open>Words as integers\<close>

lemma check_i64_iff: "check_i64 k = Inr v \<longleftrightarrow> sint v = k"
proof
  assume v: "sint v = k"
  have "- (2 ^ 63) \<le> sint v" "sint v < 2 ^ 63"
    using sint_ge [of v] sint_lt [of v] by simp_all
  with v show "check_i64 k = Inr v" by (auto simp: check_i64_def)
qed (rule check_i64_Inr)

lemma sint_inject: "sint a = sint b \<longleftrightarrow> a = b" for a b :: "'a::len word"
  by (metis word_sint_eqI)

lemma q15_field: "sint (linears_fixed_from_q15 t) = sint t * 65536"
proof -
  have b: "- (2 ^ 15) \<le> sint t" "sint t < 2 ^ 15" using sint_ge [of t] sint_lt [of t] by simp_all
  have "linears_fixed_from_q15 t = word_of_int (sint t * 65536)"
    by (simp only: linears_fixed_from_q15_def scast_eq of_int_mult of_int_numeral)
  then show ?thesis using b sint_word_of_int_fits [where 'a = 64, of "sint t * 65536"] by (simp only:) simp
qed

lemma q31_field: "sint (linears_fixed_from_q31 t) = sint t"
proof -
  have b: "- (2 ^ 31) \<le> sint t" "sint t < 2 ^ 31" using sint_ge [of t] sint_lt [of t] by simp_all
  have "linears_fixed_from_q31 t = word_of_int (sint t)"
    by (simp only: linears_fixed_from_q31_def scast_eq)
  then show ?thesis using b sint_word_of_int_fits [where 'a = 64, of "sint t"] by (simp only:) simp
qed

lemma q15_result_iff:
  "q15_result v = Inr t \<longleftrightarrow> \<bar>sint v\<bar> \<le> 2 ^ 31 \<and> sint t = min (round_away (sint v) (2 ^ 16)) (2 ^ 15 - 1)"
proof (cases "\<bar>sint v\<bar> \<le> 2 ^ 31")
  case True
  define k where "k = min (round_away (sint v) (2 ^ 16)) (2 ^ 15 - 1)"
  have "- (2 ^ 15) \<le> round_away (sint v) (2 ^ 16)"
    using round_away_bounds [of "2 ^ 16" "- (2 ^ 15)" "sint v" "2 ^ 15"] True by simp
  then have "sint (word_of_int k :: i16) = k" by (intro sint_word_of_int_fits) (auto simp: k_def)
  with True show ?thesis unfolding q15_result_def k_def [symmetric] by (auto simp: sint_inject [symmetric])
qed (simp add: q15_result_def)

lemma q31_result_iff:
  "q31_result v = Inr t \<longleftrightarrow> \<bar>sint v\<bar> \<le> 2 ^ 31 \<and> sint t = min (sint v) (2 ^ 31 - 1)"
proof (cases "\<bar>sint v\<bar> \<le> 2 ^ 31")
  case True
  define k where "k = min (sint v) (2 ^ 31 - 1)"
  have "sint (word_of_int k :: i32) = k" using True by (intro sint_word_of_int_fits) (auto simp: k_def)
  with True show ?thesis unfolding q31_result_def k_def [symmetric] by (auto simp: sint_inject [symmetric])
qed (simp add: q31_result_def)

lemma exists_i16: "- (2 ^ 15) \<le> k \<Longrightarrow> k < 2 ^ 15 \<Longrightarrow> \<exists>t :: i16. sint t = k"
  by (intro exI [of _ "word_of_int k"] sint_word_of_int_fits) simp_all

lemma exists_i32: "- (2 ^ 31) \<le> k \<Longrightarrow> k < 2 ^ 31 \<Longrightarrow> \<exists>t :: i32. sint t = k"
  by (intro exI [of _ "word_of_int k"] sint_word_of_int_fits) simp_all

lemma i16_range: "- (2 ^ 15) \<le> sint t \<and> sint t < 2 ^ 15" for t :: i16
  using sint_ge [of t] sint_lt [of t] by simp

lemma i32_range: "- (2 ^ 31) \<le> sint t \<and> sint t < 2 ^ 31" for t :: i32
  using sint_ge [of t] sint_lt [of t] by simp

lemma exists_i64: "- (2 ^ 63) \<le> k \<Longrightarrow> k < 2 ^ 63 \<Longrightarrow> \<exists>t :: i64. sint t = k"
  by (intro exI [of _ "word_of_int k"] sint_word_of_int_fits) simp_all

lemma i64_range: "- (2 ^ 63) \<le> sint t \<and> sint t < 2 ^ 63" for t :: i64
  using sint_ge [of t] sint_lt [of t] by simp

lemma abs_bound_i64: "\<bar>k\<bar> \<le> 2 ^ 31 \<Longrightarrow> - (2 ^ 63) \<le> k" "\<bar>k\<bar> \<le> 2 ^ 31 \<Longrightarrow> k < 2 ^ 63" for k :: int
  by auto

lemma compare_iff [simp]:
  "linears_fixed_compare a b < 0 \<longleftrightarrow> sint a < sint b" "0 < linears_fixed_compare a b \<longleftrightarrow> sint b < sint a"
  "linears_fixed_compare a b \<le> 0 \<longleftrightarrow> sint a \<le> sint b" "0 \<le> linears_fixed_compare a b \<longleftrightarrow> sint b \<le> sint a"
  "linears_fixed_compare a b = 0 \<longleftrightarrow> a = b"
  by (auto simp: linears_fixed_compare_def word_sless_alt sint_inject [symmetric])

section \<open>Accumulator calls\<close>

lemma accum_val_inject: "accum_val a = accum_val b \<longleftrightarrow> a = b"
proof
  assume eq: "accum_val a = accum_val b"
  have lo: "uint (acc_low c) = accum_val c mod 2 ^ 64" for c
    using uint_lt2p [of "acc_low c"] by (simp add: accum_val_def mod_pos_pos_trivial)
  then have l: "uint (acc_low a) = uint (acc_low b)" using eq by simp
  then have "sint (acc_high a) = sint (acc_high b)" using eq by (simp add: accum_val_def)
  with l show "a = b" by (simp add: sint_inject word_uint_eq_iff)
qed simp

lemma accum_val_zero [simp]: "accum_val accum_zero = 0"
  by (simp add: accum_val_def)

lemma ok_fc_mac [fc_ok]: "ok_run (fc_mac acc a b) r \<longleftrightarrow> accum_val r = accum_val acc + sint a * sint b"
proof -
  let ?k = "accum_val acc + sint a * sint b"
  have fit: "accum_val (ln_add_unchecked acc (ln_product a b)) = ?k" if "- (2 ^ 127) \<le> ?k" "?k < 2 ^ 127"
    using ln_add_unchecked_val [of acc "ln_product a b"] that by (simp add: accum_val_product)
  have "ok_run (fc_mac acc a b) r \<longleftrightarrow>
      - (2 ^ 127) \<le> ?k \<and> ?k < 2 ^ 127 \<and> r = ln_add_unchecked acc (ln_product a b)"
    unfolding ok_run_def fc_mac_def fc_op_def sticky_call_def linears_fixed_mac_spec by auto
  also have "\<dots> \<longleftrightarrow> accum_val r = ?k"
    using fit accum_val_bounds [of r] by (metis accum_val_inject)
  finally show ?thesis .
qed

lemma ok_fc_msu [fc_ok]: "ok_run (fc_msu acc a b) r \<longleftrightarrow> accum_val r = accum_val acc - sint a * sint b"
proof -
  let ?k = "accum_val acc - sint a * sint b"
  have fit: "accum_val (ln_add_unchecked acc (ln_negate (ln_product a b))) = ?k" if "- (2 ^ 127) \<le> ?k" "?k < 2 ^ 127"
    using ln_add_unchecked_val [of acc "ln_negate (ln_product a b)"] that by (simp add: accum_val_neg_product)
  have "ok_run (fc_msu acc a b) r \<longleftrightarrow>
      - (2 ^ 127) \<le> ?k \<and> ?k < 2 ^ 127 \<and> r = ln_add_unchecked acc (ln_negate (ln_product a b))"
    unfolding ok_run_def fc_msu_def fc_op_def sticky_call_def linears_fixed_msu_spec by auto
  also have "\<dots> \<longleftrightarrow> accum_val r = ?k"
    using fit accum_val_bounds [of r] by (metis accum_val_inject)
  finally show ?thesis .
qed

lemma sticky_mac [simp]: "sticky (fc_mac acc a b)" "sticky (fc_msu acc a b)"
  by (simp_all add: fc_mac_def fc_msu_def)

lemma ok_accum_to_fixed [fc_ok]:
  "ok_run (fc_op 0 (linears_accum_to_fixed v)) r \<longleftrightarrow> sint r = round_away (accum_val v) (2 ^ 31)"
  using fx_accum.ok_fc_op [of 0 v r] by (simp add: check_i64_iff)

lemma ok_to_q15: "ok_run (fc_op z (linears_fixed_to_q15 x)) t \<longleftrightarrow>
    \<bar>sint x\<bar> \<le> 2 ^ 31 \<and> sint t = min (round_away (sint x) (2 ^ 16)) (2 ^ 15 - 1)"
  using fx_q15.ok_fc_op [of z x t] by (simp add: q15_result_iff)

lemma ok_to_q31: "ok_run (fc_op z (linears_fixed_to_q31 x)) t \<longleftrightarrow>
    \<bar>sint x\<bar> \<le> 2 ^ 31 \<and> sint t = min (sint x) (2 ^ 31 - 1)"
  using fx_q31.ok_fc_op [of z x t] by (simp add: q31_result_iff)

lemma exists_accum:
  assumes "- (2 ^ 127) \<le> k" "k < 2 ^ 127"
  shows "\<exists>acc. accum_val acc = k"
proof -
  define hi where "hi = k div 2 ^ 64"
  have "- (2 ^ 63) \<le> hi" "hi < 2 ^ 63" using assms by (auto simp: hi_def)
  then have h: "sint (word_of_int hi :: i64) = hi" by (intro sint_word_of_int_fits) simp_all
  have "accum_val \<lparr>acc_low = word_of_int k, acc_high = word_of_int hi\<rparr> = hi * 2 ^ 64 + k mod 2 ^ 64"
    by (simp add: accum_val_def h uint_word_of_int take_bit_eq_mod)
  also have "\<dots> = k" unfolding hi_def by (rule div_mult_mod_eq)
  finally show ?thesis by blast
qed

lemma ok_fc_op_cell: "f (Some d) \<noteq> (LINEARS_OK, None) \<Longrightarrow> ok_run (fc_op d f) r \<longleftrightarrow> f (Some d) = (LINEARS_OK, Some r)"
  by (auto simp: ok_run_def fc_op_def sticky_call_def split: prod.splits option.splits)

lemma ok_op_arith:
  "ok_run (fc_op 0 (linears_fixed_from_int k)) r \<longleftrightarrow> sint r = sint k * 2 ^ 31"
  "ok_run (fc_op 0 (linears_fixed_add a b)) r \<longleftrightarrow> sint r = sint a + sint b"
  "ok_run (fc_op 0 (linears_fixed_div a b)) r \<longleftrightarrow> b \<noteq> 0 \<and> sint r = round_away (sint a * 2 ^ 31) (sint b)"
  using fx_from_int.ok_fc_op [of 0 k r] fx_add.ok_fc_op [of 0 "(a, b)" r] fx_div.ok_fc_op [of 0 "(a, b)" r]
  by (auto simp: check_i64_iff div_result_def simp del: power_numeral)

end
