(* ===== verification/Fc_Laws.thy ===== *)
theory Fc_Laws
  imports Fc_Arith Status_Laws
begin

text \<open>
  The scalar helpers of the field-control library as equations over the integers: what a successful
  call returns, and that each of them propagates a failed status.
\<close>

section \<open>The scalar helpers as integer equations\<close>

lemma sticky_work_load [simp]: "sticky (fcq_work_load x)" "sticky (fcq_work_store x)"
  by (simp_all add: sticky_def fcq_work_load_def fcq_work_store_def)

lemma ok_work_load [simp]: "ok_run (fcq_work_load x) r \<longleftrightarrow> r = x" "ok_run (fcq_work_store x) r \<longleftrightarrow> r = x"
  by (auto simp: ok_run_def fcq_work_load_def fcq_work_store_def)

lemma sticky_fcq [simp]:
  "sticky (fcq_add a b)" "sticky (fcq_sub a b)" "sticky (fcq_mul a b)" "sticky (fcq_div a b)"
  "sticky (fcq_neg a)" "sticky (fcq_abs a)" "sticky (fcq_sqrt a)" "sticky (fcq_i a)"
  "sticky (fcq_rescale a b c)" "sticky (fcq15_store a)" "sticky (fcq31_store a)"
  "sticky (fcq15_load p)" "sticky (fcq31_load q)"
  by (simp_all add: fcq_add_def fcq_sub_def fcq_mul_def fcq_div_def fcq_neg_def fcq_abs_def
      fcq_sqrt_def fcq_i_def fcq_rescale_def fcq15_store_def fcq31_store_def fcq15_load_def fcq31_load_def)

lemma ok_fcq_add [fc_ok]: "ok_run (fcq_add a b) r \<longleftrightarrow> sint r = sint a + sint b"
  using fx_add.ok_fc_op [of 0 "(a, b)" r] by (simp add: fcq_add_def check_i64_iff)

lemma ok_fcq_sub [fc_ok]: "ok_run (fcq_sub a b) r \<longleftrightarrow> sint r = sint a - sint b"
  using fx_sub.ok_fc_op [of 0 "(a, b)" r] by (simp add: fcq_sub_def check_i64_iff)

lemma ok_fcq_mul [fc_ok]: "ok_run (fcq_mul a b) r \<longleftrightarrow> sint r = round_away (sint a * sint b) (2 ^ 31)"
  using fx_mul.ok_fc_op [of 0 "(a, b)" r] by (simp add: fcq_mul_def check_i64_iff)

lemma ok_fcq_div [fc_ok]:
  "ok_run (fcq_div a b) r \<longleftrightarrow> b \<noteq> 0 \<and> sint r = round_away (sint a * 2 ^ 31) (sint b)"
  using fx_div.ok_fc_op [of 0 "(a, b)" r] by (auto simp: fcq_div_def div_result_def check_i64_iff)

lemma ok_fcq_rescale [fc_ok]:
  "ok_run (fcq_rescale a n d) r \<longleftrightarrow> d \<noteq> 0 \<and> sint r = round_away (sint a * sint n) (sint d)"
  using fx_muldiv.ok_fc_op [of 0 "(a, n, d)" r] by (auto simp: fcq_rescale_def muldiv_result_def check_i64_iff)

lemma ok_fcq_neg [fc_ok]: "ok_run (fcq_neg a) r \<longleftrightarrow> sint r = - sint a"
  using fx_neg.ok_fc_op [of 0 a r] by (simp add: fcq_neg_def check_i64_iff)

lemma ok_fcq_abs [fc_ok]: "ok_run (fcq_abs a) r \<longleftrightarrow> sint r = \<bar>sint a\<bar>"
  using fx_abs.ok_fc_op [of 0 a r] by (simp add: fcq_abs_def check_i64_iff)

lemma ok_fcq_i [fc_ok]: "ok_run (fcq_i a) r \<longleftrightarrow> sint r = sint a * 2 ^ 31"
  using fx_from_int.ok_fc_op [of 0 a r] by (simp add: fcq_i_def check_i64_iff del: power_numeral)

lemma nearest_sqrt_unique:
  assumes "nearest_sqrt n r" "nearest_sqrt n r'"
  shows "r = r'"
proof -
  have "False" if "nearest_sqrt n x" "nearest_sqrt n y" "x < y" for x y
  proof -
    have "x * (x + 1) \<le> (y - 1) * y" using that by (intro mult_mono) (auto simp: nearest_sqrt_def)
    moreover have "y * (y - 1) < n" "n \<le> x * (x + 1)" using that by (auto simp: nearest_sqrt_def)
    ultimately show False by (simp add: mult.commute)
  qed
  with assms show ?thesis by (metis linorder_neqE)
qed

lemma ok_fcq_sqrt [fc_ok]: "ok_run (fcq_sqrt a) r \<longleftrightarrow> 0 \<le> sint a \<and> nearest_sqrt (sint a * 2 ^ 31) (sint r)"
proof (cases "0 \<le> sint a")
  case True
  then obtain q where q: "linears_fixed_sqrt a (Some 0) = (LINEARS_OK, Some q)" "nearest_sqrt (sint a * 2 ^ 31) (sint q)"
    using linears_fixed_sqrt_spec by blast
  from q(1) have "ok_run (fcq_sqrt a) r \<longleftrightarrow> r = q"
    by (auto simp: ok_run_def fcq_sqrt_def fc_op_def sticky_call_def)
  with True q(2) show ?thesis using nearest_sqrt_unique sint_inject by blast
next
  case False
  then show ?thesis
    using fx_sqrt.ok_fc_op [of 0 a r] by (simp add: fcq_sqrt_def sqrt_result_def word_sless_alt)
qed

text \<open>The working-format value of \<open>sqrt 3\<close>.\<close>

lemma nearest_root3: "nearest_sqrt (3 * 2 ^ 62) 3719550787"
  by (simp add: nearest_sqrt_def)

lemma root3_value: "ok_run (fcq_i 3) three \<Longrightarrow> ok_run (fcq_sqrt three) root3 \<Longrightarrow> sint root3 = 3719550787"
proof -
  assume "ok_run (fcq_i 3) three" and r: "ok_run (fcq_sqrt three) root3"
  then have "sint three * 2 ^ 31 = 3 * 2 ^ 62" by (simp add: ok_fcq_i)
  with r show ?thesis using nearest_root3 nearest_sqrt_unique unfolding ok_fcq_sqrt by metis
qed

lemma ok_fcq15_store: "ok_run (fcq15_store x) t \<longleftrightarrow> q15_result x = Inr t"
  using fx_q15.ok_fc_op [of 0 x t] by (simp add: fcq15_store_def)

lemma ok_fcq31_store: "ok_run (fcq31_store x) t \<longleftrightarrow> q31_result x = Inr t"
  using fx_q31.ok_fc_op [of 0 x t] by (simp add: fcq31_store_def)

lemma cmp_iff [simp]:
  "fcq_cmp a b < 0 \<longleftrightarrow> sint a < sint b" "0 < fcq_cmp a b \<longleftrightarrow> sint b < sint a"
  "fcq_cmp a b \<le> 0 \<longleftrightarrow> sint a \<le> sint b" "0 \<le> fcq_cmp a b \<longleftrightarrow> sint b \<le> sint a"
  "fcq_cmp a b = 0 \<longleftrightarrow> a = b"
  by (auto simp: fcq_cmp_def linears_fixed_compare_def word_sless_alt sint_inject [symmetric])


end
