(* ===== verification/Fc_Format.thy ===== *)
theory Fc_Format
  imports Fc_Laws
begin

text \<open>
  What the controllers rely on when they load and store a signal, as an interface, and its two
  instances q15 and q31; and the wrapping of angles into one turn.
\<close>

section \<open>The interface\<close>

locale signal_format =
  fixes V :: "'t fc_format"
  assumes field_range: "- (2 ^ 31) \<le> sint (fv_field V t) \<and> sint (fv_field V t) < 2 ^ 31"
    and store_sticky: "sticky (fv_store V x)"
    and store_total: "(\<exists>t. ok_run (fv_store V x) t) \<longleftrightarrow> \<bar>sint x\<bar> \<le> 2 ^ 31"
    and store_field: "ok_run (fv_store V (fv_field V t)) t"
    and store_mono: "ok_run (fv_store V x) t \<Longrightarrow> ok_run (fv_store V y) u \<Longrightarrow> sint x \<le> sint y \<Longrightarrow>
      sint (fv_field V t) \<le> sint (fv_field V u)"
    and angle_sticky: "sticky (fv_angle_store V x)"
    and angle_total: "\<exists>t. ok_run (fv_angle_store V x) t \<and> 0 \<le> sint (fv_field V t)"
begin

lemma store_between:
  assumes "ok_run (fv_store V x) t" "sint (fv_field V lo) \<le> sint x" "sint x \<le> sint (fv_field V hi)"
  shows "sint (fv_field V lo) \<le> sint (fv_field V t) \<and> sint (fv_field V t) \<le> sint (fv_field V hi)"
  using store_mono [OF store_field assms(1,2)] store_mono [OF assms(1) store_field assms(3)] by blast

lemma sticky_LOAD: "sticky (FC_LOAD V x)"
  by (simp add: FC_LOAD_def)

lemma ok_LOAD: "ok_run (FC_LOAD V x) r \<longleftrightarrow> r = fv_field V x"
  by (simp add: FC_LOAD_def)

lemmas sticky_simps = store_sticky angle_sticky sticky_LOAD

end

section \<open>Wrapping\<close>

lemma smod_to_mod: "(if k smod m < 0 then k smod m + m else k smod m) = k mod m" if "0 < m" for k m :: int
proof (cases "0 \<le> k")
  case True
  then have "k smod m = k mod m" using that by (cases "k = 0") (simp_all add: signed_modulo_int_def)
  moreover have "0 \<le> k mod m" using that by simp
  ultimately show ?thesis by simp
next
  case False
  have m: "k smod m = - ((- k) mod m)" using False that by (simp add: signed_modulo_int_def)
  show ?thesis unfolding m using that by (auto simp: zmod_zminus1_eq_if pos_mod_sign split: if_splits)
qed

lemma ok_fcq_wrap: "ok_run (fcq_wrap x) r \<longleftrightarrow> sint r = sint x mod 2 ^ 31"
proof -
  define k where "k = sint x smod 2 ^ 31"
  have one: "sint LINEARS_FIXED_ONE = 2 ^ 31" by (simp add: LINEARS_FIXED_ONE_def)
  have k: "- (2 ^ 31) < k" "k < 2 ^ 31"
    using smod_int_range [of "2 ^ 31" "sint x"] by (auto simp: k_def)
  then have s: "sint (word_of_int k :: i64) = k" by (intro sint_word_of_int_fits) auto
  define r' :: i64 where "r' = (if word_of_int k <s (0 :: i64) then word_of_int k + LINEARS_FIXED_ONE else word_of_int k)"
  have "r' = word_of_int (if k < 0 then k + 2 ^ 31 else k)"
    by (simp add: r'_def word_sless_alt s LINEARS_FIXED_ONE_def)
  then have "sint r' = (if k < 0 then k + 2 ^ 31 else k)"
    using k by (simp add: sint_word_of_int_fits)
  then have "sint r' = sint x mod 2 ^ 31"
    using smod_to_mod [of "2 ^ 31" "sint x"] unfolding k_def [symmetric] by simp
  moreover have "ok_run (fcq_wrap x) r \<longleftrightarrow> r = r'"
    unfolding fcq_wrap_def one k_def [symmetric] Let_def r'_def [symmetric] by simp
  ultimately show ?thesis by (metis sint_inject)
qed

lemma sticky_fcq_wrap [simp]: "sticky (fcq_wrap x)"
  by (simp add: fcq_wrap_def)


section \<open>The two formats\<close>

lemma fcq_wrap_run:
  obtains w where "sint w = sint x mod 2 ^ 31" "0 \<le> sint w" "sint w < 2 ^ 31" "\<And>r. ok_run (fcq_wrap x) r \<longleftrightarrow> r = w"
proof -
  define w :: i64 where "w = word_of_int (sint x mod 2 ^ 31)"
  have m: "0 \<le> sint x mod 2 ^ 31" "sint x mod 2 ^ 31 < 2 ^ 31" by simp_all
  then have "sint w = sint x mod 2 ^ 31" unfolding w_def by (intro sint_word_of_int_fits) simp_all
  with m show ?thesis by (intro that [of w]) (simp_all add: ok_fcq_wrap sint_inject [symmetric])
qed

lemma angle_store_q15_ok:
  "ok_run (angle_store_q15 x) t \<longleftrightarrow>
    sint t = (if 2 ^ 31 - 32768 \<le> sint x mod 2 ^ 31 then 0 else round_away (sint x mod 2 ^ 31) (2 ^ 16))"
proof -
  obtain w where w: "sint w = sint x mod 2 ^ 31" "0 \<le> sint w" "sint w < 2 ^ 31"
    "\<And>r. ok_run (fcq_wrap x) r \<longleftrightarrow> r = w" using fcq_wrap_run [of x] by blast
  have z: "sint t = 0 \<longleftrightarrow> t = 0" by (rule sint_0_iff)
  have lim: "(LINEARS_FIXED_ONE - 32768 \<le>s w) = (2 ^ 31 - 32768 \<le> sint w)"
    by (simp add: LINEARS_FIXED_ONE_def word_sle_eq)
  have small: "round_away n (2 ^ 16) \<le> 2 ^ 15 - 1" if "n < 2 ^ 31 - 32768" "0 \<le> n" for n
    using that by (simp add: round_away_if round_half_def)
  have "ok_run (angle_store_q15 x) t \<longleftrightarrow>
      (if 2 ^ 31 - 32768 \<le> sint w then t = 0 else ok_run (fcq15_store w) t)"
    by (simp add: angle_store_q15_def w(4) lim)
  also have "\<dots> \<longleftrightarrow> sint t = (if 2 ^ 31 - 32768 \<le> sint w then 0 else round_away (sint w) (2 ^ 16))"
    using w(2,3) small [of "sint w"] by (auto simp: ok_fcq15_store q15_result_iff z)
  finally show ?thesis by (simp add: w(1))
qed

lemma angle_store_q31_ok: "ok_run (angle_store_q31 x) t \<longleftrightarrow> sint t = sint x mod 2 ^ 31"
proof -
  obtain w where w: "sint w = sint x mod 2 ^ 31" "0 \<le> sint w" "sint w < 2 ^ 31"
    "\<And>r. ok_run (fcq_wrap x) r \<longleftrightarrow> r = w" using fcq_wrap_run [of x] by blast
  have st: "ok_run (fcq31_store w) u \<longleftrightarrow> sint u = sint w" for u
    using w(2,3) by (auto simp: ok_fcq31_store q31_result_iff)
  have one: "ok_run (fcq_i 1) r \<longleftrightarrow> r = 0x80000000" for r
    using sint_inject [of r "0x80000000"] by (simp add: ok_fcq_i)
  have "ok_run (angle_store_q31 x) t \<longleftrightarrow> sint t = sint w"
    using w(3) by (auto simp: angle_store_q31_def w(4) st one fcq31_load_def q31_field intro!: exI [of _ t])
  then show ?thesis by (simp add: w(1))
qed

lemma sticky_angle_stores [simp]: "sticky (angle_store_q15 x)" "sticky (angle_store_q31 x)"
  by (simp_all add: angle_store_q15_def angle_store_q31_def)

interpretation q15: signal_format fc_q15
proof (unfold_locales, goal_cases)
  case (1 t)
  show ?case using i16_range [of t] by (simp add: fc_q15_def q15_field)
next
  case (2 x)
  show ?case by (simp add: fc_q15_def)
next
  case (3 x)
  have "\<exists>t :: i16. sint t = min (round_away (sint x) (2 ^ 16)) (2 ^ 15 - 1)" if "\<bar>sint x\<bar> \<le> 2 ^ 31"
    using round_away_bounds [of "2 ^ 16" "- (2 ^ 15)" "sint x" "2 ^ 15"] that
    by (intro exists_i16) auto
  then show ?case by (auto simp: fc_q15_def ok_fcq15_store q15_result_iff)
next
  case (4 t)
  have "round_away (sint t * 2 ^ 16) (2 ^ 16) = sint t" by (rule round_away_exact) simp
  then show ?case using i16_range [of t] by (auto simp: fc_q15_def ok_fcq15_store q15_result_iff q15_field)
next
  case (5 x t y u)
  then show ?case using round_away_mono [of "2 ^ 16" "sint x" "sint y"]
    by (auto simp: fc_q15_def ok_fcq15_store q15_result_iff q15_field)
next
  case (6 x)
  show ?case by (simp add: fc_q15_def)
next
  case (7 x)
  define w where "w = sint x mod 2 ^ 31"
  have w: "0 \<le> w" "w < 2 ^ 31" by (simp_all add: w_def)
  obtain t :: i16 where t: "sint t = (if 2 ^ 31 - 32768 \<le> w then 0 else round_away w (2 ^ 16))"
  proof -
    have "\<exists>t :: i16. sint t = (if 2 ^ 31 - 32768 \<le> w then 0 else round_away w (2 ^ 16))"
      using w by (intro exists_i16) (auto simp: round_away_if round_half_def)
    then show thesis using that by blast
  qed
  moreover have "0 \<le> round_away w (2 ^ 16)"
    using w by (simp add: round_away_if round_half_def)
  ultimately have "ok_run (angle_store_q15 x) t \<and> 0 \<le> sint t"
    unfolding angle_store_q15_ok w_def [symmetric] by simp
  then show ?case by (intro exI [of _ t]) (simp add: fc_q15_def q15_field)
qed

interpretation q31: signal_format fc_q31
proof (unfold_locales, goal_cases)
  case (1 t)
  show ?case using i32_range [of t] by (simp add: fc_q31_def q31_field)
next
  case (2 x)
  show ?case by (simp add: fc_q31_def)
next
  case (3 x)
  have "\<exists>t :: i32. sint t = min (sint x) (2 ^ 31 - 1)" if "\<bar>sint x\<bar> \<le> 2 ^ 31"
    using that by (intro exists_i32) auto
  then show ?case by (auto simp: fc_q31_def ok_fcq31_store q31_result_iff)
next
  case (4 t)
  show ?case using i32_range [of t] by (auto simp: fc_q31_def ok_fcq31_store q31_result_iff q31_field)
next
  case (5 x t y u)
  then show ?case by (auto simp: fc_q31_def ok_fcq31_store q31_result_iff q31_field)
next
  case (6 x)
  show ?case by (simp add: fc_q31_def)
next
  case (7 x)
  have "\<exists>t :: i32. sint t = sint x mod 2 ^ 31" by (intro exists_i32) auto
  then show ?case by (auto simp: fc_q31_def angle_store_q31_ok q31_field)
qed

end
