(* ===== verification/Fc_Pid_Props.thy ===== *)
theory Fc_Pid_Props
  imports Fc_Pid Fc_Format
begin

text \<open>
  The PID controller's invariant, proved once for every signal format that satisfies the
  interface and used for q15 and q31; reachability over all entry points.
\<close>

section \<open>Invariants\<close>

definition pid_wf :: "'t fc_format \<Rightarrow> 't pid \<Rightarrow> bool" where
  "pid_wf V c \<longleftrightarrow>
     (let cfg = pid_config c; (ilo, ihi) = pid_integral_bounds V cfg
      in (\<exists>b. ok_run (pid_check V cfg) b)
       \<and> sint ilo \<le> sint (pid_integral c) \<and> sint (pid_integral c) \<le> sint ihi)"

text \<open>The cached coefficients are those of the cached period, or there is no cached period.\<close>

definition pid_cache_ok :: "'t pid \<Rightarrow> bool" where
  "pid_cache_ok c \<longleftrightarrow>
     (let cfg = pid_config c; dt = sint (pid_cached_dt c)
      in dt \<noteq> 0 \<longrightarrow>
         sint (pid_integral_step c) = round_away (sint (pc_ki cfg) * dt) (2 ^ 31)
       \<and> (pc_kd cfg \<noteq> 0 \<longrightarrow> sint (pid_derivative_gain c) = round_away (sint (pc_kd cfg) * 2 ^ 31) dt)
       \<and> (0 < sint (pc_derivative_filter cfg) \<longrightarrow>
            (\<exists>d :: i64. sint d = sint (pc_derivative_filter cfg) + dt \<and> d \<noteq> 0
               \<and> sint (pid_filter_weight c) = round_away (dt * 2 ^ 31) (sint d))))"

lemma clamp_sint:
  "sint lo \<le> sint hi \<Longrightarrow> sint lo \<le> sint (base_clamp x lo hi) \<and> sint (base_clamp x lo hi) \<le> sint hi"
  by (auto simp: base_clamp_def)

lemma ok_zero: "ok_run (fcq_i 0) z \<longleftrightarrow> z = 0"
  by (simp add: ok_fcq_i sint_0_iff)

lemma ok_one: "ok_run (fcq_i 1) z \<longleftrightarrow> z = LINEARS_FIXED_ONE"
  using sint_inject [of z "LINEARS_FIXED_ONE"] by (simp add: ok_fcq_i LINEARS_FIXED_ONE_def)

text \<open>The coefficients of a period, computed without the cache.\<close>

definition coefficients_of ::
  "'t pid \<Rightarrow> linears_fixed_t \<Rightarrow> linears_fixed_t \<Rightarrow> linears_fixed_t \<Rightarrow> linears_fixed_t \<Rightarrow> bool" where
  "coefficients_of c period st g w \<longleftrightarrow>
     sint st = round_away (sint (pc_ki (pid_config c)) * sint period) (2 ^ 31)
     \<and> (if pc_kd (pid_config c) \<noteq> 0 then sint g = round_away (sint (pc_kd (pid_config c)) * 2 ^ 31) (sint period)
         else g = pid_derivative_gain c)
     \<and> (if 0 < sint (pc_derivative_filter (pid_config c))
         then \<exists>d :: i64. sint d = sint (pc_derivative_filter (pid_config c)) + sint period \<and> d \<noteq> 0
            \<and> sint w = round_away (sint period * 2 ^ 31) (sint d)
         else w = pid_filter_weight c)"

lemma coefficients_fresh:
  "period \<noteq> 0 \<Longrightarrow>
    ok_run (pid_coefficients (c\<lparr>pid_cached_dt := 0\<rparr>) 0 period) (st, g, w) \<longleftrightarrow> coefficients_of c period st g w"
  by (simp add: pid_coefficients_def Let_def fc_ok coefficients_of_def)

context signal_format
begin

lemmas sticky_all [simp] = store_sticky angle_sticky sticky_LOAD
declare ok_LOAD [simp]

lemma sticky_pid_check [simp]: "sticky (pid_check V cfg)"
  by (simp add: pid_check_def)

lemma pid_check_ok:
  "ok_run (pid_check V cfg) b \<Longrightarrow> b = pid_integral_bounds V cfg
     \<and> sint (fv_field V (pc_lower cfg)) < sint (fv_field V (pc_upper cfg)) \<and> sint (fst b) \<le> sint (snd b)"
  by (auto simp: pid_check_def ok_zero ok_one pid_integral_bounds_def Let_def split: if_splits)

lemma pid_wf_bounds:
  "pid_wf V c \<Longrightarrow> sint (fv_field V (pc_lower (pid_config c))) < sint (fv_field V (pc_upper (pid_config c)))
     \<and> sint (fst (pid_integral_bounds V (pid_config c))) \<le> sint (snd (pid_integral_bounds V (pid_config c)))"
  using pid_check_ok by (fastforce simp: pid_wf_def Let_def split: prod.splits)

lemma pid_wfI:
  "ok_run (pid_check V (pid_config c)) (ilo, ihi) \<Longrightarrow> sint ilo \<le> sint (pid_integral c) \<Longrightarrow>
    sint (pid_integral c) \<le> sint ihi \<Longrightarrow> pid_wf V c"
  using pid_check_ok [of "pid_config c" "(ilo, ihi)"]
  by (auto simp: pid_wf_def Let_def simp del: split_paired_Ex split: prod.splits)

lemma pid_init_ok:
  assumes "pid_init V ctx cfg initial = (LINEARS_OK, Some c)"
  shows "pid_wf V c \<and> pid_cache_ok c"
proof -
  obtain old k where ctx: "ctx = Some old" "cfg = Some k"
    using assms by (cases ctx; cases cfg) (auto simp: pid_init_def fc_commit_def)
  obtain ilo ihi where chk: "ok_run (pid_check V k) (ilo, ihi)"
    and b: "sint ilo \<le> sint (pid_integral c)" "sint (pid_integral c) \<le> sint ihi"
    and c: "pid_config c = k" "pid_cached_dt c = 0"
    using assms unfolding ctx pid_init_def option.case fc_commit_ok
    by (auto simp: ok_zero split: prod.splits)
  show ?thesis using pid_wfI [of c ilo ihi] chk b c by (simp add: pid_cache_ok_def)
qed

lemma pid_retune_ok:
  assumes "pid_retune V (Some c) (Some k) = (LINEARS_OK, Some c')" "pid_cache_ok c"
  shows "pid_wf V c' \<and> pid_cache_ok c'"
proof -
  obtain ilo ihi where chk: "ok_run (pid_check V k) (ilo, ihi)"
    and i: "pid_integral c' = base_clamp (pid_integral c) ilo ihi" and c: "pid_config c' = k"
    and dt: "pid_cached_dt c' = (if pc_ki k \<noteq> pc_ki (pid_config c) \<or> pc_kd k \<noteq> pc_kd (pid_config c)
        \<or> pc_derivative_filter k \<noteq> pc_derivative_filter (pid_config c) then 0 else pid_cached_dt c)"
    and r: "pid_integral_step c' = pid_integral_step c" "pid_derivative_gain c' = pid_derivative_gain c"
      "pid_filter_weight c' = pid_filter_weight c"
    using assms(1) unfolding pid_retune_def option.case prod.case fc_commit_ok
    by (auto simp: ok_zero Let_def split: prod.splits if_splits)
  have "sint ilo \<le> sint ihi" using pid_check_ok [OF chk] by simp
  then have "pid_wf V c'" using pid_wfI [of c' ilo ihi] chk c i clamp_sint by metis
  moreover have "pid_cache_ok c'" using assms(2) unfolding pid_cache_ok_def c dt r Let_def by (auto split: if_splits)
  ultimately show ?thesis by blast
qed

lemma pid_reset_ok:
  assumes "pid_reset V (Some c) initial = (LINEARS_OK, Some c')" "pid_wf V c" "pid_cache_ok c"
  shows "pid_wf V c' \<and> pid_cache_ok c'"
  using assms unfolding pid_reset_def option.case fc_commit_ok
  by (auto simp: ok_zero pid_wf_def pid_cache_ok_def Let_def split: prod.splits)

section \<open>One step\<close>

lemma sticky_step_parts [simp]:
  "sticky (pid_proportional cfg s m e)" "sticky (pid_coefficients c z p)" "sticky (pid_integrate V c st e)"
  "sticky (pid_differentiate c z g w m e)" "sticky (pid_anti_windup raw pd lo hi old i)"
  by (simp_all add: pid_proportional_def pid_coefficients_def pid_integrate_def pid_differentiate_def
      pid_anti_windup_def Let_def split: prod.splits)

lemma pid_integrate_bounds:
  assumes "ok_run (pid_integrate V c st e) i" "pid_wf V c" "pid_integral_bounds V (pid_config c) = (ilo, ihi)"
  shows "sint ilo \<le> sint i \<and> sint i \<le> sint ihi"
proof -
  have "sint ilo \<le> sint ihi" using pid_wf_bounds [OF assms(2)] assms(3) by simp
  moreover have "sint ilo \<le> sint (pid_integral c) \<and> sint (pid_integral c) \<le> sint ihi"
    using assms(2,3) by (simp add: pid_wf_def)
  ultimately show ?thesis
    using assms(1,3) by (auto simp: pid_integrate_def clamp_sint Let_def split: if_splits)
qed

text \<open>Anti-windup keeps the integral between its old value and the candidate.\<close>

lemma anti_windup_between:
  assumes "ok_run (pid_anti_windup raw pd lo hi old i) i'" "sint raw = sint pd + sint i"
  shows "min (sint old) (sint i) \<le> sint i' \<and> sint i' \<le> max (sint old) (sint i)"
  using assms by (auto simp: pid_anti_windup_def ok_fcq_sub split: if_splits)

lemma coefficients_cached:
  assumes "pid_cache_ok c" "0 < sint period"
  shows "ok_run (pid_coefficients c 0 period) r \<longleftrightarrow> ok_run (pid_coefficients (c\<lparr>pid_cached_dt := 0\<rparr>) 0 period) r"
proof (cases "period = pid_cached_dt c")
  case False
  then have "pid_coefficients c 0 period = pid_coefficients (c\<lparr>pid_cached_dt := 0\<rparr>) 0 period"
    using assms(2) by (auto simp: pid_coefficients_def Let_def)
  then show ?thesis by simp
next
  case True
  have p: "period \<noteq> 0" "sint (pid_cached_dt c) \<noteq> 0" using assms(2) True by auto
  have "ok_run (pid_coefficients c 0 period) r \<longleftrightarrow>
      r = (pid_integral_step c, pid_derivative_gain c, pid_filter_weight c)"
    by (simp add: pid_coefficients_def True Let_def)
  also have "\<dots> \<longleftrightarrow> ok_run (pid_coefficients (c\<lparr>pid_cached_dt := 0\<rparr>) 0 period) r"
  proof (cases r)
    case (fields st g w)
    have "ok_run (pid_coefficients (c\<lparr>pid_cached_dt := 0\<rparr>) 0 period) r \<longleftrightarrow> coefficients_of c period st g w"
      unfolding fields by (rule coefficients_fresh [OF p(1)])
    also have "\<dots> \<longleftrightarrow> st = pid_integral_step c \<and> g = pid_derivative_gain c \<and> w = pid_filter_weight c"
      using assms(1) p unfolding pid_cache_ok_def coefficients_of_def Let_def True
      by (auto simp: sint_inject [symmetric])
    finally show ?thesis by (auto simp: fields)
  qed
  finally show ?thesis .
qed

lemma pid_step_work_cached:
  assumes "pid_cache_ok c" "0 < sint period"
  shows "ok_run (pid_step_work V c sp m period) r \<longleftrightarrow> ok_run (pid_step_work V (c\<lparr>pid_cached_dt := 0\<rparr>) sp m period) r"
proof -
  have same: "pid_integrate V (c\<lparr>pid_cached_dt := 0\<rparr>) st e = pid_integrate V c st e"
    "pid_differentiate (c\<lparr>pid_cached_dt := 0\<rparr>) z g w m' e = pid_differentiate c z g w m' e" for st e z g w m'
    by (simp_all add: pid_integrate_def pid_differentiate_def Let_def)
  show ?thesis
    using coefficients_cached [OF assms]
    by (simp add: pid_step_work_def ok_zero same Let_def split_def)
qed

lemma pid_step_work_parts:
  assumes "ok_run (pid_step_work V c sp m period) (c', out)"
  obtains p st g w e i d pd raw i' where
    "0 < sint period" "ok_run (fcq_sub sp m) e" "ok_run (pid_proportional (pid_config c) sp m e) p"
    "ok_run (pid_coefficients c 0 period) (st, g, w)"
    "ok_run (pid_integrate V c st e) i" "ok_run (pid_differentiate c 0 g w m e) d"
    "ok_run (fcq_add p d) pd" "ok_run (fcq_add pd i) raw"
    "ok_run (fv_store V (base_clamp raw (fv_field V (pc_lower (pid_config c))) (fv_field V (pc_upper (pid_config c)))))
       (po_output out)"
    "ok_run (pid_anti_windup raw pd (fv_field V (pc_lower (pid_config c))) (fv_field V (pc_upper (pid_config c)))
       (pid_integral c) i) i'"
    "c' = c\<lparr>pid_cached_dt := period, pid_integral_step := st, pid_derivative_gain := g,
       pid_filter_weight := w, pid_integral := i', pid_previous_error := e,
       pid_previous_measurement := m, pid_derivative := d, pid_history := True\<rparr>"
    "out = \<lparr>po_output = po_output out, po_proportional = p, po_integral = i', po_derivative = d,
       po_saturated = (sint (fv_field V (pc_upper (pid_config c))) < sint raw
         \<or> sint raw < sint (fv_field V (pc_lower (pid_config c))))\<rparr>"
  using assms by (auto simp: pid_step_work_def ok_zero Let_def not_le split: prod.splits)

lemma pid_step_work_ok:
  assumes "ok_run (pid_step_work V c sp m period) (c', out)" "pid_wf V c" "pid_cache_ok c"
  shows "pid_wf V c' \<and> pid_cache_ok c' \<and> pid_config c' = pid_config c
    \<and> sint (fv_field V (pc_lower (pid_config c))) \<le> sint (fv_field V (po_output out))
    \<and> sint (fv_field V (po_output out)) \<le> sint (fv_field V (pc_upper (pid_config c)))"
proof -
  let ?lo = "fv_field V (pc_lower (pid_config c))" and ?hi = "fv_field V (pc_upper (pid_config c))"
  obtain st g w e i d pd raw i' where
    period: "0 < sint period" and coeff: "ok_run (pid_coefficients c 0 period) (st, g, w)"
    and int: "ok_run (pid_integrate V c st e) i" and raw: "ok_run (fcq_add pd i) raw"
    and out: "ok_run (fv_store V (base_clamp raw ?lo ?hi)) (po_output out)"
    and aw: "ok_run (pid_anti_windup raw pd ?lo ?hi (pid_integral c) i) i'"
    and c': "c' = c\<lparr>pid_cached_dt := period, pid_integral_step := st, pid_derivative_gain := g,
       pid_filter_weight := w, pid_integral := i', pid_previous_error := e,
       pid_previous_measurement := m, pid_derivative := d, pid_history := True\<rparr>"
    using pid_step_work_parts [OF assms(1)] by metis
  obtain ilo ihi where b: "pid_integral_bounds V (pid_config c) = (ilo, ihi)" by fastforce
  have "sint ilo \<le> sint (pid_integral c)" "sint (pid_integral c) \<le> sint ihi"
    using assms(2) b by (simp_all add: pid_wf_def)
  then have "sint ilo \<le> sint i'" "sint i' \<le> sint ihi"
    using pid_integrate_bounds [OF int assms(2) b] anti_windup_between [OF aw] raw by (auto simp: ok_fcq_add)
  then have "pid_wf V c'" using assms(2) b by (simp add: pid_wf_def c')
  moreover have "pid_cache_ok c'"
  proof -
    have "coefficients_of c period st g w"
      using coeff period unfolding coefficients_cached [OF assms(3) period]
      by (subst coefficients_fresh [symmetric]) auto
    then show ?thesis by (auto simp: coefficients_of_def pid_cache_ok_def c' Let_def)
  qed
  moreover have "sint ?lo \<le> sint (base_clamp raw ?lo ?hi) \<and> sint (base_clamp raw ?lo ?hi) \<le> sint ?hi"
    using pid_wf_bounds [OF assms(2)] by (intro clamp_sint) simp
  then have "sint ?lo \<le> sint (fv_field V (po_output out)) \<and> sint (fv_field V (po_output out)) \<le> sint ?hi"
    using store_between [OF out] by blast
  ultimately show ?thesis by (simp add: c')
qed

text \<open>Anti-windup, in terms of the command that the stored integral stands for.\<close>

lemma anti_windup_command:
  assumes "ok_run (pid_anti_windup raw pd lo hi old i) i'" "sint raw = sint pd + sint i" "sint lo \<le> sint hi"
  shows "(sint old < sint i' \<longrightarrow> sint pd + sint i' \<le> sint hi) \<and> (sint i' < sint old \<longrightarrow> sint lo \<le> sint pd + sint i')"
  using assms by (auto simp: pid_anti_windup_def ok_fcq_sub split: if_splits)

lemma pid_step_no_windup:
  assumes "ok_run (pid_step_work V c sp m period) (c', out)" "pid_wf V c"
  shows "(sint (pid_integral c) < sint (pid_integral c') \<longrightarrow>
       sint (po_proportional out) + sint (po_derivative out) + sint (pid_integral c')
         \<le> sint (fv_field V (pc_upper (pid_config c))))
    \<and> (sint (pid_integral c') < sint (pid_integral c) \<longrightarrow>
       sint (fv_field V (pc_lower (pid_config c)))
         \<le> sint (po_proportional out) + sint (po_derivative out) + sint (pid_integral c'))"
proof -
  let ?lo = "fv_field V (pc_lower (pid_config c))" and ?hi = "fv_field V (pc_upper (pid_config c))"
  obtain p st g w e i d pd raw i' where
    pd: "ok_run (fcq_add p d) pd" and raw: "ok_run (fcq_add pd i) raw"
    and aw: "ok_run (pid_anti_windup raw pd ?lo ?hi (pid_integral c) i) i'"
    and c': "c' = c\<lparr>pid_cached_dt := period, pid_integral_step := st, pid_derivative_gain := g,
       pid_filter_weight := w, pid_integral := i', pid_previous_error := e,
       pid_previous_measurement := m, pid_derivative := d, pid_history := True\<rparr>"
    and out: "out = \<lparr>po_output = po_output out, po_proportional = p, po_integral = i', po_derivative = d,
       po_saturated = (sint ?hi < sint raw \<or> sint raw < sint ?lo)\<rparr>"
    using pid_step_work_parts [OF assms(1)] by metis
  have "po_proportional out = p" "po_derivative out = d" by (subst out, simp)+
  with anti_windup_command [OF aw] pd raw pid_wf_bounds [OF assms(2)] show ?thesis
    by (simp add: c' ok_fcq_add)
qed

lemma pid_step_OK:
  "pid_step V ov (Some c) sp m dt (Some old) = (LINEARS_OK, Some c', Some out) \<longleftrightarrow>
    \<not> ov \<and> ok_run (pid_step_work V c (fv_field V sp) (fv_field V m) (fv_field V dt)) (c', out)"
proof -
  let ?w = "pid_step_work V c (fv_field V sp) (fv_field V m) (fv_field V dt)"
  have "run_state (do { r \<leftarrow> FC_LOAD V sp; f \<leftarrow> FC_LOAD V m; p \<leftarrow> FC_LOAD V dt; pid_step_work V c r f p }) LINEARS_OK
      = run_state ?w LINEARS_OK"
    by (simp add: FC_LOAD_def fcq_work_load_def State_Monad.bind_def)
  then show ?thesis
    by (auto simp: pid_step_def fc_commit2_def ok_run_def split: prod.splits)
qed

end

section \<open>Reachable controllers\<close>

text \<open>
  The contexts a program can hold: initialised once, then passed to the other entry points in
  any order, whether the calls succeed or fail.
\<close>

inductive pid_reachable :: "'t fc_format \<Rightarrow> 't pid \<Rightarrow> bool" for V where
  init: "pid_init V ctx cfg initial = (LINEARS_OK, Some c) \<Longrightarrow> pid_reachable V c"
| retune: "pid_reachable V c \<Longrightarrow> snd (pid_retune V (Some c) cfg) = Some c' \<Longrightarrow> pid_reachable V c'"
| reset: "pid_reachable V c \<Longrightarrow> snd (pid_reset V (Some c) initial) = Some c' \<Longrightarrow> pid_reachable V c'"
| step: "pid_reachable V c \<Longrightarrow> fst (snd (pid_step V ov (Some c) sp m dt out)) = Some c' \<Longrightarrow> pid_reachable V c'"

lemma pid_retune_cases:
  assumes "snd (pid_retune V (Some c) cfg) = Some c'"
  obtains "c' = c" | k where "cfg = Some k" "pid_retune V (Some c) (Some k) = (LINEARS_OK, Some c')"
proof (cases cfg)
  case None
  with assms that(1) show ?thesis by (simp add: pid_retune_def)
next
  case (Some k)
  show ?thesis
  proof (cases "fst (pid_retune V (Some c) cfg) = LINEARS_OK")
    case True
    with assms that(2) Some show ?thesis by (metis prod.collapse)
  next
    case False
    then have "snd (pid_retune V (Some c) cfg) = Some c"
      using fc_commit_failure unfolding Some pid_retune_def by (simp only: prod.case option.case) blast
    with assms that(1) show ?thesis by simp
  qed
qed

lemma pid_reset_cases:
  assumes "snd (pid_reset V (Some c) initial) = Some c'"
  obtains "c' = c" | "pid_reset V (Some c) initial = (LINEARS_OK, Some c')"
proof (cases "fst (pid_reset V (Some c) initial) = LINEARS_OK")
  case True
  with assms that(2) show ?thesis by (metis prod.collapse)
next
  case False
  then have "snd (pid_reset V (Some c) initial) = Some c"
    using fc_commit_failure unfolding pid_reset_def by (simp only: option.case) blast
  with assms that(1) show ?thesis by simp
qed

lemma pid_step_cases:
  assumes "fst (snd (pid_step V ov (Some c) sp m dt out)) = Some c'"
  obtains "c' = c" | out' where "pid_step V ov (Some c) sp m dt out = (LINEARS_OK, Some c', Some out')" "out \<noteq> None"
  using assms by (auto simp: pid_step_def fc_commit2_def split: option.splits prod.splits if_splits)

context signal_format
begin

lemma pid_reachable_inv: "pid_reachable V c \<Longrightarrow> pid_wf V c \<and> pid_cache_ok c"
proof (induction rule: pid_reachable.induct)
  case (init ctx cfg initial c)
  then show ?case by (rule pid_init_ok)
next
  case (retune c cfg c')
  from retune.hyps(2) show ?case
    by (rule pid_retune_cases) (use retune.IH pid_retune_ok in blast)+
next
  case (reset c initial c')
  from reset.hyps(2) show ?case
    by (rule pid_reset_cases) (use reset.IH pid_reset_ok in blast)+
next
  case (step c ov sp m dt out c')
  from step.hyps(2) show ?case
  proof (rule pid_step_cases)
    fix out' assume s: "pid_step V ov (Some c) sp m dt out = (LINEARS_OK, Some c', Some out')" "out \<noteq> None"
    then obtain o1 where "out = Some o1" by auto
    with s pid_step_OK step.IH show ?thesis using pid_step_work_ok by blast
  qed (use step.IH in blast)
qed

end

section \<open>Properties\<close>

text \<open>A concrete tuning for the witnesses: kp = 1/2, ki = 1, output limited to half scale.\<close>

definition pid_example_config :: "linears_q15_t pid_config" where
  "pid_example_config = \<lparr>pc_kp = 1073741824, pc_ki = 2147483648, pc_kd = 0, pc_lower = - 16384, pc_upper = 16384,
     pc_options = 0, pc_derivative = 0, pc_derivative_filter = 0, pc_setpoint_weight = 0,
     pc_integral_lower = 0, pc_integral_upper = 0, pc_separation = 0\<rparr>"

definition pid_example :: "linears_q15_t pid" where
  "pid_example = \<lparr>pid_config = pid_example_config, pid_integral = 0, pid_previous_error = 0,
     pid_previous_measurement = 0, pid_derivative = 0, pid_cached_dt = 0, pid_integral_step = 0,
     pid_derivative_gain = 0, pid_filter_weight = 0, pid_history = False\<rparr>"

definition pid_example_output :: "linears_q15_t pid_output" where
  "pid_example_output = \<lparr>po_output = 0, po_proportional = 0, po_integral = 0, po_derivative = 0, po_saturated = False\<rparr>"

lemma pid_example_simps [simp]:
  "pc_lower (pid_config pid_example) = - 16384" "pc_upper (pid_config pid_example) = 16384"
  "pid_integral pid_example = 0"
  by (simp_all add: pid_example_def pid_example_config_def)

lemma pid_example_reachable: "pid_reachable fc_q15 pid_example"
proof (rule pid_reachable.init)
  show "pid_init fc_q15 (Some pid_example) (Some pid_example_config) 0 = (LINEARS_OK, Some pid_example)"
    by code_simp
qed

text \<open>
  C24: whatever sequence of init, retune, reset and step calls a q15 PID controller has been
  through, a successful step returns an output between the configured limits and leaves the
  integral between the integral limits in force; the tuning is unchanged.
\<close>

theorem pid_output_within_limits:
  assumes "pid_reachable fc_q15 c"
    and "pid_step fc_q15 overlap (Some c) sp m dt (Some old) = (LINEARS_OK, Some c', Some out)"
  shows "sint (pc_lower (pid_config c)) \<le> sint (po_output out) \<and> sint (po_output out) \<le> sint (pc_upper (pid_config c))
    \<and> sint (fst (pid_integral_bounds fc_q15 (pid_config c))) \<le> sint (pid_integral c')
    \<and> sint (pid_integral c') \<le> sint (snd (pid_integral_bounds fc_q15 (pid_config c)))
    \<and> pid_config c' = pid_config c"
proof -
  have inv: "pid_wf fc_q15 c" "pid_cache_ok c" using q15.pid_reachable_inv [OF assms(1)] by auto
  have run: "ok_run (pid_step_work fc_q15 c (fv_field fc_q15 sp) (fv_field fc_q15 m) (fv_field fc_q15 dt)) (c', out)"
    using assms(2) q15.pid_step_OK by blast
  from q15.pid_step_work_ok [OF run inv] show ?thesis
    by (auto simp: pid_wf_def fc_q15_def q15_field Let_def split: prod.splits)
qed

theorem pid_output_within_limits_witness:
  "\<exists>c' out. pid_reachable fc_q15 pid_example
    \<and> pid_step fc_q15 False (Some pid_example) 30000 0 3277 (Some pid_example_output) = (LINEARS_OK, Some c', Some out)
    \<and> po_saturated out \<and> sint (po_output out) \<le> 16384"
proof -
  obtain s c' out where r: "pid_step fc_q15 False (Some pid_example) 30000 0 3277 (Some pid_example_output) = (s, c', out)"
    by (metis prod_cases3)
  have ok: "fst (pid_step fc_q15 False (Some pid_example) 30000 0 3277 (Some pid_example_output)) = LINEARS_OK"
    by code_simp
  have sat: "map_option po_saturated (snd (snd (pid_step fc_q15 False (Some pid_example) 30000 0 3277 (Some pid_example_output)))) = Some True"
    by code_simp
  have ctx: "fst (snd (pid_step fc_q15 False (Some pid_example) 30000 0 3277 (Some pid_example_output))) \<noteq> None"
    by code_simp
  obtain c1 o1 where c: "c' = Some c1" "out = Some o1" using sat ctx r by auto
  have step: "pid_step fc_q15 False (Some pid_example) 30000 0 3277 (Some pid_example_output) = (LINEARS_OK, Some c1, Some o1)"
    using r ok c by simp
  from pid_output_within_limits [OF pid_example_reachable step] step sat
  show ?thesis by (auto simp: pid_example_reachable)
qed

text \<open>
  C25: anti-windup of the q15 controller. When a successful step increases the integral, the command that the
  stored integral produces does not exceed the upper limit; when it decreases the integral, the command
  does not fall below the lower limit.
\<close>

theorem pid_anti_windup_correct:
  assumes "pid_reachable fc_q15 c"
    and "pid_step fc_q15 overlap (Some c) sp m dt (Some old) = (LINEARS_OK, Some c', Some out)"
  shows "(sint (pid_integral c) < sint (pid_integral c') \<longrightarrow>
       sint (po_proportional out) + sint (po_derivative out) + sint (pid_integral c')
         \<le> sint (pc_upper (pid_config c)) * 65536)
    \<and> (sint (pid_integral c') < sint (pid_integral c) \<longrightarrow>
       sint (pc_lower (pid_config c)) * 65536
         \<le> sint (po_proportional out) + sint (po_derivative out) + sint (pid_integral c'))"
proof -
  have inv: "pid_wf fc_q15 c" using q15.pid_reachable_inv [OF assms(1)] by auto
  have run: "ok_run (pid_step_work fc_q15 c (fv_field fc_q15 sp) (fv_field fc_q15 m) (fv_field fc_q15 dt)) (c', out)"
    using assms(2) q15.pid_step_OK by blast
  from q15.pid_step_no_windup [OF run inv] show ?thesis by (simp add: fc_q15_def q15_field)
qed

theorem pid_anti_windup_correct_witness:
  "\<exists>c' out. pid_step fc_q15 False (Some pid_example) 12000 0 3277 (Some pid_example_output) = (LINEARS_OK, Some c', Some out)
    \<and> sint (pid_integral pid_example) < sint (pid_integral c')
    \<and> sint (po_proportional out) + sint (po_derivative out) + sint (pid_integral c') \<le> 16384 * 65536"
proof -
  let ?r = "pid_step fc_q15 False (Some pid_example) 12000 0 3277 (Some pid_example_output)"
  have ev: "fst ?r = LINEARS_OK" "map_option (\<lambda>c. 0 <s pid_integral c) (fst (snd ?r)) = Some True" "snd (snd ?r) \<noteq> None"
    by code_simp+
  then obtain c1 o1 where c: "fst (snd ?r) = Some c1" "snd (snd ?r) = Some o1" "0 <s pid_integral c1" by auto
  then have step: "?r = (LINEARS_OK, Some c1, Some o1)" using ev by (metis prod.collapse)
  have "sint (pid_integral pid_example) < sint (pid_integral c1)"
    using c(3) by (simp add: word_sless_alt)
  with pid_anti_windup_correct [OF pid_example_reachable step] step show ?thesis
    by auto
qed

text \<open>
  C26: caching the period-derived coefficients is invisible. For every reachable q15 context, a step
  succeeds with the same new context and the same output as the step of a copy whose cache has
  been invalidated.
\<close>

theorem pid_cache_transparent:
  assumes "pid_reachable fc_q15 c" "0 < sint dt"
  shows "pid_step fc_q15 overlap (Some c) sp m dt (Some old) = (LINEARS_OK, Some c', Some out) \<longleftrightarrow>
    pid_step fc_q15 overlap (Some (c\<lparr>pid_cached_dt := 0\<rparr>)) sp m dt (Some old) = (LINEARS_OK, Some c', Some out)"
  using q15.pid_step_work_cached [of c "fv_field fc_q15 dt"] q15.pid_reachable_inv [OF assms(1)] assms(2)
  unfolding q15.pid_step_OK by (simp add: fc_q15_def q15_field)

text \<open>The example after one step, and what a second step makes of it with the cache filled.\<close>

definition pid_warm :: "linears_q15_t pid" where
  "pid_warm = (case pid_step fc_q15 False (Some pid_example) 12000 0 3277 (Some pid_example_output) of
     (_, Some c, _) \<Rightarrow> c | _ \<Rightarrow> pid_example)"

lemma pid_warm_step:
  "(case pid_step fc_q15 False (Some pid_example) 12000 0 3277 (Some pid_example_output) of
     (s, Some c, Some r) \<Rightarrow> s = LINEARS_OK \<and> pid_cached_dt c = 214761472 \<and> pid_integral_step c \<noteq> 0
       \<and> (case pid_step fc_q15 False (Some c) 12000 500 3277 (Some pid_example_output) of
            (s', Some c', Some r') \<Rightarrow> s' = LINEARS_OK \<and> po_output r' \<noteq> 0 | _ \<Rightarrow> False)
   | _ \<Rightarrow> False)"
  by code_simp

lemma pid_warm_ok:
  obtains r c' r' where "pid_step fc_q15 False (Some pid_example) 12000 0 3277 (Some pid_example_output) = (LINEARS_OK, Some pid_warm, Some r)"
    "pid_cached_dt pid_warm = 214761472" "pid_integral_step pid_warm \<noteq> 0"
    "pid_step fc_q15 False (Some pid_warm) 12000 500 3277 (Some pid_example_output) = (LINEARS_OK, Some c', Some r')" "po_output r' \<noteq> 0"
proof -
  obtain s x y where e: "pid_step fc_q15 False (Some pid_example) 12000 0 3277 (Some pid_example_output) = (s, x, y)" by (rule prod_cases3)
  with pid_warm_step obtain c r where c: "s = LINEARS_OK" "x = Some c" "y = Some r" "pid_cached_dt c = 214761472" "pid_integral_step c \<noteq> 0"
    "case pid_step fc_q15 False (Some c) 12000 500 3277 (Some pid_example_output) of
            (s', Some c', Some r') \<Rightarrow> s' = LINEARS_OK \<and> po_output r' \<noteq> 0 | _ \<Rightarrow> False"
    by (auto split: option.splits)
  have w: "pid_warm = c" unfolding pid_warm_def by (simp add: e c(1-3))
  obtain s' x' y' where e': "pid_step fc_q15 False (Some c) 12000 500 3277 (Some pid_example_output) = (s', x', y')" by (rule prod_cases3)
  with c(6) obtain c' r' where "s' = LINEARS_OK" "x' = Some c'" "y' = Some r'" "po_output r' \<noteq> 0" by (auto split: option.splits)
  with e e' c w that show thesis by simp
qed

theorem pid_cache_transparent_witness:
  "\<exists>c' out. pid_cached_dt pid_warm \<noteq> 0 \<and> pid_integral_step pid_warm \<noteq> 0 \<and> po_output out \<noteq> 0
    \<and> pid_step fc_q15 False (Some pid_warm) 12000 500 3277 (Some pid_example_output) = (LINEARS_OK, Some c', Some out)
    \<and> pid_step fc_q15 False (Some (pid_warm\<lparr>pid_cached_dt := 0\<rparr>)) 12000 500 3277 (Some pid_example_output)
      = (LINEARS_OK, Some c', Some out)"
proof (rule pid_warm_ok)
  fix r c' out
  assume w: "pid_step fc_q15 False (Some pid_example) 12000 0 3277 (Some pid_example_output) = (LINEARS_OK, Some pid_warm, Some r)"
    "pid_cached_dt pid_warm = 214761472" "pid_integral_step pid_warm \<noteq> 0"
    "pid_step fc_q15 False (Some pid_warm) 12000 500 3277 (Some pid_example_output) = (LINEARS_OK, Some c', Some out)" "po_output out \<noteq> 0"
  have "pid_reachable fc_q15 pid_warm"
    by (rule pid_reachable.step [OF pid_example_reachable arg_cong [OF w(1), of "\<lambda>x. fst (snd x)", simplified]])
  from pid_cache_transparent [OF this] w show ?thesis by auto
qed

text \<open>
  A failing step of a fixed-point PID controller changes neither the context nor the output; it
  reports ARGUMENT for a missing structure and ALIAS for overlapping ones.
\<close>

theorem pid_step_errors:
  "(fst (pid_step V overlap ctx sp m dt out) \<noteq> LINEARS_OK \<longrightarrow> snd (pid_step V overlap ctx sp m dt out) = (ctx, out))
   \<and> (ctx = None \<or> out = None \<longrightarrow> fst (pid_step V overlap ctx sp m dt out) = LINEARS_ERROR_ARGUMENT)
   \<and> (overlap \<and> ctx \<noteq> None \<and> out \<noteq> None \<longrightarrow> fst (pid_step V overlap ctx sp m dt out) = LINEARS_ERROR_ALIAS)"
  by (auto simp: pid_step_def fc_commit2_def split: option.splits prod.splits)

theorem pid_step_errors_witness:
  "fst (pid_step fc_q15 True (Some pid_example) 0 0 0 (Some pid_example_output)) = LINEARS_ERROR_ALIAS
   \<and> snd (pid_step fc_q15 True (Some pid_example) 0 0 0 (Some pid_example_output)) = (Some pid_example, Some pid_example_output)"
  using pid_step_errors [of fc_q15 True "Some pid_example" 0 0 0 "Some pid_example_output"] by simp

end
