(* ===== verification/Filters.thy ===== *)
theory Filters
  imports Status_Monad Memory
begin

text \<open>
  Model of the fixed-point instantiations (q15 and q31) of \<open>libs/filters/src/filters_scalar_impl.h\<close>
  and \<open>filters_impl.h\<close>, and of \<open>filters_work.c\<close>: exponential average, complementary filter, FIR,
  biquad cascade, moving average and median.

  A context is a record; an array it points to is the field of that name, a list as long as the
  array object. \<open>W\<close> is the width of \<open>size_t\<close>. The results of the \<open>filters_overlap\<close> calls of a function,
  which compare addresses, are its argument \<open>alias\<close>. The result \<open>None\<close> is an access outside an array.
\<close>

section \<open>Format selection\<close>

text \<open>The \<open>FILTERS_*\<close> macros of \<open>filters_q15.c\<close> and \<open>filters_q31.c\<close>; \<open>f_zero\<close> is \<open>F_S zero = {0}\<close>.\<close>

record 't f_format =
  f_size :: nat
  f_zero :: 't
  f_load :: "'t \<Rightarrow> linears_fixed_t"
  f_export :: "linears_fixed_t \<Rightarrow> 't ptr \<Rightarrow> linears_status_t \<times> 't ptr"
  f_accum_export :: "linears_accum_t \<Rightarrow> 't ptr \<Rightarrow> linears_status_t \<times> 't ptr"
  f_mean :: "linears_accum_t \<Rightarrow> u64 \<Rightarrow> 't ptr \<Rightarrow> linears_status_t \<times> 't ptr"

definition filters_q15 :: "linears_q15_t f_format" where
  "filters_q15 = \<lparr>f_size = 2, f_zero = 0, f_load = linears_fixed_from_q15, f_export = linears_fixed_to_q15,
     f_accum_export = linears_accum_to_q15, f_mean = linears_accum_mean_q15\<rparr>"

definition filters_q31 :: "linears_q31_t f_format" where
  "filters_q31 = \<lparr>f_size = 4, f_zero = 0, f_load = linears_fixed_from_q31, f_export = linears_fixed_to_q31,
     f_accum_export = linears_accum_to_q31, f_mean = linears_accum_mean_q31\<rparr>"

section \<open>Shared helpers\<close>

definition filters_overlap :: "'s::len word \<Rightarrow> 's word \<Rightarrow> 's word \<Rightarrow> 's word \<Rightarrow> bool" where
  "filters_overlap av asize bv bsize =
     (if asize = 0 \<or> bsize = 0 then False else if av \<le> bv then bv - av < asize else av - bv < bsize)"

definition array_size :: "nat \<Rightarrow> nat \<Rightarrow> nat \<Rightarrow> linears_status_t" where
  "array_size W count element_size =
     (if count = 0 then LINEARS_ERROR_ARGUMENT
      else if (2 ^ W - 1) div element_size < count then LINEARS_ERROR_SIZE
      else LINEARS_OK)"

definition LINEARS_SIZE_MUL :: "nat \<Rightarrow> nat \<Rightarrow> nat \<Rightarrow> nat" where
  "LINEARS_SIZE_MUL W a b =
     (if (2 ^ W - 1) div (if b \<noteq> 0 then b else 1) < or a (of_bool (b = 0)) then 2 ^ W - 1 else a * b)"

definition f_weight :: "'t f_format \<Rightarrow> 't \<Rightarrow> 't fc" where
  "f_weight V value = do {
     let working = f_load V value;
     fc_fail_if (linears_fixed_compare working 0 < 0) LINEARS_ERROR_DOMAIN;
     State_Monad.return value
   }"

text \<open>\<open>LINEARS_FIXED_ONE - alpha\<close> is computed in 64 bits, where \<open>alpha\<close> is sign-extended.\<close>

definition filters_ema_work_step ::
  "linears_fixed_t ptr \<Rightarrow> linears_q31_t \<Rightarrow> linears_fixed_t \<Rightarrow> linears_status_t \<times> linears_fixed_t ptr" where
  "filters_ema_work_step state alpha input =
     (case state of None \<Rightarrow> (LINEARS_ERROR_ARGUMENT, None)
      | Some st \<Rightarrow> fc_commit state (do {
          fc_fail_if (alpha <s 0) LINEARS_ERROR_DOMAIN;
          sum1 \<leftarrow> fc_mac accum_zero (LINEARS_FIXED_ONE - scast alpha) st;
          sum2 \<leftarrow> fc_mac sum1 (scast alpha) input;
          fc_op 0 (linears_accum_to_fixed sum2)
        }))"

definition f_blend :: "linears_fixed_t \<Rightarrow> linears_fixed_t \<Rightarrow> linears_fixed_t \<Rightarrow> linears_fixed_t fc" where
  "f_blend alpha previous input = fc_op previous (\<lambda>p. filters_ema_work_step p (ucast alpha) input)"

definition f_store :: "'t f_format \<Rightarrow> linears_fixed_t \<Rightarrow> 't fc" where
  "f_store V value = fc_op (f_zero V) (f_export V value)"

section \<open>Exponential moving average\<close>

record 't ema =
  ema_alpha :: 't
  ema_value :: linears_fixed_t

definition ema_init :: "'t f_format \<Rightarrow> 't ema ptr \<Rightarrow> 't \<Rightarrow> 't \<Rightarrow> linears_status_t \<times> 't ema ptr" where
  "ema_init V ctx alpha initial = fc_commit ctx (do {
     a \<leftarrow> f_weight V alpha;
     State_Monad.return \<lparr>ema_alpha = a, ema_value = f_load V initial\<rparr>
   })"

definition ema_reset :: "'t f_format \<Rightarrow> 't ema ptr \<Rightarrow> 't \<Rightarrow> linears_status_t \<times> 't ema ptr" where
  "ema_reset V ctx initial =
     (case ctx of None \<Rightarrow> (LINEARS_ERROR_ARGUMENT, None)
      | Some c \<Rightarrow> (LINEARS_OK, Some (c\<lparr>ema_value := f_load V initial\<rparr>)))"

definition ema_step ::
  "'t f_format \<Rightarrow> bool \<Rightarrow> 't ema ptr \<Rightarrow> 't \<Rightarrow> 't ptr \<Rightarrow> linears_status_t \<times> 't ema ptr \<times> 't ptr" where
  "ema_step V alias ctx input output = fc_commit2 ctx output alias (\<lambda>c. do {
     let sample = f_load V input;
     let alpha = f_load V (ema_alpha c);
     candidate \<leftarrow> f_blend alpha (ema_value c) sample;
     result \<leftarrow> f_store V candidate;
     State_Monad.return (c\<lparr>ema_value := candidate\<rparr>, result)
   })"

section \<open>Complementary filter\<close>

record 't complementary =
  cf_alpha :: 't
  cf_sample_period :: linears_fixed_t
  cf_value :: linears_fixed_t

definition complementary_init ::
  "'t f_format \<Rightarrow> 't complementary ptr \<Rightarrow> 't \<Rightarrow> linears_fixed_t \<Rightarrow> 't \<Rightarrow> linears_status_t \<times> 't complementary ptr" where
  "complementary_init V ctx alpha sample_period initial = fc_commit ctx (do {
     a \<leftarrow> f_weight V alpha;
     fc_fail_if (linears_fixed_compare sample_period 0 \<le> 0) LINEARS_ERROR_DOMAIN;
     State_Monad.return \<lparr>cf_alpha = a, cf_sample_period = sample_period, cf_value = f_load V initial\<rparr>
   })"

definition complementary_reset ::
  "'t f_format \<Rightarrow> 't complementary ptr \<Rightarrow> 't \<Rightarrow> linears_status_t \<times> 't complementary ptr" where
  "complementary_reset V ctx initial =
     (case ctx of None \<Rightarrow> (LINEARS_ERROR_ARGUMENT, None)
      | Some c \<Rightarrow> (LINEARS_OK, Some (c\<lparr>cf_value := f_load V initial\<rparr>)))"

definition complementary_step ::
  "'t f_format \<Rightarrow> bool \<Rightarrow> 't complementary ptr \<Rightarrow> 't \<Rightarrow> 't \<Rightarrow> 't ptr
    \<Rightarrow> linears_status_t \<times> 't complementary ptr \<times> 't ptr" where
  "complementary_step V alias ctx rate measurement output = fc_commit2 ctx output alias (\<lambda>c. do {
     let derivative = f_load V rate;
     let observed = f_load V measurement;
     let alpha = f_load V (cf_alpha c);
     (candidate, result) \<leftarrow>
       (if linears_fixed_compare alpha 0 = 0 then State_Monad.return (observed, measurement)
        else do {
          increment \<leftarrow> fc_op 0 (linears_fixed_mul derivative (cf_sample_period c));
          prediction \<leftarrow> fc_op 0 (linears_fixed_add (cf_value c) increment);
          acc1 \<leftarrow> fc_mac accum_zero (LINEARS_FIXED_ONE - alpha) observed;
          acc2 \<leftarrow> fc_mac acc1 alpha prediction;
          result \<leftarrow> fc_op (f_zero V) (f_accum_export V acc2);
          candidate \<leftarrow> fc_op 0 (linears_accum_to_fixed acc2);
          State_Monad.return (candidate, result)
        });
     State_Monad.return (c\<lparr>cf_value := candidate\<rparr>, result)
   })"

section \<open>FIR filter\<close>

record 't fir =
  fir_coefficients :: "linears_fixed_t list"
  fir_state :: "'t list"
  fir_taps :: nat
  fir_head :: nat

definition fir_init ::
  "nat \<Rightarrow> 't f_format \<Rightarrow> bool \<Rightarrow> 't fir ptr \<Rightarrow> linears_fixed_t list ptr \<Rightarrow> nat \<Rightarrow> 't list ptr \<Rightarrow> nat
    \<Rightarrow> (linears_status_t \<times> 't fir ptr) option" where
  "fir_init W V alias ctx coefficients taps state state_capacity =
     (case (ctx, coefficients, state) of
        (Some _, Some cs, Some st) \<Rightarrow>
          if array_size W taps (f_size V) \<noteq> LINEARS_OK then Some (array_size W taps (f_size V), ctx)
          else if array_size W taps 8 \<noteq> LINEARS_OK then Some (array_size W taps 8, ctx)
          else if state_capacity < taps then Some (LINEARS_ERROR_WORKSPACE, ctx)
          else if alias then Some (LINEARS_ERROR_ALIAS, ctx)
          else do {
            _ \<leftarrow> those (map (\<lambda>i. buf_read i cs) [0..<taps]);
            st' \<leftarrow> buf_fill taps (f_zero V) st;
            Some (LINEARS_OK, Some \<lparr>fir_coefficients = cs, fir_state = st', fir_taps = taps, fir_head = 0\<rparr>)
          }
      | _ \<Rightarrow> Some (LINEARS_ERROR_ARGUMENT, ctx))"

definition fir_reset :: "'t f_format \<Rightarrow> 't fir ptr \<Rightarrow> (linears_status_t \<times> 't fir ptr) option" where
  "fir_reset V ctx =
     (case ctx of None \<Rightarrow> Some (LINEARS_ERROR_ARGUMENT, None)
      | Some c \<Rightarrow> do {
          st \<leftarrow> buf_fill (fir_taps c) (f_zero V) (fir_state c);
          Some (LINEARS_OK, Some (c\<lparr>fir_state := st, fir_head := 0\<rparr>))
        })"

text \<open>The loop over the taps; \<open>n\<close> iterations are left.\<close>

fun fir_loop ::
  "'t f_format \<Rightarrow> 't fir \<Rightarrow> linears_fixed_t \<Rightarrow> nat \<Rightarrow> nat \<Rightarrow> nat \<Rightarrow> linears_accum_t
    \<Rightarrow> (linears_status_t \<times> linears_accum_t) option" where
  "fir_loop V c sample 0 i index acc = Some (LINEARS_OK, acc)"
| "fir_loop V c sample (Suc n) i index acc = do {
     let index' = (if i = 0 then index else if index = 0 then fir_taps c - 1 else index - 1);
     delayed \<leftarrow> (if i = 0 then Some sample else map_option (f_load V) (buf_read index' (fir_state c)));
     coefficient \<leftarrow> buf_read i (fir_coefficients c);
     case linears_fixed_mac (Some acc) coefficient delayed of
       (LINEARS_OK, Some acc') \<Rightarrow> fir_loop V c sample n (i + 1) index' acc'
     | (status, _) \<Rightarrow> Some (status, acc)
   }"

text \<open>The next ring index.\<close>

definition ring_next :: "nat \<Rightarrow> nat \<Rightarrow> nat" where
  "ring_next n head = (if head + 1 = n then 0 else head + 1)"

definition fir_step ::
  "'t f_format \<Rightarrow> bool \<Rightarrow> 't fir ptr \<Rightarrow> 't \<Rightarrow> 't ptr \<Rightarrow> (linears_status_t \<times> 't fir ptr \<times> 't ptr) option" where
  "fir_step V alias ctx input output =
     (case (ctx, output) of
        (Some c, Some _) \<Rightarrow>
          if alias then Some (LINEARS_ERROR_ALIAS, ctx, output)
          else do {
            (status, acc) \<leftarrow> fir_loop V c (f_load V input) (fir_taps c) 0 (fir_head c) accum_zero;
            if status \<noteq> LINEARS_OK then Some (status, ctx, output)
            else case f_accum_export V acc (Some (f_zero V)) of
                (LINEARS_OK, result) \<Rightarrow> do {
                  st \<leftarrow> buf_write (fir_head c) input (fir_state c);
                  Some (LINEARS_OK,
                    Some (c\<lparr>fir_state := st, fir_head := ring_next (fir_taps c) (fir_head c)\<rparr>), result)
                }
              | (status', _) \<Rightarrow> Some (status', ctx, output)
          }
      | _ \<Rightarrow> Some (LINEARS_ERROR_ARGUMENT, ctx, output))"

section \<open>Biquad cascade\<close>

record biquad_coefficients =
  bq_b0 :: linears_fixed_t
  bq_b1 :: linears_fixed_t
  bq_b2 :: linears_fixed_t
  bq_a1 :: linears_fixed_t
  bq_a2 :: linears_fixed_t

record biquad =
  bq_coefficients :: "biquad_coefficients list"
  bq_state :: "linears_fixed_t list"
  bq_workspace :: "linears_fixed_t list"
  bq_sections :: nat

definition biquad_init ::
  "nat \<Rightarrow> bool \<Rightarrow> biquad ptr \<Rightarrow> biquad_coefficients list ptr \<Rightarrow> nat \<Rightarrow> linears_fixed_t list ptr \<Rightarrow> nat
    \<Rightarrow> linears_fixed_t list ptr \<Rightarrow> nat \<Rightarrow> (linears_status_t \<times> biquad ptr) option" where
  "biquad_init W alias ctx coefficients sections state state_capacity workspace workspace_capacity =
     (case (ctx, coefficients, state, workspace) of
        (Some _, Some cs, Some st, Some ws) \<Rightarrow>
          let state_count = LINEARS_SIZE_MUL W 2 sections
          in if state_count = 2 ^ W - 1 then Some (LINEARS_ERROR_SIZE, ctx)
             else if array_size W state_count 8 \<noteq> LINEARS_OK then Some (array_size W state_count 8, ctx)
             else if array_size W sections 40 \<noteq> LINEARS_OK then Some (array_size W sections 40, ctx)
             else if state_capacity < state_count \<or> workspace_capacity < state_count
               then Some (LINEARS_ERROR_WORKSPACE, ctx)
             else if alias then Some (LINEARS_ERROR_ALIAS, ctx)
             else do {
               _ \<leftarrow> those (map (\<lambda>i. buf_read i cs) [0..<sections]);
               st' \<leftarrow> buf_fill state_count 0 st;
               Some (LINEARS_OK, Some \<lparr>bq_coefficients = cs, bq_state = st', bq_workspace = ws, bq_sections = sections\<rparr>)
             }
      | _ \<Rightarrow> Some (LINEARS_ERROR_ARGUMENT, ctx))"

definition biquad_reset :: "biquad ptr \<Rightarrow> (linears_status_t \<times> biquad ptr) option" where
  "biquad_reset ctx =
     (case ctx of None \<Rightarrow> Some (LINEARS_ERROR_ARGUMENT, None)
      | Some c \<Rightarrow> do {
          st \<leftarrow> buf_fill (2 * bq_sections c) 0 (bq_state c);
          Some (LINEARS_OK, Some (c\<lparr>bq_state := st\<rparr>))
        })"

text \<open>One section: the output narrowed to the signal format and the two new states.\<close>

definition biquad_section ::
  "'t f_format \<Rightarrow> biquad_coefficients \<Rightarrow> linears_fixed_t \<Rightarrow> linears_fixed_t \<Rightarrow> linears_fixed_t
    \<Rightarrow> ('t \<times> linears_fixed_t \<times> linears_fixed_t) fc" where
  "biquad_section V b s1 s2 sample = do {
     a1 \<leftarrow> fc_mac accum_zero (bq_b0 b) sample;
     a2 \<leftarrow> fc_mac a1 LINEARS_FIXED_ONE s1;
     result \<leftarrow> fc_op (f_zero V) (f_accum_export V a2);
     y \<leftarrow> fc_op 0 (linears_accum_to_fixed a2);
     c1 \<leftarrow> fc_mac accum_zero (bq_b1 b) sample;
     c2 \<leftarrow> fc_msu c1 (bq_a1 b) y;
     c3 \<leftarrow> fc_mac c2 LINEARS_FIXED_ONE s2;
     next1 \<leftarrow> fc_op 0 (linears_accum_to_fixed c3);
     d1 \<leftarrow> fc_mac accum_zero (bq_b2 b) sample;
     d2 \<leftarrow> fc_msu d1 (bq_a2 b) y;
     next2 \<leftarrow> fc_op 0 (linears_accum_to_fixed d2);
     State_Monad.return (result, next1, next2)
   }"

text \<open>The do-while loop; after this section \<open>n\<close> more follow.\<close>

fun biquad_loop ::
  "'t f_format \<Rightarrow> biquad \<Rightarrow> nat \<Rightarrow> nat \<Rightarrow> linears_fixed_t \<Rightarrow> linears_fixed_t list
    \<Rightarrow> (linears_status_t \<times> 't \<times> linears_fixed_t list) option" where
  "biquad_loop V c n i sample ws = do {
     b \<leftarrow> buf_read i (bq_coefficients c);
     s1 \<leftarrow> buf_read (2 * i) (bq_state c);
     s2 \<leftarrow> buf_read (2 * i + 1) (bq_state c);
     case run_state (biquad_section V b s1 s2 sample) LINEARS_OK of
       ((result, next1, next2), status) \<Rightarrow>
         if status \<noteq> LINEARS_OK then Some (status, result, ws)
         else do {
           ws1 \<leftarrow> buf_write (2 * i) next1 ws;
           ws2 \<leftarrow> buf_write (2 * i + 1) next2 ws1;
           case n of 0 \<Rightarrow> Some (LINEARS_OK, result, ws2)
             | Suc m \<Rightarrow> biquad_loop V c m (i + 1) (f_load V result) ws2
         }
   }"

text \<open>The loop that copies the first \<open>n\<close> elements of one array to another.\<close>

fun buf_copy :: "nat \<Rightarrow> 'a list \<Rightarrow> 'a list \<Rightarrow> 'a list option" where
  "buf_copy 0 src dst = Some dst"
| "buf_copy (Suc n) src dst = do { d \<leftarrow> buf_copy n src dst; v \<leftarrow> buf_read n src; buf_write n v d }"

definition biquad_step ::
  "'t f_format \<Rightarrow> bool \<Rightarrow> biquad ptr \<Rightarrow> 't \<Rightarrow> 't ptr \<Rightarrow> (linears_status_t \<times> biquad ptr \<times> 't ptr) option" where
  "biquad_step V alias ctx input output =
     (case (ctx, output) of
        (Some c, Some _) \<Rightarrow>
          if alias then Some (LINEARS_ERROR_ALIAS, ctx, output)
          else do {
            (status, result, ws) \<leftarrow> biquad_loop V c (bq_sections c - 1) 0 (f_load V input) (bq_workspace c);
            if status \<noteq> LINEARS_OK then Some (status, Some (c\<lparr>bq_workspace := ws\<rparr>), output)
            else do {
              st \<leftarrow> buf_copy (2 * bq_sections c) ws (bq_state c);
              Some (LINEARS_OK, Some (c\<lparr>bq_workspace := ws, bq_state := st\<rparr>), Some result)
            }
          }
      | _ \<Rightarrow> Some (LINEARS_ERROR_ARGUMENT, ctx, output))"

section \<open>Moving average\<close>

record 't moving_average =
  ma_state :: "'t list"
  ma_window :: nat
  ma_head :: nat
  ma_sum :: linears_accum_t

definition moving_average_init ::
  "nat \<Rightarrow> 't f_format \<Rightarrow> bool \<Rightarrow> 't moving_average ptr \<Rightarrow> nat \<Rightarrow> 't list ptr \<Rightarrow> nat
    \<Rightarrow> (linears_status_t \<times> 't moving_average ptr) option" where
  "moving_average_init W V alias ctx window state state_capacity =
     (case (ctx, state) of
        (Some _, Some st) \<Rightarrow>
          if array_size W window (f_size V) \<noteq> LINEARS_OK then Some (array_size W window (f_size V), ctx)
          else if state_capacity < window then Some (LINEARS_ERROR_WORKSPACE, ctx)
          else if alias then Some (LINEARS_ERROR_ALIAS, ctx)
          else do {
            st' \<leftarrow> buf_fill window (f_zero V) st;
            Some (LINEARS_OK, Some \<lparr>ma_state = st', ma_window = window, ma_head = 0, ma_sum = accum_zero\<rparr>)
          }
      | _ \<Rightarrow> Some (LINEARS_ERROR_ARGUMENT, ctx))"

definition moving_average_reset ::
  "'t f_format \<Rightarrow> 't moving_average ptr \<Rightarrow> (linears_status_t \<times> 't moving_average ptr) option" where
  "moving_average_reset V ctx =
     (case ctx of None \<Rightarrow> Some (LINEARS_ERROR_ARGUMENT, None)
      | Some c \<Rightarrow> do {
          st \<leftarrow> buf_fill (ma_window c) (f_zero V) (ma_state c);
          Some (LINEARS_OK, Some (c\<lparr>ma_state := st, ma_head := 0, ma_sum := accum_zero\<rparr>))
        })"

definition moving_average_step ::
  "'t f_format \<Rightarrow> bool \<Rightarrow> 't moving_average ptr \<Rightarrow> 't \<Rightarrow> 't ptr
    \<Rightarrow> (linears_status_t \<times> 't moving_average ptr \<times> 't ptr) option" where
  "moving_average_step V alias ctx input output =
     (case (ctx, output) of
        (Some c, Some _) \<Rightarrow>
          if alias then Some (LINEARS_ERROR_ALIAS, ctx, output)
          else do {
            oldest \<leftarrow> buf_read (ma_head c) (ma_state c);
            case run_state (do {
                s1 \<leftarrow> fc_msu (ma_sum c) (f_load V oldest) LINEARS_FIXED_ONE;
                s2 \<leftarrow> fc_mac s1 (f_load V input) LINEARS_FIXED_ONE;
                result \<leftarrow> fc_op (f_zero V) (f_mean V s2 (of_nat (ma_window c)));
                State_Monad.return (s2, result)
              }) LINEARS_OK of
              ((new_sum, result), status) \<Rightarrow>
                if status \<noteq> LINEARS_OK then Some (status, ctx, output)
                else do {
                  st \<leftarrow> buf_write (ma_head c) input (ma_state c);
                  Some (LINEARS_OK, Some (c\<lparr>ma_state := st, ma_sum := new_sum,
                    ma_head := ring_next (ma_window c) (ma_head c)\<rparr>), Some result)
                }
          }
      | _ \<Rightarrow> Some (LINEARS_ERROR_ARGUMENT, ctx, output))"

section \<open>Median\<close>

record 't median =
  md_state :: "'t list"
  md_workspace :: "'t list"
  md_window :: nat
  md_head :: nat

definition median_init ::
  "nat \<Rightarrow> 't f_format \<Rightarrow> bool \<Rightarrow> 't median ptr \<Rightarrow> nat \<Rightarrow> 't list ptr \<Rightarrow> nat \<Rightarrow> 't list ptr \<Rightarrow> nat
    \<Rightarrow> (linears_status_t \<times> 't median ptr) option" where
  "median_init W V alias ctx window state state_capacity workspace workspace_capacity =
     (case (ctx, state, workspace) of
        (Some _, Some st, Some ws) \<Rightarrow>
          if array_size W window (f_size V) \<noteq> LINEARS_OK then Some (array_size W window (f_size V), ctx)
          else if state_capacity < window \<or> workspace_capacity < window then Some (LINEARS_ERROR_WORKSPACE, ctx)
          else if alias then Some (LINEARS_ERROR_ALIAS, ctx)
          else do {
            st' \<leftarrow> buf_fill window (f_zero V) st;
            Some (LINEARS_OK, Some \<lparr>md_state = st', md_workspace = ws, md_window = window, md_head = 0\<rparr>)
          }
      | _ \<Rightarrow> Some (LINEARS_ERROR_ARGUMENT, ctx))"

definition median_reset :: "'t f_format \<Rightarrow> 't median ptr \<Rightarrow> (linears_status_t \<times> 't median ptr) option" where
  "median_reset V ctx =
     (case ctx of None \<Rightarrow> Some (LINEARS_ERROR_ARGUMENT, None)
      | Some c \<Rightarrow> do {
          st \<leftarrow> buf_fill (md_window c) (f_zero V) (md_state c);
          Some (LINEARS_OK, Some (c\<lparr>md_state := st, md_head := 0\<rparr>))
        })"

text \<open>The window with the oldest sample replaced, copied into the scratch array.\<close>

fun median_gather :: "'t median \<Rightarrow> 't \<Rightarrow> nat \<Rightarrow> 't list \<Rightarrow> 't list option" where
  "median_gather c input 0 ws = Some ws"
| "median_gather c input (Suc i) ws = do {
     ws' \<leftarrow> median_gather c input i ws;
     v \<leftarrow> (if i = md_head c then Some input else buf_read i (md_state c));
     buf_write i v ws'
   }"

text \<open>The inner loop of the insertion sort: larger elements move up, \<open>j\<close> is the free slot.\<close>

fun median_shift :: "'t f_format \<Rightarrow> linears_fixed_t \<Rightarrow> nat \<Rightarrow> 't list \<Rightarrow> (nat \<times> 't list) option" where
  "median_shift V key 0 ws = Some (0, ws)"
| "median_shift V key (Suc j) ws = do {
     x \<leftarrow> buf_read j ws;
     if linears_fixed_compare (f_load V x) key \<le> 0 then Some (Suc j, ws)
     else do { ws' \<leftarrow> buf_write (Suc j) x ws; median_shift V key j ws' }
   }"

text \<open>The outer loop from index \<open>i\<close>, with \<open>n\<close> iterations left.\<close>

fun median_sort :: "'t f_format \<Rightarrow> nat \<Rightarrow> nat \<Rightarrow> 't list \<Rightarrow> 't list option" where
  "median_sort V 0 i ws = Some ws"
| "median_sort V (Suc n) i ws = do {
     key_scalar \<leftarrow> buf_read i ws;
     (j, ws1) \<leftarrow> median_shift V (f_load V key_scalar) i ws;
     ws2 \<leftarrow> buf_write j key_scalar ws1;
     median_sort V n (i + 1) ws2
   }"

definition median_step ::
  "'t f_format \<Rightarrow> bool \<Rightarrow> 't median ptr \<Rightarrow> 't \<Rightarrow> 't ptr \<Rightarrow> (linears_status_t \<times> 't median ptr \<times> 't ptr) option" where
  "median_step V alias ctx input output =
     (case (ctx, output) of
        (Some c, Some _) \<Rightarrow>
          if alias then Some (LINEARS_ERROR_ALIAS, ctx, output)
          else do {
            ws0 \<leftarrow> median_gather c input (md_window c) (md_workspace c);
            ws \<leftarrow> median_sort V (md_window c - 1) 1 ws0;
            middle \<leftarrow> buf_read (md_window c div 2) ws;
            (result, status) \<leftarrow>
              (if md_window c mod 2 = 0 then do {
                 below \<leftarrow> buf_read (md_window c div 2 - 1) ws;
                 Some (run_state (do {
                   two \<leftarrow> fc_op 0 (linears_fixed_from_int 2);
                   pair \<leftarrow> fc_op 0 (linears_fixed_add (f_load V below) (f_load V middle));
                   mean \<leftarrow> fc_op 0 (linears_fixed_div pair two);
                   f_store V mean
                 }) LINEARS_OK)
               }
               else Some (middle, LINEARS_OK));
            if status \<noteq> LINEARS_OK then Some (status, Some (c\<lparr>md_workspace := ws\<rparr>), output)
            else do {
              st \<leftarrow> buf_write (md_head c) input (md_state c);
              Some (LINEARS_OK, Some (c\<lparr>md_workspace := ws, md_state := st,
                md_head := ring_next (md_window c) (md_head c)\<rparr>), Some result)
            }
          }
      | _ \<Rightarrow> Some (LINEARS_ERROR_ARGUMENT, ctx, output))"

declare biquad_loop.simps [simp del]

end
