(* ===== verification/Filters_Laws.thy ===== *)
theory Filters_Laws
  imports Filters Status_Laws
begin

text \<open>
  What the filters rely on when they load, store, export and average a signal, as an interface
  with the instances q15 and q31, and the exponential recurrence as an equation over the integers.
\<close>

section \<open>The interface\<close>

text \<open>
  \<open>S\<close> is the weight of one unit of the signal format in the 31-bit working format. A value is
  rounded to a multiple of \<open>S\<close> and the positive end point becomes the largest signal.
\<close>

definition quantized :: "int \<Rightarrow> int \<Rightarrow> int \<Rightarrow> int" where
  "quantized S n d = min (round_away n (d * S) * S) (2 ^ 31 - S)"

locale filter_format =
  fixes V :: "'t f_format" and S :: int
  assumes unit_pos: "0 < S"
    and unit_dvd: "S dvd 2 ^ 31"
    and load_range: "- (2 ^ 31) \<le> sint (f_load V t) \<and> sint (f_load V t) \<le> 2 ^ 31 - S"
    and load_inject: "f_load V t = f_load V u \<longleftrightarrow> t = u"
    and load_zero: "f_load V (f_zero V) = 0"
    and store_ok: "ok_run (f_store V x) t \<longleftrightarrow> \<bar>sint x\<bar> \<le> 2 ^ 31 \<and> sint (f_load V t) = quantized S (sint x) 1"
    and store_total: "\<bar>sint x\<bar> \<le> 2 ^ 31 \<Longrightarrow> \<exists>t. ok_run (f_store V x) t"
    and export_ok: "ok_run (fc_op (f_zero V) (f_accum_export V acc)) t \<longleftrightarrow>
      \<bar>accum_val acc\<bar> \<le> 2 ^ 62 \<and> sint (f_load V t) = quantized S (accum_val acc) (2 ^ 31)"
    and export_fail: "2 ^ 62 < \<bar>accum_val acc\<bar> \<Longrightarrow> f_accum_export V acc (Some old) = (LINEARS_ERROR_RANGE, Some old)"
    and export_total: "\<bar>accum_val acc\<bar> \<le> 2 ^ 62 \<Longrightarrow> \<exists>t. f_accum_export V acc (Some old) = (LINEARS_OK, Some t)"
    and mean_ok: "ok_run (fc_op (f_zero V) (f_mean V acc n)) t \<longleftrightarrow>
      n \<noteq> 0 \<and> \<bar>accum_val acc\<bar> \<le> uint n * 2 ^ 62 \<and> sint (f_load V t) = quantized S (accum_val acc) (uint n * 2 ^ 31)"
    and mean_total: "n \<noteq> 0 \<Longrightarrow> \<bar>accum_val acc\<bar> \<le> uint n * 2 ^ 62 \<Longrightarrow> \<exists>t. ok_run (fc_op (f_zero V) (f_mean V acc n)) t"
begin

lemma load_abs: "\<bar>sint (f_load V t)\<bar> \<le> 2 ^ 31"
  using load_range [of t] unit_pos by linarith

lemma sticky_store [simp]: "sticky (f_store V x)"
  by (simp add: f_store_def)

lemma export_value:
  "f_accum_export V acc (Some (f_zero V)) = (LINEARS_OK, Some t) \<longleftrightarrow>
    \<bar>accum_val acc\<bar> \<le> 2 ^ 62 \<and> sint (f_load V t) = quantized S (accum_val acc) (2 ^ 31)"
proof -
  have "ok_run (fc_op (f_zero V) (f_accum_export V acc)) t \<longleftrightarrow> f_accum_export V acc (Some (f_zero V)) = (LINEARS_OK, Some t)"
    if "\<bar>accum_val acc\<bar> \<le> 2 ^ 62"
    using export_total [OF that, of "f_zero V"] by (auto simp: ok_run_def fc_op_def sticky_call_def)
  then show ?thesis
    using export_ok [of acc t] export_fail [of acc "f_zero V"] by (cases "\<bar>accum_val acc\<bar> \<le> 2 ^ 62") auto
qed

end

section \<open>The two formats\<close>

lemma min_scale: "0 < S \<Longrightarrow> min a b * S = min (a * S) (b * S)" for a b S :: int
  by (auto simp: min_def mult_le_cancel_right)

lemma exists_q15:
  assumes "\<bar>n\<bar> \<le> 2 ^ 15 * d" "0 < d"
  shows "\<exists>t :: i16. sint t = min (round_away n d) (2 ^ 15 - 1)"
proof -
  have "- (2 ^ 15) \<le> round_away n d"
    using round_away_bounds [OF assms(2), of "- (2 ^ 15)" n "2 ^ 15"] assms by (simp add: abs_le_iff)
  then show ?thesis by (intro exists_i16) auto
qed

lemma exists_q31:
  assumes "\<bar>n\<bar> \<le> 2 ^ 31 * d" "0 < d"
  shows "\<exists>t :: i32. sint t = min (round_away n d) (2 ^ 31 - 1)"
proof -
  have "- (2 ^ 31) \<le> round_away n d"
    using round_away_bounds [OF assms(2), of "- (2 ^ 31)" n "2 ^ 31"] assms by (simp add: abs_le_iff)
  then show ?thesis by (intro exists_i32) auto
qed

lemma q15_of_int:
  "\<bar>n\<bar> \<le> 2 ^ 15 * d \<Longrightarrow> 0 < d \<Longrightarrow>
    t = word_of_int (min (round_away n d) (2 ^ 15 - 1)) \<longleftrightarrow> sint t = min (round_away n d) (2 ^ 15 - 1)" for t :: i16
proof -
  define k where "k = min (round_away n d) (2 ^ 15 - 1)"
  assume "\<bar>n\<bar> \<le> 2 ^ 15 * d" "0 < d"
  then obtain u :: i16 where u: "sint u = k" using exists_q15 [of n d] by (auto simp: k_def)
  then have "u = word_of_int k" by (simp flip: u)
  with u show ?thesis unfolding k_def [symmetric] using sint_inject [of t u] by auto
qed

lemma q31_of_int:
  "\<bar>n\<bar> \<le> 2 ^ 31 * d \<Longrightarrow> 0 < d \<Longrightarrow>
    t = word_of_int (min (round_away n d) (2 ^ 31 - 1)) \<longleftrightarrow> sint t = min (round_away n d) (2 ^ 31 - 1)" for t :: i32
proof -
  define k where "k = min (round_away n d) (2 ^ 31 - 1)"
  assume "\<bar>n\<bar> \<le> 2 ^ 31 * d" "0 < d"
  then obtain u :: i32 where u: "sint u = k" using exists_q31 [of n d] by (auto simp: k_def)
  then have "u = word_of_int k" by (simp flip: u)
  with u show ?thesis unfolding k_def [symmetric] using sint_inject [of t u] by auto
qed

lemma ok_cell:
  assumes "\<And>old. f (Some old) = (if P then (LINEARS_OK, Some v) else (e, Some old))" "e \<noteq> LINEARS_OK"
  shows "ok_run (fc_op z f) t \<longleftrightarrow> P \<and> t = v"
  using assms by (auto simp: ok_run_def fc_op_def sticky_call_def)

lemma quantized_q15: "sint (linears_fixed_from_q15 t) = quantized 65536 n d \<longleftrightarrow> sint t = min (round_away n (d * 2 ^ 16)) (2 ^ 15 - 1)"
proof -
  have "quantized 65536 n d = min (round_away n (d * 2 ^ 16)) (2 ^ 15 - 1) * 65536"
    using min_scale [of 65536 "round_away n (d * 2 ^ 16)" "2 ^ 15 - 1"] by (simp add: quantized_def)
  then show ?thesis by (simp add: q15_field)
qed

lemma quantized_q31: "sint (linears_fixed_from_q31 t) = quantized 1 n d \<longleftrightarrow> sint t = min (round_away n d) (2 ^ 31 - 1)"
  by (simp add: quantized_def q31_field)

lemma ok_accum_q15:
  "ok_run (fc_op z (linears_accum_to_q15 acc)) t \<longleftrightarrow>
    \<bar>accum_val acc\<bar> \<le> 2 ^ 62 \<and> sint t = min (round_away (accum_val acc) (2 ^ 47)) (2 ^ 15 - 1)"
  using ok_cell [of "linears_accum_to_q15 acc", OF linears_accum_to_q15_spec] q15_of_int [of "accum_val acc" "2 ^ 47" t]
  by auto

lemma ok_accum_q31:
  "ok_run (fc_op z (linears_accum_to_q31 acc)) t \<longleftrightarrow>
    \<bar>accum_val acc\<bar> \<le> 2 ^ 62 \<and> sint t = min (round_away (accum_val acc) (2 ^ 31)) (2 ^ 31 - 1)"
  using ok_cell [of "linears_accum_to_q31 acc", OF linears_accum_to_q31_spec] q31_of_int [of "accum_val acc" "2 ^ 31" t]
  by auto

lemma uint_pos: "n \<noteq> 0 \<Longrightarrow> 0 < uint n" for n :: "'a::len word"
  using uint_0_iff [of n] by (simp add: less_le)

lemma ok_mean_q15:
  "ok_run (fc_op z (linears_accum_mean_q15 acc n)) t \<longleftrightarrow>
    n \<noteq> 0 \<and> \<bar>accum_val acc\<bar> \<le> uint n * 2 ^ 62
      \<and> sint t = min (round_away (accum_val acc) (uint n * 2 ^ 47)) (2 ^ 15 - 1)"
proof (cases "n = 0")
  case True
  then show ?thesis by (simp add: ok_run_def fc_op_def sticky_call_def linears_accum_mean_q15_spec)
next
  case False
  have "ok_run (fc_op z (linears_accum_mean_q15 acc n)) t \<longleftrightarrow> \<bar>accum_val acc\<bar> \<le> uint n * 2 ^ 62
      \<and> t = word_of_int (min (round_away (accum_val acc) (uint n * 2 ^ 47)) (2 ^ 15 - 1))"
    using False by (intro ok_cell [where e = LINEARS_ERROR_RANGE]) (simp_all add: linears_accum_mean_q15_spec)
  then show ?thesis
    using False uint_pos [of n] q15_of_int [of "accum_val acc" "uint n * 2 ^ 47" t] by auto
qed

lemma ok_mean_q31:
  "ok_run (fc_op z (linears_accum_mean_q31 acc n)) t \<longleftrightarrow>
    n \<noteq> 0 \<and> \<bar>accum_val acc\<bar> \<le> uint n * 2 ^ 62
      \<and> sint t = min (round_away (accum_val acc) (uint n * 2 ^ 31)) (2 ^ 31 - 1)"
proof (cases "n = 0")
  case True
  then show ?thesis by (simp add: ok_run_def fc_op_def sticky_call_def linears_accum_mean_q31_spec)
next
  case False
  have "ok_run (fc_op z (linears_accum_mean_q31 acc n)) t \<longleftrightarrow> \<bar>accum_val acc\<bar> \<le> uint n * 2 ^ 62
      \<and> t = word_of_int (min (round_away (accum_val acc) (uint n * 2 ^ 31)) (2 ^ 31 - 1))"
    using False by (intro ok_cell [where e = LINEARS_ERROR_RANGE]) (simp_all add: linears_accum_mean_q31_spec)
  then show ?thesis
    using False uint_pos [of n] q31_of_int [of "accum_val acc" "uint n * 2 ^ 31" t] by auto
qed

interpretation f15: filter_format filters_q15 65536
proof (unfold_locales, goal_cases)
  case (3 t)
  show ?case using i16_range [of t] by (simp add: filters_q15_def q15_field)
next
  case (4 t u)
  show ?case using sint_inject [of t u] by (auto simp: filters_q15_def q15_field sint_inject [symmetric])
next
  case (6 x t)
  show ?case using quantized_q15 [of t "sint x" 1] by (simp add: filters_q15_def f_store_def ok_to_q15)
next
  case (7 x)
  then show ?case using exists_q15 [of "sint x" "2 ^ 16"] by (simp add: filters_q15_def f_store_def ok_to_q15)
next
  case (8 acc t)
  show ?case using quantized_q15 [of t "accum_val acc" "2 ^ 31"] by (simp add: filters_q15_def ok_accum_q15)
next
  case (11 acc n t)
  show ?case using quantized_q15 [of t "accum_val acc" "uint n * 2 ^ 31"] by (simp add: filters_q15_def ok_mean_q15 mult.assoc)
next
  case (12 n acc)
  then show ?case using exists_q15 [of "accum_val acc" "uint n * 2 ^ 47"] uint_pos [of n]
    by (simp add: filters_q15_def ok_mean_q15)
qed (simp_all add: filters_q15_def linears_fixed_from_q15_def linears_accum_to_q15_spec dvd_def)

interpretation f31: filter_format filters_q31 1
proof (unfold_locales, goal_cases)
  case (3 t)
  show ?case using i32_range [of t] by (simp add: filters_q31_def q31_field)
next
  case (4 t u)
  show ?case using sint_inject [of t u] by (auto simp: filters_q31_def q31_field sint_inject [symmetric])
next
  case (6 x t)
  show ?case using quantized_q31 [of t "sint x" 1] round_away_exact [of 1 "sint x"]
    by (simp add: filters_q31_def f_store_def ok_to_q31)
next
  case (7 x)
  then show ?case using exists_q31 [of "sint x" 1] round_away_exact [of 1 "sint x"]
    by (simp add: filters_q31_def f_store_def ok_to_q31)
next
  case (8 acc t)
  show ?case using quantized_q31 [of t "accum_val acc" "2 ^ 31"] by (simp add: filters_q31_def ok_accum_q31)
next
  case (11 acc n t)
  show ?case using quantized_q31 [of t "accum_val acc" "uint n * 2 ^ 31"] by (simp add: filters_q31_def ok_mean_q31)
next
  case (12 n acc)
  then show ?case using exists_q31 [of "accum_val acc" "uint n * 2 ^ 31"] uint_pos [of n]
    by (simp add: filters_q31_def ok_mean_q31)
qed (simp_all add: filters_q31_def linears_fixed_from_q31_def linears_accum_to_q31_spec)

end
