(* ===== verification/Filters_Ema.thy ===== *)
theory Filters_Ema
  imports Filters_Laws
begin

text \<open>
  The exponential moving average: its recurrence over the integers, its invariant, and that it settles.
\<close>

section \<open>The recurrence\<close>

definition ema_next :: "int \<Rightarrow> int \<Rightarrow> int \<Rightarrow> int" where
  "ema_next a p x = round_away ((2 ^ 31 - a) * p + a * x) (2 ^ 31)"

lemma ema_next_between:
  assumes "0 \<le> a" "a \<le> 2 ^ 31"
  shows "min p x \<le> ema_next a p x \<and> ema_next a p x \<le> max p x"
proof -
  have "(2 ^ 31 - a) * min p x + a * min p x \<le> (2 ^ 31 - a) * p + a * x"
    "(2 ^ 31 - a) * p + a * x \<le> (2 ^ 31 - a) * max p x + a * max p x"
    using assms by (intro add_mono mult_left_mono; simp)+
  then show ?thesis unfolding ema_next_def by (intro round_away_bounds) (simp_all add: algebra_simps)
qed

lemma blend_weight:
  fixes \<alpha> :: i64
  assumes "0 \<le> sint \<alpha>" "sint \<alpha> < 2 ^ 31"
  shows "scast (ucast \<alpha> :: i32) = \<alpha>" "\<not> (ucast \<alpha> :: i32) <s 0" "sint (LINEARS_FIXED_ONE - \<alpha>) = 2 ^ 31 - sint \<alpha>"
proof -
  have "uint \<alpha> = sint \<alpha>" using assms(1) u64_bounds [of \<alpha>] unfolding sint64 by (auto split: if_splits)
  then have "(ucast \<alpha> :: i32) = word_of_int (sint \<alpha>)" by (simp only: ucast_eq)
  moreover have "sint (word_of_int (sint \<alpha>) :: i32) = sint \<alpha>" using assms by (intro sint_word_of_int_fits) simp_all
  ultimately have s: "sint (ucast \<alpha> :: i32) = sint \<alpha>" by (simp only:)
  then show "scast (ucast \<alpha> :: i32) = \<alpha>" by (simp only: scast_eq) simp
  show "\<not> (ucast \<alpha> :: i32) <s 0" using assms s by (simp add: word_sless_alt)
  have "sint LINEARS_FIXED_ONE = 2 ^ 31" by (simp add: LINEARS_FIXED_ONE_def)
  then show "sint (LINEARS_FIXED_ONE - \<alpha>) = 2 ^ 31 - sint \<alpha>"
    using assms by (subst sint_minus64) auto
qed

lemma ok_blend:
  assumes "0 \<le> sint \<alpha>" "sint \<alpha> < 2 ^ 31"
  shows "ok_run (f_blend \<alpha> p x) r \<longleftrightarrow> sint r = ema_next (sint \<alpha>) (sint p) (sint x)"
proof -
  have step: "filters_ema_work_step (Some p) (ucast \<alpha>) x = fc_commit (Some p) (do {
      sum1 \<leftarrow> fc_mac accum_zero (LINEARS_FIXED_ONE - \<alpha>) p;
      sum2 \<leftarrow> fc_mac sum1 \<alpha> x;
      fc_op 0 (linears_accum_to_fixed sum2) })"
    using blend_weight [OF assms] 
    by (simp add: filters_ema_work_step_def fc_fail_if_def State_Monad.bind_def)
  have "ok_run (f_blend \<alpha> p x) r \<longleftrightarrow> filters_ema_work_step (Some p) (ucast \<alpha>) x = (LINEARS_OK, Some r)"
    unfolding f_blend_def by (rule ok_fc_op_cell) (auto simp: step fc_commit_def split: prod.splits)
  also have "\<dots> \<longleftrightarrow> (\<exists>s1 s2. accum_val s1 = (2 ^ 31 - sint \<alpha>) * sint p \<and> accum_val s2 = accum_val s1 + sint \<alpha> * sint x
      \<and> sint r = round_away (accum_val s2) (2 ^ 31))"
    unfolding step fc_commit_ok by (auto simp: fc_ok blend_weight(3) [OF assms])
  also have "\<dots> \<longleftrightarrow> sint r = ema_next (sint \<alpha>) (sint p) (sint x)"
  proof -
    have w: "\<bar>w * sint v\<bar> \<le> 2 ^ 31 * 2 ^ 63" if "\<bar>w\<bar> \<le> 2 ^ 31" for w and v :: i64
      unfolding abs_mult using that i64_range [of v] by (intro mult_mono) auto
    have "\<exists>s1. accum_val s1 = (2 ^ 31 - sint \<alpha>) * sint p"
      using w [of "2 ^ 31 - sint \<alpha>" p] assms by (intro exists_accum) auto
    moreover have "\<exists>s2. accum_val s2 = (2 ^ 31 - sint \<alpha>) * sint p + sint \<alpha> * sint x"
      using w [of "2 ^ 31 - sint \<alpha>" p] w [of "sint \<alpha>" x] assms by (intro exists_accum) auto
    ultimately show ?thesis unfolding ema_next_def by metis
  qed
  finally show ?thesis .
qed

text \<open>The distance to a constant input never grows, and shrinks while it is outside the dead band.\<close>

lemma ema_next_contracts:
  assumes "0 \<le> a" "a \<le> 2 ^ 31"
  shows "\<bar>ema_next a p x - x\<bar> \<le> \<bar>p - x\<bar>"
    and "2 ^ 30 < a * \<bar>p - x\<bar> \<Longrightarrow> \<bar>ema_next a p x - x\<bar> < \<bar>p - x\<bar>"
proof -
  define d d' where "d = \<bar>p - x\<bar>" and "d' = \<bar>ema_next a p x - x\<bar>"
  have "2 * \<bar>ema_next a p x * 2 ^ 31 - ((2 ^ 31 - a) * p + a * x)\<bar> \<le> 2 ^ 31"
    unfolding ema_next_def by (rule round_away_dist) simp
  moreover have "ema_next a p x * 2 ^ 31 - ((2 ^ 31 - a) * p + a * x) = (ema_next a p x - x) * 2 ^ 31 - (2 ^ 31 - a) * (p - x)"
    by (simp add: algebra_simps)
  ultimately have "\<bar>(ema_next a p x - x) * 2 ^ 31 - (2 ^ 31 - a) * (p - x)\<bar> \<le> 2 ^ 30" by simp
  moreover have "\<bar>(ema_next a p x - x) * 2 ^ 31\<bar> = d' * 2 ^ 31" "\<bar>(2 ^ 31 - a) * (p - x)\<bar> = 2 ^ 31 * d - a * d"
    using assms by (simp_all only: d_def d'_def abs_mult left_diff_distrib [symmetric])
  ultimately have le: "d' * 2147483648 \<le> 2147483648 * d - a * d + 1073741824" by simp
  have "0 \<le> a * d" using assms by (simp add: d_def)
  with le show "\<bar>ema_next a p x - x\<bar> \<le> \<bar>p - x\<bar>" unfolding d_def [symmetric] d'_def [symmetric] by linarith
  show "\<bar>ema_next a p x - x\<bar> < \<bar>p - x\<bar>" if "2 ^ 30 < a * \<bar>p - x\<bar>"
    using le that unfolding d_def [symmetric] d'_def [symmetric] by simp
qed

section \<open>Reachable contexts\<close>

inductive ema_reachable :: "'t f_format \<Rightarrow> 't ema \<Rightarrow> bool" for V where
  init: "ema_init V (Some old) alpha initial = (LINEARS_OK, Some c) \<Longrightarrow> ema_reachable V c"
| reset: "ema_reachable V c \<Longrightarrow> ema_reset V (Some c) initial = (LINEARS_OK, Some c') \<Longrightarrow> ema_reachable V c'"
| step: "ema_reachable V c \<Longrightarrow> ema_step V alias (Some c) x (Some old) = (LINEARS_OK, Some c', Some y)
    \<Longrightarrow> ema_reachable V c'"

definition ema_inv :: "'t f_format \<Rightarrow> 't ema \<Rightarrow> bool" where
  "ema_inv V c \<longleftrightarrow> 0 \<le> sint (f_load V (ema_alpha c)) \<and> \<bar>sint (ema_value c)\<bar> \<le> 2 ^ 31"

text \<open>A sequence of samples fed to a context; \<open>None\<close> when one of the calls fails.\<close>

fun ema_feed :: "'t f_format \<Rightarrow> 't ema \<Rightarrow> 't list \<Rightarrow> 't ema option" where
  "ema_feed V c [] = Some c"
| "ema_feed V c (x # xs) =
     (case ema_step V False (Some c) x (Some (f_zero V)) of
        (LINEARS_OK, Some c', Some _) \<Rightarrow> ema_feed V c' xs
      | _ \<Rightarrow> None)"

context filter_format
begin

lemma ok_weight: "ok_run (f_weight V a) r \<longleftrightarrow> 0 \<le> sint (f_load V a) \<and> r = a"
  by (auto simp: f_weight_def)

lemma ema_step_run:
  assumes "ema_inv V c"
  shows "ema_step V alias (Some c) x (Some old) = (LINEARS_OK, Some c', Some y) \<longleftrightarrow>
    \<not> alias \<and> ema_alpha c' = ema_alpha c
    \<and> sint (ema_value c') = ema_next (sint (f_load V (ema_alpha c))) (sint (ema_value c)) (sint (f_load V x))
    \<and> ok_run (f_store V (ema_value c')) y"
proof -
  have a: "0 \<le> sint (f_load V (ema_alpha c))" "sint (f_load V (ema_alpha c)) < 2 ^ 31"
    using assms load_range [of "ema_alpha c"] unit_pos by (auto simp: ema_inv_def)
  show ?thesis
    unfolding ema_step_def fc_commit2_ok Let_def using ok_blend [OF a]
    by (cases c; cases c') auto
qed

lemma ema_step_total:
  assumes "ema_inv V c"
  obtains c' y where "ema_step V False (Some c) x (Some old) = (LINEARS_OK, Some c', Some y)"
    "ema_alpha c' = ema_alpha c" "ema_inv V c'"
    "sint (ema_value c') = ema_next (sint (f_load V (ema_alpha c))) (sint (ema_value c)) (sint (f_load V x))"
    "ok_run (f_store V (ema_value c')) y"
proof -
  let ?k = "ema_next (sint (f_load V (ema_alpha c))) (sint (ema_value c)) (sint (f_load V x))"
  have "\<bar>?k\<bar> \<le> 2 ^ 31"
    using ema_next_between [of "sint (f_load V (ema_alpha c))" "sint (ema_value c)" "sint (f_load V x)"]
      assms load_range [of "ema_alpha c"] unit_pos load_abs [of x]
    by (auto simp: ema_inv_def)
  moreover from this obtain v :: i64 where v: "sint v = ?k" using exists_i64 [of ?k] by (metis abs_bound_i64)
  ultimately obtain y where y: "ok_run (f_store V v) y" using store_total [of v] by auto
  show thesis
    by (rule that [of "c\<lparr>ema_value := v\<rparr>" y]) (use assms v y \<open>\<bar>?k\<bar> \<le> 2 ^ 31\<close> in \<open>auto simp: ema_step_run ema_inv_def\<close>)
qed

lemma ema_reachable_inv: "ema_reachable V c \<Longrightarrow> ema_inv V c"
proof (induction rule: ema_reachable.induct)
  case (init old alpha initial c)
  then show ?case using load_abs unfolding ema_init_def fc_commit_ok by (auto simp: ok_weight ema_inv_def f_weight_def)
next
  case (reset c initial c')
  then show ?case using load_abs by (auto simp: ema_reset_def ema_inv_def)
next
  case (step c al x old c' y)
  then obtain d z where "ema_step V False (Some c) x (Some old) = (LINEARS_OK, Some d, Some z)" "ema_inv V d"
    using ema_step_total by metis
  moreover have "\<not> al" using step by (simp add: ema_step_run)
  ultimately show ?case using step by simp
qed

lemma ema_feed_settles:
  assumes "ema_inv V c"
  shows "\<exists>c'. ema_feed V c (replicate n x) = Some c' \<and> ema_alpha c' = ema_alpha c
    \<and> (sint (f_load V (ema_alpha c)) * \<bar>sint (ema_value c') - sint (f_load V x)\<bar> \<le> 2 ^ 30
       \<or> \<bar>sint (ema_value c') - sint (f_load V x)\<bar> \<le> \<bar>sint (ema_value c) - sint (f_load V x)\<bar> - int n)"
  using assms
proof (induction n arbitrary: c)
  case (Suc n)
  let ?a = "sint (f_load V (ema_alpha c))" and ?x = "sint (f_load V x)"
  have a: "0 \<le> ?a" "?a \<le> 2 ^ 31" using Suc.prems load_range [of "ema_alpha c"] unit_pos by (auto simp: ema_inv_def)
  obtain d y where d: "ema_step V False (Some c) x (Some (f_zero V)) = (LINEARS_OK, Some d, Some y)"
    "ema_alpha d = ema_alpha c" "ema_inv V d" "sint (ema_value d) = ema_next ?a (sint (ema_value c)) ?x"
    using ema_step_total [OF Suc.prems] by metis
  from Suc.IH [OF d(3)] obtain c' where c': "ema_feed V d (replicate n x) = Some c'" "ema_alpha c' = ema_alpha c"
    "?a * \<bar>sint (ema_value c') - ?x\<bar> \<le> 2 ^ 30 \<or> \<bar>sint (ema_value c') - ?x\<bar> \<le> \<bar>sint (ema_value d) - ?x\<bar> - int n"
    unfolding d(2) by blast
  have feed: "ema_feed V c (replicate (Suc n) x) = Some c'" using d(1) c'(1) by simp
  show ?case
  proof (cases "2 ^ 30 < ?a * \<bar>sint (ema_value c) - ?x\<bar>")
    case True
    then have "\<bar>sint (ema_value d) - ?x\<bar> \<le> \<bar>sint (ema_value c) - ?x\<bar> - 1"
      using ema_next_contracts(2) [OF a] unfolding d(4) by fastforce
    then show ?thesis using feed c' by auto
  next
    case False
    have "\<bar>sint (ema_value c') - ?x\<bar> \<le> \<bar>sint (ema_value c) - ?x\<bar>" if "\<bar>sint (ema_value c') - ?x\<bar> \<le> \<bar>sint (ema_value d) - ?x\<bar> - int n"
      using that ema_next_contracts(1) [OF a, of "sint (ema_value c)" ?x] unfolding d(4) by linarith
    then have "?a * \<bar>sint (ema_value c') - ?x\<bar> \<le> ?a * \<bar>sint (ema_value c) - ?x\<bar>" if "\<bar>sint (ema_value c') - ?x\<bar> \<le> \<bar>sint (ema_value d) - ?x\<bar> - int n"
      using that a by (intro mult_left_mono) auto
    then have "?a * \<bar>sint (ema_value c') - ?x\<bar> \<le> 2 ^ 30" using False c'(3) by linarith
    then show ?thesis using feed c' by auto
  qed
qed simp

end

section \<open>Properties\<close>

lemma q15_load [simp]: "sint (f_load filters_q15 t) = sint t * 65536"
  by (simp add: filters_q15_def q15_field)

definition ema_example :: "linears_q15_t ema" where
  "ema_example = \<lparr>ema_alpha = 16384, ema_value = 0\<rparr>"

lemma ema_example_reachable: "ema_reachable filters_q15 ema_example"
proof (rule ema_reachable.init)
  have "f_load filters_q15 0 = 0" by (simp add: filters_q15_def linears_fixed_from_q15_def)
  then show "ema_init filters_q15 (Some ema_example) 16384 0 = (LINEARS_OK, Some ema_example)"
    unfolding ema_init_def fc_commit_ok by (simp add: f15.ok_weight ema_example_def)
qed

text \<open>
  C29: a q15 exponential moving average that has been initialised never fails on a valid sample, whatever
  resets and samples came before. The new state is the exact convex combination of the old state
  and the sample, rounded once to 31 fractional bits; it lies between the two, and the output is
  the state rounded to q15 with +1 saturated.
\<close>

theorem ema_step_bounded:
  assumes "ema_reachable filters_q15 c"
  shows "\<exists>c' y. ema_step filters_q15 False (Some c) x (Some old) = (LINEARS_OK, Some c', Some y)
    \<and> sint (ema_value c') =
        round_away ((2 ^ 31 - sint (ema_alpha c) * 65536) * sint (ema_value c) + sint (ema_alpha c) * 65536 * (sint x * 65536)) (2 ^ 31)
    \<and> min (sint (ema_value c)) (sint x * 65536) \<le> sint (ema_value c')
    \<and> sint (ema_value c') \<le> max (sint (ema_value c)) (sint x * 65536)
    \<and> sint y = min (round_away (sint (ema_value c')) (2 ^ 16)) (2 ^ 15 - 1)"
proof -
  note inv = f15.ema_reachable_inv [OF assms]
  obtain c' y where s: "ema_step filters_q15 False (Some c) x (Some old) = (LINEARS_OK, Some c', Some y)"
    "sint (ema_value c') = ema_next (sint (ema_alpha c) * 65536) (sint (ema_value c)) (sint x * 65536)"
    "ok_run (f_store filters_q15 (ema_value c')) y"
    using f15.ema_step_total [OF inv] unfolding q15_load by metis
  have "sint y = min (round_away (sint (ema_value c')) (2 ^ 16)) (2 ^ 15 - 1)"
    using s(3) by (simp add: f_store_def filters_q15_def ok_to_q15)
  moreover have "0 \<le> sint (ema_alpha c) * 65536" "sint (ema_alpha c) * 65536 \<le> 2 ^ 31"
    using inv i16_range [of "ema_alpha c"] by (auto simp: ema_inv_def)
  note ema_next_between [OF this, of "sint (ema_value c)" "sint x * 65536", folded s(2)]
  ultimately show ?thesis using s(1,2) unfolding ema_next_def by blast
qed

theorem ema_step_bounded_witness:
  "\<exists>c' y. ema_step filters_q15 False (Some ema_example) 8192 (Some 0) = (LINEARS_OK, Some c', Some y)
    \<and> sint (ema_value c') = 268435456 \<and> sint y = 4096"
proof -
  obtain c' y where s: "ema_step filters_q15 False (Some ema_example) 8192 (Some 0) = (LINEARS_OK, Some c', Some y)"
    "sint (ema_value c') = round_away (1073741824 * 536870912) (2 ^ 31)"
    "sint y = min (round_away (sint (ema_value c')) (2 ^ 16)) (2 ^ 15 - 1)"
    using ema_step_bounded [OF ema_example_reachable, of 8192 0] by (auto simp: ema_example_def)
  have "sint (ema_value c') = 268435456" unfolding s(2) by (simp add: round_away_def round_half_def)
  with s show ?thesis by (simp add: round_away_def round_half_def)
qed

text \<open>
  C30: with a constant input an initialised q15 exponential moving average settles. After at most as many
  samples as the initial distance in units of the state, the distance times the weight is at most
  half a unit, where rounding absorbs every further correction, and it stays there.
\<close>

theorem ema_settles:
  assumes "ema_reachable filters_q15 c"
    and "\<bar>sint (ema_value c) - sint x * 65536\<bar> \<le> int n"
  shows "\<exists>c'. ema_feed filters_q15 c (replicate n x) = Some c'
    \<and> sint (ema_alpha c) * 65536 * \<bar>sint (ema_value c') - sint x * 65536\<bar> \<le> 2 ^ 30"
proof -
  obtain c' where c': "ema_feed filters_q15 c (replicate n x) = Some c'"
    "sint (ema_alpha c) * 65536 * \<bar>sint (ema_value c') - sint x * 65536\<bar> \<le> 2 ^ 30
      \<or> \<bar>sint (ema_value c') - sint x * 65536\<bar> \<le> \<bar>sint (ema_value c) - sint x * 65536\<bar> - int n"
    using f15.ema_feed_settles [OF f15.ema_reachable_inv [OF assms(1)], of n x] unfolding q15_load by blast
  then have "sint (ema_alpha c) * 65536 * \<bar>sint (ema_value c') - sint x * 65536\<bar> \<le> 2 ^ 30
      \<or> \<bar>sint (ema_value c') - sint x * 65536\<bar> = 0"
    using assms(2) by linarith
  then show ?thesis using c'(1) by auto
qed

theorem ema_settles_witness:
  "\<exists>c'. ema_feed filters_q15 ema_example (replicate 65536 1) = Some c' \<and> \<bar>sint (ema_value c') - 65536\<bar> \<le> 1"
proof -
  obtain c' where "ema_feed filters_q15 ema_example (replicate 65536 1) = Some c'"
    "1073741824 * \<bar>sint (ema_value c') - 65536\<bar> \<le> 2 ^ 30"
    using ema_settles [OF ema_example_reachable, of 1 65536] by (auto simp: ema_example_def)
  then show ?thesis by auto
qed

end
