(* ===== verification/Filters_Window.thy ===== *)
theory Filters_Window
  imports Filters_Ema "HOL-Library.Multiset"
begin

text \<open>
  The filters with a delay ring: FIR, moving average and median. A ring abstracts to the window of
  the latest samples, newest first; a filter refines a function of that window.
\<close>

section \<open>The ring\<close>

definition ring_window :: "'t list \<Rightarrow> nat \<Rightarrow> nat \<Rightarrow> 't list" where
  "ring_window xs head n = map (\<lambda>k. xs ! ((head + n - Suc k) mod n)) [0..<n]"

lemma length_ring_window [simp]: "length (ring_window xs head n) = n"
  by (simp add: ring_window_def)

lemma ring_next_mod: "head < n \<Longrightarrow> ring_next n head = (head + 1) mod n"
  by (auto simp: ring_next_def)

lemma ring_next_less: "head < n \<Longrightarrow> ring_next n head < n"
  by (auto simp: ring_next_def)

lemma mod_pred: "0 < n \<Longrightarrow> (if Suc m mod n = 0 then n - 1 else Suc m mod n - 1) = m mod n"
  by (auto simp: mod_Suc split: if_splits)

lemma ring_window_push:
  assumes "head < n" "n \<le> length xs"
  shows "ring_window (xs[head := x]) (ring_next n head) n = x # butlast (ring_window xs head n)"
proof (rule nth_equalityI)
  fix i
  assume "i < length (ring_window (xs[head := x]) (ring_next n head) n)"
  then have i: "i < n" by simp
  let ?p = "(ring_next n head + n - Suc i) mod n"
  show "ring_window (xs[head := x]) (ring_next n head) n ! i = (x # butlast (ring_window xs head n)) ! i"
  proof (cases i)
    case 0
    then have "?p = head" using assms(1) by (auto simp: ring_next_def mod_if)
    then show ?thesis using 0 assms i by (simp add: ring_window_def)
  next
    case (Suc j)
    have p: "?p = (head + n - Suc j) mod n" using assms(1) i Suc by (auto simp: ring_next_def mod_if)
    moreover have "(head + n - Suc j) mod n \<noteq> head" using assms(1) i Suc by (auto simp: mod_if)
    moreover have "?p < n" using i by simp
    ultimately show ?thesis using Suc i assms by (simp add: ring_window_def nth_butlast)
  qed
qed (use assms in \<open>simp add: ring_window_def\<close>)

lemma ring_window_zero: "n \<le> length xs \<Longrightarrow> ring_window (replicate n z @ drop n xs) head n = replicate n z"
  by (cases "n = 0") (auto simp: ring_window_def nth_append map_replicate_const intro!: nth_equalityI)

text \<open>The window holds exactly the elements of the ring.\<close>

lemma ring_window_perm:
  assumes "head < n" "n \<le> length xs"
  shows "mset (ring_window xs head n) = mset (take n xs)"
proof -
  let ?f = "\<lambda>k. (head + n - Suc k) mod n"
  have inj: "inj_on ?f {0..<n}"
    using assms(1) by (auto simp: inj_on_def mod_if split: if_splits)
  have "?f ` {0..<n} \<subseteq> {0..<n}" using assms(1) by auto
  with inj have img: "?f ` {0..<n} = {0..<n}" by (intro card_subset_eq) (auto simp: card_image)
  have "mset (ring_window xs head n) = image_mset ((!) xs) (image_mset ?f (mset_set {0..<n}))"
    by (simp add: ring_window_def multiset.map_comp comp_def flip: mset_upt)
  also have "image_mset ?f (mset_set {0..<n}) = mset_set {0..<n}"
    using image_mset_mset_set [OF inj] img by simp
  also have "image_mset ((!) xs) (mset_set {0..<n}) = mset (map ((!) xs) [0..<n])"
    by (simp flip: mset_upt)
  also have "map ((!) xs) [0..<n] = take n xs"
    using assms(2) by (intro nth_equalityI) simp_all
  finally show ?thesis .
qed

section \<open>Feeding a sequence\<close>

fun feeds :: "('c \<Rightarrow> 't \<Rightarrow> ('c \<times> 'o) option) \<Rightarrow> 'c \<Rightarrow> 't list \<Rightarrow> ('c \<times> 'o list) option" where
  "feeds f c [] = Some (c, [])"
| "feeds f c (x # xs) = do { (c1, y) \<leftarrow> f c x; (c2, ys) \<leftarrow> feeds f c1 xs; Some (c2, y # ys) }"

locale window_filter =
  fixes feed :: "'c \<Rightarrow> 't \<Rightarrow> ('c \<times> 'o) option"
    and inv :: "'c \<Rightarrow> bool"
    and hist :: "'c \<Rightarrow> 't list"
    and conf :: "'c \<Rightarrow> 'k"
    and resp :: "'k \<Rightarrow> 't list \<Rightarrow> 'o \<Rightarrow> bool"
  assumes hist_nonempty: "inv c \<Longrightarrow> hist c \<noteq> []"
    and feed_refines: "inv c \<Longrightarrow> feed c x = Some (c', y) \<Longrightarrow>
      inv c' \<and> conf c' = conf c \<and> hist c' = x # butlast (hist c) \<and> resp (conf c) (x # butlast (hist c)) y"
begin

lemma feeds_refine:
  assumes "inv c" "feeds feed c xs = Some (c', ys)"
  shows "inv c' \<and> conf c' = conf c \<and> hist c' = take (length (hist c)) (rev xs @ hist c) \<and> length ys = length xs
    \<and> (\<forall>k < length xs. resp (conf c) (take (length (hist c)) (rev (take (Suc k) xs) @ hist c)) (ys ! k))"
  using assms
proof (induction xs arbitrary: c ys)
  case (Cons x xs)
  obtain c1 y ys' where f: "feed c x = Some (c1, y)" "feeds feed c1 xs = Some (c', ys')" "ys = y # ys'"
    using Cons.prems(2) by (auto split: bind_splits)
  note s = feed_refines [OF Cons.prems(1) f(1)]
  have n: "length (hist c1) = length (hist c)" using s hist_nonempty [OF Cons.prems(1)] by (cases "hist c") auto
  have w: "take (length (hist c)) (zs @ hist c1) = take (length (hist c)) (zs @ x # hist c)" for zs
  proof -
    have "x # hist c = hist c1 @ [last (hist c)]" using s hist_nonempty [OF Cons.prems(1)] by simp
    then show ?thesis using n by simp
  qed
  note ih = Cons.IH [OF conjunct1 [OF s] f(2), unfolded n w]
  have "resp (conf c) (take (length (hist c)) (rev (take (Suc k) (x # xs)) @ hist c)) (ys ! k)" if "k < Suc (length xs)" for k
  proof (cases k)
    case 0
    have "x # butlast (hist c) = take (length (hist c)) (x # hist c)"
      using hist_nonempty [OF Cons.prems(1)] by (cases "hist c") (auto simp: butlast_conv_take)
    then show ?thesis using 0 s f(3) by simp
  next
    case (Suc j)
    then show ?thesis using ih that s f(3) by simp
  qed
  then show ?case using ih s f(3) by simp
qed simp

end

section \<open>FIR\<close>

definition fir_inv :: "'t fir \<Rightarrow> bool" where
  "fir_inv c \<longleftrightarrow> fir_head c < fir_taps c \<and> fir_taps c \<le> length (fir_state c) \<and> fir_taps c \<le> length (fir_coefficients c)"

definition fir_history :: "'t fir \<Rightarrow> 't list" where
  "fir_history c = ring_window (fir_state c) (fir_head c) (fir_taps c)"

text \<open>The exact products of the coefficients with the window.\<close>

definition fir_products :: "'t f_format \<Rightarrow> linears_fixed_t list \<Rightarrow> 't list \<Rightarrow> (i64 \<times> i64) list" where
  "fir_products V cs window = zip cs (map (f_load V) window)"

definition fir_sum :: "'t f_format \<Rightarrow> linears_fixed_t list \<Rightarrow> 't list \<Rightarrow> int" where
  "fir_sum V cs window = (\<Sum>(a, b) \<leftarrow> fir_products V cs window. sint a * sint b)"

lemma prefix_sums_fit_bound:
  "(\<And>w. w \<in> set ws \<Longrightarrow> \<bar>w\<bar> \<le> B) \<Longrightarrow> \<bar>s\<bar> + int (length ws) * B < 2 ^ 127 \<Longrightarrow> 0 \<le> B \<Longrightarrow>
    prefix_sums_fit (- (2 ^ 127)) (2 ^ 127) s ws"
proof (induction ws arbitrary: s)
  case (Cons w ws)
  have w: "\<bar>w\<bar> \<le> B" using Cons.prems(1) by simp
  have n: "0 \<le> int (length ws) * B" using Cons.prems(3) by simp
  have b: "\<bar>s\<bar> + (int (length ws) * B + B) < 2 ^ 127" using Cons.prems(2) by (simp add: distrib_right add.commute)
  then have "\<bar>s + w\<bar> + int (length ws) * B < 2 ^ 127" using w abs_triangle_ineq [of s w] by linarith
  then have "prefix_sums_fit (- (2 ^ 127)) (2 ^ 127) (s + w) ws"
    using Cons.prems(1,3) by (intro Cons.IH) simp_all
  moreover have "\<bar>s + w\<bar> < 2 ^ 127" using b n w abs_triangle_ineq [of s w] by linarith
  ultimately show ?case by (simp add: abs_less_iff)
qed simp

lemma mac_step_mac: "linears_fixed_mac (Some acc) a b = (s, Some acc') \<longleftrightarrow> mac_step acc (a, b) = (s, acc')"
  by (simp add: mac_step_def linears_fixed_mac_spec)

lemma fir_loop_run:
  assumes inv: "fir_inv c" and "i + n \<le> fir_taps c"
  shows "fir_loop V c sample n i ((fir_head c + fir_taps c - (i - 1)) mod fir_taps c) acc =
    Some (accumulate_all mac_step acc (map (\<lambda>k. (fir_coefficients c ! k,
      if k = 0 then sample else f_load V (fir_state c ! ((fir_head c + fir_taps c - k) mod fir_taps c)))) [i..<i + n]))"
  using assms(2)
proof (induction n arbitrary: i acc)
  case (Suc n)
  let ?t = "fir_taps c" and ?h = "fir_head c"
  have t: "0 < ?t" "?t \<le> length (fir_state c)" "i < length (fir_coefficients c)"
    using inv Suc.prems by (auto simp: fir_inv_def)
  let ?idx = "(?h + ?t - (i - 1)) mod ?t"
  have idx: "(if i = 0 then ?idx else if ?idx = 0 then ?t - 1 else ?idx - 1) = (?h + ?t - (Suc i - 1)) mod ?t"
  proof (cases i)
    case j: (Suc j)
    then have "?h + ?t - (i - 1) = Suc (?h + ?t - i)" using Suc.prems by simp
    then show ?thesis using mod_pred [OF t(1), of "?h + ?t - i"] j by (auto split: if_splits)
  qed simp
  have r: "(?h + ?t - i) mod ?t < length (fir_state c)"
    using t mod_less_divisor [OF t(1), of "?h + ?t - i"] by linarith
  define d where "d = (if i = 0 then sample else f_load V (fir_state c ! ((?h + ?t - i) mod ?t)))"
  have "fir_loop V c sample (Suc n) i ?idx acc =
      (case mac_step acc (fir_coefficients c ! i, d) of
         (LINEARS_OK, acc') \<Rightarrow> fir_loop V c sample n (Suc i) ((?h + ?t - (Suc i - 1)) mod ?t) acc'
       | (e, acc') \<Rightarrow> Some (e, acc'))"
    using t(3) r unfolding d_def fir_loop.simps Let_def idx
    by (auto simp: mac_step_def linears_fixed_mac_spec)
  also have "\<dots> = Some (accumulate_all mac_step acc ((fir_coefficients c ! i, d) # map (\<lambda>k. (fir_coefficients c ! k,
      if k = 0 then sample else f_load V (fir_state c ! ((?h + ?t - k) mod ?t)))) [Suc i..<Suc i + n]))"
    using Suc.IH [of "Suc i"] Suc.prems unfolding accumulate_all.simps
    by (cases "mac_step acc (fir_coefficients c ! i, d)") (simp split: linears_status_t.split)
  also have "(fir_coefficients c ! i, d) # map (\<lambda>k. (fir_coefficients c ! k,
      if k = 0 then sample else f_load V (fir_state c ! ((?h + ?t - k) mod ?t)))) [Suc i..<Suc i + n]
    = map (\<lambda>k. (fir_coefficients c ! k,
      if k = 0 then sample else f_load V (fir_state c ! ((?h + ?t - k) mod ?t)))) [i..<i + Suc n]"
    unfolding d_def by (subst upt_conv_Cons [of i "i + Suc n"]) simp_all
  finally show ?case .
qed simp

lemma fir_products_window:
  assumes "fir_inv c"
  shows "map (\<lambda>k. (fir_coefficients c ! k,
      if k = 0 then f_load V x else f_load V (fir_state c ! ((fir_head c + fir_taps c - k) mod fir_taps c)))) [0..<fir_taps c]
    = fir_products V (fir_coefficients c) (x # butlast (fir_history c))"
proof (rule nth_equalityI)
  show "length (map (\<lambda>k. (fir_coefficients c ! k,
      if k = 0 then f_load V x else f_load V (fir_state c ! ((fir_head c + fir_taps c - k) mod fir_taps c)))) [0..<fir_taps c])
    = length (fir_products V (fir_coefficients c) (x # butlast (fir_history c)))"
    using assms by (auto simp: fir_inv_def fir_products_def fir_history_def)
  fix i
  assume "i < length (map (\<lambda>k. (fir_coefficients c ! k,
      if k = 0 then f_load V x else f_load V (fir_state c ! ((fir_head c + fir_taps c - k) mod fir_taps c)))) [0..<fir_taps c])"
  then have i: "i < fir_taps c" by simp
  have "(x # butlast (fir_history c)) ! i =
      (if i = 0 then x else fir_state c ! ((fir_head c + fir_taps c - i) mod fir_taps c))"
    using i by (cases i) (simp_all add: fir_history_def ring_window_def nth_butlast)
  then show "map (\<lambda>k. (fir_coefficients c ! k,
      if k = 0 then f_load V x else f_load V (fir_state c ! ((fir_head c + fir_taps c - k) mod fir_taps c)))) [0..<fir_taps c] ! i
    = fir_products V (fir_coefficients c) (x # butlast (fir_history c)) ! i"
    using i assms unfolding fir_products_def by (subst nth_zip) (auto simp: fir_inv_def fir_history_def nth_Cons' nth_butlast)
qed

lemma fir_loop_window:
  assumes "fir_inv c"
  shows "fir_loop V c (f_load V x) (fir_taps c) 0 (fir_head c) accum_zero =
    Some (accumulate_all mac_step accum_zero (fir_products V (fir_coefficients c) (x # butlast (fir_history c))))"
  using fir_loop_run [OF assms, of 0 "fir_taps c" V "f_load V x" accum_zero] assms
  by (simp add: fir_products_window fir_inv_def)

context filter_format
begin

lemma fir_step_ok:
  assumes "fir_inv c" "fir_step V al (Some c) x (Some old) = Some (LINEARS_OK, Some c', Some y)"
  shows "\<not> al" "c' = c\<lparr>fir_state := (fir_state c)[fir_head c := x], fir_head := ring_next (fir_taps c) (fir_head c)\<rparr>"
    "\<bar>fir_sum V (fir_coefficients c) (x # butlast (fir_history c))\<bar> \<le> 2 ^ 62"
    "sint (f_load V y) = quantized S (fir_sum V (fir_coefficients c) (x # butlast (fir_history c))) (2 ^ 31)"
proof -
  let ?ps = "fir_products V (fir_coefficients c) (x # butlast (fir_history c))"
  show "\<not> al" using assms(2) by (auto simp: fir_step_def)
  obtain acc where acc: "accumulate_all mac_step accum_zero ?ps = (LINEARS_OK, acc)"
    and y: "f_accum_export V acc (Some (f_zero V)) = (LINEARS_OK, Some y)"
    and c': "c' = c\<lparr>fir_state := (fir_state c)[fir_head c := x], fir_head := ring_next (fir_taps c) (fir_head c)\<rparr>"
    using assms(2) unfolding fir_step_def
    by (auto simp: fir_loop_window [OF assms(1)] buf_write_def split: if_splits bind_splits linears_status_t.splits prod.splits)
  show "c' = c\<lparr>fir_state := (fir_state c)[fir_head c := x], fir_head := ring_next (fir_taps c) (fir_head c)\<rparr>" by (rule c')
  have "prefix_sums_fit (- (2 ^ 127)) (2 ^ 127) (accum_val accum_zero) (map (\<lambda>(a, b). sint a * sint b) ?ps)"
    using mac.accumulate_refuses [of accum_zero ?ps] acc by force
  from mac.accumulate_exact [OF this] acc have "accum_val acc = fir_sum V (fir_coefficients c) (x # butlast (fir_history c))"
    by (simp add: fir_sum_def)
  with y show "\<bar>fir_sum V (fir_coefficients c) (x # butlast (fir_history c))\<bar> \<le> 2 ^ 62"
    "sint (f_load V y) = quantized S (fir_sum V (fir_coefficients c) (x # butlast (fir_history c))) (2 ^ 31)"
    unfolding export_value by simp_all
qed

lemma fir_products_fit:
  assumes "length window \<le> 2 ^ 32"
  shows "prefix_sums_fit (- (2 ^ 127)) (2 ^ 127) 0 (map (\<lambda>(a, b). sint a * sint b) (fir_products V cs window))"
proof (rule prefix_sums_fit_bound [where B = "2 ^ 94"])
  fix w
  assume "w \<in> set (map (\<lambda>(a, b). sint a * sint b) (fir_products V cs window))"
  then obtain a :: i64 and t where w: "w = sint a * sint (f_load V t)" by (auto simp: fir_products_def dest!: set_zip_rightD)
  have "\<bar>w\<bar> \<le> 2 ^ 63 * 2 ^ 31"
    unfolding w abs_mult using i64_range [of a] load_abs [of t] by (intro mult_mono) auto
  then show "\<bar>w\<bar> \<le> 2 ^ 94" by simp
next
  have "int (length (map (\<lambda>(a, b). sint a * sint b) (fir_products V cs window))) \<le> 2 ^ 32"
    using assms by (simp add: fir_products_def min_def)
  then have "int (length (map (\<lambda>(a, b). sint a * sint b) (fir_products V cs window))) * 2 ^ 94 \<le> 2 ^ 32 * 2 ^ 94"
    by (intro mult_right_mono) auto
  then show "\<bar>0\<bar> + int (length (map (\<lambda>(a, b). sint a * sint b) (fir_products V cs window))) * 2 ^ 94 < 2 ^ 127" by simp
qed simp

lemma fir_step_status:
  assumes "fir_inv c" "fir_taps c \<le> 2 ^ 32"
  shows "\<bar>fir_sum V (fir_coefficients c) (x # butlast (fir_history c))\<bar> \<le> 2 ^ 62 \<Longrightarrow>
      \<exists>c' y. fir_step V False (Some c) x (Some old) = Some (LINEARS_OK, Some c', Some y)"
    and "2 ^ 62 < \<bar>fir_sum V (fir_coefficients c) (x # butlast (fir_history c))\<bar> \<Longrightarrow>
      fir_step V False (Some c) x (Some old) = Some (LINEARS_ERROR_RANGE, Some c, Some old)"
proof -
  let ?ps = "fir_products V (fir_coefficients c) (x # butlast (fir_history c))"
  have "length (x # butlast (fir_history c)) \<le> 2 ^ 32" using assms by (simp add: fir_history_def fir_inv_def)
  from fir_products_fit [OF this] mac.accumulate_exact [of accum_zero ?ps] obtain acc where
    acc: "accumulate_all mac_step accum_zero ?ps = (LINEARS_OK, acc)"
      "accum_val acc = fir_sum V (fir_coefficients c) (x # butlast (fir_history c))"
    by (auto simp: fir_sum_def)
  show "\<exists>c' y. fir_step V False (Some c) x (Some old) = Some (LINEARS_OK, Some c', Some y)"
    if "\<bar>fir_sum V (fir_coefficients c) (x # butlast (fir_history c))\<bar> \<le> 2 ^ 62"
    using export_total [of acc "f_zero V"] that acc assms(1)
    by (auto simp: fir_step_def fir_loop_window buf_write_def fir_inv_def)
  show "fir_step V False (Some c) x (Some old) = Some (LINEARS_ERROR_RANGE, Some c, Some old)"
    if "2 ^ 62 < \<bar>fir_sum V (fir_coefficients c) (x # butlast (fir_history c))\<bar>"
    using export_fail [of acc "f_zero V"] that acc assms(1)
    by (auto simp: fir_step_def fir_loop_window)
qed

lemma fir_push:
  assumes "fir_inv c" "c' = c\<lparr>fir_state := (fir_state c)[fir_head c := x], fir_head := ring_next (fir_taps c) (fir_head c)\<rparr>"
  shows "fir_inv c' \<and> fir_coefficients c' = fir_coefficients c \<and> fir_history c' = x # butlast (fir_history c)"
  using assms ring_window_push [of "fir_head c" "fir_taps c" "fir_state c" x]
  by (auto simp: fir_inv_def fir_history_def ring_next_less)

end

text \<open>One successful sample.\<close>

definition fir_feed :: "'t f_format \<Rightarrow> 't fir \<Rightarrow> 't \<Rightarrow> ('t fir \<times> 't) option" where
  "fir_feed V c x =
     (case fir_step V False (Some c) x (Some (f_zero V)) of
        Some (LINEARS_OK, Some c', Some y) \<Rightarrow> Some (c', y)
      | _ \<Rightarrow> None)"

lemma fir_feed_Some: "fir_feed V c x = Some (c', y) \<longleftrightarrow>
    fir_step V False (Some c) x (Some (f_zero V)) = Some (LINEARS_OK, Some c', Some y)"
  by (auto simp: fir_feed_def split: option.splits prod.splits linears_status_t.splits)

definition fir_resp :: "'t f_format \<Rightarrow> int \<Rightarrow> linears_fixed_t list \<Rightarrow> 't list \<Rightarrow> 't \<Rightarrow> bool" where
  "fir_resp V S cs window y \<longleftrightarrow> sint (f_load V y) = quantized S (fir_sum V cs window) (2 ^ 31)"

sublocale filter_format \<subseteq> fir: window_filter "fir_feed V" fir_inv fir_history fir_coefficients "fir_resp V S"
proof
  show "fir_history c \<noteq> []" if "fir_inv c" for c :: "'a fir"
    using that by (simp add: fir_inv_def fir_history_def ring_window_def)
next
  fix c c' x y
  assume c: "fir_inv c" "fir_feed V c x = Some (c', y)"
  note s = fir_step_ok [OF c(1) c(2) [unfolded fir_feed_Some]]
  show "fir_inv c' \<and> fir_coefficients c' = fir_coefficients c \<and> fir_history c' = x # butlast (fir_history c)
      \<and> fir_resp V S (fir_coefficients c) (x # butlast (fir_history c)) y"
    using fir_push [OF c(1) s(2)] s(4) by (simp add: fir_resp_def)
qed

lemma fir_init_ok:
  assumes "fir_init W V al (Some old) (Some cs) taps (Some st) cap = Some (LINEARS_OK, Some c)"
  shows "fir_inv c" "fir_coefficients c = cs" "fir_taps c = taps" "fir_history c = replicate taps (f_zero V)"
proof -
  obtain rs st' where r: "those (map (\<lambda>i. buf_read i cs) [0..<taps]) = Some rs" "buf_fill taps (f_zero V) st = Some st'"
    "c = \<lparr>fir_coefficients = cs, fir_state = st', fir_taps = taps, fir_head = 0\<rparr>" and pos: "0 < taps"
    using assms by (auto simp: fir_init_def array_size_def split: if_splits bind_splits)
  have st': "taps \<le> length st" "st' = replicate taps (f_zero V) @ drop taps st"
    using buf_fill_length [OF r(2)] r(2) by (auto simp: buf_fill_Some)
  have "taps \<le> length cs" using those_reads [OF r(1), of "taps - 1"] pos by simp
  with st' pos show "fir_inv c" "fir_coefficients c = cs" "fir_taps c = taps" "fir_history c = replicate taps (f_zero V)"
    by (simp_all add: r(3) fir_inv_def fir_history_def ring_window_zero)
qed

lemma fir_sum_nth:
  "length w \<le> length cs \<Longrightarrow> fir_sum V cs w = (\<Sum>i<length w. sint (cs ! i) * sint (f_load V (w ! i)))"
  unfolding fir_sum_def fir_products_def by (simp add: sum_list_sum_nth atLeast0LessThan split_def)

context filter_format
begin

lemma fir_sum_window:
  assumes "taps \<le> length cs" "k < length xs"
  shows "fir_sum V cs (take taps (rev (take (Suc k) xs) @ replicate taps (f_zero V)))
    = (\<Sum>i<taps. if i \<le> k then sint (cs ! i) * sint (f_load V (xs ! (k - i))) else 0)"
proof -
  let ?w = "take taps (rev (take (Suc k) xs) @ replicate taps (f_zero V))"
  have len: "length ?w = taps" by simp
  have w: "?w ! i = (if i \<le> k then xs ! (k - i) else f_zero V)" if "i < taps" for i
    using that assms(2) by (auto simp: nth_append rev_nth)
  have "fir_sum V cs ?w = (\<Sum>i<taps. sint (cs ! i) * sint (f_load V (?w ! i)))"
    using fir_sum_nth [of ?w cs V] assms(1) unfolding len by simp
  also have "\<dots> = (\<Sum>i<taps. if i \<le> k then sint (cs ! i) * sint (f_load V (xs ! (k - i))) else 0)"
    by (rule sum.cong [OF refl]) (subst w, simp_all add: load_zero)
  finally show ?thesis .
qed

end

text \<open>
  C9: the q15 FIR filter computes the convolution of its input with its coefficients. For an
  initialised filter and any sequence of samples it accepts, the output at time \<open>k\<close> is the sum
  of \<open>cs ! i\<close> times the sample \<open>i\<close> steps back (zero before the start), accumulated exactly and
  rounded once; no access leaves the coefficient array or the delay ring.
\<close>

theorem fir_convolution:
  assumes "fir_init W filters_q15 al (Some old) (Some cs) taps (Some st) cap = Some (LINEARS_OK, Some c)"
    and "feeds (fir_feed filters_q15) c xs = Some (c', ys)"
  shows "length ys = length xs \<and> (\<forall>k < length xs. sint (ys ! k) =
      min (round_away (\<Sum>i<taps. if i \<le> k then sint (cs ! i) * (sint (xs ! (k - i)) * 65536) else 0) (2 ^ 47)) (2 ^ 15 - 1))"
proof -
  note init = fir_init_ok [OF assms(1)]
  note run = f15.fir.feeds_refine [OF init(1) assms(2), unfolded init(2,4)]
  have taps: "taps \<le> length cs" using init(1-3) by (simp add: fir_inv_def)
  have "sint (ys ! k) =
      min (round_away (\<Sum>i<taps. if i \<le> k then sint (cs ! i) * (sint (xs ! (k - i)) * 65536) else 0) (2 ^ 47)) (2 ^ 15 - 1)"
    if "k < length xs" for k
  proof -
    have "fir_resp filters_q15 65536 cs (take taps (rev (take (Suc k) xs) @ replicate taps (f_zero filters_q15))) (ys ! k)"
      using run that by simp
    then show ?thesis
      using quantized_q15 [of "ys ! k", unfolded q15_field] unfolding fir_resp_def f15.fir_sum_window [OF taps that] q15_load
      by simp
  qed
  then show ?thesis using run by blast
qed

definition fir_example :: "linears_q15_t fir" where
  "fir_example = \<lparr>fir_coefficients = [0x40000000, 0x40000000], fir_state = [0, 0], fir_taps = 2, fir_head = 0\<rparr>"

theorem fir_convolution_witness:
  "\<exists>c' y1 y2. feeds (fir_feed filters_q15) fir_example [8192, 4096] = Some (c', [y1, y2]) \<and> sint y1 = 4096 \<and> sint y2 = 6144"
proof -
  have init: "fir_init 32 filters_q15 False (Some fir_example) (Some [0x40000000, 0x40000000]) 2 (Some [7, 7]) 2
      = Some (LINEARS_OK, Some fir_example)"
    by (simp add: buf_two fir_init_def array_size_def filters_q15_def fir_example_def)
  have "feeds (fir_feed filters_q15) fir_example [8192, 4096] \<noteq> None" by code_simp
  then obtain c' ys where run: "feeds (fir_feed filters_q15) fir_example [8192, 4096] = Some (c', ys)" by auto
  note r = fir_convolution [OF init run]
  from r obtain y1 y2 where ys: "ys = [y1, y2]" by (cases ys; cases "tl ys") (auto simp: length_Suc_conv)
  have "sint y1 = min (round_away 576460752303423488 (2 ^ 47)) (2 ^ 15 - 1)"
    "sint y2 = min (round_away 864691128455135232 (2 ^ 47)) (2 ^ 15 - 1)"
    using spec [OF conjunct2 [OF r], of 0] spec [OF conjunct2 [OF r], of 1]
    by (simp_all add: ys lessThan_Suc numeral_2_eq_2)
  then have "sint y1 = 4096" "sint y2 = 6144"
    by (simp_all add: round_away_def round_half_def)
  with run ys show ?thesis by blast
qed

end
