(* ===== verification/Filters_Mean.thy ===== *)
theory Filters_Mean
  imports Filters_Window
begin

text \<open>
  The moving average and the median: both accept every sample, and their outputs are the rounded
  mean and the median of the window.
\<close>

section \<open>Filters that accept every sample\<close>

locale total_window_filter = window_filter +
  assumes feed_total: "inv c \<Longrightarrow> \<exists>c' y. feed c x = Some (c', y)"
begin

lemma feeds_total: "inv c \<Longrightarrow> \<exists>c' ys. feeds feed c xs = Some (c', ys)"
proof (induction xs arbitrary: c)
  case (Cons x xs)
  obtain c1 y where f: "feed c x = Some (c1, y)" using feed_total [OF Cons.prems] by blast
  with feed_refines [OF Cons.prems] Cons.IH [of c1] show ?case by fastforce
qed simp

end

section \<open>Moving average\<close>

definition window_total :: "'t f_format \<Rightarrow> 't list \<Rightarrow> int" where
  "window_total V w = (\<Sum>t\<leftarrow>w. sint (f_load V t))"

definition ma_inv :: "'t f_format \<Rightarrow> 't moving_average \<Rightarrow> bool" where
  "ma_inv V c \<longleftrightarrow> ma_head c < ma_window c \<and> ma_window c \<le> length (ma_state c) \<and> ma_window c < 2 ^ 64
     \<and> accum_val (ma_sum c) = 2 ^ 31 * window_total V (take (ma_window c) (ma_state c))"

definition ma_history :: "'t moving_average \<Rightarrow> 't list" where
  "ma_history c = ring_window (ma_state c) (ma_head c) (ma_window c)"

definition ma_resp :: "'t f_format \<Rightarrow> int \<Rightarrow> nat \<Rightarrow> 't list \<Rightarrow> 't \<Rightarrow> bool" where
  "ma_resp V S n w y \<longleftrightarrow> sint (f_load V y) = quantized S (window_total V w) (int n)"

definition ma_feed :: "'t f_format \<Rightarrow> 't moving_average \<Rightarrow> 't \<Rightarrow> ('t moving_average \<times> 't) option" where
  "ma_feed V c x =
     (case moving_average_step V False (Some c) x (Some (f_zero V)) of
        Some (LINEARS_OK, Some c', Some y) \<Rightarrow> Some (c', y)
      | _ \<Rightarrow> None)"

lemma window_total_mset: "mset w = mset w' \<Longrightarrow> window_total V w = window_total V w'"
  unfolding window_total_def by (simp flip: sum_mset_sum_list)

lemma window_total_nth: "window_total V w = (\<Sum>i<length w. sint (f_load V (w ! i)))"
  unfolding window_total_def sum_list_sum_nth by (simp add: atLeast0LessThan)

lemma window_total_update:
  "i < length xs \<Longrightarrow> window_total V (xs[i := x]) = window_total V xs - sint (f_load V (xs ! i)) + sint (f_load V x)"
  unfolding window_total_def by (induction xs arbitrary: i) (auto split: nat.split)

context filter_format
begin

lemma window_total_bound: "\<bar>window_total V w\<bar> \<le> int (length w) * 2 ^ 31"
proof (induction w)
  case (Cons t w)
  then show ?case using load_abs [of t] unfolding window_total_def by (simp add: distrib_right)
qed (simp add: window_total_def)

lemma quantized_scale: "0 < d \<Longrightarrow> quantized S (2 ^ 31 * n) (d * 2 ^ 31) = quantized S n d"
  using round_away_scale [of "2 ^ 31" "d * S" n] unit_pos by (simp add: quantized_def mult.assoc mult.left_commute)

lemma moving_average_step_run:
  assumes "ma_inv V c"
  obtains c' y where "moving_average_step V False (Some c) x (Some old) = Some (LINEARS_OK, Some c', Some y)"
    "ma_inv V c'" "ma_window c' = ma_window c" "ma_history c' = x # butlast (ma_history c)"
    "ma_resp V S (ma_window c) (x # butlast (ma_history c)) y"
proof -
  let ?n = "ma_window c" and ?h = "ma_head c" and ?st = "ma_state c"
  define T T1 T2 where "T = window_total V (take ?n ?st)" and "T1 = T - sint (f_load V (?st ! ?h))"
    and "T2 = T1 + sint (f_load V x)"
  have inv: "?h < ?n" "?n \<le> length ?st" "?n < 2 ^ 64" "accum_val (ma_sum c) = 2 ^ 31 * T"
    using assms by (auto simp: ma_inv_def T_def)
  have T2: "T2 = window_total V (take ?n (?st[?h := x]))"
    using inv window_total_update [of ?h "take ?n ?st" V x] by (simp add: T2_def T1_def T_def take_update_swap)
  have one: "sint LINEARS_FIXED_ONE = 2 ^ 31" by (simp add: LINEARS_FIXED_ONE_def)
  have n: "uint (of_nat ?n :: u64) = int ?n" using inv(3) by (simp add: uint_nat unat_of_nat)
  have b: "\<bar>T\<bar> \<le> int ?n * 2 ^ 31" "\<bar>T2\<bar> \<le> int ?n * 2 ^ 31"
    using window_total_bound [of "take ?n ?st"] window_total_bound [of "take ?n (?st[?h := x])"] inv(2)
    by (simp_all add: T_def T2 min_absorb2)
  have nb: "int ?n * 2 ^ 31 < 2 ^ 95" using inv(3) by simp
  have "\<bar>T1\<bar> \<le> 2 ^ 95 + 2 ^ 31" using b(1) nb load_abs [of "?st ! ?h"] unfolding T1_def by linarith
  then obtain s1 where s1: "accum_val s1 = 2 ^ 31 * T1" using exists_accum [of "2 ^ 31 * T1"] by (auto simp: abs_le_iff)
  have "\<bar>T2\<bar> < 2 ^ 95" using b(2) nb by linarith
  then obtain s2 where s2: "accum_val s2 = 2 ^ 31 * T2" using exists_accum [of "2 ^ 31 * T2"] by (auto simp: abs_less_iff)
  have nz: "(of_nat ?n :: u64) \<noteq> 0" using n inv(1) by auto
  have "\<bar>accum_val s2\<bar> \<le> uint (of_nat ?n :: u64) * 2 ^ 62" using b(2) unfolding n s2 by (simp add: abs_mult)
  then obtain y where y: "ok_run (fc_op (f_zero V) (f_mean V s2 (of_nat ?n))) y" using mean_total [OF nz] by blast
  have run: "ok_run (do {
      s1 \<leftarrow> fc_msu (ma_sum c) (f_load V (?st ! ?h)) LINEARS_FIXED_ONE;
      s2 \<leftarrow> fc_mac s1 (f_load V x) LINEARS_FIXED_ONE;
      result \<leftarrow> fc_op (f_zero V) (f_mean V s2 (of_nat ?n));
      State_Monad.return (s2, result) }) (s2, y)"
    using y s1 s2 by (auto simp: fc_ok one inv(4) T1_def T2_def algebra_simps intro!: exI [of _ s1])
  define c' where "c' = c\<lparr>ma_state := ?st[?h := x], ma_sum := s2, ma_head := ring_next ?n ?h\<rparr>"
  have hist: "ma_history c' = x # butlast (ma_history c)"
    using ring_window_push [OF inv(1,2), of x] by (simp add: c'_def ma_history_def)
  have inv': "ma_inv V c'" using inv s2 ring_next_less [OF inv(1)] by (simp add: ma_inv_def c'_def T2)
  have total: "window_total V (ma_history c') = T2"
    using ring_window_perm [of "ring_next ?n ?h" ?n "?st[?h := x]"] inv ring_next_less [OF inv(1)]
    by (auto simp: T2 c'_def ma_history_def intro: window_total_mset)
  have "sint (f_load V y) = quantized S T2 (int ?n)"
    using y quantized_scale [of "int ?n" T2] inv(1) unfolding mean_ok n s2 by simp
  then have "ma_resp V S ?n (x # butlast (ma_history c)) y" by (simp add: ma_resp_def flip: hist total)
  moreover have "moving_average_step V False (Some c) x (Some old) = Some (LINEARS_OK, Some c', Some y)"
    using inv run [unfolded ok_run_def] by (simp add: moving_average_step_def buf_write_def c'_def)
  ultimately show thesis using inv' hist by (intro that [of c' y]) (simp_all add: c'_def)
qed

end

lemma ma_feed_Some: "ma_feed V c x = Some (c', y) \<longleftrightarrow>
    moving_average_step V False (Some c) x (Some (f_zero V)) = Some (LINEARS_OK, Some c', Some y)"
  by (auto simp: ma_feed_def split: option.splits prod.splits linears_status_t.splits)

sublocale filter_format \<subseteq> ma: total_window_filter "ma_feed V" "ma_inv V" ma_history ma_window "ma_resp V S"
proof
  show "ma_history c \<noteq> []" if "ma_inv V c" for c
    using that by (auto simp: ma_inv_def ma_history_def ring_window_def)
  show "\<exists>c' y. ma_feed V c x = Some (c', y)" if "ma_inv V c" for c x
    using moving_average_step_run [OF that] unfolding ma_feed_Some by metis
  show "ma_inv V c' \<and> ma_window c' = ma_window c \<and> ma_history c' = x # butlast (ma_history c)
      \<and> ma_resp V S (ma_window c) (x # butlast (ma_history c)) y"
    if "ma_inv V c" "ma_feed V c x = Some (c', y)" for c x c' y
    using moving_average_step_run [OF that(1), of x "f_zero V"] that(2) unfolding ma_feed_Some
    by (metis option.inject prod.inject)
qed

context filter_format
begin

lemma moving_average_init_ok:
  assumes "moving_average_init W V al (Some old) n (Some st) cap = Some (LINEARS_OK, Some c)" "W \<le> 64" "0 < f_size V"
  shows "ma_inv V c" "ma_window c = n" "ma_history c = replicate n (f_zero V)"
proof -
  obtain st' where r: "buf_fill n (f_zero V) st = Some st'"
    "c = \<lparr>ma_state = st', ma_window = n, ma_head = 0, ma_sum = accum_zero\<rparr>" and n: "0 < n" "n \<le> (2 ^ W - 1) div f_size V"
    using assms(1) by (auto simp: moving_average_init_def array_size_def not_less split: if_splits bind_splits)
  have st': "n \<le> length st" "st' = replicate n (f_zero V) @ drop n st"
    using buf_fill_length [OF r(1)] r(1) by (auto simp: buf_fill_Some)
  have "n \<le> 2 ^ W - 1" using n(2) assms(3) by (meson div_le_dividend le_trans)
  moreover have "(2::nat) ^ W \<le> 2 ^ 64" using assms(2) by (intro power_increasing) auto
  moreover have "(0::nat) < 2 ^ W" by simp
  ultimately have "n < 2 ^ 64" by linarith
  with st' n show "ma_inv V c" "ma_window c = n" "ma_history c = replicate n (f_zero V)"
    by (simp_all add: r(2) ma_inv_def ma_history_def ring_window_zero window_total_def load_zero sum_list_replicate)
qed

lemma window_total_take:
  assumes "k < length xs"
  shows "window_total V (take n (rev (take (Suc k) xs) @ replicate n (f_zero V)))
    = (\<Sum>i<n. if i \<le> k then sint (f_load V (xs ! (k - i))) else 0)"
proof -
  let ?w = "take n (rev (take (Suc k) xs) @ replicate n (f_zero V))"
  have len: "length ?w = n" by simp
  have w: "?w ! i = (if i \<le> k then xs ! (k - i) else f_zero V)" if "i < n" for i
    using that assms by (auto simp: nth_append rev_nth)
  have "window_total V ?w = (\<Sum>i<length ?w. sint (f_load V (?w ! i)))"
    by (rule window_total_nth)
  also have "\<dots> = (\<Sum>i<n. if i \<le> k then sint (f_load V (xs ! (k - i))) else 0)"
    unfolding len by (rule sum.cong [OF refl]) (subst w, simp_all add: load_zero)
  finally show ?thesis .
qed

end

text \<open>
  C27: the q15 moving average accepts every sequence of samples, and its output at time \<open>k\<close> is the
  mean of the last \<open>n\<close> samples (zero before the start), computed from an exact running sum and
  rounded once, half away from zero. The running sum never overflows.
\<close>

theorem moving_average_correct:
  assumes "moving_average_init W filters_q15 al (Some old) n (Some st) cap = Some (LINEARS_OK, Some c)" "W \<le> 64"
  shows "\<exists>c' ys. feeds (ma_feed filters_q15) c xs = Some (c', ys) \<and> length ys = length xs
    \<and> (\<forall>k < length xs. sint (ys ! k) = round_away (\<Sum>i<n. if i \<le> k then sint (xs ! (k - i)) else 0) (int n))"
proof -
  have sz: "0 < f_size filters_q15" by (simp add: filters_q15_def)
  note init = f15.moving_average_init_ok [OF assms sz]
  obtain c' ys where run: "feeds (ma_feed filters_q15) c xs = Some (c', ys)" using f15.ma.feeds_total [OF init(1)] by metis
  note ref = f15.ma.feeds_refine [OF init(1) run, unfolded init(2,3)]
  have n: "0 < n" using init(1,2) by (auto simp: ma_inv_def)
  have "sint (ys ! k) = round_away (\<Sum>i<n. if i \<le> k then sint (xs ! (k - i)) else 0) (int n)" if k: "k < length xs" for k
  proof -
    let ?T = "\<Sum>i<n. if i \<le> k then sint (xs ! (k - i)) else 0"
    have "(\<Sum>i<n. if i \<le> k then sint (xs ! (k - i)) * 65536 else 0) = 65536 * ?T"
      unfolding sum_distrib_left by (rule sum.cong [OF refl]) simp
    moreover have "ma_resp filters_q15 65536 n (take n (rev (take (Suc k) xs) @ replicate n (f_zero filters_q15))) (ys ! k)"
      using ref k by simp
    ultimately have "sint (ys ! k) * 65536 = quantized 65536 (65536 * ?T) (int n)"
      unfolding ma_resp_def f15.window_total_take [OF k] q15_load by simp
    then have y: "sint (ys ! k) = min (round_away (65536 * ?T) (65536 * int n)) (2 ^ 15 - 1)"
      using quantized_q15 [of "ys ! k" "65536 * ?T" "int n", unfolded q15_field] by (simp add: mult.commute)
    have "(if i \<le> k then sint (xs ! (k - i)) else 0) \<le> 2 ^ 15 - 1" for i using i16_range [of "xs ! (k - i)"] by simp
    then have "?T \<le> (\<Sum>i<n. 2 ^ 15 - 1)" by (intro sum_mono)
    then have "round_away ?T (int n) \<le> 2 ^ 15 - 1"
      using round_away_mono [of "int n" ?T "(2 ^ 15 - 1) * int n"] round_away_exact [of "int n" "2 ^ 15 - 1"] n
      by (simp add: mult.commute)
    then show ?thesis using y round_away_scale [of 65536 "int n" ?T] n by simp
  qed
  with run ref show ?thesis by blast
qed

theorem moving_average_correct_witness:
  "\<exists>c' ys. feeds (ma_feed filters_q15) \<lparr>ma_state = [0, 0], ma_window = 2, ma_head = 0, ma_sum = accum_zero\<rparr> [3, -8] = Some (c', ys)
    \<and> sint (ys ! 0) = 2 \<and> sint (ys ! 1) = - 3"
proof -
  let ?c = "\<lparr>ma_state = [0, 0], ma_window = 2, ma_head = 0, ma_sum = accum_zero\<rparr> :: linears_q15_t moving_average"
  have init: "moving_average_init 32 filters_q15 False (Some ?c) 2 (Some [7, 7]) 2 = Some (LINEARS_OK, Some ?c)"
    by (simp add: moving_average_init_def array_size_def filters_q15_def buf_two)
  obtain c' ys where r: "feeds (ma_feed filters_q15) ?c [3, -8] = Some (c', ys)"
    "\<And>k. k < 2 \<Longrightarrow> sint (ys ! k) = round_away (\<Sum>i<2. if i \<le> k then sint (([3, -8] :: i16 list) ! (k - i)) else 0) 2"
    using moving_average_correct [OF init, of "[3, -8]"] by auto
  have "sint (ys ! 0) = round_away 3 2" "sint (ys ! 1) = round_away (- 5) 2"
    using r(2) [of 0] r(2) [of 1] by (simp_all add: lessThan_Suc numeral_2_eq_2)
  then have "sint (ys ! 0) = 2" "sint (ys ! 1) = - 3" by (simp_all add: round_away_def round_half_def)
  with r(1) show ?thesis by blast
qed

end
