(* ===== verification/Filters_Median.thy ===== *)
theory Filters_Median
  imports Filters_Mean
begin

text \<open>
  The median filter: its insertion sort sorts, and the output is the middle of the sorted window.
\<close>

section \<open>The insertion sort\<close>

lemma median_shift_run:
  "\<exists>lo hi g'. pre = lo @ hi \<and> (\<forall>x \<in> set hi. sint key < sint (f_load V x)) \<and> (lo = [] \<or> sint (f_load V (last lo)) \<le> sint key)
     \<and> median_shift V key (length pre) (pre @ g # post) = Some (length lo, lo @ g' # hi @ post)"
proof (induction pre arbitrary: g post rule: rev_induct)
  case (snoc x pre)
  show ?case
  proof (cases "sint (f_load V x) \<le> sint key")
    case True
    then show ?thesis
      by (intro exI [of _ "pre @ [x]"] exI [of _ "[]"] exI [of _ g]) (simp add: nth_append)
  next
    case False
    have "buf_write (Suc (length pre)) x (pre @ x # g # post) = Some (pre @ x # x # post)"
      using buf_write_append [of "pre @ [x]" x g post] by simp
    moreover obtain lo hi g' where ih: "pre = lo @ hi" "\<forall>x \<in> set hi. sint key < sint (f_load V x)"
        "lo = [] \<or> sint (f_load V (last lo)) \<le> sint key"
        "median_shift V key (length pre) (pre @ x # x # post) = Some (length lo, lo @ g' # hi @ x # post)"
      using snoc.IH [of x "x # post"] by blast
    ultimately show ?thesis
      using False by (intro exI [of _ lo] exI [of _ "hi @ [x]"] exI [of _ g']) (auto simp: nth_append)
  qed
qed (auto intro: exI [of _ g])

text \<open>One iteration of the outer loop inserts the next element into the sorted prefix.\<close>

lemma median_insert_run:
  assumes "sorted (map (\<lambda>t. sint (f_load V t)) pre)"
  shows "\<exists>ws. median_shift V (f_load V k) (length pre) (pre @ k # post) = Some (fst ws, snd ws)
    \<and> (\<exists>pre'. buf_write (fst ws) k (snd ws) = Some (pre' @ post) \<and> mset pre' = add_mset k (mset pre)
       \<and> sorted (map (\<lambda>t. sint (f_load V t)) pre'))"
proof -
  obtain lo hi g' where r: "pre = lo @ hi" "\<forall>x \<in> set hi. sint (f_load V k) < sint (f_load V x)"
      "lo = [] \<or> sint (f_load V (last lo)) \<le> sint (f_load V k)"
      "median_shift V (f_load V k) (length pre) (pre @ k # post) = Some (length lo, lo @ g' # hi @ post)"
    using median_shift_run [of pre "f_load V k" V k post] by blast
  have "\<forall>x \<in> set lo. sint (f_load V x) \<le> sint (f_load V k)"
  proof (cases lo rule: rev_cases)
    case (snoc lo' z)
    then show ?thesis using assms r(1,3) by (force simp: sorted_append)
  qed simp
  then have "sorted (map (\<lambda>t. sint (f_load V t)) (lo @ k # hi))"
    using assms r(1,2) by (force simp: sorted_append)
  then show ?thesis using r(4)
    by (intro exI [of _ "(length lo, lo @ g' # hi @ post)"]) (auto simp: r(1) intro!: exI [of _ "lo @ k # hi"])
qed

lemma median_sort_run:
  "sorted (map (\<lambda>t. sint (f_load V t)) pre) \<Longrightarrow> n \<le> length post \<Longrightarrow>
    \<exists>pre'. median_sort V n (length pre) (pre @ post) = Some (pre' @ drop n post)
      \<and> mset pre' = mset pre + mset (take n post) \<and> sorted (map (\<lambda>t. sint (f_load V t)) pre')"
proof (induction n arbitrary: pre post)
  case (Suc n)
  then obtain k post' where p: "post = k # post'" by (cases post) auto
  obtain ws pre1 where r: "median_shift V (f_load V k) (length pre) (pre @ k # post') = Some (fst ws, snd ws)"
    "buf_write (fst ws) k (snd ws) = Some (pre1 @ post')" "mset pre1 = add_mset k (mset pre)"
    "sorted (map (\<lambda>t. sint (f_load V t)) pre1)"
    using median_insert_run [OF Suc.prems(1), of k post'] by blast
  have "length pre1 = Suc (length pre)" using r(3) by (metis size_add_mset size_mset)
  with Suc.IH [OF r(4), of post'] Suc.prems(2) r show ?case by (auto simp: p nth_append case_prod_beta)
qed auto

section \<open>The step\<close>

definition md_inv :: "'t median \<Rightarrow> bool" where
  "md_inv c \<longleftrightarrow> md_head c < md_window c \<and> md_window c \<le> length (md_state c) \<and> md_window c \<le> length (md_workspace c)"

definition md_history :: "'t median \<Rightarrow> 't list" where
  "md_history c = ring_window (md_state c) (md_head c) (md_window c)"

text \<open>The keys of the window in order, and the median of an odd or even number of them.\<close>

definition sorted_keys :: "'t f_format \<Rightarrow> 't list \<Rightarrow> int list" where
  "sorted_keys V w = sort (map (\<lambda>t. sint (f_load V t)) w)"

definition md_resp :: "'t f_format \<Rightarrow> int \<Rightarrow> nat \<Rightarrow> 't list \<Rightarrow> 't \<Rightarrow> bool" where
  "md_resp V S n w y \<longleftrightarrow> sint (f_load V y) =
     (if n mod 2 = 0 then quantized S (round_away (sorted_keys V w ! (n div 2 - 1) + sorted_keys V w ! (n div 2)) 2) 1
      else sorted_keys V w ! (n div 2))"

definition md_feed :: "'t f_format \<Rightarrow> 't median \<Rightarrow> 't \<Rightarrow> ('t median \<times> 't) option" where
  "md_feed V c x =
     (case median_step V False (Some c) x (Some (f_zero V)) of
        Some (LINEARS_OK, Some c', Some y) \<Rightarrow> Some (c', y)
      | _ \<Rightarrow> None)"

lemma md_feed_Some: "md_feed V c x = Some (c', y) \<longleftrightarrow>
    median_step V False (Some c) x (Some (f_zero V)) = Some (LINEARS_OK, Some c', Some y)"
  by (auto simp: md_feed_def split: option.splits prod.splits linears_status_t.splits)

lemma median_gather_run:
  assumes "i \<le> length (md_state c)" "i \<le> length ws"
  shows "median_gather c x i ws = Some (take i ((md_state c)[md_head c := x]) @ drop i ws)"
  using assms
proof (induction i)
  case (Suc i)
  let ?st = "(md_state c)[md_head c := x]"
  have v: "(if i = md_head c then Some x else buf_read i (md_state c)) = Some (?st ! i)" using Suc.prems by simp
  have "drop i ws = ws ! i # drop (Suc i) ws" using Suc.prems by (simp add: Cons_nth_drop_Suc)
  then have "buf_write i (?st ! i) (take i ?st @ drop i ws) = Some ((take i ?st @ [?st ! i]) @ drop (Suc i) ws)"
    using Suc.prems buf_write_at [of i "take i ?st" "drop i ws" "?st ! i"] by simp
  then show ?case using Suc v by (simp add: take_Suc_conv_app_nth)
qed simp

context filter_format
begin

lemma middle_pair_run:
  "\<exists>y. ok_run (do {
      two \<leftarrow> fc_op 0 (linears_fixed_from_int 2);
      pair \<leftarrow> fc_op 0 (linears_fixed_add (f_load V a) (f_load V b));
      mean \<leftarrow> fc_op 0 (linears_fixed_div pair two);
      f_store V mean }) y
    \<and> sint (f_load V y) = quantized S (round_away (sint (f_load V a) + sint (f_load V b)) 2) 1"
proof -
  let ?s = "sint (f_load V a) + sint (f_load V b)"
  have b: "\<bar>?s\<bar> \<le> 2 ^ 31 * 2" using load_abs [of a] load_abs [of b] by linarith
  obtain two :: i64 where two: "sint two = 2 * 2 ^ 31" using exists_i64 [of "2 * 2 ^ 31"] by auto
  obtain pair :: i64 where pair: "sint pair = ?s" using exists_i64 [of ?s] b by (auto simp: abs_le_iff)
  have m: "\<bar>round_away ?s 2\<bar> \<le> 2 ^ 31"
    using round_away_bounds [of 2 "- (2 ^ 31)" ?s "2 ^ 31"] b by (simp add: abs_le_iff)
  then obtain mean :: i64 where mean: "sint mean = round_away ?s 2" using exists_i64 [of "round_away ?s 2"] by (auto simp: abs_le_iff)
  have "round_away (?s * 2 ^ 31) (2 * 2 ^ 31) = round_away ?s 2"
    using round_away_scale [of "2 ^ 31" 2 ?s] by (simp add: mult.commute)
  moreover obtain y where y: "ok_run (f_store V mean) y" using store_total [of mean] m mean by auto
  moreover have "two \<noteq> 0" using two by auto
  ultimately have "\<exists>(two :: i64) (pair :: i64) mean. sint two = 2 * 2 ^ 31 \<and> sint pair = ?s \<and> two \<noteq> 0
      \<and> sint mean = round_away (sint pair * 2 ^ 31) (sint two) \<and> ok_run (f_store V mean) y"
    using two pair mean by (intro exI [of _ two] exI [of _ pair] exI [of _ mean]) simp
  then show ?thesis using y [unfolded store_ok] mean by (auto simp: ok_op_arith intro!: exI [of _ y])
qed

lemma median_step_run:
  assumes "md_inv c"
  obtains c' y where "median_step V False (Some c) x (Some old) = Some (LINEARS_OK, Some c', Some y)"
    "md_inv c'" "md_window c' = md_window c" "md_history c' = x # butlast (md_history c)"
    "md_resp V S (md_window c) (x # butlast (md_history c)) y"
proof -
  let ?n = "md_window c" and ?h = "md_head c" and ?key = "\<lambda>t. sint (f_load V t)"
  define st where "st = (md_state c)[?h := x]"
  have inv: "?h < ?n" "?n \<le> length (md_state c)" "?n \<le> length (md_workspace c)" using assms by (auto simp: md_inv_def)
  obtain t0 ts where t: "take ?n st = t0 # ts" using inv by (cases "take ?n st") (auto simp: st_def)
  have lt: "length ts = ?n - 1" using arg_cong [OF t, of length] inv by (simp add: st_def)
  let ?rest = "drop ?n (md_workspace c)"
  obtain ws where srt: "median_sort V (?n - 1) 1 ((t0 # ts) @ ?rest) = Some (ws @ ?rest)"
    "mset ws = mset (t0 # ts)" "sorted (map ?key ws)"
    using median_sort_run [of V "[t0]" "?n - 1" "ts @ ?rest"] lt by auto
  have hist: "md_history (c\<lparr>md_workspace := w, md_state := st, md_head := ring_next ?n ?h\<rparr>) = x # butlast (md_history c)" for w
    using ring_window_push [OF inv(1,2), of x] by (simp add: st_def md_history_def)
  have perm: "mset (x # butlast (md_history c)) = mset ws"
    using ring_window_perm [of "ring_next ?n ?h" ?n st] inv ring_next_less [OF inv(1)] srt(2) t
    unfolding hist [of "[]", symmetric] by (simp add: md_history_def st_def)
  have keys: "sorted_keys V (x # butlast (md_history c)) = map ?key ws"
    unfolding sorted_keys_def by (rule properties_for_sort) (simp_all only: mset_map perm srt(3))
  have lws: "length ws = ?n" using srt(2) lt inv(1) by (metis Suc_diff_1 length_Cons less_imp_Suc_add mset_eq_length zero_less_Suc)
  have k: "map ?key ws ! i = ?key (ws ! i)" "buf_read i (ws @ ?rest) = Some (ws ! i)" if "i < ?n" for i
    using that lws by (simp_all add: nth_append)
  have half: "?n div 2 < ?n" "?n div 2 - 1 < ?n" using inv(1) by linarith+
  have gather: "median_gather c x ?n (md_workspace c) = Some ((t0 # ts) @ ?rest)"
    using median_gather_run [of ?n c "md_workspace c" x] inv t by (simp add: st_def)
  have "\<exists>y. (if ?n mod 2 = 0 then do {
        below \<leftarrow> buf_read (?n div 2 - 1) (ws @ ?rest);
        Some (run_state (do {
          two \<leftarrow> fc_op 0 (linears_fixed_from_int 2);
          pair \<leftarrow> fc_op 0 (linears_fixed_add (f_load V below) (f_load V (ws ! (?n div 2))));
          mean \<leftarrow> fc_op 0 (linears_fixed_div pair two);
          f_store V mean }) LINEARS_OK) }
      else Some (ws ! (?n div 2), LINEARS_OK)) = Some (y, LINEARS_OK) \<and> md_resp V S ?n (x # butlast (md_history c)) y"
    using middle_pair_run [of "ws ! (?n div 2 - 1)" "ws ! (?n div 2)"]
    unfolding md_resp_def keys k(1) [OF half(1)] k(1) [OF half(2)] k(2) [OF half(2)] ok_run_def
    by (cases "?n mod 2 = 0") (simp_all)
  then obtain y where y: "(if ?n mod 2 = 0 then do {
        below \<leftarrow> buf_read (?n div 2 - 1) (ws @ ?rest);
        Some (run_state (do {
          two \<leftarrow> fc_op 0 (linears_fixed_from_int 2);
          pair \<leftarrow> fc_op 0 (linears_fixed_add (f_load V below) (f_load V (ws ! (?n div 2))));
          mean \<leftarrow> fc_op 0 (linears_fixed_div pair two);
          f_store V mean }) LINEARS_OK) }
      else Some (ws ! (?n div 2), LINEARS_OK)) = Some (y, LINEARS_OK)"
    "md_resp V S ?n (x # butlast (md_history c)) y" by blast
  define c' where "c' = c\<lparr>md_workspace := ws @ ?rest, md_state := st, md_head := ring_next ?n ?h\<rparr>"
  have "median_step V False (Some c) x (Some old) = Some (LINEARS_OK, Some c', Some y)"
    using inv by (simp add: median_step_def gather srt(1) k(2) [OF half(1)] y(1) buf_write_def c'_def st_def
        del: append_Cons One_nat_def)
  moreover have "md_inv c'" using inv ring_next_less [OF inv(1)] lws by (simp add: c'_def md_inv_def st_def)
  ultimately show thesis using y(2) hist by (intro that [of c' y]) (simp_all add: c'_def)
qed

end

sublocale filter_format \<subseteq> md: total_window_filter "md_feed V" md_inv md_history md_window "md_resp V S"
proof
  show "md_history c \<noteq> []" if "md_inv c" for c :: "'a median"
    using that by (auto simp: md_inv_def md_history_def ring_window_def)
  show "\<exists>c' y. md_feed V c x = Some (c', y)" if "md_inv c" for c x
    using median_step_run [OF that] unfolding md_feed_Some by metis
  show "md_inv c' \<and> md_window c' = md_window c \<and> md_history c' = x # butlast (md_history c)
      \<and> md_resp V S (md_window c) (x # butlast (md_history c)) y"
    if "md_inv c" "md_feed V c x = Some (c', y)" for c x c' y
    using median_step_run [OF that(1), of x "f_zero V"] that(2) unfolding md_feed_Some
    by (metis option.inject prod.inject)
qed

lemma median_init_ok:
  assumes "median_init W V al (Some old) n (Some st) cap (Some ws) wcap = Some (LINEARS_OK, Some c)" "wcap \<le> length ws"
  shows "md_inv c" "md_window c = n" "md_history c = replicate n (f_zero V)"
proof -
  obtain st' where r: "buf_fill n (f_zero V) st = Some st'"
    "c = \<lparr>md_state = st', md_workspace = ws, md_window = n, md_head = 0\<rparr>" and n: "0 < n" "n \<le> wcap"
    using assms(1) by (auto simp: median_init_def array_size_def not_less split: if_splits bind_splits)
  have st': "n \<le> length st" "st' = replicate n (f_zero V) @ drop n st"
    using buf_fill_length [OF r(1)] r(1) by (auto simp: buf_fill_Some)
  with n assms(2) show "md_inv c" "md_window c = n" "md_history c = replicate n (f_zero V)"
    by (simp_all add: r(2) md_inv_def md_history_def ring_window_zero)
qed

text \<open>
  C28: the q31 median filter accepts every sequence of samples. Its output at time \<open>k\<close> is the middle
  element of the sorted window of the last \<open>n\<close> samples (zero before the start), or for an even
  window the mean of the two middle elements, rounded half away from zero.
\<close>

theorem median_correct:
  assumes "median_init W filters_q31 al (Some old) n (Some st) cap (Some ws) wcap = Some (LINEARS_OK, Some c)"
    and "wcap \<le> length ws"
  shows "\<exists>c' ys. feeds (md_feed filters_q31) c xs = Some (c', ys) \<and> length ys = length xs
    \<and> (\<forall>k < length xs. let s = sort (map sint (take n (rev (take (Suc k) xs) @ replicate n 0)))
        in sint (ys ! k) = (if even n then round_away (s ! (n div 2 - 1) + s ! (n div 2)) 2 else s ! (n div 2)))"
proof -
  note init = median_init_ok [OF assms]
  obtain c' ys where run: "feeds (md_feed filters_q31) c xs = Some (c', ys)" using f31.md.feeds_total [OF init(1)] by metis
  note ref = f31.md.feeds_refine [OF init(1) run, unfolded init(2,3)]
  have ld: "sint (f_load filters_q31 t) = sint t" for t by (simp add: filters_q31_def q31_field)
  have n: "0 < n" using init(1,2) by (auto simp: md_inv_def)
  have "sint (ys ! k) = (if even n then round_away (s ! (n div 2 - 1) + s ! (n div 2)) 2 else s ! (n div 2))"
    if k: "k < length xs" and s: "s = sort (map sint (take n (rev (take (Suc k) xs) @ replicate n 0)))" for k s
  proof -
    have keys: "sorted_keys filters_q31 (take n (rev (take (Suc k) xs) @ replicate n (f_zero filters_q31))) = s"
      by (simp add: sorted_keys_def ld s) (simp add: filters_q31_def)
    have len: "length s = n" by (simp add: s)
    have "sint t \<le> 2 ^ 31 - 1" for t :: i32 using i32_range [of t] by simp
    then have top: "t \<le> 2 ^ 31 - 1" if "t \<in> set s" for t using that by (auto simp: s)
    have "s ! (n div 2 - 1) \<in> set s" "s ! (n div 2) \<in> set s" using n len by (auto intro!: nth_mem)
    then have "s ! (n div 2 - 1) \<le> 2 ^ 31 - 1" "s ! (n div 2) \<le> 2 ^ 31 - 1" using top by blast+
    then have "round_away (s ! (n div 2 - 1) + s ! (n div 2)) 2 \<le> 2 ^ 31 - 1"
      using round_away_mono [of 2 "s ! (n div 2 - 1) + s ! (n div 2)" "(2 ^ 31 - 1) * 2"] round_away_exact [of 2 "2 ^ 31 - 1"] by simp
    then have "quantized 1 (round_away (s ! (n div 2 - 1) + s ! (n div 2)) 2) 1 = round_away (s ! (n div 2 - 1) + s ! (n div 2)) 2"
      using round_away_exact [of 1] by (simp add: quantized_def)
    moreover have "md_resp filters_q31 1 n (take n (rev (take (Suc k) xs) @ replicate n (f_zero filters_q31))) (ys ! k)"
      using ref k by simp
    ultimately show ?thesis unfolding md_resp_def keys ld even_iff_mod_2_eq_zero by simp
  qed
  with run ref show ?thesis by (simp add: Let_def)
qed

theorem median_correct_witness:
  "\<exists>c' ys. feeds (md_feed filters_q31) \<lparr>md_state = [0, 0], md_workspace = [5, 5], md_window = 2, md_head = 0\<rparr> [9, 4] = Some (c', ys)
    \<and> sint (ys ! 1) = 7"
proof -
  let ?c = "\<lparr>md_state = [0, 0], md_workspace = [5, 5], md_window = 2, md_head = 0\<rparr> :: linears_q31_t median"
  have init: "median_init 32 filters_q31 False (Some ?c) 2 (Some [7, 7]) 2 (Some [5, 5]) 2 = Some (LINEARS_OK, Some ?c)"
    by (simp add: median_init_def array_size_def filters_q31_def buf_two)
  have len: "2 \<le> length ([5, 5] :: linears_q31_t list)" by simp
  obtain c' ys where r: "feeds (md_feed filters_q31) ?c [9, 4] = Some (c', ys)"
    "sint (ys ! 1) = round_away 13 2"
    using median_correct [OF init len, of "[9, 4]"] by (fastforce simp: Let_def)
  then show ?thesis by (auto simp: round_away_def round_half_def)
qed

end
