(* ===== verification/Fc_Foc.thy ===== *)
theory Fc_Foc
  imports Fc_Pid
begin

text \<open>
  Model of the fixed-point instantiations of \<open>libs/fieldctrl/src/foc_impl.h\<close>: the current loop of
  field-oriented control with its radial limit and joint anti-windup, and the speed loop around it.

  A call of a public function of the library whose output pointer is a local variable runs the
  body of that function; its status becomes the status of the caller.
\<close>

section \<open>Data\<close>

record 't foc_config =
  fcf_kp_d :: linears_fixed_t
  fcf_ki_d :: linears_fixed_t
  fcf_kp_q :: linears_fixed_t
  fcf_ki_q :: linears_fixed_t
  fcf_voltage_limit :: 't

record 't foc =
  foc_config :: "'t foc_config"
  foc_integral :: "linears_fixed_t dq"

record 't foc_output =
  fo_current :: "'t dq"
  fo_requested_voltage :: "linears_fixed_t dq"
  fo_voltage :: "'t dq"
  fo_stationary_voltage :: "'t ab"
  fo_duty :: "'t abc"
  fo_saturated :: bool

record 't speed_foc_config =
  sfc_current :: "'t foc_config"
  sfc_kp :: linears_fixed_t
  sfc_ki :: linears_fixed_t
  sfc_current_limit :: 't
  sfc_pole_pairs :: u32

record 't speed_foc =
  sf_current :: "'t foc"
  sf_speed :: "'t pid"
  sf_pole_pairs :: u32

record 't speed_foc_output =
  sfo_current :: "'t foc_output"
  sfo_reference :: "'t dq"
  sfo_mechanical_speed :: 't

section \<open>Current loop\<close>

text \<open>The limited components and whether the vector was outside the circle.\<close>

definition foc_radial_limit ::
  "linears_fixed_t \<Rightarrow> linears_fixed_t \<Rightarrow> linears_fixed_t \<Rightarrow> (linears_fixed_t \<times> linears_fixed_t \<times> bool) fc" where
  "foc_radial_limit d q radius = do {
     magnitude \<leftarrow> fcq_hypot d q;
     if 0 < fcq_cmp magnitude radius
     then do {
       d' \<leftarrow> fcq_rescale d radius magnitude;
       q' \<leftarrow> fcq_rescale q radius magnitude;
       State_Monad.return (d', q', True)
     }
     else State_Monad.return (d, q, False)
   }"

definition foc_init :: "'t fc_format \<Rightarrow> 't foc ptr \<Rightarrow> 't foc_config ptr \<Rightarrow> linears_status_t \<times> 't foc ptr" where
  "foc_init V ctx config =
     (case config of None \<Rightarrow> (LINEARS_ERROR_ARGUMENT, ctx)
      | Some cfg \<Rightarrow> fc_commit ctx (do {
          kp_d \<leftarrow> fcq_work_load (fcf_kp_d cfg);
          ki_d \<leftarrow> fcq_work_load (fcf_ki_d cfg);
          kp_q \<leftarrow> fcq_work_load (fcf_kp_q cfg);
          ki_q \<leftarrow> fcq_work_load (fcf_ki_q cfg);
          radius \<leftarrow> FC_LOAD V (fcf_voltage_limit cfg);
          zero \<leftarrow> fcq_i 0;
          fc_fail_if (fcq_cmp kp_d zero < 0 \<or> fcq_cmp ki_d zero < 0 \<or> fcq_cmp kp_q zero < 0
            \<or> fcq_cmp ki_q zero < 0 \<or> fcq_cmp radius zero \<le> 0) LINEARS_ERROR_DOMAIN;
          State_Monad.return \<lparr>foc_config = cfg, foc_integral = \<lparr>dq_d = zero, dq_q = zero\<rparr>\<rparr>
        }))"

text \<open>The sign of the exact scalar product of the integral increment with the request.\<close>

definition foc_outward ::
  "linears_fixed_t \<Rightarrow> linears_fixed_t \<Rightarrow> linears_fixed_t \<Rightarrow> linears_fixed_t \<Rightarrow> bool fc" where
  "foc_outward delta_d delta_q raw_d raw_q = do {
     p1 \<leftarrow> fc_mac accum_zero delta_d raw_d;
     projection \<leftarrow> fc_mac p1 delta_q raw_q;
     State_Monad.return (shr (acc_high projection) 63 = 0 \<and> (acc_high projection \<noteq> 0 \<or> acc_low projection \<noteq> 0))
   }"

text \<open>
  The request with the candidate integral, limited; when the limit is active and the increment
  points outward, the request with the old integral, limited. The result is the integral to
  store, the request, the limited voltage and the saturation flag.
\<close>

definition foc_limit_request ::
  "linears_fixed_t dq \<Rightarrow> linears_fixed_t \<Rightarrow> linears_fixed_t \<Rightarrow> linears_fixed_t dq \<Rightarrow> linears_fixed_t \<Rightarrow> linears_fixed_t
    \<Rightarrow> linears_fixed_t \<Rightarrow> linears_fixed_t \<Rightarrow> linears_fixed_t
    \<Rightarrow> (linears_fixed_t dq \<times> linears_fixed_t dq \<times> linears_fixed_t dq \<times> bool) fc" where
  "foc_limit_request old delta_d delta_q candidate p_d p_q raw_d raw_q radius = do {
     (limited_d, limited_q, saturated) \<leftarrow> foc_radial_limit raw_d raw_q radius;
     outward \<leftarrow> (if saturated then foc_outward delta_d delta_q raw_d raw_q else State_Monad.return False);
     if outward
     then do {
       raw_d' \<leftarrow> fcq_add p_d (dq_d old);
       raw_q' \<leftarrow> fcq_add p_q (dq_q old);
       (limited_d', limited_q', saturated') \<leftarrow> foc_radial_limit raw_d' raw_q' radius;
       State_Monad.return (old, \<lparr>dq_d = raw_d', dq_q = raw_q'\<rparr>, \<lparr>dq_d = limited_d', dq_q = limited_q'\<rparr>, saturated')
     }
     else State_Monad.return (candidate, \<lparr>dq_d = raw_d, dq_q = raw_q\<rparr>, \<lparr>dq_d = limited_d, dq_q = limited_q\<rparr>, saturated)
   }"

text \<open>
  The two PI regulators: the integral increments, the candidate integral, the proportional terms and
  the request.
\<close>

definition foc_regulate ::
  "'t fc_format \<Rightarrow> 't foc \<Rightarrow> 't dq \<Rightarrow> 't dq \<Rightarrow> linears_fixed_t
    \<Rightarrow> (linears_fixed_t dq \<times> linears_fixed_t dq \<times> linears_fixed_t dq \<times> linears_fixed_t dq) fc" where
  "foc_regulate V ctx reference rotated period = do {
     let config = foc_config ctx;
     rd \<leftarrow> FC_LOAD V (dq_d reference);
     cd \<leftarrow> FC_LOAD V (dq_d rotated);
     error_d \<leftarrow> fcq_sub rd cd;
     rq \<leftarrow> FC_LOAD V (dq_q reference);
     cq \<leftarrow> FC_LOAD V (dq_q rotated);
     error_q \<leftarrow> fcq_sub rq cq;
     kp_d \<leftarrow> fcq_work_load (fcf_kp_d config);
     p_d \<leftarrow> fcq_mul kp_d error_d;
     kp_q \<leftarrow> fcq_work_load (fcf_kp_q config);
     p_q \<leftarrow> fcq_mul kp_q error_q;
     ki_d \<leftarrow> fcq_work_load (fcf_ki_d config);
     step_d \<leftarrow> fcq_mul ki_d period;
     delta_d \<leftarrow> fcq_mul step_d error_d;
     ki_q \<leftarrow> fcq_work_load (fcf_ki_q config);
     step_q \<leftarrow> fcq_mul ki_q period;
     delta_q \<leftarrow> fcq_mul step_q error_q;
     candidate_d \<leftarrow> fcq_add (dq_d (foc_integral ctx)) delta_d;
     candidate_q \<leftarrow> fcq_add (dq_q (foc_integral ctx)) delta_q;
     raw_d \<leftarrow> fcq_add p_d candidate_d;
     raw_q \<leftarrow> fcq_add p_q candidate_q;
     State_Monad.return (\<lparr>dq_d = delta_d, dq_q = delta_q\<rparr>, \<lparr>dq_d = candidate_d, dq_q = candidate_q\<rparr>,
       \<lparr>dq_d = p_d, dq_q = p_q\<rparr>, \<lparr>dq_d = raw_d, dq_q = raw_q\<rparr>)
   }"

definition foc_step_body ::
  "'t fc_format \<Rightarrow> 't foc \<Rightarrow> 't ab \<Rightarrow> 't dq \<Rightarrow> 't \<Rightarrow> 't \<Rightarrow> 't \<Rightarrow> ('t foc \<times> 't foc_output) fc" where
  "foc_step_body V ctx current reference electrical_angle dc_bus dt = do {
     period \<leftarrow> FC_LOAD V dt;
     bus \<leftarrow> FC_LOAD V dc_bus;
     angle \<leftarrow> FC_LOAD V electrical_angle;
     zero \<leftarrow> fcq_i 0;
     one \<leftarrow> fcq_i 1;
     fc_fail_if (fcq_cmp period zero \<le> 0 \<or> fcq_cmp bus zero \<le> 0 \<or> fcq_cmp angle zero < 0 \<or> 0 \<le> fcq_cmp angle one)
       LINEARS_ERROR_DOMAIN;
     rotated \<leftarrow> park_body V current electrical_angle;
     (delta, candidate, p, raw) \<leftarrow> foc_regulate V ctx reference rotated period;
     limit \<leftarrow> FC_LOAD V (fcf_voltage_limit (foc_config ctx));
     three \<leftarrow> fcq_i 3;
     root3 \<leftarrow> fcq_sqrt three;
     bus_radius \<leftarrow> fcq_div bus root3;
     let radius = (if fcq_cmp bus_radius limit < 0 then bus_radius else limit);
     (integral, requested, limited, saturated) \<leftarrow>
       foc_limit_request (foc_integral ctx) (dq_d delta) (dq_q delta) candidate (dq_d p) (dq_q p) (dq_d raw) (dq_q raw) radius;
     request_d \<leftarrow> fcq_work_store (dq_d requested);
     request_q \<leftarrow> fcq_work_store (dq_q requested);
     voltage_d \<leftarrow> fv_store V (dq_d limited);
     voltage_q \<leftarrow> fv_store V (dq_q limited);
     let voltage = \<lparr>dq_d = voltage_d, dq_q = voltage_q\<rparr>;
     stationary \<leftarrow> inverse_park_body V voltage electrical_angle;
     duty \<leftarrow> svpwm_body V stationary dc_bus;
     State_Monad.return (ctx\<lparr>foc_integral := integral\<rparr>,
       \<lparr>fo_current = rotated, fo_requested_voltage = \<lparr>dq_d = request_d, dq_q = request_q\<rparr>, fo_voltage = voltage,
        fo_stationary_voltage = stationary, fo_duty = duty, fo_saturated = saturated\<rparr>)
   }"

definition foc_step ::
  "'t fc_format \<Rightarrow> bool \<Rightarrow> 't foc ptr \<Rightarrow> 't ab \<Rightarrow> 't dq \<Rightarrow> 't \<Rightarrow> 't \<Rightarrow> 't \<Rightarrow> 't foc_output ptr
    \<Rightarrow> linears_status_t \<times> 't foc ptr \<times> 't foc_output ptr" where
  "foc_step V overlap ctx current reference electrical_angle dc_bus dt output =
     fc_commit2 ctx output overlap (\<lambda>c. foc_step_body V c current reference electrical_angle dc_bus dt)"

section \<open>Speed loop\<close>

text \<open>
  \<open>next\<close> is an uninitialised local structure whose two parts the inner initialisers fill; both are
  reached only with valid pointers. Its value before is \<open>c\<close> and is never read.
\<close>

definition speed_foc_init ::
  "'t fc_format \<Rightarrow> 't speed_foc ptr \<Rightarrow> 't speed_foc_config ptr \<Rightarrow> linears_status_t \<times> 't speed_foc ptr" where
  "speed_foc_init V ctx config =
     (case (ctx, config) of
        (Some c, Some cfg) \<Rightarrow>
          if sfc_pole_pairs cfg = 0 then (LINEARS_ERROR_DOMAIN, ctx)
          else fc_commit ctx (do {
            limit \<leftarrow> FC_LOAD V (sfc_current_limit cfg);
            kp \<leftarrow> fcq_work_load (sfc_kp cfg);
            ki \<leftarrow> fcq_work_load (sfc_ki cfg);
            zero \<leftarrow> fcq_i 0;
            fc_fail_if (fcq_cmp limit zero \<le> 0 \<or> fcq_cmp kp zero < 0 \<or> fcq_cmp ki zero < 0) LINEARS_ERROR_DOMAIN;
            negated \<leftarrow> fcq_neg limit;
            lower \<leftarrow> fv_store V negated;
            initial \<leftarrow> fv_store V zero;
            current \<leftarrow> fc_op (sf_current c) (\<lambda>p. foc_init V p (Some (sfc_current cfg)));
            speed \<leftarrow> fc_op (sf_speed c) (\<lambda>p. pid_init V p (Some
              \<lparr>pc_kp = sfc_kp cfg, pc_ki = sfc_ki cfg, pc_kd = 0, pc_lower = lower, pc_upper = sfc_current_limit cfg,
               pc_options = 0, pc_derivative = 0, pc_derivative_filter = 0, pc_setpoint_weight = 0,
               pc_integral_lower = fv_zero V, pc_integral_upper = fv_zero V, pc_separation = fv_zero V\<rparr>) initial);
            State_Monad.return \<lparr>sf_current = current, sf_speed = speed, sf_pole_pairs = sfc_pole_pairs cfg\<rparr>
          })
      | _ \<Rightarrow> (LINEARS_ERROR_ARGUMENT, ctx))"

text \<open>
  Anti-windup across the loops: when the voltage is saturated in the direction of the speed error, the
  speed integral keeps its old value.
\<close>

definition speed_foc_integral ::
  "'t fc_format \<Rightarrow> 't pid \<Rightarrow> 't pid \<Rightarrow> linears_fixed_t \<Rightarrow> 't foc_output \<Rightarrow> linears_fixed_t fc" where
  "speed_foc_integral V previous updated speed_error out =
     (if fo_saturated out then do {
        request \<leftarrow> fcq_work_load (dq_q (fo_requested_voltage out));
        voltage \<leftarrow> FC_LOAD V (dq_q (fo_voltage out));
        residual \<leftarrow> fcq_sub request voltage;
        zero \<leftarrow> fcq_i 0;
        State_Monad.return
          (if (0 < fcq_cmp speed_error zero \<and> 0 < fcq_cmp residual zero) \<or> (fcq_cmp speed_error zero < 0 \<and> fcq_cmp residual zero < 0)
           then pid_integral previous else pid_integral updated)
      }
      else State_Monad.return (pid_integral updated))"

definition speed_foc_step ::
  "'t fc_format \<Rightarrow> bool \<Rightarrow> 't speed_foc ptr \<Rightarrow> 't ab \<Rightarrow> 't \<Rightarrow> 't \<Rightarrow> 't \<Rightarrow> 't \<Rightarrow> 't \<Rightarrow> 't speed_foc_output ptr
    \<Rightarrow> linears_status_t \<times> 't speed_foc ptr \<times> 't speed_foc_output ptr" where
  "speed_foc_step V overlap ctx current mechanical_reference electrical_speed electrical_angle dc_bus dt output =
     fc_commit2 ctx output overlap (\<lambda>c. do {
       speed \<leftarrow> FC_LOAD V electrical_speed;
       pairs \<leftarrow> fcq_i (ucast (sf_pole_pairs c));
       mechanical \<leftarrow> fcq_div speed pairs;
       reference \<leftarrow> FC_LOAD V mechanical_reference;
       speed_error \<leftarrow> fcq_sub reference mechanical;
       period \<leftarrow> FC_LOAD V dt;
       mechanical_out \<leftarrow> fv_store V mechanical;
       nil \<leftarrow> fcq_i 0;
       reference_d \<leftarrow> fv_store V nil;
       (speed', command) \<leftarrow> pid_step_work V (sf_speed c) reference mechanical period;
       let ref_dq = \<lparr>dq_d = reference_d, dq_q = po_output command\<rparr>;
       (current', out) \<leftarrow> foc_step_body V (sf_current c) current ref_dq electrical_angle dc_bus dt;
       integral \<leftarrow> speed_foc_integral V (sf_speed c) speed' speed_error out;
       State_Monad.return (c\<lparr>sf_current := current', sf_speed := speed'\<lparr>pid_integral := integral\<rparr>\<rparr>,
         \<lparr>sfo_current = out, sfo_reference = ref_dq, sfo_mechanical_speed = mechanical_out\<rparr>)
     })"

end
