(* ===== verification/Fc_Base_Props.thy ===== *)
theory Fc_Base_Props
  imports Fc_Pid_Props
begin

text \<open>
  The helpers of the coordinate transforms: the vector magnitude is at least the larger component,
  so a rescaled vector stays inside its limit; duty cycles are not negative; angles wrap exactly.
\<close>

section \<open>Runs\<close>

lemma sticky_hypot [simp]: "sticky (fcq_hypot a b)"
  by (simp add: fcq_hypot_def)

lemma sticky_ratio [simp]: "sticky (FC_RATIO a b)"
  by (simp add: FC_RATIO_def)

lemma sticky_sincos [simp]: "sticky (fcq_sincos a s c)"
  by (simp add: fcq_sincos_def Let_def split: prod.splits)

lemma sticky_base_limit [simp]: "sticky (base_limit a b l)"
  by (simp add: base_limit_def)

section \<open>Magnitude\<close>

lemma nearest_sqrt_ge:
  assumes "nearest_sqrt n r" "k * k \<le> n" "0 \<le> k"
  shows "k \<le> r"
proof (rule ccontr)
  assume "\<not> k \<le> r"
  then have "r * (r + 1) \<le> (k - 1) * k" using assms by (intro mult_mono) (auto simp: nearest_sqrt_def)
  moreover have "n \<le> r * (r + 1)" using assms(1) by (simp add: nearest_sqrt_def)
  ultimately have "k \<le> 0" using assms(2) by (simp add: algebra_simps)
  with \<open>\<not> k \<le> r\<close> assms show False by (auto simp: nearest_sqrt_def)
qed

text \<open>The computed magnitude is at least the magnitude of each component.\<close>

lemma hypot_ge:
  assumes "ok_run (fcq_hypot a b) m"
  shows "\<bar>sint a\<bar> \<le> sint m \<and> \<bar>sint b\<bar> \<le> sint m"
proof -
  let ?tail = "\<lambda>hi. hi = 0 \<and> m = 0 \<or> (\<exists>ratio s1 s2 rt. ok_run (fcq_mul ratio ratio) s1
        \<and> ok_run (fcq_add LINEARS_FIXED_ONE s1) s2 \<and> ok_run (fcq_sqrt s2) rt \<and> ok_run (fcq_mul hi rt) m)"
  from assms obtain aa bb where ab: "sint aa = \<bar>sint a\<bar>" "sint bb = \<bar>sint b\<bar>"
    and rest: "?tail (if sint bb \<le> sint aa then aa else bb)"
    unfolding fcq_hypot_def Let_def by (simp add: ok_fcq_abs split: if_split_asm) (blast, elim conjE disjE, simp, blast)
  define hi where "hi = (if sint bb \<le> sint aa then aa else bb)"
  have hi: "\<bar>sint a\<bar> \<le> sint hi" "\<bar>sint b\<bar> \<le> sint hi" "?tail hi" using ab rest by (auto simp: hi_def)
  have "sint hi \<le> sint m"
  proof (cases "hi = 0")
    case False
    with hi(3) obtain ratio s1 s2 rt where s: "ok_run (fcq_mul ratio ratio) s1" "ok_run (fcq_add LINEARS_FIXED_ONE s1) s2"
      "ok_run (fcq_sqrt s2) rt" "ok_run (fcq_mul hi rt) m"
      by blast
    have "0 \<le> sint s1" using s(1) by (simp add: ok_fcq_mul round_away_nonneg)
    then have "2 ^ 31 \<le> sint s2" using s(2) by (simp add: ok_fcq_add LINEARS_FIXED_ONE_def)
    then have "2 ^ 31 \<le> sint rt" using s(3) nearest_sqrt_ge [of "sint s2 * 2 ^ 31" "sint rt" "2 ^ 31"] by (simp add: ok_fcq_sqrt)
    then have "sint hi * 2 ^ 31 \<le> sint hi * sint rt" using hi(1) by (intro mult_left_mono) auto
    then show ?thesis
      using round_away_mono [of "2 ^ 31" "sint hi * 2 ^ 31" "sint hi * sint rt"] s(4)
      by (simp add: ok_fcq_mul round_away_exact del: power_numeral)
  qed (use hi in \<open>auto simp: ok_fcq_mul round_away_def\<close>)
  with hi show ?thesis by simp
qed

text \<open>Scaling a component by \<open>limit / magnitude\<close> keeps it within the limit.\<close>

lemma rescale_within:
  assumes "ok_run (fcq_rescale a limit m) r" "\<bar>sint a\<bar> \<le> sint m" "0 \<le> sint limit"
  shows "\<bar>sint r\<bar> \<le> sint limit"
proof -
  from assms(1) have r: "m \<noteq> 0" "sint r = round_away (sint a * sint limit) (sint m)" by (auto simp: ok_fcq_rescale)
  then have m: "0 < sint m" using assms(2) by (metis abs_ge_zero le_less_trans not_less_iff_gr_or_eq order.trans sint_0_iff)
  have "- (sint limit) * sint m \<le> sint a * sint limit" "sint a * sint limit \<le> sint limit * sint m"
    using mult_right_mono [OF _ assms(3), of "- sint m" "sint a"] mult_right_mono [OF _ assms(3), of "sint a" "sint m"] assms(2)
    by (simp_all add: mult.commute abs_le_iff)
  then show ?thesis using round_away_bounds [OF m, of "- sint limit" "sint a * sint limit" "sint limit"] r(2) by auto
qed

lemma base_limit_ok:
  assumes "ok_run (base_limit a b limit) (x, y)"
  obtains m where "ok_run (fcq_hypot a b) m"
    "if sint limit < sint m then ok_run (fcq_rescale a limit m) x \<and> ok_run (fcq_rescale b limit m) y else x = a \<and> y = b"
  using assms unfolding base_limit_def by (auto split: if_splits)

lemma base_limit_within:
  assumes "ok_run (base_limit a b limit) (x, y)" "0 \<le> sint limit"
  shows "\<bar>sint x\<bar> \<le> sint limit \<and> \<bar>sint y\<bar> \<le> sint limit"
  using assms(1)
proof (rule base_limit_ok)
  fix m assume m: "ok_run (fcq_hypot a b) m"
    "if sint limit < sint m then ok_run (fcq_rescale a limit m) x \<and> ok_run (fcq_rescale b limit m) y else x = a \<and> y = b"
  note hypot_ge [OF m(1)]
  with m(2) show ?thesis using rescale_within [OF _ _ assms(2)] by (cases "sint limit < sint m") auto
qed

context signal_format
begin

lemma pwm_nonneg:
  assumes "ok_run (base_pwm V a b bus) d"
  shows "\<exists>x y z. ok_run (fv_store V x) (abc_a d) \<and> ok_run (fv_store V y) (abc_b d) \<and> ok_run (fv_store V z) (abc_c d)
    \<and> 0 \<le> sint x \<and> 0 \<le> sint y \<and> 0 \<le> sint z"
proof -
  from assms obtain p q r where s: "ok_run (fv_store V (base_clamp p 0 LINEARS_FIXED_ONE)) (abc_a d)"
    "ok_run (fv_store V (base_clamp q 0 LINEARS_FIXED_ONE)) (abc_b d)" "ok_run (fv_store V (base_clamp r 0 LINEARS_FIXED_ONE)) (abc_c d)"
    unfolding base_pwm_def Let_def by (auto simp: ok_zero ok_one sticky_simps)
  moreover have "0 \<le> sint (base_clamp x 0 LINEARS_FIXED_ONE)" for x
    using clamp_sint [of 0 LINEARS_FIXED_ONE x] by (simp add: LINEARS_FIXED_ONE_def)
  ultimately show ?thesis by blast
qed

end

section \<open>Properties\<close>

text \<open>
  Wrapping an angle always succeeds on a valid output pointer and is exact: the stored angle is the
  input modulo one turn, in both fixed-point formats.
\<close>

theorem wrap_exact:
  "(\<exists>t. fieldctrl_wrap fc_q15 a (Some old) = (LINEARS_OK, Some t) \<and> sint t = sint a mod 2 ^ 15)
    \<and> (\<exists>t. fieldctrl_wrap fc_q31 b (Some old') = (LINEARS_OK, Some t) \<and> sint t = sint b mod 2 ^ 31)"
proof
  define k where "k = sint a mod 2 ^ 15"
  have k: "0 \<le> k" "k < 2 ^ 15" by (simp_all add: k_def)
  have m: "(sint a * 65536) mod 2 ^ 31 = k * 65536"
    using mult_mod_right [of 65536 "sint a" "2 ^ 15"] by (simp add: k_def mult.commute)
  obtain t :: i16 where t: "sint t = k" using exists_i16 [of k] k by auto
  then have "ok_run (angle_store_q15 (linears_fixed_from_q15 a)) t"
    unfolding angle_store_q15_ok q15_field m using k round_away_exact [of "2 ^ 16" k] by simp
  with t show "\<exists>t. fieldctrl_wrap fc_q15 a (Some old) = (LINEARS_OK, Some t) \<and> sint t = sint a mod 2 ^ 15"
    by (intro exI [of _ t]) (simp add: fieldctrl_wrap_def fc_commit_ok fc_q15_def FC_LOAD_def k_def)
next
  have "0 \<le> sint b mod 2 ^ 31" "sint b mod 2 ^ 31 < 2 ^ 31" by simp_all
  then have "\<exists>t :: i32. sint t = sint b mod 2 ^ 31" by (intro exists_i32) linarith+
  then obtain t :: i32 where t: "sint t = sint b mod 2 ^ 31" by blast
  then show "\<exists>t. fieldctrl_wrap fc_q31 b (Some old') = (LINEARS_OK, Some t) \<and> sint t = sint b mod 2 ^ 31"
    by (intro exI [of _ t]) (simp add: fieldctrl_wrap_def fc_commit_ok fc_q31_def FC_LOAD_def angle_store_q31_ok q31_field)
qed

lemma q15_store_within:
  assumes "ok_run (fcq15_store x) t" "\<bar>sint x\<bar> \<le> k * 65536" "k < 2 ^ 15"
  shows "\<bar>sint t\<bar> \<le> k"
  using assms round_away_bounds [of "2 ^ 16" "- k" "sint x" k]
  by (auto simp: ok_fcq15_store q15_result_iff abs_le_iff min_def)

text \<open>
  C32: a limited q15 voltage has no component beyond the limit; a vector whose magnitude is within the
  limit is returned unchanged, and a longer one is scaled by limit over magnitude with one rounding
  per component. A negative limit is refused.
\<close>

theorem limit_voltage_correct:
  assumes "fieldctrl_limit_voltage fc_q15 v l (Some old) = (LINEARS_OK, Some w)"
  shows "0 \<le> sint l \<and> \<bar>sint (ab_alpha w)\<bar> \<le> sint l \<and> \<bar>sint (ab_beta w)\<bar> \<le> sint l
    \<and> (\<exists>m. ok_run (fcq_hypot (linears_fixed_from_q15 (ab_alpha v)) (linears_fixed_from_q15 (ab_beta v))) m
        \<and> (if sint m \<le> sint l * 65536 then w = v
           else \<exists>x y :: i64. sint x = round_away (sint (ab_alpha v) * 65536 * (sint l * 65536)) (sint m)
             \<and> sint y = round_away (sint (ab_beta v) * 65536 * (sint l * 65536)) (sint m)
             \<and> ok_run (fcq15_store x) (ab_alpha w) \<and> ok_run (fcq15_store y) (ab_beta w)))"
proof -
  let ?L = "linears_fixed_from_q15 l"
  from assms obtain x y where r: "0 \<le> sint ?L" and lim: "ok_run (base_limit (linears_fixed_from_q15 (ab_alpha v)) (linears_fixed_from_q15 (ab_beta v)) ?L) (x, y)"
    and st: "ok_run (fcq15_store x) (ab_alpha w)" "ok_run (fcq15_store y) (ab_beta w)"
    unfolding fieldctrl_limit_voltage_def fc_commit_ok by (auto simp: fc_q15_def FC_LOAD_def ok_zero)
  note base_limit_within [OF lim r, unfolded q15_field]
  then have within: "0 \<le> sint l" "\<bar>sint (ab_alpha w)\<bar> \<le> sint l" "\<bar>sint (ab_beta w)\<bar> \<le> sint l"
    using r st q15_store_within [of _ _ "sint l"] i16_range [of l] by (auto simp: q15_field)
  from lim obtain m where m: "ok_run (fcq_hypot (linears_fixed_from_q15 (ab_alpha v)) (linears_fixed_from_q15 (ab_beta v))) m"
    and br: "if sint ?L < sint m then ok_run (fcq_rescale (linears_fixed_from_q15 (ab_alpha v)) ?L m) x
        \<and> ok_run (fcq_rescale (linears_fixed_from_q15 (ab_beta v)) ?L m) y
      else x = linears_fixed_from_q15 (ab_alpha v) \<and> y = linears_fixed_from_q15 (ab_beta v)" by (rule base_limit_ok)
  have same: "ok_run (fcq15_store (linears_fixed_from_q15 t)) u \<longleftrightarrow> u = t" for t u
    using q15.store_field [of t] by (auto simp: fc_q15_def dest: ok_unique)
  show ?thesis
  proof (cases "sint ?L < sint m")
    case True
    with br have "sint x = round_away (sint (ab_alpha v) * 65536 * (sint l * 65536)) (sint m)"
      "sint y = round_away (sint (ab_beta v) * 65536 * (sint l * 65536)) (sint m)" by (simp_all add: ok_fcq_rescale q15_field)
    with st have "\<exists>x y :: i64. sint x = round_away (sint (ab_alpha v) * 65536 * (sint l * 65536)) (sint m)
        \<and> sint y = round_away (sint (ab_beta v) * 65536 * (sint l * 65536)) (sint m)
        \<and> ok_run (fcq15_store x) (ab_alpha w) \<and> ok_run (fcq15_store y) (ab_beta w)" by blast
    moreover have "\<not> sint m \<le> sint l * 65536" using True by (simp add: q15_field)
    ultimately show ?thesis by (intro conjI within exI [of _ m] m) (simp only: if_False)
  next
    case False
    then have "w = v" using br st by (simp add: same)
    with False m within show ?thesis by (auto simp: q15_field intro!: exI [of _ m])
  qed
qed

theorem limit_voltage_correct_witness:
  "\<exists>w. fieldctrl_limit_voltage fc_q15 \<lparr>ab_alpha = 12000, ab_beta = 16000\<rparr> 10000 (Some \<lparr>ab_alpha = 0, ab_beta = 0\<rparr>) = (LINEARS_OK, Some w)
    \<and> \<bar>sint (ab_alpha w)\<bar> \<le> 10000 \<and> \<bar>sint (ab_beta w)\<bar> \<le> 10000"
proof -
  have "fst (fieldctrl_limit_voltage fc_q15 \<lparr>ab_alpha = 12000, ab_beta = 16000\<rparr> 10000 (Some \<lparr>ab_alpha = 0, ab_beta = 0\<rparr>)) = LINEARS_OK
    \<and> snd (fieldctrl_limit_voltage fc_q15 \<lparr>ab_alpha = 12000, ab_beta = 16000\<rparr> 10000 (Some \<lparr>ab_alpha = 0, ab_beta = 0\<rparr>)) \<noteq> None"
    by code_simp
  then obtain w where w: "fieldctrl_limit_voltage fc_q15 \<lparr>ab_alpha = 12000, ab_beta = 16000\<rparr> 10000 (Some \<lparr>ab_alpha = 0, ab_beta = 0\<rparr>)
      = (LINEARS_OK, Some w)" by (auto simp: prod_eq_iff)
  from limit_voltage_correct [OF w] w show ?thesis by auto
qed

end
