(* ===== verification/Fc_Total.thy ===== *)
theory Fc_Total
  imports Fc_Base_Props
begin

text \<open>
  Operations that cannot fail on signals: bounds on every intermediate value show that vector limiting
  and space-vector modulation succeed for all inputs with a positive bus voltage.
\<close>

section \<open>Total operations\<close>

lemma ok_bindI: "ok_run m a \<Longrightarrow> ok_run (f a) r \<Longrightarrow> ok_run (m \<bind> f) r"
  by (simp add: ok_run_def State_Monad.bind_def)

lemma ok_caseI: "ok_run (f a b) r \<Longrightarrow> ok_run (case (a, b) of (x, y) \<Rightarrow> f x y) r"
  by simp

lemma ok_returnI: "ok_run (State_Monad.return a) a"
  by simp

lemma ok_run_iff: "ok_run m a \<Longrightarrow> ok_run m r \<longleftrightarrow> r = a"
  by (auto dest: ok_unique)

lemma add_total: "\<bar>sint a\<bar> \<le> 2 ^ 40 \<Longrightarrow> \<bar>sint b\<bar> \<le> 2 ^ 40 \<Longrightarrow> \<exists>r. ok_run (fcq_add a b) r \<and> sint r = sint a + sint b"
  unfolding ok_fcq_add using exists_i64 [of "sint a + sint b"] by auto

lemma sub_total: "\<bar>sint a\<bar> \<le> 2 ^ 40 \<Longrightarrow> \<bar>sint b\<bar> \<le> 2 ^ 40 \<Longrightarrow> \<exists>r. ok_run (fcq_sub a b) r \<and> sint r = sint a - sint b"
  unfolding ok_fcq_sub using exists_i64 [of "sint a - sint b"] by auto

lemma neg_total: "\<bar>sint a\<bar> \<le> 2 ^ 40 \<Longrightarrow> \<exists>r. ok_run (fcq_neg a) r \<and> sint r = - sint a"
  unfolding ok_fcq_neg using exists_i64 [of "- sint a"] by auto

lemma abs_total: "\<bar>sint a\<bar> \<le> 2 ^ 40 \<Longrightarrow> \<exists>r. ok_run (fcq_abs a) r \<and> sint r = \<bar>sint a\<bar>"
  unfolding ok_fcq_abs using exists_i64 [of "\<bar>sint a\<bar>"] by auto

lemma round_away_abs: "0 < d \<Longrightarrow> \<bar>n\<bar> \<le> k * d \<Longrightarrow> \<bar>round_away n d\<bar> \<le> k"
  using round_away_bounds [of d "- k" n k] by (auto simp: abs_le_iff)

lemma mul_total:
  assumes "\<bar>sint a\<bar> \<le> x" "\<bar>sint b\<bar> \<le> y * 2 ^ 31" "x * y \<le> 2 ^ 40" "0 \<le> y"
  shows "\<exists>r. ok_run (fcq_mul a b) r \<and> \<bar>sint r\<bar> \<le> x * y"
proof -
  have "\<bar>sint a * sint b\<bar> \<le> x * (y * 2 ^ 31)" unfolding abs_mult using assms(1,2,4) by (intro mult_mono) auto
  then have "\<bar>round_away (sint a * sint b) (2 ^ 31)\<bar> \<le> x * y" by (intro round_away_abs) (simp_all add: mult.assoc)
  moreover from this obtain r :: i64 where "sint r = round_away (sint a * sint b) (2 ^ 31)"
    using exists_i64 [of "round_away (sint a * sint b) (2 ^ 31)"] assms(3) by (auto simp: abs_le_iff)
  ultimately show ?thesis unfolding ok_fcq_mul by auto
qed

lemma div_total:
  assumes "\<bar>sint a\<bar> \<le> k * sint b" "0 < sint b" "k \<le> 2 ^ 9" "0 \<le> k"
  shows "\<exists>r. ok_run (fcq_div a b) r \<and> \<bar>sint r\<bar> \<le> k * 2 ^ 31"
proof -
  have "\<bar>round_away (sint a * 2 ^ 31) (sint b)\<bar> \<le> k * 2 ^ 31"
    using assms(1,2) by (intro round_away_abs) (simp_all add: abs_mult)
  moreover from this obtain r :: i64 where "sint r = round_away (sint a * 2 ^ 31) (sint b)"
    using exists_i64 [of "round_away (sint a * 2 ^ 31) (sint b)"] assms(3) by (auto simp: abs_le_iff)
  ultimately show ?thesis unfolding ok_fcq_div using assms(2) by auto
qed

lemma sqrt_total:
  assumes "0 \<le> sint a" "sint a \<le> 2 ^ 33"
  shows "\<exists>r. ok_run (fcq_sqrt a) r \<and> 0 \<le> sint r \<and> sint r \<le> 2 ^ 32"
proof -
  obtain r where r: "linears_fixed_sqrt a (Some 0) = (LINEARS_OK, Some r)" "nearest_sqrt (sint a * 2 ^ 31) (sint r)"
    using linears_fixed_sqrt_spec assms(1) by blast
  have "sint r \<le> 2 ^ 32"
  proof (rule ccontr)
    assume "\<not> sint r \<le> 2 ^ 32"
    then have "(2 ^ 32 + 1) * 2 ^ 32 \<le> sint r * (sint r - 1)" by (intro mult_mono) auto
    then show False using r(2) assms by (auto simp: nearest_sqrt_def)
  qed
  then show ?thesis using r assms by (auto simp: ok_fcq_sqrt nearest_sqrt_def)
qed

lemma hypot_total:
  assumes "\<bar>sint a\<bar> \<le> 2 ^ 31" "\<bar>sint b\<bar> \<le> 2 ^ 31"
  shows "\<exists>m. ok_run (fcq_hypot a b) m \<and> \<bar>sint m\<bar> \<le> 2 ^ 32"
proof -
  obtain aa where aa: "ok_run (fcq_abs a) aa" "sint aa = \<bar>sint a\<bar>" using abs_total [of a] assms(1) by auto
  obtain bb where bb: "ok_run (fcq_abs b) bb" "sint bb = \<bar>sint b\<bar>" using abs_total [of b] assms(2) by auto
  define hi lo where "hi = (if 0 \<le> fcq_cmp aa bb then aa else bb)" and "lo = (if 0 \<le> fcq_cmp aa bb then bb else aa)"
  have b: "\<bar>sint lo\<bar> \<le> sint hi" "sint hi \<le> 2 ^ 31" "0 \<le> sint lo" using assms aa(2) bb(2) by (auto simp: hi_def lo_def)
  have "\<exists>m. ok_run (if hi = 0 \<or> LINEARS_OK \<noteq> LINEARS_OK then State_Monad.return 0
    else do { ratio \<leftarrow> fcq_div lo hi; s1 \<leftarrow> fcq_mul ratio ratio; s2 \<leftarrow> fcq_add LINEARS_FIXED_ONE s1; rt \<leftarrow> fcq_sqrt s2; fcq_mul hi rt }) m
    \<and> \<bar>sint m\<bar> \<le> 2 ^ 32"
  proof (cases "hi = 0")
    case False
    then have hi: "0 < sint hi" using b by (metis abs_ge_zero order.trans order_le_less sint_0_iff)
    obtain ratio where r: "ok_run (fcq_div lo hi) ratio" "\<bar>sint ratio\<bar> \<le> 2 ^ 31" using div_total [of lo 1 hi] b hi by auto
    obtain s1 where s1: "ok_run (fcq_mul ratio ratio) s1" "\<bar>sint s1\<bar> \<le> 2 ^ 31" using mul_total [of ratio "2 ^ 31" ratio 1] r by auto
    then have p: "0 \<le> sint s1" by (simp add: ok_fcq_mul round_away_nonneg)
    obtain s2 where s2: "ok_run (fcq_add LINEARS_FIXED_ONE s1) s2" "sint s2 = 2 ^ 31 + sint s1"
      using add_total [of LINEARS_FIXED_ONE s1] s1(2) by (auto simp: LINEARS_FIXED_ONE_def)
    obtain rt where rt: "ok_run (fcq_sqrt s2) rt" "0 \<le> sint rt" "sint rt \<le> 2 ^ 32" using sqrt_total [of s2] s1(2) s2(2) p by auto
    obtain m where "ok_run (fcq_mul hi rt) m" "\<bar>sint m\<bar> \<le> 2 ^ 32" using mul_total [of hi "2 ^ 31" rt 2] b hi rt by auto
    with r s1 s2 rt False show ?thesis by simp blast
  qed simp
  then obtain m where m: "ok_run (if hi = 0 \<or> LINEARS_OK \<noteq> LINEARS_OK then State_Monad.return 0
    else do { ratio \<leftarrow> fcq_div lo hi; s1 \<leftarrow> fcq_mul ratio ratio; s2 \<leftarrow> fcq_add LINEARS_FIXED_ONE s1; rt \<leftarrow> fcq_sqrt s2; fcq_mul hi rt }) m"
    "\<bar>sint m\<bar> \<le> 2 ^ 32" by blast
  have "ok_run (fcq_hypot a b) m"
    unfolding fcq_hypot_def Let_def using m(1) unfolding hi_def lo_def
    by (intro ok_bindI [OF aa(1)] ok_bindI [OF bb(1)] ok_bindI [of fc_status LINEARS_OK]) simp_all
  with m(2) show ?thesis by blast
qed

lemma rescale_total:
  assumes "\<bar>sint a\<bar> \<le> sint m" "0 < sint m" "0 \<le> sint limit" "sint limit \<le> 2 ^ 31"
  shows "\<exists>r. ok_run (fcq_rescale a limit m) r"
proof -
  have "\<bar>sint a * sint limit\<bar> \<le> sint limit * sint m"
    unfolding abs_mult using assms by (subst mult.commute [of "sint limit"]) (intro mult_mono, auto)
  then have "\<bar>round_away (sint a * sint limit) (sint m)\<bar> \<le> sint limit" using assms(2) by (intro round_away_abs) auto
  then show ?thesis unfolding ok_fcq_rescale
    using exists_i64 [of "round_away (sint a * sint limit) (sint m)"] assms by (auto simp: abs_le_iff)
qed

lemma base_limit_total:
  assumes "\<bar>sint a\<bar> \<le> 2 ^ 31" "\<bar>sint b\<bar> \<le> 2 ^ 31" "0 < sint limit" "sint limit \<le> 2 ^ 31"
  shows "\<exists>x y. ok_run (base_limit a b limit) (x, y) \<and> \<bar>sint x\<bar> \<le> sint limit \<and> \<bar>sint y\<bar> \<le> sint limit"
proof -
  obtain m where m: "ok_run (fcq_hypot a b) m" using hypot_total assms(1,2) by blast
  note ge = hypot_ge [OF m]
  have "\<exists>r. ok_run (base_limit a b limit) r"
  proof (cases "sint limit < sint m")
    case True
    then obtain x y where "ok_run (fcq_rescale a limit m) x" "ok_run (fcq_rescale b limit m) y"
      using rescale_total [of a m limit] rescale_total [of b m limit] ge assms by auto
    with True m show ?thesis unfolding base_limit_def by auto
  next
    case False
    with m show ?thesis unfolding base_limit_def by auto
  qed
  then show ?thesis using base_limit_within [of a b limit] assms(3) by fastforce
qed

lemma pwm_constants:
  "\<exists>three root3 one limit half. ok_run (fcq_i 3) three \<and> ok_run (fcq_sqrt three) root3 \<and> ok_run (fcq_i 1) one
    \<and> ok_run (fcq_div one root3) limit \<and> ok_run (FC_RATIO 1 2) half \<and> sint root3 = 3719550787 \<and> sint limit = 1239850262
    \<and> sint half = 2 ^ 30"
proof -
  have "ok_run (fcq_i 3) 6442450944" "ok_run (fcq_i 1) 2147483648" "ok_run (fcq_i 2) 4294967296"
    "ok_run (fcq_sqrt 6442450944) 3719550787" "ok_run (fcq_div 2147483648 3719550787) 1239850262"
    "ok_run (fcq_div 2147483648 4294967296) 1073741824"
    by (simp_all add: ok_fcq_i ok_fcq_sqrt ok_fcq_div nearest_sqrt_def round_away_if round_half_def)
  moreover from this have "ok_run (FC_RATIO 1 2) 1073741824" unfolding FC_RATIO_def by (intro ok_bindI)
  ultimately show ?thesis by (intro exI conjI) (assumption | simp)+
qed

context signal_format
begin

lemma clamp_store: "\<exists>t. ok_run (fv_store V (base_clamp x 0 LINEARS_FIXED_ONE)) t"
proof -
  have "\<bar>sint (base_clamp x 0 LINEARS_FIXED_ONE)\<bar> \<le> 2 ^ 31"
    using clamp_sint [of 0 LINEARS_FIXED_ONE x] by (simp add: LINEARS_FIXED_ONE_def)
  then show ?thesis using store_total by blast
qed

lemma pwm_total:
  assumes a: "\<bar>sint a\<bar> \<le> 2 ^ 31" and b: "\<bar>sint b\<bar> \<le> 2 ^ 31" and bus: "0 < sint bus"
  shows "\<exists>d. ok_run (base_pwm V a b bus) d"
proof -
  obtain three root3 one limit half where k: "ok_run (fcq_i 3) three" "ok_run (fcq_sqrt three) root3" "ok_run (fcq_i 1) one"
      "ok_run (fcq_div one root3) limit" "ok_run (FC_RATIO 1 2) half"
    and kv: "sint root3 = 3719550787" "sint limit = 1239850262" "sint half = 2 ^ 30" using pwm_constants by blast
  obtain aa where aa: "ok_run (fcq_abs a) aa" "sint aa = \<bar>sint a\<bar>" using abs_total [of a] a by auto
  obtain bb where bb: "ok_run (fcq_abs b) bb" "sint bb = \<bar>sint b\<bar>" using abs_total [of b] b by auto
  define scale where "scale = (let s0 = (if 0 < fcq_cmp aa bb then aa else bb) in if fcq_cmp s0 bus < 0 then bus else s0)"
  have scale: "0 < sint scale" "\<bar>sint a\<bar> \<le> sint scale" "\<bar>sint b\<bar> \<le> sint scale"
    using bus aa(2) bb(2) by (auto simp: scale_def Let_def)
  obtain a1 where a1: "ok_run (fcq_div a scale) a1" "\<bar>sint a1\<bar> \<le> 2 ^ 31" using div_total [of a 1 scale] scale by auto
  obtain b1 where b1: "ok_run (fcq_div b scale) b1" "\<bar>sint b1\<bar> \<le> 2 ^ 31" using div_total [of b 1 scale] scale by auto
  obtain a2 b2 where l: "ok_run (base_limit a1 b1 limit) (a2, b2)" and a2: "\<bar>sint a2\<bar> \<le> 2 ^ 31" and b2: "\<bar>sint b2\<bar> \<le> 2 ^ 31"
    using base_limit_total [of a1 b1 limit] a1 b1 kv by fastforce
  obtain rb where rb: "ok_run (fcq_mul root3 b2) rb" "\<bar>sint rb\<bar> \<le> 3719550787" using mul_total [of root3 3719550787 b2 1] kv b2 by auto
  obtain d1 where d1: "ok_run (fcq_sub rb a2) d1" "sint d1 = sint rb - sint a2" using sub_total [of rb a2] rb a2 by auto
  obtain d2 where d2: "ok_run (fcq_add a2 rb) d2" "sint d2 = sint a2 + sint rb" using add_total [of a2 rb] rb a2 by auto
  have "\<bar>sint d2\<bar> \<le> 2 ^ 40" using d2(2) rb(2) a2 by simp
  then obtain d3 where d3: "ok_run (fcq_neg d2) d3" "sint d3 = - sint d2" using neg_total [of d2] by blast
  have half: "\<exists>r. ok_run (fcq_mul half x) r \<and> \<bar>sint r\<bar> \<le> 2 ^ 35" if "\<bar>sint x\<bar> \<le> 2 ^ 36" for x
    using mul_total [of half "2 ^ 30" x 32] that kv by fastforce
  have "\<bar>sint d1\<bar> \<le> 2 ^ 36" "\<bar>sint d3\<bar> \<le> 2 ^ 36" using d1(2) d2(2) d3(2) rb(2) a2 by simp_all
  then obtain q r where q: "ok_run (fcq_mul half d1) q" "\<bar>sint q\<bar> \<le> 2 ^ 35" and r: "ok_run (fcq_mul half d3) r" "\<bar>sint r\<bar> \<le> 2 ^ 35"
    using half by blast
  define lo where "lo = (let lo0 = (if fcq_cmp a2 q < 0 then a2 else q) in if fcq_cmp lo0 r < 0 then lo0 else r)"
  define hi where "hi = (let hi0 = (if 0 < fcq_cmp a2 q then a2 else q) in if 0 < fcq_cmp hi0 r then hi0 else r)"
  have "\<bar>sint lo\<bar> \<le> 2 ^ 35" "\<bar>sint hi\<bar> \<le> 2 ^ 35" using a2 q(2) r(2) by (simp_all add: lo_def hi_def Let_def)
  then obtain lh where lh: "ok_run (fcq_add lo hi) lh" "sint lh = sint lo + sint hi" using add_total [of lo hi] by auto
  with \<open>\<bar>sint lo\<bar> \<le> 2 ^ 35\<close> \<open>\<bar>sint hi\<bar> \<le> 2 ^ 35\<close> have "\<bar>sint lh\<bar> \<le> 2 ^ 36" by simp
  then obtain offset where off: "ok_run (fcq_mul half lh) offset" "\<bar>sint offset\<bar> \<le> 2 ^ 35" using half by blast
  have shift: "\<exists>u v. ok_run (fcq_sub x offset) u \<and> ok_run (fcq_add half u) v" if x: "\<bar>sint x\<bar> \<le> 2 ^ 35" for x
  proof -
    obtain u where u: "ok_run (fcq_sub x offset) u" "sint u = sint x - sint offset" using sub_total [of x offset] x off(2) by auto
    then have "\<bar>sint u\<bar> \<le> 2 ^ 40" using x off(2) by simp
    then show ?thesis using add_total [of half u] kv(3) u(1) by auto
  qed
  obtain p1 p2 where p: "ok_run (fcq_sub a2 offset) p1" "ok_run (fcq_add half p1) p2" using shift [of a2] a2 by auto
  obtain q1 q2 where qq: "ok_run (fcq_sub q offset) q1" "ok_run (fcq_add half q1) q2" using shift [of q] q by auto
  obtain r1 r2 where rr: "ok_run (fcq_sub r offset) r1" "ok_run (fcq_add half r1) r2" using shift [of r] r by auto
  obtain pa pb pc where st: "ok_run (fv_store V (base_clamp p2 0 LINEARS_FIXED_ONE)) pa"
    "ok_run (fv_store V (base_clamp q2 0 LINEARS_FIXED_ONE)) pb" "ok_run (fv_store V (base_clamp r2 0 LINEARS_FIXED_ONE)) pc"
    using clamp_store by metis
  have z: "ok_run (fcq_i 0) 0" "one = LINEARS_FIXED_ONE" using k(3) by (simp_all add: ok_zero ok_one)
  note runs = k [unfolded z(2)] aa(1) bb(1) a1(1) b1(1) l rb(1) d1(1) d2(1) d3(1) q(1) r(1) lh(1) off(1) p qq rr z(1) st
  show ?thesis
    unfolding base_pwm_def Let_def
    using runs unfolding scale_def lo_def hi_def Let_def
    by - (rule exI, (rule ok_bindI, assumption | rule ok_caseI | rule ok_returnI)+)
qed

lemma sticky_transforms [simp]: "sticky (park_body V i a)" "sticky (inverse_park_body V v a)" "sticky (base_pwm V x y b)"
    "sticky (svpwm_body V u bus)"
  by (simp_all add: park_body_def inverse_park_body_def svpwm_body_def base_pwm_def sticky_simps split: prod.splits)

lemma svpwm_nonneg:
  assumes "ok_run (svpwm_body V u b) d"
  shows "\<exists>x y z. ok_run (fv_store V x) (abc_a d) \<and> ok_run (fv_store V y) (abc_b d) \<and> ok_run (fv_store V z) (abc_c d)
    \<and> 0 \<le> sint x \<and> 0 \<le> sint y \<and> 0 \<le> sint z"
proof -
  from assms have "ok_run (base_pwm V (fv_field V (ab_alpha u)) (fv_field V (ab_beta u)) (fv_field V b)) d"
    unfolding svpwm_body_def by (auto simp: ok_LOAD sticky_simps)
  then show ?thesis by (rule pwm_nonneg)
qed

end

section \<open>A failed status is kept\<close>

definition keeps :: "'a fc \<Rightarrow> bool" where
  "keeps m \<longleftrightarrow> (\<forall>s. s \<noteq> LINEARS_OK \<longrightarrow> snd (run_state m s) = s)"

lemma keeps_bind [simp]: "keeps m \<Longrightarrow> (\<And>a. keeps (f a)) \<Longrightarrow> keeps (m \<bind> f)"
  by (auto simp: keeps_def State_Monad.bind_def split: prod.splits)

lemma keeps_basic [simp]: "keeps (State_Monad.return a)" "keeps fc_status" "keeps (fc_fail_if c e)" "keeps (fc_op d f)"
    "keeps (fcq_work_load x)" "keeps (FC_LOAD V t)"
  by (simp_all add: keeps_def State_Monad.return_def fc_status_def fc_fail_if_def fc_op_def sticky_call_def fcq_work_load_def FC_LOAD_def)

lemma keeps_split [simp]: "(\<And>a b. keeps (g a b)) \<Longrightarrow> keeps (case p of (a, b) \<Rightarrow> g a b)" "(\<And>a. keeps (h a)) \<Longrightarrow> keeps (let a = x in h a)"
  by (simp_all add: Let_def split: prod.splits)

lemma keeps_fcq [simp]:
  "keeps (fcq_add a b)" "keeps (fcq_sub a b)" "keeps (fcq_mul a b)" "keeps (fcq_div a b)" "keeps (fcq_neg a)" "keeps (fcq_abs a)"
  "keeps (fcq_sqrt a)" "keeps (fcq_i k)" "keeps (fcq_rescale a b c)" "keeps (fcq15_store a)" "keeps (fcq31_store a)"
  by (simp_all add: fcq_add_def fcq_sub_def fcq_mul_def fcq_div_def fcq_neg_def fcq_abs_def fcq_sqrt_def fcq_i_def fcq_rescale_def
      fcq15_store_def fcq31_store_def)

lemma keeps_hypot [simp]: "keeps (fcq_hypot a b)" "keeps (FC_RATIO i k)"
  by (simp_all add: fcq_hypot_def FC_RATIO_def)

lemma keeps_limit [simp]: "keeps (base_limit a b l)"
  by (simp add: base_limit_def)

lemma keeps_pwm: "(\<And>x. keeps (fv_store V x)) \<Longrightarrow> keeps (base_pwm V a b bus)"
  unfolding base_pwm_def by (intro keeps_bind keeps_split keeps_basic keeps_fcq keeps_hypot keeps_limit)

lemma fc_fail_if_fails:
  "c \<Longrightarrow> e \<noteq> LINEARS_OK \<Longrightarrow> (\<And>u. keeps (f u)) \<Longrightarrow> snd (run_state (fc_fail_if c e \<bind> f) LINEARS_OK) = e"
  by (auto simp: keeps_def State_Monad.bind_def fc_fail_if_def)

section \<open>Evaluation on numerals\<close>

text \<open>A helper call on numerals has one result, computed through its integer equation.\<close>

lemma sint_eq_word: "- (2 ^ (LENGTH('a) - 1)) \<le> k \<Longrightarrow> k < 2 ^ (LENGTH('a) - 1) \<Longrightarrow> sint (r :: 'a::len word) = k \<longleftrightarrow> r = word_of_int k"
  using sint_word_of_int_fits [of k] word_sint_eqI by metis

lemma sint_eq_value:
  "numeral n < (2 ^ 63 :: int) \<Longrightarrow> sint (r :: i64) = numeral n \<longleftrightarrow> r = numeral n"
  "numeral n < (2 ^ 63 :: int) \<Longrightarrow> sint (r :: i64) = - numeral n \<longleftrightarrow> r = - numeral n"
  "numeral n < (2 ^ 15 :: int) \<Longrightarrow> sint (t :: i16) = numeral n \<longleftrightarrow> t = numeral n"
  "sint (t :: i16) = 0 \<longleftrightarrow> t = 0" "sint (r :: i64) = 0 \<longleftrightarrow> r = 0"
proof -
  assume "numeral n < (2 ^ 63 :: int)"
  then show "sint (r :: i64) = numeral n \<longleftrightarrow> r = numeral n" "sint (r :: i64) = - numeral n \<longleftrightarrow> r = - numeral n"
    using sint_eq_word [of "numeral n" r] sint_eq_word [of "- numeral n" r] by simp_all
next
  assume "numeral n < (2 ^ 15 :: int)"
  then show "sint (t :: i16) = numeral n \<longleftrightarrow> t = numeral n" using sint_eq_word [of "numeral n" t] by simp
qed (simp_all add: sint_0_iff)

lemma sqrt_values:
  "nearest_sqrt 13835058055282163712 (sint r) \<longleftrightarrow> sint r = 3719550787"
  "nearest_sqrt 4611686018427387904 (sint r) \<longleftrightarrow> sint r = 2147483648"
proof -
  have "nearest_sqrt 13835058055282163712 3719550787" "nearest_sqrt 4611686018427387904 2147483648"
    by (simp_all add: nearest_sqrt_def)
  then show "nearest_sqrt 13835058055282163712 (sint r) \<longleftrightarrow> sint r = 3719550787"
    "nearest_sqrt 4611686018427387904 (sint r) \<longleftrightarrow> sint r = 2147483648" by (auto dest: nearest_sqrt_unique)
qed

lemmas fc_eval = fc_ok sint_eq_value sqrt_values round_away_if round_half_def q15_field ok_zero ok_one ok_fcq15_store
  q15_result_iff LINEARS_FIXED_ONE_def

lemma q15_run_simps: "FC_LOAD fc_q15 t = fcq_work_load (linears_fixed_from_q15 t)" "fv_store fc_q15 = fcq15_store"
  by (simp_all add: fc_q15_def FC_LOAD_def)

lemma ok_sincos_zero: "ok_run (fcq_sincos (linears_fixed_from_q15 0) s c) r \<longleftrightarrow> r = (0, LINEARS_FIXED_ONE)"
  by (auto simp add: fcq_sincos_def ok_fcq_wrap q15_field sint_0_iff cordic_quarter_def)

section \<open>Properties\<close>

lemma q15_store_nonneg: "ok_run (fcq15_store x) t \<Longrightarrow> 0 \<le> sint x \<Longrightarrow> 0 \<le> sint t"
  using round_away_nonneg [of "2 ^ 16" "sint x"] by (simp add: ok_fcq15_store q15_result_iff)

lemma q15_foc_format: "fv_store fc_q15 = fcq15_store" "sint (fv_field fc_q15 t) = sint t * 65536"
  by (simp_all add: fc_q15_def q15_field)

lemma svpwm_domain:
  assumes "sint bus \<le> 0"
  shows "snd (run_state (svpwm_body fc_q15 v bus) LINEARS_OK) = LINEARS_ERROR_DOMAIN"
proof -
  have "run_state (svpwm_body fc_q15 v bus) LINEARS_OK =
      run_state (fc_fail_if (fcq_cmp (linears_fixed_from_q15 bus) 0 \<le> 0) LINEARS_ERROR_DOMAIN \<bind> (\<lambda>_.
        base_pwm fc_q15 (linears_fixed_from_q15 (ab_alpha v)) (linears_fixed_from_q15 (ab_beta v)) (linears_fixed_from_q15 bus))) LINEARS_OK"
    unfolding svpwm_body_def FC_LOAD_def fc_q15_def
    using ok_zero [of 0] by (simp add: fcq_work_load_def ok_run_def)
  also have "snd \<dots> = LINEARS_ERROR_DOMAIN"
    using assms by (intro fc_fail_if_fails keeps_pwm) (simp_all add: q15_field fc_q15_def)
  finally show ?thesis .
qed

lemma svpwm_q15_total: "0 < sint bus \<Longrightarrow> \<exists>d. ok_run (svpwm_body fc_q15 v bus) d"
proof -
  assume bus: "0 < sint bus"
  have r: "\<bar>sint (fv_field fc_q15 t)\<bar> \<le> 2 ^ 31" for t using i16_range [of t] by (auto simp: q15_foc_format)
  obtain d where d: "ok_run (base_pwm fc_q15 (fv_field fc_q15 (ab_alpha v)) (fv_field fc_q15 (ab_beta v)) (fv_field fc_q15 bus)) d"
    using q15.pwm_total [of "fv_field fc_q15 (ab_alpha v)" "fv_field fc_q15 (ab_beta v)" "fv_field fc_q15 bus"] r bus
    by (auto simp: q15_foc_format)
  then have "ok_run (svpwm_body fc_q15 v bus) d"
    using bus unfolding svpwm_body_def by (simp add: ok_zero q15_foc_format q15.ok_LOAD)
  then show ?thesis ..
qed

text \<open>
  C33: space-vector modulation in q15 is total: a NULL output is an argument error, a bus voltage that is
  not positive a domain error that leaves the output alone, and for every voltage vector and every
  positive bus voltage the call succeeds, without any overflow, with duty cycles that are not negative.
\<close>

theorem svpwm_total:
  "case duty of
     None \<Rightarrow> fieldctrl_svpwm fc_q15 v bus duty = (LINEARS_ERROR_ARGUMENT, None)
   | Some old \<Rightarrow>
       if sint bus \<le> 0 then fieldctrl_svpwm fc_q15 v bus duty = (LINEARS_ERROR_DOMAIN, Some old)
       else \<exists>d. fieldctrl_svpwm fc_q15 v bus duty = (LINEARS_OK, Some d)
         \<and> 0 \<le> sint (abc_a d) \<and> 0 \<le> sint (abc_b d) \<and> 0 \<le> sint (abc_c d)"
proof (cases duty)
  case None
  then show ?thesis by (simp add: fieldctrl_svpwm_def fc_commit_def)
next
  case (Some old)
  show ?thesis
  proof (cases "sint bus \<le> 0")
    case True
    with svpwm_domain [OF True, of v] Some show ?thesis by (auto simp: fieldctrl_svpwm_def fc_commit_def split: prod.splits)
  next
    case False
    then obtain d where run: "ok_run (svpwm_body fc_q15 v bus) d" using svpwm_q15_total [of bus v] by auto
    moreover have "0 \<le> sint (abc_a d) \<and> 0 \<le> sint (abc_b d) \<and> 0 \<le> sint (abc_c d)"
      using q15.svpwm_nonneg [OF run] q15_store_nonneg unfolding q15_foc_format by blast
    ultimately show ?thesis using False Some unfolding fieldctrl_svpwm_def by (auto simp: fc_commit_ok)
  qed
qed

end
