(* ===== verification/Fc_Foc_Props.thy ===== *)
theory Fc_Foc_Props
  imports Fc_Foc Fc_Total
begin

text \<open>
  Field-oriented control: the applied voltage stays within the configured limit and the bus limit, a saturated step
  never integrates further outward, and the duty cycles are not negative.
\<close>

section \<open>Runs\<close>

lemma sticky_foc [simp]: "sticky (foc_radial_limit d q r)" "sticky (foc_outward dd dq rd rq)"
  "sticky (foc_limit_request old delta_d delta_q cand p_d p_q raw_d raw_q radius)"
  by (simp_all add: foc_radial_limit_def foc_outward_def foc_limit_request_def split: prod.splits)

lemma foc_radial_limit_ok:
  assumes "ok_run (foc_radial_limit d q radius) (x, y, sat)"
  obtains m where "ok_run (fcq_hypot d q) m" "sat \<longleftrightarrow> sint radius < sint m"
    "if sat then ok_run (fcq_rescale d radius m) x \<and> ok_run (fcq_rescale q radius m) y else x = d \<and> y = q"
  using assms unfolding foc_radial_limit_def by (auto split: if_splits)

lemma foc_radial_limit_within:
  assumes "ok_run (foc_radial_limit d q radius) (x, y, sat)" "0 \<le> sint radius"
  shows "\<bar>sint x\<bar> \<le> sint radius \<and> \<bar>sint y\<bar> \<le> sint radius" and "\<not> sat \<Longrightarrow> x = d \<and> y = q"
proof -
  from assms(1) obtain m where m: "ok_run (fcq_hypot d q) m" "sat \<longleftrightarrow> sint radius < sint m"
    "if sat then ok_run (fcq_rescale d radius m) x \<and> ok_run (fcq_rescale q radius m) y else x = d \<and> y = q"
    by (rule foc_radial_limit_ok)
  from m(2,3) hypot_ge [OF m(1)] show "\<bar>sint x\<bar> \<le> sint radius \<and> \<bar>sint y\<bar> \<le> sint radius"
    using rescale_within [OF _ _ assms(2)] by (cases sat) auto
  from m(3) show "x = d \<and> y = q" if "\<not> sat" using that by simp
qed

text \<open>The increment points outward when its exact scalar product with the request is positive.\<close>

lemma accum_positive: "(shr (acc_high p) 63 = 0 \<and> (acc_high p \<noteq> 0 \<or> acc_low p \<noteq> 0)) \<longleftrightarrow> 0 < accum_val p"
proof -
  have "shr (acc_high p) 63 = 0 \<longleftrightarrow> \<not> accum_val p < 0" by (simp add: ln_negative_iff [symmetric] ln_negative_def)
  moreover have "(acc_high p \<noteq> 0 \<or> acc_low p \<noteq> 0) \<longleftrightarrow> accum_val p \<noteq> 0"
    using accum_val_inject [of p accum_zero] by (cases p) auto
  ultimately show ?thesis by auto
qed

lemma ok_foc_outward:
  "ok_run (foc_outward dd dq rd rq) out \<Longrightarrow> out \<longleftrightarrow> 0 < sint dd * sint rd + sint dq * sint rq"
  unfolding foc_outward_def accum_positive by (auto simp: ok_fc_mac)

text \<open>
  Limiting a request either accepts the candidate integral, when the request is inside the circle or
  the increment does not point outward, or keeps the old one.
\<close>

lemma foc_limit_request_cases:
  assumes "ok_run (foc_limit_request old dd dq cand p_d p_q raw_d raw_q radius) (integral, req, lmt, sat)"
  obtains (accept) "integral = cand" "req = \<lparr>dq_d = raw_d, dq_q = raw_q\<rparr>"
      "ok_run (foc_radial_limit raw_d raw_q radius) (dq_d lmt, dq_q lmt, sat)"
      "sat \<Longrightarrow> sint dd * sint raw_d + sint dq * sint raw_q \<le> 0"
    | (keep) "integral = old" "ok_run (fcq_add p_d (dq_d old)) (dq_d req)" "ok_run (fcq_add p_q (dq_q old)) (dq_q req)"
      "ok_run (foc_radial_limit (dq_d req) (dq_q req) radius) (dq_d lmt, dq_q lmt, sat)"
proof -
  from assms obtain ld lq s1 out where l1: "ok_run (foc_radial_limit raw_d raw_q radius) (ld, lq, s1)"
    and out: "if s1 then ok_run (foc_outward dd dq raw_d raw_q) out else \<not> out"
    and rest: "if out then ok_run (fcq_add p_d (dq_d old)) (dq_d req) \<and> ok_run (fcq_add p_q (dq_q old)) (dq_q req)
        \<and> ok_run (foc_radial_limit (dq_d req) (dq_q req) radius) (dq_d lmt, dq_q lmt, sat) \<and> integral = old
      else integral = cand \<and> req = \<lparr>dq_d = raw_d, dq_q = raw_q\<rparr> \<and> lmt = \<lparr>dq_d = ld, dq_q = lq\<rparr> \<and> sat = s1"
    unfolding foc_limit_request_def by (auto split: if_splits)
  show thesis
  proof (cases out)
    case True
    with rest that(2) show ?thesis by simp
  next
    case False
    then have "sint dd * sint raw_d + sint dq * sint raw_q \<le> 0" if s1
      using that out ok_foc_outward [of dd dq raw_d raw_q out] by simp
    with False rest l1 that(1) show ?thesis by simp
  qed
qed

lemma dq_eta [simp]: "\<lparr>dq_d = dq_d x, dq_q = dq_q x\<rparr> = x" for x :: "'a dq"
  by (cases x) simp

lemma sqrt_three_positive: "ok_run (fcq_i 3) t \<Longrightarrow> ok_run (fcq_sqrt t) r \<Longrightarrow> 0 < sint r"
  using nearest_sqrt_ge [of "sint t * 2 ^ 31" "sint r" 1] by (simp add: ok_fcq_i ok_fcq_sqrt)

text \<open>
  The largest circle that space-vector modulation can produce from a bus voltage, \<open>bus / sqrt 3\<close>,
  and the bound it gives for a q15 voltage.
\<close>

definition bus_circle :: "int \<Rightarrow> int" where
  "bus_circle bus = round_away (bus * 2 ^ 31) 3719550787"

lemma root3_above: "sqrt 3 * 2 ^ 31 \<le> 3719550787"
proof -
  have "sqrt 3 \<le> 3719550787 / 2 ^ 31" by (rule real_le_lsqrt) (simp_all add: power_divide)
  then show ?thesis by simp
qed

lemma q15_bus_bound:
  assumes "q15_result x = Inr v" "\<bar>sint x\<bar> \<le> bus_circle (b * 65536)" "0 < b"
  shows "real_of_int \<bar>sint v\<bar> \<le> of_int b / sqrt 3 + 51 / 100"
proof -
  define c where "c = bus_circle (b * 65536)"
  have v: "sint v = min (round_away (sint x) (2 ^ 16)) (2 ^ 15 - 1)" using assms(1) by (simp add: q15_result_iff)
  have "\<bar>sint v\<bar> \<le> \<bar>round_away (sint x) (2 ^ 16)\<bar>" unfolding v by (simp add: min_def abs_if)
  moreover have "2 * \<bar>round_away (sint x) (2 ^ 16) * 2 ^ 16 - sint x\<bar> \<le> 2 ^ 16" by (rule round_away_dist) simp
  ultimately have "131072 * \<bar>sint v\<bar> \<le> 2 * c + 65536" using assms(2) by (simp add: c_def abs_if split: if_splits)
  moreover have "2 * \<bar>c * 3719550787 - b * 65536 * 2 ^ 31\<bar> \<le> 3719550787"
    unfolding c_def bus_circle_def by (rule round_away_dist) simp
  then have "2 * (c * 3719550787) \<le> b * 2 ^ 48 + 3719550787" by (simp add: abs_if split: if_splits)
  ultimately have "131072 * \<bar>sint v\<bar> * 3719550787 \<le> b * 2 ^ 48 + 65537 * 3719550787" by simp
  then have i: "131072 * real_of_int \<bar>sint v\<bar> * 3719550787 \<le> of_int b * 2 ^ 48 + 65537 * 3719550787"
    using of_int_le_iff [where ?'a = real, of "131072 * \<bar>sint v\<bar> * 3719550787" "b * 2 ^ 48 + 65537 * 3719550787"] by simp
  have "of_int b / sqrt 3 * (sqrt 3 * 2 ^ 31) \<le> of_int b / sqrt 3 * 3719550787"
    using root3_above assms(3) by (intro mult_left_mono) simp_all
  then have "real_of_int b * 2 ^ 31 \<le> of_int b / sqrt 3 * 3719550787" by simp
  with i show ?thesis by simp
qed

context signal_format
begin

lemma sticky_regulate [simp]: "sticky (foc_regulate V c ref rot period)"
  by (simp add: foc_regulate_def Let_def)

lemma foc_regulate_ok:
  assumes "ok_run (foc_regulate V c ref rot period) (delta, cand, p, raw)"
  shows "sint (dq_d cand) = sint (dq_d (foc_integral c)) + sint (dq_d delta)"
    "sint (dq_q cand) = sint (dq_q (foc_integral c)) + sint (dq_q delta)"
    "sint (dq_d raw) = sint (dq_d p) + sint (dq_d cand)" "sint (dq_q raw) = sint (dq_q p) + sint (dq_q cand)"
  using assms unfolding foc_regulate_def Let_def by (auto simp: ok_fcq_add)

lemma foc_step_body_ok:
  assumes "ok_run (foc_step_body V c i ref ang bus dt) (c', out)"
  obtains rot delta cand p raw radius bus_radius root3 lmt three where
    "ok_run (foc_regulate V c ref rot (fv_field V dt)) (delta, cand, p, raw)"
    "ok_run (foc_limit_request (foc_integral c) (dq_d delta) (dq_q delta) cand (dq_d p) (dq_q p) (dq_d raw) (dq_q raw) radius)
       (foc_integral c', fo_requested_voltage out, lmt, fo_saturated out)"
    "ok_run (fcq_i 3) three" "ok_run (fcq_sqrt three) root3" "ok_run (fcq_div (fv_field V bus) root3) bus_radius"
    "radius = (if sint bus_radius < sint (fv_field V (fcf_voltage_limit (foc_config c))) then bus_radius
       else fv_field V (fcf_voltage_limit (foc_config c)))"
    "0 < sint (fv_field V bus)"
    "ok_run (fv_store V (dq_d lmt)) (dq_d (fo_voltage out))" "ok_run (fv_store V (dq_q lmt)) (dq_q (fo_voltage out))"
    "ok_run (svpwm_body V (fo_stationary_voltage out) bus) (fo_duty out)" "foc_config c' = foc_config c"
  using assms unfolding foc_step_body_def Let_def
  by (auto simp: ok_zero ok_one)

text \<open>What a successful step guarantees of its output and of the new integral.\<close>

lemma foc_step_limits:
  assumes run: "ok_run (foc_step_body V c i ref ang bus dt) (c', out)"
    and lim: "0 \<le> sint (fv_field V (fcf_voltage_limit (foc_config c)))"
  shows "\<exists>x y. ok_run (fv_store V x) (dq_d (fo_voltage out)) \<and> ok_run (fv_store V y) (dq_q (fo_voltage out))
      \<and> \<bar>sint x\<bar> \<le> sint (fv_field V (fcf_voltage_limit (foc_config c))) \<and> \<bar>sint y\<bar> \<le> sint (fv_field V (fcf_voltage_limit (foc_config c)))
      \<and> \<bar>sint x\<bar> \<le> bus_circle (sint (fv_field V bus)) \<and> \<bar>sint y\<bar> \<le> bus_circle (sint (fv_field V bus))
      \<and> (\<not> fo_saturated out \<longrightarrow> x = dq_d (fo_requested_voltage out) \<and> y = dq_q (fo_requested_voltage out))" (is ?volt)
    and "fo_saturated out \<Longrightarrow>
      (sint (dq_d (foc_integral c')) - sint (dq_d (foc_integral c))) * sint (dq_d (fo_requested_voltage out))
      + (sint (dq_q (foc_integral c')) - sint (dq_q (foc_integral c))) * sint (dq_q (fo_requested_voltage out)) \<le> 0" (is "_ \<Longrightarrow> ?wind")
proof -
  from run obtain rot delta cand p raw radius bus_radius root3 lmt three where
    reg: "ok_run (foc_regulate V c ref rot (fv_field V dt)) (delta, cand, p, raw)"
    and req: "ok_run (foc_limit_request (foc_integral c) (dq_d delta) (dq_q delta) cand (dq_d p) (dq_q p) (dq_d raw) (dq_q raw) radius)
       (foc_integral c', fo_requested_voltage out, lmt, fo_saturated out)"
    and bus: "ok_run (fcq_i 3) three" "ok_run (fcq_sqrt three) root3" "ok_run (fcq_div (fv_field V bus) root3) bus_radius"
    and rad: "radius = (if sint bus_radius < sint (fv_field V (fcf_voltage_limit (foc_config c))) then bus_radius
       else fv_field V (fcf_voltage_limit (foc_config c)))" "0 < sint (fv_field V bus)"
    and st: "ok_run (fv_store V (dq_d lmt)) (dq_d (fo_voltage out))" "ok_run (fv_store V (dq_q lmt)) (dq_q (fo_voltage out))"
    by (rule foc_step_body_ok)
  have circle: "sint bus_radius = bus_circle (sint (fv_field V bus))"
    using bus(3) root3_value [OF bus(1,2)] by (simp add: ok_fcq_div bus_circle_def)
  then have "0 \<le> sint bus_radius" using rad(2) by (simp add: bus_circle_def round_away_nonneg)
  then have radius: "0 \<le> sint radius" "sint radius \<le> sint (fv_field V (fcf_voltage_limit (foc_config c)))"
    "sint radius \<le> bus_circle (sint (fv_field V bus))"
    using rad(1) lim circle by auto
  have lmt: "ok_run (foc_radial_limit (dq_d (fo_requested_voltage out)) (dq_q (fo_requested_voltage out)) radius) (dq_d lmt, dq_q lmt, fo_saturated out)"
    using req by (rule foc_limit_request_cases) simp_all
  from foc_radial_limit_within [OF lmt radius(1)] radius(2,3) st show ?volt
    by (intro exI [of _ "dq_d lmt"] exI [of _ "dq_q lmt"]) auto
  show ?wind if "fo_saturated out"
    using req
  proof (rule foc_limit_request_cases)
    assume "foc_integral c' = cand" "fo_requested_voltage out = \<lparr>dq_d = dq_d raw, dq_q = dq_q raw\<rparr>"
      "fo_saturated out \<Longrightarrow> sint (dq_d delta) * sint (dq_d raw) + sint (dq_q delta) * sint (dq_q raw) \<le> 0"
    with that foc_regulate_ok [OF reg] show ?thesis by simp
  qed simp
qed

lemma foc_step_duty:
  assumes "ok_run (foc_step_body V c i ref ang bus dt) (c', out)"
  shows "\<exists>x y z. ok_run (fv_store V x) (abc_a (fo_duty out)) \<and> ok_run (fv_store V y) (abc_b (fo_duty out))
    \<and> ok_run (fv_store V z) (abc_c (fo_duty out)) \<and> 0 \<le> sint x \<and> 0 \<le> sint y \<and> 0 \<le> sint z"
  using assms by (rule foc_step_body_ok) (rule svpwm_nonneg)

lemma foc_step_OK:
  "foc_step V ov (Some c) i ref ang bus dt (Some old) = (LINEARS_OK, Some c', Some out) \<longleftrightarrow>
    \<not> ov \<and> ok_run (foc_step_body V c i ref ang bus dt) (c', out)"
  unfolding foc_step_def by (rule fc_commit2_ok)

end

inductive foc_reachable :: "'t fc_format \<Rightarrow> 't foc \<Rightarrow> bool" for V where
  init: "foc_init V (Some old) (Some cfg) = (LINEARS_OK, Some c) \<Longrightarrow> foc_reachable V c"
| step: "foc_reachable V c \<Longrightarrow> foc_step V ov (Some c) i ref ang bus dt (Some old) = (LINEARS_OK, Some c', Some out)
    \<Longrightarrow> foc_reachable V c'"

context signal_format
begin

lemma foc_reachable_config:
  assumes "foc_reachable V c"
  shows "0 < sint (fv_field V (fcf_voltage_limit (foc_config c))) \<and> 0 \<le> sint (fcf_kp_d (foc_config c)) \<and> 0 \<le> sint (fcf_ki_d (foc_config c))
    \<and> 0 \<le> sint (fcf_kp_q (foc_config c)) \<and> 0 \<le> sint (fcf_ki_q (foc_config c))"
  using assms
proof induction
  case (init old cfg c)
  then show ?case by (auto simp: foc_init_def fc_commit_ok ok_zero)
next
  case (step c ov i ref ang bus dt old c' out)
  then have "ok_run (foc_step_body V c i ref ang bus dt) (c', out)" using foc_step_OK by blast
  then have "foc_config c' = foc_config c" by (rule foc_step_body_ok)
  with step.IH show ?case by simp
qed

end

section \<open>Properties\<close>

text \<open>
  C34: a reachable q15 current controller applies a voltage whose components stay within the configured
  limit and, but for the rounding of the output, within the bus voltage over the square root of three,
  whichever is smaller, and duty cycles that are not negative. A step that does not report saturation applies the
  requested voltage itself, rounded once.
\<close>

theorem foc_output_within_limits:
  assumes "foc_reachable fc_q15 c"
    and "foc_step fc_q15 ov (Some c) i ref ang bus dt (Some old) = (LINEARS_OK, Some c', Some out)"
  shows "0 < sint (fcf_voltage_limit (foc_config c))
    \<and> \<bar>sint (dq_d (fo_voltage out))\<bar> \<le> sint (fcf_voltage_limit (foc_config c))
    \<and> \<bar>sint (dq_q (fo_voltage out))\<bar> \<le> sint (fcf_voltage_limit (foc_config c))
    \<and> real_of_int \<bar>sint (dq_d (fo_voltage out))\<bar> \<le> of_int (sint bus) / sqrt 3 + 51 / 100
    \<and> real_of_int \<bar>sint (dq_q (fo_voltage out))\<bar> \<le> of_int (sint bus) / sqrt 3 + 51 / 100
    \<and> (\<not> fo_saturated out \<longrightarrow> q15_result (dq_d (fo_requested_voltage out)) = Inr (dq_d (fo_voltage out))
        \<and> q15_result (dq_q (fo_requested_voltage out)) = Inr (dq_q (fo_voltage out)))
    \<and> 0 \<le> sint (abc_a (fo_duty out)) \<and> 0 \<le> sint (abc_b (fo_duty out)) \<and> 0 \<le> sint (abc_c (fo_duty out))"
proof -
  have run: "ok_run (foc_step_body fc_q15 c i ref ang bus dt) (c', out)" using assms(2) q15.foc_step_OK by blast
  have lim: "0 < sint (fcf_voltage_limit (foc_config c))"
    using q15.foc_reachable_config [OF assms(1)] by (simp add: q15_foc_format)
  then have lim0: "0 \<le> sint (fv_field fc_q15 (fcf_voltage_limit (foc_config c)))" by (simp add: q15_foc_format)
  obtain x y where v: "ok_run (fcq15_store x) (dq_d (fo_voltage out))" "ok_run (fcq15_store y) (dq_q (fo_voltage out))"
    "\<bar>sint x\<bar> \<le> sint (fcf_voltage_limit (foc_config c)) * 65536" "\<bar>sint y\<bar> \<le> sint (fcf_voltage_limit (foc_config c)) * 65536"
    "\<bar>sint x\<bar> \<le> bus_circle (sint bus * 65536)" "\<bar>sint y\<bar> \<le> bus_circle (sint bus * 65536)"
    "\<not> fo_saturated out \<longrightarrow> x = dq_d (fo_requested_voltage out) \<and> y = dq_q (fo_requested_voltage out)"
    using q15.foc_step_limits(1) [OF run lim0] unfolding q15_foc_format by blast
  have "\<bar>sint (dq_d (fo_voltage out))\<bar> \<le> sint (fcf_voltage_limit (foc_config c))"
    "\<bar>sint (dq_q (fo_voltage out))\<bar> \<le> sint (fcf_voltage_limit (foc_config c))"
    using v(1-4) i16_range q15_store_within by blast+
  moreover have "0 \<le> sint (abc_a (fo_duty out)) \<and> 0 \<le> sint (abc_b (fo_duty out)) \<and> 0 \<le> sint (abc_c (fo_duty out))"
    using q15.foc_step_duty [OF run] q15_store_nonneg unfolding q15_foc_format by blast
  moreover have "0 < sint bus" using run by (rule q15.foc_step_body_ok) (simp add: q15_foc_format)
  note q15_bus_bound [OF _ v(5) this] q15_bus_bound [OF _ v(6) this]
  ultimately show ?thesis using lim v(1,2,7) by (auto simp: ok_fcq15_store)
qed

definition foc_example :: "linears_q15_t foc" where
  "foc_example = \<lparr>foc_config = \<lparr>fcf_kp_d = 0x80000000, fcf_ki_d = 0x80000000, fcf_kp_q = 0x80000000, fcf_ki_q = 0x80000000,
     fcf_voltage_limit = 3000\<rparr>, foc_integral = \<lparr>dq_d = 0, dq_q = 0\<rparr>\<rparr>"

definition foc_example_output :: "linears_q15_t foc_output" where
  "foc_example_output = \<lparr>fo_current = \<lparr>dq_d = 0, dq_q = 0\<rparr>, fo_requested_voltage = \<lparr>dq_d = 0, dq_q = 0\<rparr>, fo_voltage = \<lparr>dq_d = 0, dq_q = 0\<rparr>,
     fo_stationary_voltage = \<lparr>ab_alpha = 0, ab_beta = 0\<rparr>, fo_duty = \<lparr>abc_a = 0, abc_b = 0, abc_c = 0\<rparr>, fo_saturated = False\<rparr>"

lemma foc_example_reachable: "foc_reachable fc_q15 foc_example"
proof (rule foc_reachable.init)
  show "foc_init fc_q15 (Some foc_example) (Some (foc_config foc_example)) = (LINEARS_OK, Some foc_example)" by code_simp
qed

abbreviation (input) foc_example_step :: "linears_status_t \<times> linears_q15_t foc ptr \<times> linears_q15_t foc_output ptr" where
  "foc_example_step \<equiv> foc_step fc_q15 False (Some foc_example) \<lparr>ab_alpha = 0, ab_beta = 0\<rparr> \<lparr>dq_d = 0, dq_q = 16384\<rparr> 0 16384 100
     (Some foc_example_output)"

lemma foc_example_parts:
  "ok_run (park_body fc_q15 \<lparr>ab_alpha = 0, ab_beta = 0\<rparr> 0) \<lparr>dq_d = 0, dq_q = 0\<rparr>"
  "ok_run (inverse_park_body fc_q15 \<lparr>dq_d = 0, dq_q = 3000\<rparr> 0) \<lparr>ab_alpha = 0, ab_beta = 3000\<rparr>"
  "ok_run (foc_regulate fc_q15 foc_example \<lparr>dq_d = 0, dq_q = 16384\<rparr> \<lparr>dq_d = 0, dq_q = 0\<rparr> (linears_fixed_from_q15 100))
     (\<lparr>dq_d = 0, dq_q = 3276800\<rparr>, \<lparr>dq_d = 0, dq_q = 3276800\<rparr>, \<lparr>dq_d = 0, dq_q = 1073741824\<rparr>, \<lparr>dq_d = 0, dq_q = 1077018624\<rparr>)"
  by (simp_all add: park_body_def inverse_park_body_def foc_regulate_def q15_run_simps ok_sincos_zero fc_eval foc_example_def)

lemma foc_example_limits:
  "ok_run (foc_radial_limit 0 1077018624 196608000) (0, 196608000, True)"
  "ok_run (foc_radial_limit 0 1073741824 196608000) (0, 196608000, True)"
  by (simp_all add: foc_radial_limit_def fcq_hypot_def fc_eval)

lemma foc_example_outward: "ok_run (foc_outward 0 3276800 0 1077018624) True"
proof -
  obtain acc where "accum_val acc = 3276800 * 1077018624" using exists_accum [of "3276800 * 1077018624"] by auto
  then show ?thesis unfolding foc_outward_def accum_positive by (simp add: ok_fc_mac) (intro exI [of _ accum_zero], simp, intro exI [of _ acc], simp)
qed

lemma foc_example_request:
  "ok_run (foc_limit_request \<lparr>dq_d = 0, dq_q = 0\<rparr> 0 3276800 \<lparr>dq_d = 0, dq_q = 3276800\<rparr> 0 1073741824 0 1077018624 196608000)
     (\<lparr>dq_d = 0, dq_q = 0\<rparr>, \<lparr>dq_d = 0, dq_q = 1073741824\<rparr>, \<lparr>dq_d = 0, dq_q = 196608000\<rparr>, True)"
  by (simp add: foc_limit_request_def foc_example_limits [THEN ok_run_iff] foc_example_outward [THEN ok_run_iff] fc_eval) blast

lemma foc_example_ok:
  obtains c' out where "foc_example_step = (LINEARS_OK, Some c', Some out)" "fo_saturated out"
proof -
  obtain d where d: "ok_run (svpwm_body fc_q15 \<lparr>ab_alpha = 0, ab_beta = 3000\<rparr> 16384) d" using svpwm_q15_total by fastforce
  have cfg: "fcf_voltage_limit (foc_config foc_example) = 3000" "foc_integral foc_example = \<lparr>dq_d = 0, dq_q = 0\<rparr>"
      "linears_fixed_from_q15 3000 = 196608000"
    by (simp_all add: foc_example_def sint_inject [symmetric] q15_field)
  have "ok_run (foc_step_body fc_q15 foc_example \<lparr>ab_alpha = 0, ab_beta = 0\<rparr> \<lparr>dq_d = 0, dq_q = 16384\<rparr> 0 16384 100)
      (foc_example, \<lparr>fo_current = \<lparr>dq_d = 0, dq_q = 0\<rparr>, fo_requested_voltage = \<lparr>dq_d = 0, dq_q = 1073741824\<rparr>,
        fo_voltage = \<lparr>dq_d = 0, dq_q = 3000\<rparr>, fo_stationary_voltage = \<lparr>ab_alpha = 0, ab_beta = 3000\<rparr>, fo_duty = d, fo_saturated = True\<rparr>)"
    unfolding foc_step_body_def Let_def
    by (simp add: q15_run_simps foc_example_parts [THEN ok_run_iff] foc_example_request [THEN ok_run_iff] d [THEN ok_run_iff] cfg fc_eval)
      blast
  then show thesis using that q15.foc_step_OK by fastforce
qed

theorem foc_output_within_limits_witness:
  "\<exists>c' out. foc_example_step = (LINEARS_OK, Some c', Some out) \<and> fo_saturated out \<and> \<bar>sint (dq_q (fo_voltage out))\<bar> \<le> 3000
    \<and> real_of_int \<bar>sint (dq_q (fo_voltage out))\<bar> \<le> 16384 / sqrt 3 + 51 / 100"
proof (rule foc_example_ok)
  fix c' out assume s: "foc_example_step = (LINEARS_OK, Some c', Some out)" "fo_saturated out"
  from foc_output_within_limits [OF foc_example_reachable s(1)] s show ?thesis by (auto simp: foc_example_def)
qed

text \<open>
  C8: joint anti-windup of the q15 current controller. When a step reports saturation, the change of
  the integral has a scalar product of at most zero with the requested voltage: the stored integral
  never moves further outward. The product is exact, not rounded.
\<close>

theorem foc_anti_windup:
  assumes "foc_reachable fc_q15 c"
    and "foc_step fc_q15 ov (Some c) i ref ang bus dt (Some old) = (LINEARS_OK, Some c', Some out)" and "fo_saturated out"
  shows "(sint (dq_d (foc_integral c')) - sint (dq_d (foc_integral c))) * sint (dq_d (fo_requested_voltage out))
    + (sint (dq_q (foc_integral c')) - sint (dq_q (foc_integral c))) * sint (dq_q (fo_requested_voltage out)) \<le> 0"
proof (rule q15.foc_step_limits(2))
  show "ok_run (foc_step_body fc_q15 c i ref ang bus dt) (c', out)" using assms(2) q15.foc_step_OK by blast
  show "0 \<le> sint (fv_field fc_q15 (fcf_voltage_limit (foc_config c)))"
    using q15.foc_reachable_config [OF assms(1)] by simp
qed (rule assms(3))

theorem foc_anti_windup_witness:
  "\<exists>c' out. foc_example_step = (LINEARS_OK, Some c', Some out)
    \<and> sint (dq_d (foc_integral c')) * sint (dq_d (fo_requested_voltage out)) + sint (dq_q (foc_integral c')) * sint (dq_q (fo_requested_voltage out)) \<le> 0"
proof (rule foc_example_ok)
  fix c' out assume s: "foc_example_step = (LINEARS_OK, Some c', Some out)" "fo_saturated out"
  from foc_anti_windup [OF foc_example_reachable s(1,2)] s(1) show ?thesis by (auto simp: foc_example_def)
qed

end
