(* ===== verification/Fc_Speed_Props.thy ===== *)
theory Fc_Speed_Props
  imports Fc_Foc_Props
begin

text \<open>
  The speed loop: a PID controller whose command is the torque-current reference of the current
  loop. The contracts of the two inner controllers give the limits of the cascade.
\<close>

section \<open>Runs\<close>

inductive speed_reachable :: "'t fc_format \<Rightarrow> 't speed_foc \<Rightarrow> bool" for V where
  init: "speed_foc_init V (Some old) (Some cfg) = (LINEARS_OK, Some c) \<Longrightarrow> speed_reachable V c"
| step: "speed_reachable V c \<Longrightarrow>
    speed_foc_step V ov (Some c) i ref es ang bus dt (Some old) = (LINEARS_OK, Some c', Some out) \<Longrightarrow> speed_reachable V c'"

definition speed_inv :: "'t fc_format \<Rightarrow> 't speed_foc \<Rightarrow> bool" where
  "speed_inv V c \<longleftrightarrow> pid_wf V (sf_speed c) \<and> pid_cache_ok (sf_speed c)
     \<and> 0 < sint (fv_field V (fcf_voltage_limit (foc_config (sf_current c))))
     \<and> (\<exists>n :: i64. sint n = - sint (fv_field V (pc_upper (pid_config (sf_speed c)))) \<and> ok_run (fv_store V n) (pc_lower (pid_config (sf_speed c))))"

lemma ok_pid_init: "pid_init V (Some c) (Some k) initial \<noteq> (LINEARS_OK, None)" "foc_init V (Some f) (Some l) \<noteq> (LINEARS_OK, None)"
  by (auto simp: pid_init_def foc_init_def fc_commit_def split: prod.splits)

context signal_format
begin

lemma sticky_pid_step_work [simp]: "sticky (pid_step_work V c sp m period)"
  by (simp add: pid_step_work_def Let_def)

lemma sticky_foc_step_body [simp]: "sticky (foc_step_body V c i ref ang bus dt)"
  by (simp add: foc_step_body_def Let_def)

lemma sticky_speed_integral [simp]: "sticky (speed_foc_integral V p u e out)"
  by (simp add: speed_foc_integral_def)

lemma speed_foc_integral_ok:
  assumes "ok_run (speed_foc_integral V p u e out) r"
  shows "r = pid_integral p \<or> r = pid_integral u"
    and "fo_saturated out \<Longrightarrow> 0 < sint e * (sint (dq_q (fo_requested_voltage out)) - sint (fv_field V (dq_q (fo_voltage out)))) \<Longrightarrow> r = pid_integral p"
  using assms by (auto simp: speed_foc_integral_def ok_zero ok_fcq_sub zero_less_mult_iff split: if_splits)

lemma speed_foc_step_ok:
  assumes "speed_foc_step V ov (Some c) i ref es ang bus dt (Some old) = (LINEARS_OK, Some c', Some out)"
  obtains m sp command integral z e pairs where
    "ok_run (fcq_i (ucast (sf_pole_pairs c))) pairs" "ok_run (fcq_div (fv_field V es) pairs) m" "ok_run (fcq_sub (fv_field V ref) m) e"
    "ok_run (pid_step_work V (sf_speed c) (fv_field V ref) m (fv_field V dt)) (sp, command)"
    "ok_run (foc_step_body V (sf_current c) i (sfo_reference out) ang bus dt) (sf_current c', sfo_current out)"
    "sf_speed c' = sp\<lparr>pid_integral := integral\<rparr>" "ok_run (speed_foc_integral V (sf_speed c) sp e (sfo_current out)) integral"
    "sfo_reference out = \<lparr>dq_d = z, dq_q = po_output command\<rparr>" "ok_run (fv_store V 0) z"
  using assms unfolding speed_foc_step_def fc_commit2_ok Let_def
  by (auto simp: ok_zero)

lemma speed_step_inv:
  assumes inv: "speed_inv V c"
    and step: "speed_foc_step V ov (Some c) i ref es ang bus dt (Some old) = (LINEARS_OK, Some c', Some out)"
  shows "speed_inv V c'"
    and "sint (fv_field V (pc_lower (pid_config (sf_speed c)))) \<le> sint (fv_field V (dq_q (sfo_reference out)))
      \<and> sint (fv_field V (dq_q (sfo_reference out))) \<le> sint (fv_field V (pc_upper (pid_config (sf_speed c))))"
    and "pid_config (sf_speed c') = pid_config (sf_speed c) \<and> foc_config (sf_current c') = foc_config (sf_current c)"
proof -
  from step obtain m sp command integral z e pairs where
    pid: "ok_run (pid_step_work V (sf_speed c) (fv_field V ref) m (fv_field V dt)) (sp, command)"
    and foc: "ok_run (foc_step_body V (sf_current c) i (sfo_reference out) ang bus dt) (sf_current c', sfo_current out)"
    and c': "sf_speed c' = sp\<lparr>pid_integral := integral\<rparr>" "ok_run (speed_foc_integral V (sf_speed c) sp e (sfo_current out)) integral"
    and r: "sfo_reference out = \<lparr>dq_d = z, dq_q = po_output command\<rparr>" by (rule speed_foc_step_ok)
  have wf: "pid_wf V (sf_speed c)" "pid_cache_ok (sf_speed c)" using inv by (simp_all add: speed_inv_def)
  note p = pid_step_work_ok [OF pid wf]
  have "pid_wf V (sf_speed c')" "pid_cache_ok (sf_speed c')"
    using p wf c'(1) speed_foc_integral_ok(1) [OF c'(2)] by (auto simp: pid_wf_def pid_cache_ok_def Let_def split: prod.splits)
  moreover from foc have f: "foc_config (sf_current c') = foc_config (sf_current c)" by (rule foc_step_body_ok)
  moreover have cfg: "pid_config (sf_speed c') = pid_config (sf_speed c)" using p c' by simp
  ultimately show "speed_inv V c'" using inv by (simp add: speed_inv_def)
  show "sint (fv_field V (pc_lower (pid_config (sf_speed c)))) \<le> sint (fv_field V (dq_q (sfo_reference out)))
      \<and> sint (fv_field V (dq_q (sfo_reference out))) \<le> sint (fv_field V (pc_upper (pid_config (sf_speed c))))"
    using p r by simp
  show "pid_config (sf_speed c') = pid_config (sf_speed c) \<and> foc_config (sf_current c') = foc_config (sf_current c)"
    using cfg f by simp
qed

lemma speed_init_inv:
  assumes "speed_foc_init V (Some old) (Some cfg) = (LINEARS_OK, Some c)"
  shows "speed_inv V c"
proof -
  have npairs: "sfc_pole_pairs cfg \<noteq> 0" using assms by (auto simp: speed_foc_init_def)
  from assms obtain n lower initial where
    n: "ok_run (fcq_neg (fv_field V (sfc_current_limit cfg))) n" "ok_run (fv_store V n) lower"
    and foc: "foc_init V (Some (sf_current old)) (Some (sfc_current cfg)) = (LINEARS_OK, Some (sf_current c))"
    and pid: "pid_init V (Some (sf_speed old)) (Some
              \<lparr>pc_kp = sfc_kp cfg, pc_ki = sfc_ki cfg, pc_kd = 0, pc_lower = lower, pc_upper = sfc_current_limit cfg,
               pc_options = 0, pc_derivative = 0, pc_derivative_filter = 0, pc_setpoint_weight = 0,
               pc_integral_lower = fv_zero V, pc_integral_upper = fv_zero V, pc_separation = fv_zero V\<rparr>) initial = (LINEARS_OK, Some (sf_speed c))"
    using npairs unfolding speed_foc_init_def by (auto simp: fc_commit_ok ok_zero ok_fc_op_cell ok_pid_init)
  have "pid_config (sf_speed c) = \<lparr>pc_kp = sfc_kp cfg, pc_ki = sfc_ki cfg, pc_kd = 0, pc_lower = lower, pc_upper = sfc_current_limit cfg,
               pc_options = 0, pc_derivative = 0, pc_derivative_filter = 0, pc_setpoint_weight = 0,
               pc_integral_lower = fv_zero V, pc_integral_upper = fv_zero V, pc_separation = fv_zero V\<rparr>"
    using pid unfolding pid_init_def option.case fc_commit_ok by (auto split: prod.splits)
  moreover have "0 < sint (fv_field V (fcf_voltage_limit (foc_config (sf_current c))))"
    using foc_reachable_config [OF foc_reachable.init [OF foc]] by blast
  ultimately show ?thesis using pid_init_ok [OF pid] n by (auto simp: speed_inv_def ok_fcq_neg)
qed

lemma speed_reachable_inv: "speed_reachable V c \<Longrightarrow> speed_inv V c"
  by (induction rule: speed_reachable.induct) (auto intro: speed_init_inv speed_step_inv(1))

end

section \<open>Properties\<close>

lemma sint_ucast_u32: "sint (ucast p :: i64) = uint p" for p :: u32
  using uint_lt2p [of p] by (simp add: sint_uint unsigned_ucast_eq signed_take_bit_int_eq_self take_bit_int_eq_self)

text \<open>
  C35: the cascade of speed and current loop in q15. For every controller reached by successful calls a
  successful step hands the current loop a torque-current reference within plus and minus the
  configured current limit and a zero flux reference, and the applied voltage stays within its limit.
  When the voltage is saturated in the direction of the speed error, which is the reference minus the
  electrical speed divided by the pole pairs, the speed integral is left unchanged.
\<close>

theorem speed_cascade_limits:
  assumes "speed_reachable fc_q15 c"
    and "speed_foc_step fc_q15 ov (Some c) i ref es ang bus dt (Some old) = (LINEARS_OK, Some c', Some out)"
  shows "dq_d (sfo_reference out) = 0
    \<and> \<bar>sint (dq_q (sfo_reference out))\<bar> \<le> sint (pc_upper (pid_config (sf_speed c)))
    \<and> \<bar>sint (dq_d (fo_voltage (sfo_current out)))\<bar> \<le> sint (fcf_voltage_limit (foc_config (sf_current c)))
    \<and> \<bar>sint (dq_q (fo_voltage (sfo_current out)))\<bar> \<le> sint (fcf_voltage_limit (foc_config (sf_current c)))
    \<and> (fo_saturated (sfo_current out)
        \<and> 0 < (sint ref * 65536 - round_away (sint es * 65536) (uint (sf_pole_pairs c)))
            * (sint (dq_q (fo_requested_voltage (sfo_current out))) - sint (dq_q (fo_voltage (sfo_current out))) * 65536)
        \<longrightarrow> pid_integral (sf_speed c') = pid_integral (sf_speed c))"
proof -
  let ?u = "pc_upper (pid_config (sf_speed c))" and ?l = "pc_lower (pid_config (sf_speed c))"
  have inv: "speed_inv fc_q15 c" using q15.speed_reachable_inv [OF assms(1)] .
  from assms(2) obtain m sp command integral z e pairs where
    err: "ok_run (fcq_i (ucast (sf_pole_pairs c))) pairs" "ok_run (fcq_div (fv_field fc_q15 es) pairs) m" "ok_run (fcq_sub (fv_field fc_q15 ref) m) e"
    and pid: "ok_run (pid_step_work fc_q15 (sf_speed c) (fv_field fc_q15 ref) m (fv_field fc_q15 dt)) (sp, command)"
    and foc: "ok_run (foc_step_body fc_q15 (sf_current c) i (sfo_reference out) ang bus dt) (sf_current c', sfo_current out)"
    and int: "sf_speed c' = sp\<lparr>pid_integral := integral\<rparr>" "ok_run (speed_foc_integral fc_q15 (sf_speed c) sp e (sfo_current out)) integral"
    and ref: "sfo_reference out = \<lparr>dq_d = z, dq_q = po_output command\<rparr>" "ok_run (fv_store fc_q15 0) z" by (rule q15.speed_foc_step_ok)
  have zero: "dq_d (sfo_reference out) = 0" using ref by (simp add: q15_foc_format ok_fcq15_store q15_result_iff round_away_def sint_0_iff)
  have "sint ?l = - sint ?u"
    using inv i16_range [of ?u] i16_range [of ?l] q15.pid_wf_bounds [of "sf_speed c"] round_away_exact [of "2 ^ 16" "- sint ?u"]
    by (auto simp: speed_inv_def q15_foc_format ok_fcq15_store q15_result_iff)
  then have lim: "\<bar>sint (dq_q (sfo_reference out))\<bar> \<le> sint ?u"
    using q15.speed_step_inv(2) [OF inv assms(2)] by (auto simp: q15_foc_format)
  have lim0: "0 \<le> sint (fv_field fc_q15 (fcf_voltage_limit (foc_config (sf_current c))))" using inv by (simp add: speed_inv_def)
  obtain x y where v: "ok_run (fcq15_store x) (dq_d (fo_voltage (sfo_current out)))" "ok_run (fcq15_store y) (dq_q (fo_voltage (sfo_current out)))"
    "\<bar>sint x\<bar> \<le> sint (fcf_voltage_limit (foc_config (sf_current c))) * 65536" "\<bar>sint y\<bar> \<le> sint (fcf_voltage_limit (foc_config (sf_current c))) * 65536"
    using q15.foc_step_limits(1) [OF foc lim0] unfolding q15_foc_format by blast
  have volt: "\<bar>sint (dq_d (fo_voltage (sfo_current out)))\<bar> \<le> sint (fcf_voltage_limit (foc_config (sf_current c)))"
    "\<bar>sint (dq_q (fo_voltage (sfo_current out)))\<bar> \<le> sint (fcf_voltage_limit (foc_config (sf_current c)))"
    using v i16_range q15_store_within by blast+
  have "0 < uint (sf_pole_pairs c)" using err(1,2) by (auto simp: ok_fcq_i ok_fcq_div sint_ucast_u32 sint_0_iff [symmetric] order_less_le)
  then have "sint e = sint ref * 65536 - round_away (sint es * 65536) (uint (sf_pole_pairs c))"
    using err round_away_scale [of "2 ^ 31" "uint (sf_pole_pairs c)" "sint es * 65536"]
    by (simp add: ok_fcq_i ok_fcq_div ok_fcq_sub sint_ucast_u32 q15_foc_format mult.commute)
  with zero lim volt int q15.speed_foc_integral_ok(2) [OF int(2)] show ?thesis by (simp add: q15_foc_format)
qed

definition speed_example :: "linears_q15_t speed_foc" where
  "speed_example = \<lparr>sf_current = foc_example,
     sf_speed = \<lparr>pid_config = \<lparr>pc_kp = 0x80000000, pc_ki = 0x80000000, pc_kd = 0, pc_lower = - 1000, pc_upper = 1000, pc_options = 0,
         pc_derivative = 0, pc_derivative_filter = 0, pc_setpoint_weight = 0, pc_integral_lower = 0, pc_integral_upper = 0, pc_separation = 0\<rparr>,
       pid_integral = 0, pid_previous_error = 0, pid_previous_measurement = 0, pid_derivative = 0, pid_cached_dt = 0,
       pid_integral_step = 0, pid_derivative_gain = 0, pid_filter_weight = 0, pid_history = False\<rparr>,
     sf_pole_pairs = 4\<rparr>"

lemma speed_example_reachable: "speed_reachable fc_q15 speed_example"
proof (rule speed_reachable.init)
  show "speed_foc_init fc_q15 (Some speed_example) (Some \<lparr>sfc_current = foc_config foc_example, sfc_kp = 0x80000000, sfc_ki = 0x80000000,
      sfc_current_limit = 1000, sfc_pole_pairs = 4\<rparr>) = (LINEARS_OK, Some speed_example)" by code_simp
qed

lemma speed_example_pid:
  "case run_state (pid_step_work fc_q15 (sf_speed speed_example) 0 0 (linears_fixed_from_q15 100)) LINEARS_OK of
     ((sp, command), s) \<Rightarrow> s = LINEARS_OK \<and> po_output command = 0"
  by code_simp

text \<open>With nothing to regulate the current loop is not saturated.\<close>

lemma speed_example_foc:
  "\<exists>c' out. ok_run (foc_step_body fc_q15 foc_example \<lparr>ab_alpha = 0, ab_beta = 0\<rparr> \<lparr>dq_d = 0, dq_q = 0\<rparr> 0 16384 100) (c', out) \<and> \<not> fo_saturated out"
proof -
  have p: "ok_run (park_body fc_q15 \<lparr>ab_alpha = 0, ab_beta = 0\<rparr> 0) \<lparr>dq_d = 0, dq_q = 0\<rparr>"
    "ok_run (inverse_park_body fc_q15 \<lparr>dq_d = 0, dq_q = 0\<rparr> 0) \<lparr>ab_alpha = 0, ab_beta = 0\<rparr>"
    "ok_run (foc_regulate fc_q15 foc_example \<lparr>dq_d = 0, dq_q = 0\<rparr> \<lparr>dq_d = 0, dq_q = 0\<rparr> (linears_fixed_from_q15 100))
       (\<lparr>dq_d = 0, dq_q = 0\<rparr>, \<lparr>dq_d = 0, dq_q = 0\<rparr>, \<lparr>dq_d = 0, dq_q = 0\<rparr>, \<lparr>dq_d = 0, dq_q = 0\<rparr>)"
    by (simp_all add: park_body_def inverse_park_body_def foc_regulate_def q15_run_simps ok_sincos_zero fc_eval foc_example_def)
  have r: "ok_run (foc_limit_request \<lparr>dq_d = 0, dq_q = 0\<rparr> 0 0 \<lparr>dq_d = 0, dq_q = 0\<rparr> 0 0 0 0 196608000)
     (\<lparr>dq_d = 0, dq_q = 0\<rparr>, \<lparr>dq_d = 0, dq_q = 0\<rparr>, \<lparr>dq_d = 0, dq_q = 0\<rparr>, False)"
    by (simp add: foc_limit_request_def foc_radial_limit_def fcq_hypot_def fc_eval) blast
  obtain d where d: "ok_run (svpwm_body fc_q15 \<lparr>ab_alpha = 0, ab_beta = 0\<rparr> 16384) d" using svpwm_q15_total by fastforce
  have cfg: "fcf_voltage_limit (foc_config foc_example) = 3000" "foc_integral foc_example = \<lparr>dq_d = 0, dq_q = 0\<rparr>"
      "linears_fixed_from_q15 3000 = 196608000"
    by (simp_all add: foc_example_def sint_inject [symmetric] q15_field)
  have "ok_run (foc_step_body fc_q15 foc_example \<lparr>ab_alpha = 0, ab_beta = 0\<rparr> \<lparr>dq_d = 0, dq_q = 0\<rparr> 0 16384 100)
      (foc_example, \<lparr>fo_current = \<lparr>dq_d = 0, dq_q = 0\<rparr>, fo_requested_voltage = \<lparr>dq_d = 0, dq_q = 0\<rparr>,
        fo_voltage = \<lparr>dq_d = 0, dq_q = 0\<rparr>, fo_stationary_voltage = \<lparr>ab_alpha = 0, ab_beta = 0\<rparr>, fo_duty = d, fo_saturated = False\<rparr>)"
    unfolding foc_step_body_def Let_def
    by (simp add: q15_run_simps p [THEN ok_run_iff] r [THEN ok_run_iff] d [THEN ok_run_iff] cfg fc_eval) blast
  then show ?thesis by fastforce
qed

definition speed_example_output :: "linears_q15_t speed_foc_output" where
  "speed_example_output = \<lparr>sfo_current = foc_example_output, sfo_reference = \<lparr>dq_d = 0, dq_q = 0\<rparr>, sfo_mechanical_speed = 0\<rparr>"

lemma speed_example_step:
  "\<exists>c' out. speed_foc_step fc_q15 False (Some speed_example) \<lparr>ab_alpha = 0, ab_beta = 0\<rparr> 0 0 0 16384 100 (Some speed_example_output)
     = (LINEARS_OK, Some c', Some out)"
proof -
  obtain sp command where pid: "ok_run (pid_step_work fc_q15 (sf_speed speed_example) 0 0 (linears_fixed_from_q15 100)) (sp, command)"
    and cmd: "po_output command = 0" using speed_example_pid by (auto simp: ok_run_def split: prod.splits)
  obtain cc out where foc: "ok_run (foc_step_body fc_q15 foc_example \<lparr>ab_alpha = 0, ab_beta = 0\<rparr> \<lparr>dq_d = 0, dq_q = 0\<rparr> 0 16384 100) (cc, out)"
    and ns: "\<not> fo_saturated out" using speed_example_foc by blast
  have ex: "sf_current speed_example = foc_example" "sf_pole_pairs speed_example = 4" "linears_fixed_from_q15 0 = 0"
    by (simp_all add: speed_example_def sint_inject [symmetric] q15_field)
  show ?thesis
    unfolding speed_foc_step_def fc_commit2_ok Let_def
    by (simp add: q15_run_simps ex cmd pid [THEN ok_run_iff] foc [THEN ok_run_iff] speed_foc_integral_def ns fc_eval)
qed

theorem speed_cascade_limits_witness:
  "\<exists>c' out. speed_foc_step fc_q15 False (Some speed_example) \<lparr>ab_alpha = 0, ab_beta = 0\<rparr> 0 0 0 16384 100 (Some speed_example_output)
      = (LINEARS_OK, Some c', Some out)
    \<and> \<bar>sint (dq_q (sfo_reference out))\<bar> \<le> 1000 \<and> \<bar>sint (dq_q (fo_voltage (sfo_current out)))\<bar> \<le> 3000"
proof -
  obtain c' out where s: "speed_foc_step fc_q15 False (Some speed_example) \<lparr>ab_alpha = 0, ab_beta = 0\<rparr> 0 0 0 16384 100 (Some speed_example_output)
      = (LINEARS_OK, Some c', Some out)" using speed_example_step by blast
  from speed_cascade_limits [OF speed_example_reachable s] s show ?thesis
    by (intro exI [of _ c'] exI [of _ out]) (simp add: speed_example_def foc_example_def)
qed

end
