(* ===== verification/Fc_Dtc.thy ===== *)
theory Fc_Dtc
  imports Fc_Base
begin

text \<open>
  Model of \<open>libs/fieldctrl/src/dtc.c\<close> and of the fixed-point instantiations of \<open>dtc_impl.h\<close>: direct
  torque control with a voltage-model flux estimator, hysteresis comparators and a switching table.
\<close>

section \<open>Data\<close>

record 't dtc_config =
  dcf_resistance :: 't
  dcf_flux_band :: 't
  dcf_torque_band :: 't
  dcf_pole_pairs :: u16

record 't dtc =
  dtc_config :: "'t dtc_config"
  dtc_flux_alpha :: linears_fixed_t
  dtc_flux_beta :: linears_fixed_t
  dtc_flux_state :: i8
  dtc_torque_state :: i8
  dtc_last_switch :: u8

record 't dtc_result =
  dr_stator_flux :: "'t ab"
  dr_flux_magnitude :: 't
  dr_torque :: 't
  dr_sector :: u8
  dr_switch_state :: u8
  dr_flux_state :: i8
  dr_torque_state :: i8

section \<open>Switching\<close>

definition dtc_active_table :: "u8 list list list" where
  "dtc_active_table =
     [[[1, 5, 4, 6, 2, 3], [2, 3, 1, 5, 4, 6]],
      [[5, 4, 6, 2, 3, 1], [6, 2, 3, 1, 5, 4]]]"

definition dtc_zero_state :: "u8 \<Rightarrow> u8" where
  "dtc_zero_state previous =
     (let ones = (ucast previous AND 1 :: u32) + (shr (ucast previous) 1 AND 1) + (shr (ucast previous) 2 AND 1)
      in if 2 \<le> ones then 7 else 0)"

text \<open>The early returns leave the status of the caller as it is.\<close>

definition dtc_sector :: "linears_fixed_t \<Rightarrow> linears_fixed_t \<Rightarrow> u8 fc" where
  "dtc_sector alpha beta = do {
     zero \<leftarrow> fcq_i 0;
     let sx = fcq_cmp alpha zero;
     let sy = fcq_cmp beta zero;
     if sy = 0 then State_Monad.return (if 0 < sx then 1 else 4)
     else if sx = 0 then State_Monad.return (if 0 < sy then 3 else 6)
     else do {
       abs_alpha \<leftarrow> fcq_abs alpha;
       abs_beta \<leftarrow> fcq_abs beta;
       slope_compare \<leftarrow>
         (if 0 \<le> fcq_cmp abs_beta abs_alpha then State_Monad.return 1
          else do {
            slope \<leftarrow> fcq_div abs_beta abs_alpha;
            three \<leftarrow> fcq_i 3;
            root3 \<leftarrow> fcq_sqrt three;
            one \<leftarrow> fcq_i 1;
            threshold \<leftarrow> fcq_div one root3;
            State_Monad.return (fcq_cmp slope threshold)
          });
       State_Monad.return
         (if 0 < sx
          then (if 0 < sy then (if slope_compare < 0 then 1 else 2) else (if 0 < slope_compare then 6 else 1))
          else (if 0 < sy then (if 0 < slope_compare then 3 else 4) else (if slope_compare < 0 then 4 else 5)))
     }
   }"

text \<open>The flux comparator with memory, and the three-level torque comparator.\<close>

definition dtc_flux_decision :: "i8 \<Rightarrow> linears_fixed_t \<Rightarrow> linears_fixed_t \<Rightarrow> linears_fixed_t \<Rightarrow> i8" where
  "dtc_flux_decision previous flux_error band negative_band =
     (if 0 \<le> fcq_cmp flux_error band then 1
      else if fcq_cmp flux_error negative_band \<le> 0 then - 1
      else previous)"

definition dtc_torque_decision :: "i8 \<Rightarrow> linears_fixed_t \<Rightarrow> linears_fixed_t \<Rightarrow> linears_fixed_t \<Rightarrow> linears_fixed_t \<Rightarrow> i8" where
  "dtc_torque_decision previous torque_error band negative_band zero =
     (if 0 \<le> fcq_cmp torque_error band then 1
      else if fcq_cmp torque_error negative_band \<le> 0 then - 1
      else if previous = 1 \<and> 0 < fcq_cmp torque_error zero then 1
      else if previous = - 1 \<and> fcq_cmp torque_error zero < 0 then - 1
      else 0)"

definition dtc_switch :: "u8 \<Rightarrow> i8 \<Rightarrow> i8 \<Rightarrow> u8 \<Rightarrow> u8" where
  "dtc_switch last_switch flux_state torque_state sector =
     (if torque_state = 0 then dtc_zero_state last_switch
      else dtc_active_table ! (if 0 <s flux_state then 1 else 0) ! (if 0 <s torque_state then 1 else 0) ! unat (sector - 1))"

section \<open>Operations\<close>

definition dtc_init :: "'t fc_format \<Rightarrow> 't dtc ptr \<Rightarrow> 't dtc_config \<Rightarrow> 't ab \<Rightarrow> linears_status_t \<times> 't dtc ptr" where
  "dtc_init V ctx config initial_flux = fc_commit ctx (do {
     r \<leftarrow> FC_LOAD V (dcf_resistance config);
     fb \<leftarrow> FC_LOAD V (dcf_flux_band config);
     tb \<leftarrow> FC_LOAD V (dcf_torque_band config);
     alpha \<leftarrow> FC_LOAD V (ab_alpha initial_flux);
     beta \<leftarrow> FC_LOAD V (ab_beta initial_flux);
     zero \<leftarrow> fcq_i 0;
     fc_fail_if (dcf_pole_pairs config = 0 \<or> fcq_cmp r zero < 0 \<or> fcq_cmp fb zero \<le> 0 \<or> fcq_cmp tb zero \<le> 0)
       LINEARS_ERROR_ARGUMENT;
     fc_fail_if (fcq_cmp alpha zero = 0 \<and> fcq_cmp beta zero = 0) LINEARS_ERROR_DOMAIN;
     State_Monad.return \<lparr>dtc_config = config, dtc_flux_alpha = alpha, dtc_flux_beta = beta, dtc_flux_state = 1,
       dtc_torque_state = 0, dtc_last_switch = 0\<rparr>
   })"

text \<open>One axis of the voltage model: \<open>flux + dt * (v - r * i)\<close>.\<close>

definition dtc_integrate ::
  "linears_fixed_t \<Rightarrow> linears_fixed_t \<Rightarrow> linears_fixed_t \<Rightarrow> linears_fixed_t \<Rightarrow> linears_fixed_t \<Rightarrow> linears_fixed_t fc" where
  "dtc_integrate flux r i v interval = do {
     drop_v \<leftarrow> fcq_mul r i;
     net \<leftarrow> fcq_sub v drop_v;
     delta \<leftarrow> fcq_mul interval net;
     fcq_add flux delta
   }"

definition dtc_step_body ::
  "'t fc_format \<Rightarrow> 't dtc \<Rightarrow> 't ab \<Rightarrow> 't ab \<Rightarrow> 't \<Rightarrow> 't \<Rightarrow> 't \<Rightarrow> ('t dtc \<times> 't dtc_result) fc" where
  "dtc_step_body V ctx current applied_voltage flux_reference torque_reference dt = do {
     let config = dtc_config ctx;
     r \<leftarrow> FC_LOAD V (dcf_resistance config);
     fb \<leftarrow> FC_LOAD V (dcf_flux_band config);
     tb \<leftarrow> FC_LOAD V (dcf_torque_band config);
     flux_ref \<leftarrow> FC_LOAD V flux_reference;
     torque_ref \<leftarrow> FC_LOAD V torque_reference;
     interval \<leftarrow> FC_LOAD V dt;
     ia \<leftarrow> FC_LOAD V (ab_alpha current);
     ib \<leftarrow> FC_LOAD V (ab_beta current);
     va \<leftarrow> FC_LOAD V (ab_alpha applied_voltage);
     vb \<leftarrow> FC_LOAD V (ab_beta applied_voltage);
     zero \<leftarrow> fcq_i 0;
     fc_fail_if (fcq_cmp flux_ref fb \<le> 0 \<or> fcq_cmp interval zero \<le> 0) LINEARS_ERROR_ARGUMENT;
     alpha \<leftarrow> dtc_integrate (dtc_flux_alpha ctx) r ia va interval;
     beta \<leftarrow> dtc_integrate (dtc_flux_beta ctx) r ib vb interval;
     fc_fail_if (fcq_cmp alpha zero = 0 \<and> fcq_cmp beta zero = 0) LINEARS_ERROR_DOMAIN;
     magnitude \<leftarrow> fcq_hypot alpha beta;
     cross_a \<leftarrow> fcq_mul alpha ib;
     cross_b \<leftarrow> fcq_mul beta ia;
     cross \<leftarrow> fcq_sub cross_a cross_b;
     three_halves \<leftarrow> FC_RATIO 3 2;
     pairs \<leftarrow> fcq_i (ucast (dcf_pole_pairs config));
     gain \<leftarrow> fcq_mul three_halves pairs;
     torque \<leftarrow> fcq_mul gain cross;
     flux_error \<leftarrow> fcq_sub flux_ref magnitude;
     torque_error \<leftarrow> fcq_sub torque_ref torque;
     negative_fb \<leftarrow> fcq_neg fb;
     let flux_state = dtc_flux_decision (dtc_flux_state ctx) flux_error fb negative_fb;
     negative_tb \<leftarrow> fcq_neg tb;
     let torque_state = dtc_torque_decision (dtc_torque_state ctx) torque_error tb negative_tb zero;
     sector \<leftarrow> dtc_sector alpha beta;
     let switch_state = dtc_switch (dtc_last_switch ctx) flux_state torque_state sector;
     flux_a \<leftarrow> fv_store V alpha;
     flux_b \<leftarrow> fv_store V beta;
     magnitude_out \<leftarrow> fv_store V magnitude;
     torque_out \<leftarrow> fv_store V torque;
     State_Monad.return
       (ctx\<lparr>dtc_flux_alpha := alpha, dtc_flux_beta := beta, dtc_flux_state := flux_state,
          dtc_torque_state := torque_state, dtc_last_switch := switch_state\<rparr>,
        \<lparr>dr_stator_flux = \<lparr>ab_alpha = flux_a, ab_beta = flux_b\<rparr>, dr_flux_magnitude = magnitude_out,
         dr_torque = torque_out, dr_sector = sector, dr_switch_state = switch_state,
         dr_flux_state = flux_state, dr_torque_state = torque_state\<rparr>)
   }"

definition dtc_step ::
  "'t fc_format \<Rightarrow> bool \<Rightarrow> 't dtc ptr \<Rightarrow> 't ab \<Rightarrow> 't ab \<Rightarrow> 't \<Rightarrow> 't \<Rightarrow> 't \<Rightarrow> 't dtc_result ptr
    \<Rightarrow> linears_status_t \<times> 't dtc ptr \<times> 't dtc_result ptr" where
  "dtc_step V overlap ctx current applied_voltage flux_reference torque_reference dt out =
     fc_commit2 ctx out overlap (\<lambda>c. dtc_step_body V c current applied_voltage flux_reference torque_reference dt)"

end
