(* ===== verification/Fc_Dtc_Props.thy ===== *)
theory Fc_Dtc_Props
  imports Fc_Dtc Fc_Base_Props
begin

text \<open>
  Direct torque control: the comparators and the switch stay in their ranges, and the selected
  voltage vector moves flux and torque in the demanded directions.
\<close>

section \<open>Runs\<close>

lemma sticky_dtc [simp]: "sticky (dtc_sector a b)" "sticky (dtc_integrate f r i v t)"
  by (simp_all add: dtc_sector_def dtc_integrate_def Let_def)

lemma dtc_sector_range:
  assumes "ok_run (dtc_sector a b) s"
  shows "s \<in> {1, 2, 3, 4, 5, 6}"
  using assms unfolding dtc_sector_def by (auto simp: Let_def split: if_splits)

text \<open>The threshold of the slope comparison, \<open>1 / sqrt 3\<close> in units of \<open>2 ^ -31\<close>.\<close>

lemma slope_threshold:
  assumes "ok_run (fcq_i 3) three" "ok_run (fcq_sqrt three) root3" "ok_run (fcq_i 1) one" "ok_run (fcq_div one root3) t"
  shows "sint t = 1239850262"
proof -
  have "sint root3 = 3719550787" using assms(1,2) by (rule root3_value)
  then show ?thesis using assms(3,4) by (simp add: ok_fcq_i ok_fcq_div round_away_def round_half_def)
qed

lemma slope_region:
  assumes "ok_run (fcq_abs alpha) aa" "ok_run (fcq_abs beta) ab" "ok_run (fcq_div ab aa) slope"
  shows "\<bar>2 * \<bar>sint alpha\<bar> * sint slope - 2 ^ 32 * \<bar>sint beta\<bar>\<bar> \<le> \<bar>sint alpha\<bar>"
proof -
  have "0 < \<bar>sint alpha\<bar>" "sint slope = round_away (\<bar>sint beta\<bar> * 2 ^ 31) \<bar>sint alpha\<bar>"
    using assms by (auto simp: ok_fcq_abs ok_fcq_div sint_inject [symmetric])
  then show ?thesis using round_away_dist [of "\<bar>sint alpha\<bar>" "\<bar>sint beta\<bar> * 2 ^ 31"] by (simp add: algebra_simps abs_if split: if_splits)
qed

text \<open>
  Where the flux lies when a sector is reported: within thirty degrees of the axis of the
  sector, up to the rounding of the slope and of its threshold.
\<close>

definition near_axis :: "int \<Rightarrow> int \<Rightarrow> bool" where
  "near_axis a b \<longleftrightarrow> 2 ^ 32 * \<bar>b\<bar> \<le> 2479700525 * \<bar>a\<bar>"

definition off_axis :: "int \<Rightarrow> int \<Rightarrow> bool" where
  "off_axis a b \<longleftrightarrow> 2479700523 * \<bar>a\<bar> \<le> 2 ^ 32 * \<bar>b\<bar>"

text \<open>The comparison of the slope inside \<open>dtc_sector\<close>.\<close>

definition dtc_slope :: "linears_fixed_t \<Rightarrow> linears_fixed_t \<Rightarrow> int fc" where
  "dtc_slope aa ab = (if 0 \<le> fcq_cmp ab aa then State_Monad.return 1
     else do {
       slope \<leftarrow> fcq_div ab aa;
       three \<leftarrow> fcq_i 3;
       root3 \<leftarrow> fcq_sqrt three;
       one \<leftarrow> fcq_i 1;
       threshold \<leftarrow> fcq_div one root3;
       State_Monad.return (fcq_cmp slope threshold)
     })"

lemma sticky_slope [simp]: "sticky (dtc_slope aa ab)"
  by (simp add: dtc_slope_def)

lemma slope_decision:
  assumes "ok_run (fcq_abs alpha) aa" "ok_run (fcq_abs beta) ab" "sint alpha \<noteq> 0" "ok_run (dtc_slope aa ab) c"
  shows "c \<le> 0 \<Longrightarrow> near_axis (sint alpha) (sint beta)" "0 \<le> c \<Longrightarrow> off_axis (sint alpha) (sint beta)"
proof -
  note run = assms(4) [unfolded dtc_slope_def]
  have ab: "sint aa = \<bar>sint alpha\<bar>" "sint ab = \<bar>sint beta\<bar>" using assms(1,2) by (simp_all add: ok_fcq_abs)
  have "(c \<le> 0 \<longrightarrow> near_axis (sint alpha) (sint beta)) \<and> (0 \<le> c \<longrightarrow> off_axis (sint alpha) (sint beta))"
  proof (cases "\<bar>sint alpha\<bar> \<le> \<bar>sint beta\<bar>")
    case True
    with run ab have "c = 1" by simp
    with True show ?thesis by (simp add: off_axis_def)
  next
    case False
    with run ab obtain slope three root3 one t where st: "ok_run (fcq_div ab aa) slope" "ok_run (fcq_i 3) three" "ok_run (fcq_sqrt three) root3"
      "ok_run (fcq_i 1) one" "ok_run (fcq_div one root3) t" and c: "c = fcq_cmp slope t" by auto
    have t: "sint t = 1239850262" using st(2-5) by (rule slope_threshold)
    note reg = slope_region [OF assms(1,2) st(1)]
    have "\<bar>sint alpha\<bar> * sint slope \<le> \<bar>sint alpha\<bar> * 1239850262" if "c \<le> 0"
      using that t unfolding c by (intro mult_left_mono) simp_all
    moreover have "\<bar>sint alpha\<bar> * 1239850262 \<le> \<bar>sint alpha\<bar> * sint slope" if "0 \<le> c"
      using that t unfolding c by (intro mult_left_mono) simp_all
    ultimately show ?thesis using reg unfolding near_axis_def off_axis_def by (auto simp: abs_le_iff)
  qed
  then show "c \<le> 0 \<Longrightarrow> near_axis (sint alpha) (sint beta)" "0 \<le> c \<Longrightarrow> off_axis (sint alpha) (sint beta)" by simp_all
qed

definition in_sector :: "u8 \<Rightarrow> int \<Rightarrow> int \<Rightarrow> bool" where
  "in_sector s a b \<longleftrightarrow> (s = 1 \<and> 0 < a \<and> near_axis a b) \<or> (s = 2 \<and> 0 \<le> a \<and> 0 < b \<and> off_axis a b)
    \<or> (s = 3 \<and> a \<le> 0 \<and> 0 < b \<and> off_axis a b) \<or> (s = 4 \<and> a < 0 \<and> near_axis a b)
    \<or> (s = 5 \<and> a \<le> 0 \<and> b < 0 \<and> off_axis a b) \<or> (s = 6 \<and> 0 \<le> a \<and> b < 0 \<and> off_axis a b)"

lemma dtc_sector_region:
  assumes "ok_run (dtc_sector alpha beta) s" "\<not> (alpha = 0 \<and> beta = 0)"
  shows "in_sector s (sint alpha) (sint beta)"
proof (cases "sint alpha = 0 \<or> sint beta = 0")
  case True
  with assms show ?thesis unfolding in_sector_def
    by (auto simp: dtc_sector_def Let_def ok_zero near_axis_def off_axis_def sint_inject [symmetric] split: if_splits)
next
  case False
  then have "alpha \<noteq> 0" "beta \<noteq> 0" by auto
  with assms(1) obtain aa ab c where run: "ok_run (fcq_abs alpha) aa" "ok_run (fcq_abs beta) ab"
    "ok_run (dtc_slope aa ab) c"
    and s: "s = (if 0 < sint alpha
          then (if 0 < sint beta then (if c < 0 then 1 else 2) else (if 0 < c then 6 else 1))
          else (if 0 < sint beta then (if 0 < c then 3 else 4) else (if c < 0 then 4 else 5)))"
    unfolding dtc_sector_def Let_def dtc_slope_def [symmetric] by (auto simp: ok_zero)
  from False have "sint alpha \<noteq> 0" by simp
  note d = slope_decision [OF run(1,2) this run(3)]
  show ?thesis unfolding in_sector_def using False d s by (auto simp: not_less split: if_splits)
qed

inductive dtc_reachable :: "'t fc_format \<Rightarrow> 't dtc \<Rightarrow> bool" for V where
  init: "dtc_init V (Some old) config flux = (LINEARS_OK, Some c) \<Longrightarrow> dtc_reachable V c"
| step: "dtc_reachable V c \<Longrightarrow> dtc_step V ov (Some c) i v fr tr dt (Some old) = (LINEARS_OK, Some c', Some r)
    \<Longrightarrow> dtc_reachable V c'"

definition dtc_inv :: "'t dtc \<Rightarrow> bool" where
  "dtc_inv c \<longleftrightarrow> dtc_flux_state c \<in> {1, - 1} \<and> dtc_torque_state c \<in> {- 1, 0, 1} \<and> unat (dtc_last_switch c) \<le> 7
     \<and> \<not> (dtc_flux_alpha c = 0 \<and> dtc_flux_beta c = 0)"

text \<open>The switching pattern of the active vector at the centre of a sector, upper switches \<open>a b c\<close> in bits 2, 1, 0.\<close>

definition sector_pattern :: "nat \<Rightarrow> u8" where
  "sector_pattern s = [4, 6, 2, 3, 1, 5] ! ((s - 1) mod 6)"

text \<open>The stationary components of a pattern, up to the positive factors \<open>1/3\<close> and \<open>1/sqrt 3\<close>.\<close>

definition leg :: "u8 \<Rightarrow> nat \<Rightarrow> int" where
  "leg p k = of_bool (bit p k)"

definition pattern_alpha :: "u8 \<Rightarrow> int" where
  "pattern_alpha p = 2 * leg p 2 - leg p 1 - leg p 0"

definition pattern_beta :: "u8 \<Rightarrow> int" where
  "pattern_beta p = leg p 1 - leg p 0"

definition radial :: "u8 \<Rightarrow> u8 \<Rightarrow> int" where
  "radial p v = pattern_alpha p * pattern_alpha v + 3 * (pattern_beta p * pattern_beta v)"

definition tangential :: "u8 \<Rightarrow> u8 \<Rightarrow> int" where
  "tangential p v = pattern_alpha p * pattern_beta v - pattern_beta p * pattern_alpha v"

lemma pattern_values:
  "pattern_alpha 1 = - 1" "pattern_alpha 2 = - 1" "pattern_alpha 3 = - 2" "pattern_alpha 4 = 2" "pattern_alpha 5 = 1" "pattern_alpha 6 = 1"
  "pattern_beta 1 = - 1" "pattern_beta 2 = 1" "pattern_beta 3 = 0" "pattern_beta 4 = 0" "pattern_beta 5 = - 1" "pattern_beta 6 = 1"
  by (simp_all add: pattern_alpha_def pattern_beta_def leg_def)

lemma sector_patterns:
  "sector_pattern (Suc 0) = 4" "sector_pattern 2 = 6" "sector_pattern 3 = 2" "sector_pattern 4 = 3" "sector_pattern 5 = 1" "sector_pattern 6 = 5"
  by (simp_all add: sector_pattern_def)

lemma switch_active:
  "dtc_switch l 1 1 s = [6, 2, 3, 1, 5, 4] ! unat (s - 1)" "dtc_switch l 1 (- 1) s = [5, 4, 6, 2, 3, 1] ! unat (s - 1)"
  "dtc_switch l (- 1) 1 s = [2, 3, 1, 5, 4, 6] ! unat (s - 1)" "dtc_switch l (- 1) (- 1) s = [1, 5, 4, 6, 2, 3] ! unat (s - 1)"
  by (simp_all add: dtc_switch_def dtc_active_table_def word_sless_alt)

lemma active_vector_effect:
  assumes "s \<in> {1, 2, 3, 4, 5, 6}" "fs \<in> {1, - 1}" "ts \<in> {1, - 1}"
  shows "sgn (radial (sector_pattern (unat s)) (dtc_switch l fs ts s)) = sint fs
    \<and> sgn (tangential (sector_pattern (unat s)) (dtc_switch l fs ts s)) = sint ts
    \<and> unat (dtc_switch l fs ts s) \<le> 7"
proof -
  have sg: "sint (1 :: i8) = 1" "sint (- 1 :: i8) = - 1" by simp_all
  from assms(2) consider "fs = 1" | "fs = - 1" by blast
  then show ?thesis
  proof cases
    case 1
    show ?thesis using assms(1,3) unfolding 1
      by (elim insertE emptyE; simp add: switch_active sector_patterns pattern_values radial_def tangential_def)
  next
    case 2
    show ?thesis using assms(1,3) unfolding 2
      by (elim insertE emptyE; simp add: switch_active sector_patterns pattern_values radial_def tangential_def)
  qed
qed

text \<open>
  What a pattern does to a flux vector itself: the scalar product and the cross product of the
  vector with the voltage \<open>(pattern_alpha / 3, pattern_beta / sqrt 3)\<close>, times three.
\<close>

definition flux_drive :: "u8 \<Rightarrow> int \<Rightarrow> int \<Rightarrow> real" where
  "flux_drive v a b = of_int (pattern_alpha v) * of_int a + sqrt 3 * (of_int (pattern_beta v) * of_int b)"

definition torque_drive :: "u8 \<Rightarrow> int \<Rightarrow> int \<Rightarrow> real" where
  "torque_drive v a b = sqrt 3 * (of_int (pattern_beta v) * of_int a) - of_int (pattern_alpha v) * of_int b"

lemma sqrt3_bounds: "1732050807568 / 10 ^ 12 \<le> sqrt 3" "sqrt 3 \<le> 1732050807569 / 10 ^ 12"
  by (rule real_le_rsqrt, simp add: power2_eq_square) (rule real_le_lsqrt; simp add: power2_eq_square)

lemma sqrt3_mult:
  assumes "0 \<le> x"
  shows "1732050807568 / 10 ^ 12 * x \<le> sqrt 3 * x" "sqrt 3 * x \<le> 1732050807569 / 10 ^ 12 * x"
  by (rule mult_right_mono [OF sqrt3_bounds(1) assms], rule mult_right_mono [OF sqrt3_bounds(2) assms])

lemma axis_arith:
  fixes x y p q :: real
  assumes "1732050807568 / 10 ^ 12 * x \<le> p" "1732050807568 / 10 ^ 12 * y \<le> q" "q \<le> 1732050807569 / 10 ^ 12 * y"
  shows "2 ^ 32 * y \<le> 2479700525 * x \<Longrightarrow> 0 < x \<Longrightarrow> q \<le> x + x / 2 ^ 29"
    and "2 ^ 32 * y \<le> 2479700525 * x \<Longrightarrow> 0 < x \<Longrightarrow> y < p"
    and "2479700523 * x \<le> 2 ^ 32 * y \<Longrightarrow> 0 \<le> y \<Longrightarrow> x \<le> q + y / 2 ^ 29"
  using assms by simp_all

lemma near_axis_drives:
  assumes "near_axis a b" "a \<noteq> 0"
  shows "sqrt 3 * \<bar>real_of_int b\<bar> \<le> \<bar>of_int a\<bar> + \<bar>of_int a\<bar> / 2 ^ 29" "\<bar>real_of_int b\<bar> < sqrt 3 * \<bar>of_int a\<bar>"
proof -
  have "2 ^ 32 * \<bar>real_of_int b\<bar> \<le> 2479700525 * \<bar>real_of_int a\<bar>" "0 < \<bar>real_of_int a\<bar>"
    using assms of_int_le_iff [where ?'a = real, of "2 ^ 32 * \<bar>b\<bar>" "2479700525 * \<bar>a\<bar>"] by (simp_all add: near_axis_def)
  then show "sqrt 3 * \<bar>real_of_int b\<bar> \<le> \<bar>of_int a\<bar> + \<bar>of_int a\<bar> / 2 ^ 29" "\<bar>real_of_int b\<bar> < sqrt 3 * \<bar>of_int a\<bar>"
    using axis_arith(1,2) [OF sqrt3_mult(1) sqrt3_mult, OF abs_ge_zero abs_ge_zero abs_ge_zero] by blast+
qed

lemma off_axis_drives:
  assumes "off_axis a b"
  shows "\<bar>real_of_int a\<bar> \<le> sqrt 3 * \<bar>of_int b\<bar> + \<bar>of_int b\<bar> / 2 ^ 29"
proof -
  have "2479700523 * \<bar>real_of_int a\<bar> \<le> 2 ^ 32 * \<bar>real_of_int b\<bar>"
    using assms of_int_le_iff [where ?'a = real, of "2479700523 * \<bar>a\<bar>" "2 ^ 32 * \<bar>b\<bar>"] by (simp add: off_axis_def)
  then show ?thesis using axis_arith(3) [OF sqrt3_mult(1) sqrt3_mult, OF abs_ge_zero abs_ge_zero abs_ge_zero] abs_ge_zero by blast
qed

lemma active_vector_drives_near:
  assumes "near_axis a b" "s = 1 \<and> 0 < a \<or> s = 4 \<and> a < 0" "fs \<in> {1, - 1}" "ts \<in> {1, - 1}"
  shows "0 < of_int (sint ts) * torque_drive (dtc_switch l fs ts s) a b"
    "- (\<bar>of_int a\<bar> / 2 ^ 29) \<le> of_int (sint fs) * flux_drive (dtc_switch l fs ts s) a b"
proof -
  have "a \<noteq> 0" using assms(2) by auto
  note n = near_axis_drives [OF assms(1) this]
  define q where "q = sqrt 3 * real_of_int b"
  define w where "w = sqrt 3 * real_of_int a"
  have *: "\<bar>q\<bar> \<le> \<bar>of_int a\<bar> + \<bar>of_int a\<bar> / 2 ^ 29" "\<bar>real_of_int b\<bar> < \<bar>w\<bar>" using n by (simp_all add: q_def w_def abs_mult)
  have sg: "0 < w \<longleftrightarrow> 0 < a" "w < 0 \<longleftrightarrow> a < 0" by (simp_all add: w_def zero_less_mult_iff mult_less_0_iff)
  show "0 < of_int (sint ts) * torque_drive (dtc_switch l fs ts s) a b"
    "- (\<bar>of_int a\<bar> / 2 ^ 29) \<le> of_int (sint fs) * flux_drive (dtc_switch l fs ts s) a b"
    using assms(2-4) *  sg
    by (auto simp: switch_active pattern_values torque_drive_def flux_drive_def q_def [symmetric] w_def [symmetric])
qed

lemma active_vector_drives_off:
  assumes "off_axis a b" "s = 2 \<and> 0 \<le> a \<and> 0 < b \<or> s = 3 \<and> a \<le> 0 \<and> 0 < b \<or> s = 5 \<and> a \<le> 0 \<and> b < 0 \<or> s = 6 \<and> 0 \<le> a \<and> b < 0"
    "fs \<in> {1, - 1}" "ts \<in> {1, - 1}"
  shows "0 < of_int (sint ts) * torque_drive (dtc_switch l fs ts s) a b"
    "- (\<bar>of_int b\<bar> / 2 ^ 29) \<le> of_int (sint fs) * flux_drive (dtc_switch l fs ts s) a b"
proof -
  note n = off_axis_drives [OF assms(1)]
  define q where "q = sqrt 3 * real_of_int b"
  define w where "w = sqrt 3 * real_of_int a"
  have *: "\<bar>real_of_int a\<bar> \<le> \<bar>q\<bar> + \<bar>of_int b\<bar> / 2 ^ 29" using n by (simp add: q_def abs_mult)
  have sg: "0 \<le> w \<longleftrightarrow> 0 \<le> a" "w \<le> 0 \<longleftrightarrow> a \<le> 0" "0 < q \<longleftrightarrow> 0 < b" "q < 0 \<longleftrightarrow> b < 0"
    by (simp_all add: w_def q_def zero_le_mult_iff mult_le_0_iff zero_less_mult_iff mult_less_0_iff)
  show "0 < of_int (sint ts) * torque_drive (dtc_switch l fs ts s) a b"
    "- (\<bar>of_int b\<bar> / 2 ^ 29) \<le> of_int (sint fs) * flux_drive (dtc_switch l fs ts s) a b"
    using assms(2-4) * sg
    by (auto simp: switch_active pattern_values torque_drive_def flux_drive_def q_def [symmetric] w_def [symmetric])
qed

lemma active_vector_drives:
  assumes "in_sector s a b" "fs \<in> {1, - 1}" "ts \<in> {1, - 1}"
  shows "0 < of_int (sint ts) * torque_drive (dtc_switch l fs ts s) a b
    \<and> - (of_int (max \<bar>a\<bar> \<bar>b\<bar>) / 2 ^ 29) \<le> of_int (sint fs) * flux_drive (dtc_switch l fs ts s) a b"
proof -
  have m: "- (of_int (max \<bar>a\<bar> \<bar>b\<bar>) / 2 ^ 29) \<le> - (\<bar>real_of_int a\<bar> / 2 ^ 29)" "- (of_int (max \<bar>a\<bar> \<bar>b\<bar>) / 2 ^ 29) \<le> - (\<bar>real_of_int b\<bar> / 2 ^ 29)"
    by (simp_all add: divide_right_mono)
  show ?thesis
  proof (cases "near_axis a b \<and> (s = 1 \<and> 0 < a \<or> s = 4 \<and> a < 0)")
    case True
    then show ?thesis using active_vector_drives_near [of a b s fs ts l] assms(2,3) m(1) by auto
  next
    case False
    then have "off_axis a b" "s = 2 \<and> 0 \<le> a \<and> 0 < b \<or> s = 3 \<and> a \<le> 0 \<and> 0 < b \<or> s = 5 \<and> a \<le> 0 \<and> b < 0 \<or> s = 6 \<and> 0 \<le> a \<and> b < 0"
      using assms(1) unfolding in_sector_def by blast+
    then show ?thesis using active_vector_drives_off [of a b s fs ts l] assms(2,3) m(2) by auto
  qed
qed

lemma zero_state_range: "dtc_zero_state p = 0 \<or> dtc_zero_state p = 7"
  by (simp add: dtc_zero_state_def Let_def)

lemma zero_vector_effect: "radial p 0 = 0" "radial p 7 = 0" "tangential p 0 = 0" "tangential p 7 = 0"
  by (simp_all add: radial_def tangential_def pattern_alpha_def pattern_beta_def leg_def)

lemma decision_ranges:
  "previous \<in> {1, - 1} \<Longrightarrow> dtc_flux_decision previous e b n \<in> {1, - 1}"
  "dtc_torque_decision previous' e b n z \<in> {- 1, 0, 1}"
  by (auto simp: dtc_flux_decision_def dtc_torque_decision_def)

lemma decisions_int:
  "dtc_flux_decision p e b n = (if sint b \<le> sint e then 1 else if sint e \<le> sint n then - 1 else p)"
  "dtc_torque_decision p e b n 0 = (if sint b \<le> sint e then 1 else if sint e \<le> sint n then - 1
     else if p = 1 \<and> 0 < sint e then 1 else if p = - 1 \<and> sint e < 0 then - 1 else 0)"
  by (simp_all add: dtc_flux_decision_def dtc_torque_decision_def)

text \<open>
  The estimates over the integers, in units of \<open>2 ^ -31\<close>: one axis of the voltage model with its two
  roundings, and the torque \<open>3/2 p (alpha ib - beta ia)\<close> with the rounding of each product.
\<close>

definition dtc_voltage_model :: "int \<Rightarrow> int \<Rightarrow> int \<Rightarrow> int \<Rightarrow> int \<Rightarrow> int" where
  "dtc_voltage_model flux r i v dt = flux + round_away (dt * (v - round_away (r * i) (2 ^ 31))) (2 ^ 31)"

definition dtc_torque_estimate :: "u16 \<Rightarrow> int \<Rightarrow> int \<Rightarrow> int \<Rightarrow> int \<Rightarrow> int" where
  "dtc_torque_estimate pairs alpha beta ia ib =
     round_away (3 * uint pairs * (round_away (alpha * ib) (2 ^ 31) - round_away (beta * ia) (2 ^ 31))) 2"

lemma integrate_voltage_model:
  "ok_run (dtc_integrate flux r i v dt) x \<Longrightarrow> sint x = dtc_voltage_model (sint flux) (sint r) (sint i) (sint v) (sint dt)"
  by (auto simp: dtc_integrate_def dtc_voltage_model_def ok_fcq_mul ok_fcq_sub ok_fcq_add)

lemma torque_estimate:
  assumes "ok_run (fcq_mul alpha ib) ca" "ok_run (fcq_mul beta ia) cb" "ok_run (fcq_sub ca cb) cr" "ok_run (FC_RATIO 3 2) th"
    "ok_run (fcq_i (ucast pairs)) np" "ok_run (fcq_mul th np) gn" "ok_run (fcq_mul gn cr) t"
  shows "sint t = dtc_torque_estimate pairs (sint alpha) (sint beta) (sint ia) (sint ib)"
proof -
  have "sint th = 3 * 2 ^ 30"
    using assms(4) by (auto simp: FC_RATIO_def ok_fcq_i ok_fcq_div round_away_if round_half_def)
  moreover have "sint (ucast pairs :: i64) = uint pairs"
    using uint_lt2p [of pairs] by (simp add: sint_uint unsigned_ucast_eq signed_take_bit_int_eq_self take_bit_int_eq_self)
  ultimately have "sint gn = 3 * uint pairs * 2 ^ 30"
    using assms(5,6) round_away_exact [of "2 ^ 31" "3 * uint pairs * 2 ^ 30"] by (simp add: ok_fcq_i ok_fcq_mul algebra_simps)
  then have "sint t = round_away (2 ^ 30 * (3 * uint pairs * sint cr)) (2 ^ 30 * 2)"
    using assms(7) by (simp add: ok_fcq_mul algebra_simps)
  also have "\<dots> = round_away (3 * uint pairs * sint cr) 2" by (rule round_away_scale) simp_all
  finally show ?thesis using assms(1-3) by (simp add: dtc_torque_estimate_def ok_fcq_mul ok_fcq_sub)
qed

context signal_format
begin

lemma dtc_step_body_state:
  assumes "ok_run (dtc_step_body V c i v fr tr dt) (c', r)"
  shows "dtc_config c' = dtc_config c" "\<not> (dtc_flux_alpha c' = 0 \<and> dtc_flux_beta c' = 0)"
    "ok_run (dtc_sector (dtc_flux_alpha c') (dtc_flux_beta c')) (dr_sector r)"
    "dr_switch_state r = dtc_switch (dtc_last_switch c) (dr_flux_state r) (dr_torque_state r) (dr_sector r)"
    "dtc_flux_state c' = dr_flux_state r" "dtc_torque_state c' = dr_torque_state r" "dtc_last_switch c' = dr_switch_state r"
  using assms unfolding dtc_step_body_def Let_def by (auto simp: ok_zero)

lemma dtc_step_body_decisions:
  assumes "ok_run (dtc_step_body V c i v fr tr dt) (c', r)"
  shows "\<exists>m. ok_run (fcq_hypot (dtc_flux_alpha c') (dtc_flux_beta c')) m \<and> ok_run (fv_store V m) (dr_flux_magnitude r)
      \<and> (let e = sint (fv_field V fr) - sint m; b = sint (fv_field V (dcf_flux_band (dtc_config c)))
         in dr_flux_state r = (if b \<le> e then 1 else if e \<le> - b then - 1 else dtc_flux_state c))"
    and "\<exists>t. ok_run (fv_store V t) (dr_torque r)
      \<and> sint t = dtc_torque_estimate (dcf_pole_pairs (dtc_config c)) (sint (dtc_flux_alpha c')) (sint (dtc_flux_beta c'))
          (sint (fv_field V (ab_alpha i))) (sint (fv_field V (ab_beta i)))
      \<and> (let e = sint (fv_field V tr) - sint t; b = sint (fv_field V (dcf_torque_band (dtc_config c)))
         in dr_torque_state r = (if b \<le> e then 1 else if e \<le> - b then - 1
           else if dtc_torque_state c = 1 \<and> 0 < e then 1 else if dtc_torque_state c = - 1 \<and> e < 0 then - 1 else 0))"
proof -
  from assms obtain m fe nb where f: "ok_run (fcq_hypot (dtc_flux_alpha c') (dtc_flux_beta c')) m"
    "ok_run (fv_store V m) (dr_flux_magnitude r)" "ok_run (fcq_sub (fv_field V fr) m) fe"
    "ok_run (fcq_neg (fv_field V (dcf_flux_band (dtc_config c)))) nb"
    "dr_flux_state r = dtc_flux_decision (dtc_flux_state c) fe (fv_field V (dcf_flux_band (dtc_config c))) nb"
    unfolding dtc_step_body_def Let_def by (auto simp: ok_zero)
  then show "\<exists>m. ok_run (fcq_hypot (dtc_flux_alpha c') (dtc_flux_beta c')) m \<and> ok_run (fv_store V m) (dr_flux_magnitude r)
      \<and> (let e = sint (fv_field V fr) - sint m; b = sint (fv_field V (dcf_flux_band (dtc_config c)))
         in dr_flux_state r = (if b \<le> e then 1 else if e \<le> - b then - 1 else dtc_flux_state c))"
    by (intro exI [of _ m]) (simp add: ok_fcq_neg ok_fcq_sub decisions_int)
  from assms obtain t te nb ca cb cr th np gn where t: "ok_run (fv_store V t) (dr_torque r)" "ok_run (fcq_sub (fv_field V tr) t) te"
    "ok_run (fcq_neg (fv_field V (dcf_torque_band (dtc_config c)))) nb"
    "dr_torque_state r = dtc_torque_decision (dtc_torque_state c) te (fv_field V (dcf_torque_band (dtc_config c))) nb 0"
    and e: "ok_run (fcq_mul (dtc_flux_alpha c') (fv_field V (ab_beta i))) ca" "ok_run (fcq_mul (dtc_flux_beta c') (fv_field V (ab_alpha i))) cb"
    "ok_run (fcq_sub ca cb) cr" "ok_run (FC_RATIO 3 2) th" "ok_run (fcq_i (ucast (dcf_pole_pairs (dtc_config c)))) np"
    "ok_run (fcq_mul th np) gn" "ok_run (fcq_mul gn cr) t"
    unfolding dtc_step_body_def Let_def by (auto simp: ok_zero)
  with torque_estimate [OF e] show "\<exists>t. ok_run (fv_store V t) (dr_torque r)
      \<and> sint t = dtc_torque_estimate (dcf_pole_pairs (dtc_config c)) (sint (dtc_flux_alpha c')) (sint (dtc_flux_beta c'))
          (sint (fv_field V (ab_alpha i))) (sint (fv_field V (ab_beta i)))
      \<and> (let e = sint (fv_field V tr) - sint t; b = sint (fv_field V (dcf_torque_band (dtc_config c)))
         in dr_torque_state r = (if b \<le> e then 1 else if e \<le> - b then - 1
           else if dtc_torque_state c = 1 \<and> 0 < e then 1 else if dtc_torque_state c = - 1 \<and> e < 0 then - 1 else 0))"
    unfolding ok_fcq_neg ok_fcq_sub decisions_int Let_def by (intro exI [of _ t]) (simp only:)
qed

lemma dtc_step_body_integrates:
  assumes "ok_run (dtc_step_body V c i v fr tr dt) (c', r)"
  shows "sint (dtc_flux_alpha c') = dtc_voltage_model (sint (dtc_flux_alpha c)) (sint (fv_field V (dcf_resistance (dtc_config c))))
      (sint (fv_field V (ab_alpha i))) (sint (fv_field V (ab_alpha v))) (sint (fv_field V dt))"
    and "sint (dtc_flux_beta c') = dtc_voltage_model (sint (dtc_flux_beta c)) (sint (fv_field V (dcf_resistance (dtc_config c))))
      (sint (fv_field V (ab_beta i))) (sint (fv_field V (ab_beta v))) (sint (fv_field V dt))"
proof -
  from assms have
    "ok_run (dtc_integrate (dtc_flux_alpha c) (fv_field V (dcf_resistance (dtc_config c))) (fv_field V (ab_alpha i)) (fv_field V (ab_alpha v))
      (fv_field V dt)) (dtc_flux_alpha c')"
    "ok_run (dtc_integrate (dtc_flux_beta c) (fv_field V (dcf_resistance (dtc_config c))) (fv_field V (ab_beta i)) (fv_field V (ab_beta v))
      (fv_field V dt)) (dtc_flux_beta c')"
    unfolding dtc_step_body_def Let_def by (auto simp: ok_zero)
  then show "sint (dtc_flux_alpha c') = dtc_voltage_model (sint (dtc_flux_alpha c)) (sint (fv_field V (dcf_resistance (dtc_config c))))
      (sint (fv_field V (ab_alpha i))) (sint (fv_field V (ab_alpha v))) (sint (fv_field V dt))"
    and "sint (dtc_flux_beta c') = dtc_voltage_model (sint (dtc_flux_beta c)) (sint (fv_field V (dcf_resistance (dtc_config c))))
      (sint (fv_field V (ab_beta i))) (sint (fv_field V (ab_beta v))) (sint (fv_field V dt))"
    by (simp_all only: integrate_voltage_model)
qed

end

context signal_format
begin

lemma dtc_step_OK:
  "dtc_step V ov (Some c) i v fr tr dt (Some old) = (LINEARS_OK, Some c', Some r) \<longleftrightarrow>
    \<not> ov \<and> ok_run (dtc_step_body V c i v fr tr dt) (c', r)"
  unfolding dtc_step_def by (rule fc_commit2_ok)

lemma dtc_step_ranges:
  assumes "dtc_inv c" "ok_run (dtc_step_body V c i v fr tr dt) (c', r)"
  shows "dtc_inv c'" "dr_flux_state r \<in> {1, - 1}" "dr_torque_state r \<in> {- 1, 0, 1}" "dr_sector r \<in> {1, 2, 3, 4, 5, 6}"
proof -
  note st = dtc_step_body_state [OF assms(2)]
  have sec: "dr_sector r \<in> {1, 2, 3, 4, 5, 6}" by (rule dtc_sector_range [OF st(3)])
  have fs: "dr_flux_state r \<in> {1, - 1}"
    using dtc_step_body_decisions(1) [OF assms(2)] assms(1) by (auto simp: Let_def dtc_inv_def split: if_splits)
  have ts: "dr_torque_state r \<in> {- 1, 0, 1}"
    using dtc_step_body_decisions(2) [OF assms(2)] by (auto simp: Let_def split: if_splits)
  have "unat (dr_switch_state r) \<le> 7"
  proof (cases "dr_torque_state r = 0")
    case True
    then show ?thesis using zero_state_range [of "dtc_last_switch c"] by (auto simp: st(4) dtc_switch_def)
  next
    case False
    then have "dr_torque_state r \<in> {1, - 1}" using ts by auto
    then show ?thesis using active_vector_effect [OF sec fs] st(4) by simp
  qed
  with st fs ts show "dtc_inv c'" by (simp add: dtc_inv_def)
  show "dr_flux_state r \<in> {1, - 1}" "dr_torque_state r \<in> {- 1, 0, 1}" "dr_sector r \<in> {1, 2, 3, 4, 5, 6}" by fact+
qed

lemma dtc_init_inv: "dtc_init V (Some old) config flux = (LINEARS_OK, Some c) \<Longrightarrow> dtc_inv c"
  unfolding dtc_init_def fc_commit_ok by (auto simp: ok_zero dtc_inv_def)

lemma dtc_reachable_inv: "dtc_reachable V c \<Longrightarrow> dtc_inv c"
proof (induction rule: dtc_reachable.induct)
  case (init old config flux c)
  then show ?case by (rule dtc_init_inv)
next
  case (step c ov i v fr tr dt old c' r)
  then show ?case using dtc_step_ranges(1) dtc_step_OK by blast
qed

end

section \<open>Properties\<close>

text \<open>
  C31: a reachable q15 torque controller keeps its comparator memories in their ranges and a nonzero
  flux estimate. A successful step reports the sector in which the new flux estimate lies, and an active
  switching pattern moves the estimated flux as demanded: its voltage has a tangential component,
  relative to the flux itself, strictly of the sign of the torque decision, and a radial component of the
  sign of the flux decision, up to a relative rounding error of the slope at the edge of a sector.
  The same holds exactly for the axis of the sector. A zero torque decision selects one of the two zero vectors.
\<close>

theorem dtc_switching_correct:
  assumes "dtc_reachable fc_q15 c"
    and "dtc_step fc_q15 ov (Some c) i v fr tr dt (Some old) = (LINEARS_OK, Some c', Some r)"
  shows "dtc_inv c' \<and> dtc_last_switch c' = dr_switch_state r \<and> 1 \<le> unat (dr_sector r) \<and> unat (dr_sector r) \<le> 6
    \<and> in_sector (dr_sector r) (sint (dtc_flux_alpha c')) (sint (dtc_flux_beta c'))
    \<and> (if dr_torque_state r = 0 then dr_switch_state r \<in> {0, 7}
       else sgn (radial (sector_pattern (unat (dr_sector r))) (dr_switch_state r)) = sint (dr_flux_state r)
         \<and> sgn (tangential (sector_pattern (unat (dr_sector r))) (dr_switch_state r)) = sint (dr_torque_state r)
         \<and> 0 < of_int (sint (dr_torque_state r)) * torque_drive (dr_switch_state r) (sint (dtc_flux_alpha c')) (sint (dtc_flux_beta c'))
         \<and> - (of_int (max \<bar>sint (dtc_flux_alpha c')\<bar> \<bar>sint (dtc_flux_beta c')\<bar>) / 2 ^ 29)
           \<le> of_int (sint (dr_flux_state r)) * flux_drive (dr_switch_state r) (sint (dtc_flux_alpha c')) (sint (dtc_flux_beta c')))"
proof -
  have run: "ok_run (dtc_step_body fc_q15 c i v fr tr dt) (c', r)" using assms(2) q15.dtc_step_OK by blast
  note st = q15.dtc_step_body_state [OF run] and rg = q15.dtc_step_ranges [OF q15.dtc_reachable_inv [OF assms(1)] run]
  have "1 \<le> unat (dr_sector r) \<and> unat (dr_sector r) \<le> 6" using rg(4) by auto
  moreover have sec: "in_sector (dr_sector r) (sint (dtc_flux_alpha c')) (sint (dtc_flux_beta c'))"
    using st(3,2) by (rule dtc_sector_region)
  moreover have "dr_switch_state r \<in> {0, 7}" if "dr_torque_state r = 0"
    using that zero_state_range [of "dtc_last_switch c"] by (auto simp: st(4) dtc_switch_def)
  moreover have "dr_torque_state r \<in> {1, - 1}" if "dr_torque_state r \<noteq> 0" using that rg(3) by auto
  then have "sgn (radial (sector_pattern (unat (dr_sector r))) (dr_switch_state r)) = sint (dr_flux_state r)
      \<and> sgn (tangential (sector_pattern (unat (dr_sector r))) (dr_switch_state r)) = sint (dr_torque_state r)"
    "0 < of_int (sint (dr_torque_state r)) * torque_drive (dr_switch_state r) (sint (dtc_flux_alpha c')) (sint (dtc_flux_beta c'))
      \<and> - (of_int (max \<bar>sint (dtc_flux_alpha c')\<bar> \<bar>sint (dtc_flux_beta c')\<bar>) / 2 ^ 29)
        \<le> of_int (sint (dr_flux_state r)) * flux_drive (dr_switch_state r) (sint (dtc_flux_alpha c')) (sint (dtc_flux_beta c'))"
    if "dr_torque_state r \<noteq> 0"
    using active_vector_effect [OF rg(4,2)] active_vector_drives [OF sec rg(2)] that unfolding st(4) by blast+
  ultimately show ?thesis using rg(1) st(7) by simp
qed

definition dtc_example :: "linears_q15_t dtc" where
  "dtc_example = \<lparr>dtc_config = \<lparr>dcf_resistance = 100, dcf_flux_band = 300, dcf_torque_band = 300, dcf_pole_pairs = 4\<rparr>,
     dtc_flux_alpha = 0x20000000, dtc_flux_beta = 0, dtc_flux_state = 1, dtc_torque_state = 0, dtc_last_switch = 0\<rparr>"

lemma dtc_example_reachable: "dtc_reachable fc_q15 dtc_example"
proof (rule dtc_reachable.init)
  show "dtc_init fc_q15 (Some dtc_example) (dtc_config dtc_example) \<lparr>ab_alpha = 8192, ab_beta = 0\<rparr> = (LINEARS_OK, Some dtc_example)"
    by code_simp
qed

definition dtc_example_result :: "linears_q15_t dtc_result" where
  "dtc_example_result = \<lparr>dr_stator_flux = \<lparr>ab_alpha = 0, ab_beta = 0\<rparr>, dr_flux_magnitude = 0, dr_torque = 0, dr_sector = 0,
     dr_switch_state = 0, dr_flux_state = 0, dr_torque_state = 0\<rparr>"

lemma dtc_example_step:
  "(case dtc_step fc_q15 False (Some dtc_example) \<lparr>ab_alpha = 0, ab_beta = 0\<rparr> \<lparr>ab_alpha = 0, ab_beta = 0\<rparr> 16384 3000 100
      (Some dtc_example_result) of
      (s, Some c, Some r) \<Rightarrow> s = LINEARS_OK \<and> dr_torque_state r = 1 \<and> dr_flux_state r = 1 \<and> dr_sector r = 1 | _ \<Rightarrow> False)"
  by code_simp

theorem dtc_switching_correct_witness:
  "\<exists>c' r. dtc_step fc_q15 False (Some dtc_example) \<lparr>ab_alpha = 0, ab_beta = 0\<rparr> \<lparr>ab_alpha = 0, ab_beta = 0\<rparr> 16384 3000 100
      (Some dtc_example_result) = (LINEARS_OK, Some c', Some r)
    \<and> 0 < tangential (sector_pattern 1) (dr_switch_state r) \<and> dtc_last_switch c' = dr_switch_state r
    \<and> 0 < torque_drive (dr_switch_state r) (sint (dtc_flux_alpha c')) (sint (dtc_flux_beta c'))"
proof -
  let ?z = "\<lparr>ab_alpha = 0, ab_beta = 0\<rparr> :: linears_q15_t ab"
  obtain c' r where s: "dtc_step fc_q15 False (Some dtc_example) ?z ?z 16384 3000 100 (Some dtc_example_result) = (LINEARS_OK, Some c', Some r)"
    "dr_torque_state r = 1" "dr_sector r = 1"
    using dtc_example_step by (auto split: prod.splits option.splits)
  from dtc_switching_correct [OF dtc_example_reachable s(1)] s
  have "sgn (tangential (sector_pattern 1) (dr_switch_state r)) = 1" "dtc_last_switch c' = dr_switch_state r"
    "0 < torque_drive (dr_switch_state r) (sint (dtc_flux_alpha c')) (sint (dtc_flux_beta c'))" by simp_all
  with s(1) show ?thesis by (auto simp: sgn_if split: if_splits)
qed

text \<open>
  The comparators of a q15 torque controller are hysteresis comparators around the estimates. In a
  successful step the flux estimate integrates the stator voltage less the resistive drop, and the
  torque estimate is the cross product of flux and current times 3/2 of the pole pairs. The flux decision changes only when the error between the reference and the
  magnitude of the estimated flux reaches a band limit, the torque decision is three-valued and
  returns to zero when the error changes sign; both estimates are exported after one rounding.
\<close>

theorem dtc_hysteresis_correct:
  assumes "dtc_step fc_q15 ov (Some c) i v fr tr dt (Some old) = (LINEARS_OK, Some c', Some r)"
  shows "\<exists>m (t :: i64). ok_run (fcq_hypot (dtc_flux_alpha c') (dtc_flux_beta c')) m
    \<and> sint (dr_flux_magnitude r) = min (round_away (sint m) (2 ^ 16)) (2 ^ 15 - 1)
    \<and> sint t = dtc_torque_estimate (dcf_pole_pairs (dtc_config c)) (sint (dtc_flux_alpha c')) (sint (dtc_flux_beta c'))
        (sint (ab_alpha i) * 65536) (sint (ab_beta i) * 65536)
    \<and> sint (dr_torque r) = min (round_away (sint t) (2 ^ 16)) (2 ^ 15 - 1)
    \<and> (let e = sint fr * 65536 - sint m; b = sint (dcf_flux_band (dtc_config c)) * 65536
       in dtc_flux_state c' = (if b \<le> e then 1 else if e \<le> - b then - 1 else dtc_flux_state c))
    \<and> (let e = sint tr * 65536 - sint t; b = sint (dcf_torque_band (dtc_config c)) * 65536
       in dtc_torque_state c' = (if b \<le> e then 1 else if e \<le> - b then - 1
         else if dtc_torque_state c = 1 \<and> 0 < e then 1 else if dtc_torque_state c = - 1 \<and> e < 0 then - 1 else 0))
    \<and> sint (dtc_flux_alpha c') = dtc_voltage_model (sint (dtc_flux_alpha c)) (sint (dcf_resistance (dtc_config c)) * 65536)
        (sint (ab_alpha i) * 65536) (sint (ab_alpha v) * 65536) (sint dt * 65536)
    \<and> sint (dtc_flux_beta c') = dtc_voltage_model (sint (dtc_flux_beta c)) (sint (dcf_resistance (dtc_config c)) * 65536)
        (sint (ab_beta i) * 65536) (sint (ab_beta v) * 65536) (sint dt * 65536)"
proof -
  have run: "ok_run (dtc_step_body fc_q15 c i v fr tr dt) (c', r)" using assms q15.dtc_step_OK by blast
  note st = q15.dtc_step_body_state [OF run]
  have fld: "sint (fv_field fc_q15 x) = sint x * 65536" for x by (simp add: fc_q15_def q15_field)
  have sto: "ok_run (fv_store fc_q15 x) y \<longleftrightarrow> \<bar>sint x\<bar> \<le> 2 ^ 31 \<and> sint y = min (round_away (sint x) (2 ^ 16)) (2 ^ 15 - 1)" for x y
    by (simp add: fc_q15_def ok_fcq15_store q15_result_iff)
  from q15.dtc_step_body_decisions(1) [OF run, unfolded fld sto] obtain m where "ok_run (fcq_hypot (dtc_flux_alpha c') (dtc_flux_beta c')) m"
    "sint (dr_flux_magnitude r) = min (round_away (sint m) (2 ^ 16)) (2 ^ 15 - 1)"
    "let e = sint fr * 65536 - sint m; b = sint (dcf_flux_band (dtc_config c)) * 65536
       in dr_flux_state r = (if b \<le> e then 1 else if e \<le> - b then - 1 else dtc_flux_state c)" by (elim exE conjE)
  moreover from q15.dtc_step_body_decisions(2) [OF run, unfolded fld sto] obtain t :: i64 where
    "sint t = dtc_torque_estimate (dcf_pole_pairs (dtc_config c)) (sint (dtc_flux_alpha c')) (sint (dtc_flux_beta c'))
      (sint (ab_alpha i) * 65536) (sint (ab_beta i) * 65536)"
    "sint (dr_torque r) = min (round_away (sint t) (2 ^ 16)) (2 ^ 15 - 1)"
    "let e = sint tr * 65536 - sint t; b = sint (dcf_torque_band (dtc_config c)) * 65536
       in dr_torque_state r = (if b \<le> e then 1 else if e \<le> - b then - 1
         else if dtc_torque_state c = 1 \<and> 0 < e then 1 else if dtc_torque_state c = - 1 \<and> e < 0 then - 1 else 0)" by (elim exE conjE)
  ultimately show ?thesis unfolding st(5,6) using q15.dtc_step_body_integrates [OF run, unfolded fld] by blast
qed

theorem dtc_hysteresis_correct_witness:
  "\<exists>c' r t. dtc_step fc_q15 False (Some dtc_example) \<lparr>ab_alpha = 0, ab_beta = 0\<rparr> \<lparr>ab_alpha = 0, ab_beta = 0\<rparr> 16384 3000 100
      (Some dtc_example_result) = (LINEARS_OK, Some c', Some r)
    \<and> sint (dr_torque r) = min (round_away (sint (t :: i64)) (2 ^ 16)) (2 ^ 15 - 1) \<and> 300 * 65536 \<le> 3000 * 65536 - sint t"
proof -
  let ?z = "\<lparr>ab_alpha = 0, ab_beta = 0\<rparr> :: linears_q15_t ab"
  obtain c' r where s: "dtc_step fc_q15 False (Some dtc_example) ?z ?z 16384 3000 100 (Some dtc_example_result) = (LINEARS_OK, Some c', Some r)"
    "dr_torque_state r = 1"
    using dtc_example_step by (auto split: prod.splits option.splits)
  have "ok_run (dtc_step_body fc_q15 dtc_example ?z ?z 16384 3000 100) (c', r)" using s(1) q15.dtc_step_OK by blast
  then have ts: "dtc_torque_state c' = 1" using q15.dtc_step_body_state(6) s(2) by metis
  have ex: "dtc_torque_state dtc_example = 0" "sint (dcf_torque_band (dtc_config dtc_example)) = 300" "sint (3000 :: i16) = 3000"
    by (simp_all add: dtc_example_def)
  from dtc_hysteresis_correct [OF s(1), unfolded Let_def ex ts] obtain t :: i64 where
    t: "sint (dr_torque r) = min (round_away (sint t) (2 ^ 16)) (2 ^ 15 - 1)"
      "(1 :: i8) = (if 300 * 65536 \<le> 3000 * 65536 - sint t then 1 else if 3000 * 65536 - sint t \<le> - (300 * 65536) then - 1 else
        if (0 :: i8) = 1 \<and> 0 < 3000 * 65536 - sint t then 1 else if (0 :: i8) = - 1 \<and> 3000 * 65536 - sint t < 0 then - 1 else 0)"
    by (elim exE conjE)
  from t(2) have "300 * 65536 \<le> 3000 * 65536 - sint t" by (simp split: if_splits)
  with s(1) t(1) show ?thesis by blast
qed

end
