(* ===== verification/Fc_Smo.thy ===== *)
theory Fc_Smo
  imports Fc_Base Filters
begin

text \<open>
  Model of the fixed-point instantiations of \<open>libs/fieldctrl/src/smo_impl.h\<close>: the sliding-mode observer
  with its low-pass filters (the q31 exponential average of the filter library), phase
  compensation and lock detection.
\<close>

section \<open>Data\<close>

text \<open>\<open>scf_direction\<close> is a C enum, which can hold values outside its two enumerators.\<close>

abbreviation (input) FIELDCTRL_SMO_FORWARD :: int where "FIELDCTRL_SMO_FORWARD \<equiv> 1"
abbreviation (input) FIELDCTRL_SMO_REVERSE :: int where "FIELDCTRL_SMO_REVERSE \<equiv> - 1"

record 't smo_config =
  scf_resistance :: 't
  scf_inductance :: 't
  scf_dt :: 't
  scf_sliding_gain :: 't
  scf_boundary :: 't
  scf_emf_alpha :: 't
  scf_speed_alpha :: 't
  scf_min_emf :: 't
  scf_min_speed :: 't
  scf_max_speed :: 't
  scf_lock_samples :: u32
  scf_direction :: int

record 't smo =
  smo_config :: "'t smo_config"
  smo_current_hat :: "linears_fixed_t ab"
  smo_emf_alpha_filter :: "linears_q31_t ema"
  smo_emf_beta_filter :: "linears_q31_t ema"
  smo_speed_filter :: "linears_q31_t ema"
  smo_previous_angle :: linears_fixed_t
  smo_angle :: linears_fixed_t
  smo_lock_count :: u32
  smo_has_angle :: bool

record 't smo_output =
  so_current_hat :: "'t ab"
  so_emf :: "'t ab"
  so_electrical_angle :: 't
  so_electrical_speed :: linears_fixed_t
  so_observable :: bool
  so_locked :: bool

section \<open>Low-pass filters\<close>

definition smo_lowpass_init :: "linears_q31_t ema ptr \<Rightarrow> linears_fixed_t \<Rightarrow> linears_fixed_t \<Rightarrow> linears_status_t \<times> linears_q31_t ema ptr" where
  "smo_lowpass_init ctx alpha initial =
     (case run_state (do {
          a \<leftarrow> fc_op 0 (linears_fixed_to_q31 alpha);
          v \<leftarrow> fc_op 0 (linears_fixed_to_q31 initial);
          State_Monad.return (a, v)
        }) LINEARS_OK of
        ((a, v), status) \<Rightarrow> if status \<noteq> LINEARS_OK then (status, ctx) else ema_init filters_q31 ctx a v)"

definition smo_lowpass_reset :: "linears_q31_t ema ptr \<Rightarrow> linears_fixed_t \<Rightarrow> linears_status_t \<times> linears_q31_t ema ptr" where
  "smo_lowpass_reset ctx initial =
     (case linears_fixed_to_q31 initial (Some 0) of
        (LINEARS_OK, Some v) \<Rightarrow> ema_reset filters_q31 ctx v
      | (status, _) \<Rightarrow> (status, ctx))"

text \<open>The context is a part of the local copy \<open>next\<close>; the result is the new context and the output.\<close>

definition smo_lowpass_step :: "linears_q31_t ema \<Rightarrow> linears_fixed_t \<Rightarrow> (linears_q31_t ema \<times> linears_fixed_t) fc" where
  "smo_lowpass_step ctx input = do {
     v \<leftarrow> fc_op (ema_value ctx) (\<lambda>p. filters_ema_work_step p (ema_alpha ctx) input);
     State_Monad.return (ctx\<lparr>ema_value := v\<rparr>, v)
   }"

section \<open>Initialisation\<close>

text \<open>The local \<open>next\<close> is uninitialised; \<open>c\<close> stands for its value, which is never read.\<close>

definition smo_init ::
  "'t fc_format \<Rightarrow> 't smo ptr \<Rightarrow> 't smo_config ptr \<Rightarrow> 't ab \<Rightarrow> linears_status_t \<times> 't smo ptr" where
  "smo_init V ctx config initial_current =
     (case (ctx, config) of
        (Some c, Some cfg) \<Rightarrow>
          if scf_lock_samples cfg = 0
            \<or> (scf_direction cfg \<noteq> FIELDCTRL_SMO_FORWARD \<and> scf_direction cfg \<noteq> FIELDCTRL_SMO_REVERSE)
          then (LINEARS_ERROR_DOMAIN, ctx)
          else fc_commit ctx (do {
            resistance \<leftarrow> FC_LOAD V (scf_resistance cfg);
            inductance \<leftarrow> FC_LOAD V (scf_inductance cfg);
            period \<leftarrow> FC_LOAD V (scf_dt cfg);
            gain \<leftarrow> FC_LOAD V (scf_sliding_gain cfg);
            boundary \<leftarrow> FC_LOAD V (scf_boundary cfg);
            emf_alpha \<leftarrow> FC_LOAD V (scf_emf_alpha cfg);
            speed_alpha \<leftarrow> FC_LOAD V (scf_speed_alpha cfg);
            min_emf \<leftarrow> FC_LOAD V (scf_min_emf cfg);
            min_speed \<leftarrow> FC_LOAD V (scf_min_speed cfg);
            max_speed \<leftarrow> FC_LOAD V (scf_max_speed cfg);
            hat_alpha \<leftarrow> FC_LOAD V (ab_alpha initial_current);
            hat_beta \<leftarrow> FC_LOAD V (ab_beta initial_current);
            zero \<leftarrow> fcq_i 0;
            one \<leftarrow> fcq_i 1;
            fc_fail_if (fcq_cmp resistance zero < 0 \<or> fcq_cmp inductance zero \<le> 0 \<or> fcq_cmp period zero \<le> 0
              \<or> fcq_cmp gain zero \<le> 0 \<or> fcq_cmp boundary zero \<le> 0 \<or> fcq_cmp emf_alpha zero \<le> 0
              \<or> 0 < fcq_cmp emf_alpha one \<or> fcq_cmp speed_alpha zero \<le> 0 \<or> 0 < fcq_cmp speed_alpha one
              \<or> fcq_cmp min_emf zero \<le> 0 \<or> fcq_cmp min_speed zero \<le> 0 \<or> fcq_cmp max_speed min_speed \<le> 0)
              LINEARS_ERROR_DOMAIN;
            quotient \<leftarrow> fcq_div gain boundary;
            factor0 \<leftarrow> fcq_add resistance quotient;
            factor1 \<leftarrow> fcq_div factor0 inductance;
            factor \<leftarrow> fcq_mul period factor1;
            sample_angle \<leftarrow> fcq_mul max_speed period;
            two \<leftarrow> fcq_i 2;
            quarter \<leftarrow> FC_RATIO 1 4;
            fc_fail_if (0 \<le> fcq_cmp factor two \<or> 0 \<le> fcq_cmp sample_angle quarter) LINEARS_ERROR_DOMAIN;
            fa \<leftarrow> fc_op (smo_emf_alpha_filter c) (\<lambda>p. smo_lowpass_init p emf_alpha zero);
            fb \<leftarrow> fc_op (smo_emf_beta_filter c) (\<lambda>p. smo_lowpass_init p emf_alpha zero);
            fs \<leftarrow> fc_op (smo_speed_filter c) (\<lambda>p. smo_lowpass_init p speed_alpha zero);
            State_Monad.return \<lparr>smo_config = cfg, smo_current_hat = \<lparr>ab_alpha = hat_alpha, ab_beta = hat_beta\<rparr>,
              smo_emf_alpha_filter = fa, smo_emf_beta_filter = fb, smo_speed_filter = fs,
              smo_previous_angle = zero, smo_angle = zero, smo_lock_count = 0, smo_has_angle = False\<rparr>
          })
      | _ \<Rightarrow> (LINEARS_ERROR_ARGUMENT, ctx))"

section \<open>Step\<close>

definition smo_saturate ::
  "linears_fixed_t \<Rightarrow> linears_fixed_t \<Rightarrow> linears_fixed_t \<Rightarrow> linears_fixed_t \<Rightarrow> linears_fixed_t \<Rightarrow> linears_fixed_t fc" where
  "smo_saturate error boundary negative_boundary one negative_one =
     (if 0 \<le> fcq_cmp error boundary then State_Monad.return one
      else if fcq_cmp error negative_boundary \<le> 0 then State_Monad.return negative_one
      else fcq_div error boundary)"

text \<open>One axis of the current predictor: \<open>i + step * (v - r * i - z)\<close>.\<close>

definition smo_predict ::
  "linears_fixed_t \<Rightarrow> linears_fixed_t \<Rightarrow> linears_fixed_t \<Rightarrow> linears_fixed_t \<Rightarrow> linears_fixed_t \<Rightarrow> linears_fixed_t fc" where
  "smo_predict i v resistance z step = do {
     drop_v \<leftarrow> fcq_mul resistance i;
     net \<leftarrow> fcq_sub v drop_v;
     derivative \<leftarrow> fcq_sub net z;
     m \<leftarrow> fcq_mul step derivative;
     fcq_add i m
   }"

text \<open>The wrapped angle difference per period, through the speed filter when a previous angle is known.\<close>

definition smo_speed ::
  "'t smo \<Rightarrow> linears_fixed_t \<Rightarrow> linears_fixed_t \<Rightarrow> linears_fixed_t \<Rightarrow> linears_fixed_t
    \<Rightarrow> (linears_q31_t ema \<times> linears_fixed_t \<times> linears_fixed_t) fc" where
  "smo_speed c raw_angle period zero one =
     (if smo_has_angle c then do {
        difference0 \<leftarrow> fcq_sub raw_angle (smo_previous_angle c);
        half \<leftarrow> FC_RATIO 1 2;
        difference1 \<leftarrow> (if 0 < fcq_cmp difference0 half then fcq_sub difference0 one else State_Monad.return difference0);
        minus_half \<leftarrow> FC_RATIO (- 1) 2;
        difference \<leftarrow> (if fcq_cmp difference1 minus_half < 0 then fcq_add difference1 one else State_Monad.return difference1);
        raw_speed \<leftarrow> fcq_div difference period;
        (f, speed) \<leftarrow> smo_lowpass_step (smo_speed_filter c) raw_speed;
        State_Monad.return (f, raw_speed, speed)
      }
      else State_Monad.return (smo_speed_filter c, zero, zero))"

text \<open>The angle with the phase of the low-pass filter at the estimated speed added.\<close>

definition smo_compensate ::
  "'t fc_format \<Rightarrow> 't smo_config \<Rightarrow> linears_fixed_t \<Rightarrow> linears_fixed_t \<Rightarrow> linears_fixed_t \<Rightarrow> linears_fixed_t \<Rightarrow> linears_fixed_t
    \<Rightarrow> linears_fixed_t fc" where
  "smo_compensate V config raw_angle speed period zero one = do {
     step \<leftarrow> fcq_mul speed period;
     (sine, cosine) \<leftarrow> fcq_sincos step zero one;
     alpha \<leftarrow> FC_LOAD V (scf_emf_alpha config);
     rho \<leftarrow> fcq_sub one alpha;
     numerator \<leftarrow> fcq_mul rho sine;
     d1 \<leftarrow> fcq_sub one cosine;
     d2 \<leftarrow> fcq_mul rho d1;
     denominator \<leftarrow> fcq_add alpha d2;
     phase \<leftarrow> fcq_atan2 numerator denominator;
     shifted \<leftarrow> fcq_add raw_angle phase;
     fcq_wrap shifted
   }"

definition smo_observable ::
  "'t fc_format \<Rightarrow> 't smo \<Rightarrow> linears_fixed_t \<Rightarrow> linears_fixed_t \<Rightarrow> linears_fixed_t \<Rightarrow> linears_fixed_t \<Rightarrow> linears_fixed_t
    \<Rightarrow> linears_fixed_t \<Rightarrow> bool fc" where
  "smo_observable V c raw_speed speed error_a error_b boundary zero = do {
     min_speed \<leftarrow> FC_LOAD V (scf_min_speed (smo_config c));
     max_speed \<leftarrow> FC_LOAD V (scf_max_speed (smo_config c));
     raw_magnitude \<leftarrow> fcq_abs raw_speed;
     speed_magnitude \<leftarrow> fcq_abs speed;
     let direction_ok = (if scf_direction (smo_config c) = FIELDCTRL_SMO_FORWARD
       then 0 < fcq_cmp raw_speed zero \<and> 0 < fcq_cmp speed zero
       else fcq_cmp raw_speed zero < 0 \<and> fcq_cmp speed zero < 0);
     if smo_has_angle c \<and> direction_ok
       \<and> 0 \<le> fcq_cmp raw_magnitude min_speed \<and> fcq_cmp raw_magnitude max_speed \<le> 0
       \<and> 0 \<le> fcq_cmp speed_magnitude min_speed \<and> fcq_cmp speed_magnitude max_speed \<le> 0
     then do {
       abs_a \<leftarrow> fcq_abs error_a;
       if fcq_cmp abs_a boundary \<le> 0
       then do { abs_b \<leftarrow> fcq_abs error_b; State_Monad.return (fcq_cmp abs_b boundary \<le> 0) }
       else State_Monad.return False
     }
     else State_Monad.return False
   }"

text \<open>
  Angle and speed from the filtered back-EMF: the new context, the speed and whether the sample
  is observable. Below the EMF threshold the history is dropped and the angle held.
\<close>

definition smo_track ::
  "'t fc_format \<Rightarrow> 't smo \<Rightarrow> linears_fixed_t \<Rightarrow> linears_fixed_t \<Rightarrow> linears_fixed_t \<Rightarrow> linears_fixed_t \<Rightarrow> linears_fixed_t
    \<Rightarrow> linears_fixed_t \<Rightarrow> linears_fixed_t \<Rightarrow> linears_fixed_t \<Rightarrow> ('t smo \<times> linears_fixed_t \<times> bool) fc" where
  "smo_track V c ea eb error_a error_b boundary period zero one = do {
     magnitude \<leftarrow> fcq_hypot ea eb;
     min_emf \<leftarrow> FC_LOAD V (scf_min_emf (smo_config c));
     if fcq_cmp magnitude min_emf < 0
     then do {
       f \<leftarrow> fc_op (smo_speed_filter c) (\<lambda>p. smo_lowpass_reset p zero);
       State_Monad.return (c\<lparr>smo_has_angle := False, smo_speed_filter := f\<rparr>, zero, False)
     }
     else do {
       raw_angle \<leftarrow> (if scf_direction (smo_config c) = FIELDCTRL_SMO_FORWARD
         then do { n \<leftarrow> fcq_neg ea; fcq_atan2 n eb }
         else do { n \<leftarrow> fcq_neg eb; fcq_atan2 ea n });
       (f, raw_speed, speed) \<leftarrow> smo_speed c raw_angle period zero one;
       angle \<leftarrow> smo_compensate V (smo_config c) raw_angle speed period zero one;
       observable \<leftarrow> smo_observable V c raw_speed speed error_a error_b boundary zero;
       State_Monad.return (c\<lparr>smo_speed_filter := f, smo_previous_angle := raw_angle, smo_has_angle := True,
         smo_angle := angle\<rparr>, speed, observable)
     }
   }"

definition smo_lock :: "u32 \<Rightarrow> u32 \<Rightarrow> bool \<Rightarrow> u32" where
  "smo_lock lock_count lock_samples observable =
     (if \<not> observable then 0 else if lock_count < lock_samples then lock_count + 1 else lock_count)"

definition smo_step_body ::
  "'t fc_format \<Rightarrow> 't smo \<Rightarrow> 't ab \<Rightarrow> 't ab \<Rightarrow> ('t smo \<times> 't smo_output) fc" where
  "smo_step_body V ctx current voltage = do {
     let config = smo_config ctx;
     ia \<leftarrow> FC_LOAD V (ab_alpha current);
     ib \<leftarrow> FC_LOAD V (ab_beta current);
     va \<leftarrow> FC_LOAD V (ab_alpha voltage);
     vb \<leftarrow> FC_LOAD V (ab_beta voltage);
     resistance \<leftarrow> FC_LOAD V (scf_resistance config);
     inductance \<leftarrow> FC_LOAD V (scf_inductance config);
     period \<leftarrow> FC_LOAD V (scf_dt config);
     gain \<leftarrow> FC_LOAD V (scf_sliding_gain config);
     boundary \<leftarrow> FC_LOAD V (scf_boundary config);
     zero \<leftarrow> fcq_i 0;
     one \<leftarrow> fcq_i 1;
     negative_one \<leftarrow> fcq_i (- 1);
     let hat = smo_current_hat ctx;
     error_a \<leftarrow> fcq_sub (ab_alpha hat) ia;
     error_b \<leftarrow> fcq_sub (ab_beta hat) ib;
     negative_boundary \<leftarrow> fcq_neg boundary;
     sat_a \<leftarrow> smo_saturate error_a boundary negative_boundary one negative_one;
     sat_b \<leftarrow> smo_saturate error_b boundary negative_boundary one negative_one;
     za \<leftarrow> fcq_mul gain sat_a;
     zb \<leftarrow> fcq_mul gain sat_b;
     step \<leftarrow> fcq_div period inductance;
     hat_a \<leftarrow> smo_predict (ab_alpha hat) va resistance za step;
     hat_b \<leftarrow> smo_predict (ab_beta hat) vb resistance zb step;
     (fa, ea) \<leftarrow> smo_lowpass_step (smo_emf_alpha_filter ctx) za;
     (fb, eb) \<leftarrow> smo_lowpass_step (smo_emf_beta_filter ctx) zb;
     let c1 = ctx\<lparr>smo_current_hat := \<lparr>ab_alpha = hat_a, ab_beta = hat_b\<rparr>,
       smo_emf_alpha_filter := fa, smo_emf_beta_filter := fb\<rparr>;
     (c2, speed, observable) \<leftarrow> smo_track V c1 ea eb error_a error_b boundary period zero one;
     let lock_count = smo_lock (smo_lock_count ctx) (scf_lock_samples config) observable;
     out_hat_a \<leftarrow> fv_store V hat_a;
     out_hat_b \<leftarrow> fv_store V hat_b;
     out_ea \<leftarrow> fv_store V ea;
     out_eb \<leftarrow> fv_store V eb;
     out_speed \<leftarrow> fcq_work_store speed;
     out_angle \<leftarrow> fv_angle_store V (smo_angle c2);
     State_Monad.return (c2\<lparr>smo_lock_count := lock_count\<rparr>,
       \<lparr>so_current_hat = \<lparr>ab_alpha = out_hat_a, ab_beta = out_hat_b\<rparr>, so_emf = \<lparr>ab_alpha = out_ea, ab_beta = out_eb\<rparr>,
        so_electrical_angle = out_angle, so_electrical_speed = out_speed,
        so_observable = observable, so_locked = (lock_count = scf_lock_samples config)\<rparr>)
   }"

definition smo_step ::
  "'t fc_format \<Rightarrow> bool \<Rightarrow> 't smo ptr \<Rightarrow> 't ab \<Rightarrow> 't ab \<Rightarrow> 't smo_output ptr
    \<Rightarrow> linears_status_t \<times> 't smo ptr \<times> 't smo_output ptr" where
  "smo_step V overlap ctx current voltage output =
     fc_commit2 ctx output overlap (\<lambda>c. smo_step_body V c current voltage)"

end
