(* ===== verification/Fc_Smo_Props.thy ===== *)
theory Fc_Smo_Props
  imports Fc_Smo Fc_Total
begin

text \<open>
  The sliding-mode observer over a whole run: its lock counter counts consecutive observable samples
  up to the configured number, and the reported angle lies in one turn.
\<close>

section \<open>Runs\<close>

lemma sticky_atan2 [simp]: "sticky (fcq_atan2 y x)"
  unfolding fcq_atan2_def
  by (intro sticky_bind sticky_status sticky_if sticky_return sticky_fail_if sticky_fcq sticky_Let sticky_case_prod sticky_op sticky_fcq_wrap)

context signal_format
begin

lemma sticky_smo [simp]:
  "sticky (smo_saturate e b nb one neg)" "sticky (smo_predict i v r z st)" "sticky (smo_lowpass_step f x)"
  "sticky (smo_speed c raw period zero one)" "sticky (smo_compensate V cfg raw speed period zero one)"
  "sticky (smo_observable V c rs sp ea eb bd zero)"
  by (simp_all add: smo_saturate_def smo_predict_def smo_lowpass_step_def smo_speed_def smo_compensate_def smo_observable_def)

lemma sticky_track [simp]: "sticky (smo_track V c ea eb era erb bd period zero one)"
  by (simp add: smo_track_def)

lemma smo_track_keeps:
  assumes "ok_run (smo_track V c ea eb era erb bd period zero one) (c', speed, obs)"
  shows "smo_config c' = smo_config c"
  using assms unfolding smo_track_def by (auto split: if_splits)

lemma smo_step_body_state:
  assumes "ok_run (smo_step_body V c i v) (c', out)"
  shows "smo_config c' = smo_config c"
    "smo_lock_count c' = smo_lock (smo_lock_count c) (scf_lock_samples (smo_config c)) (so_observable out)"
    "so_locked out \<longleftrightarrow> smo_lock_count c' = scf_lock_samples (smo_config c)"
    "ok_run (fv_angle_store V (smo_angle c')) (so_electrical_angle out)"
  using assms unfolding smo_step_body_def Let_def by (auto dest: smo_track_keeps)

lemma angle_nonneg: "ok_run (fv_angle_store V x) t \<Longrightarrow> 0 \<le> sint (fv_field V t)"
  using angle_total [of x] by (auto dest: ok_unique)

lemma smo_step_OK:
  "smo_step V ov (Some c) i v (Some old) = (LINEARS_OK, Some c', Some out) \<longleftrightarrow> \<not> ov \<and> ok_run (smo_step_body V c i v) (c', out)"
  unfolding smo_step_def by (rule fc_commit2_ok)

lemma smo_init_state:
  assumes "smo_init V (Some old) (Some cfg) i = (LINEARS_OK, Some c)"
  shows "smo_config c = cfg" "smo_lock_count c = 0" "scf_lock_samples (smo_config c) \<noteq> 0"
  using assms unfolding smo_init_def by (auto simp: fc_commit_ok split: if_splits)

end

section \<open>Lock detection over a run\<close>

text \<open>A run: an initialisation and successful steps; the outputs are listed with the latest first.\<close>

inductive smo_trace :: "'t fc_format \<Rightarrow> 't smo \<Rightarrow> 't smo_output list \<Rightarrow> bool" for V where
  init: "smo_init V (Some old) (Some cfg) i = (LINEARS_OK, Some c) \<Longrightarrow> smo_trace V c []"
| step: "smo_trace V c outs \<Longrightarrow> smo_step V ov (Some c) i v (Some old) = (LINEARS_OK, Some c', Some out)
    \<Longrightarrow> smo_trace V c' (out # outs)"

definition observable_run :: "'t smo_output list \<Rightarrow> nat" where
  "observable_run outs = length (takeWhile so_observable outs)"

lemma unat_smo_lock:
  "unat (smo_lock n k obs) = (if obs then min (unat k) (Suc (unat n)) else 0)" if "unat n \<le> unat k"
proof (cases "obs \<and> n < k")
  case True
  then have "unat (n + 1) = Suc (unat n)" using unsigned_less [of k, where ?'a = nat] by (simp add: unat_word_ariths word_less_nat_alt)
  with True show ?thesis by (simp add: smo_lock_def word_less_nat_alt)
next
  case False
  with that show ?thesis by (auto simp: smo_lock_def word_less_nat_alt)
qed

context signal_format
begin

lemma smo_trace_lock:
  assumes "smo_trace V c outs"
  shows "unat (smo_lock_count c) = min (unat (scf_lock_samples (smo_config c))) (observable_run outs) \<and> scf_lock_samples (smo_config c) \<noteq> 0"
  using assms
proof induction
  case (init old cfg i c)
  then show ?case using smo_init_state [OF init] by (simp add: observable_run_def)
next
  case (step c outs ov i v old c' out)
  then have "ok_run (smo_step_body V c i v) (c', out)" using smo_step_OK by blast
  note st = smo_step_body_state [OF this]
  have "unat (smo_lock_count c') = (if so_observable out then min (unat (scf_lock_samples (smo_config c))) (Suc (unat (smo_lock_count c))) else 0)"
    unfolding st(2) using step.IH by (intro unat_smo_lock) simp
  with step.IH st(1) show ?case by (auto simp: observable_run_def)
qed

end

section \<open>Properties\<close>

text \<open>
  C36: lock detection of the q15 observer. After any run of successful steps the lock counter is the
  number of consecutive observable samples at the end of the run, capped at the configured number of
  lock samples; the latest step reports lock exactly when at least that many consecutive samples were
  observable, and its angle lies in one turn.
\<close>

theorem smo_lock_correct:
  assumes "smo_trace fc_q15 c (out # outs)"
  shows "unat (smo_lock_count c) = min (unat (scf_lock_samples (smo_config c))) (observable_run (out # outs))
    \<and> (so_locked out \<longleftrightarrow> unat (scf_lock_samples (smo_config c)) \<le> observable_run (out # outs))
    \<and> 0 \<le> sint (so_electrical_angle out)"
proof -
  note l = q15.smo_trace_lock [OF assms]
  from assms obtain c0 ov i v old where "smo_step fc_q15 ov (Some c0) i v (Some old) = (LINEARS_OK, Some c, Some out)"
    by (auto elim: smo_trace.cases)
  then have run: "ok_run (smo_step_body fc_q15 c0 i v) (c, out)" using q15.smo_step_OK by blast
  note st = q15.smo_step_body_state [OF run]
  have "so_locked out \<longleftrightarrow> unat (smo_lock_count c) = unat (scf_lock_samples (smo_config c))" using st(1,3) by (simp add: word_unat_eq_iff)
  moreover have "0 \<le> sint (so_electrical_angle out)"
    using q15.angle_nonneg [OF st(4)] by (simp add: q15_foc_format)
  ultimately show ?thesis using l by auto
qed

definition smo_example :: "linears_q15_t smo" where
  "smo_example = \<lparr>smo_config = \<lparr>scf_resistance = 100, scf_inductance = 16384, scf_dt = 100, scf_sliding_gain = 3000, scf_boundary = 3000,
       scf_emf_alpha = 16384, scf_speed_alpha = 16384, scf_min_emf = 100, scf_min_speed = 1, scf_max_speed = 100,
       scf_lock_samples = 2, scf_direction = 1\<rparr>,
     smo_current_hat = \<lparr>ab_alpha = 0, ab_beta = 0\<rparr>,
     smo_emf_alpha_filter = \<lparr>ema_alpha = 0x40000000, ema_value = 0\<rparr>, smo_emf_beta_filter = \<lparr>ema_alpha = 0x40000000, ema_value = 0\<rparr>,
     smo_speed_filter = \<lparr>ema_alpha = 0x40000000, ema_value = 0\<rparr>,
     smo_previous_angle = 0, smo_angle = 0, smo_lock_count = 0, smo_has_angle = False\<rparr>"

lemma smo_example_init:
  "smo_init fc_q15 (Some smo_example) (Some (smo_config smo_example)) \<lparr>ab_alpha = 0, ab_beta = 0\<rparr> = (LINEARS_OK, Some smo_example)"
  by code_simp

definition smo_example_output :: "linears_q15_t smo_output" where
  "smo_example_output = \<lparr>so_current_hat = \<lparr>ab_alpha = 0, ab_beta = 0\<rparr>, so_emf = \<lparr>ab_alpha = 0, ab_beta = 0\<rparr>, so_electrical_angle = 0,
     so_electrical_speed = 0, so_observable = False, so_locked = False\<rparr>"

lemma smo_example_step:
  "smo_step fc_q15 False (Some smo_example) \<lparr>ab_alpha = 0, ab_beta = 0\<rparr> \<lparr>ab_alpha = 0, ab_beta = 0\<rparr> (Some smo_example_output)
     = (LINEARS_OK, Some smo_example, Some smo_example_output)"
  by code_simp

theorem smo_lock_correct_witness:
  "smo_trace fc_q15 smo_example [smo_example_output] \<and> \<not> so_locked smo_example_output
    \<and> \<not> unat (scf_lock_samples (smo_config smo_example)) \<le> observable_run [smo_example_output]"
proof -
  have t: "smo_trace fc_q15 smo_example [smo_example_output]"
    by (rule smo_trace.step [OF smo_trace.init [OF smo_example_init] smo_example_step])
  moreover have "\<not> so_locked smo_example_output" by (simp add: smo_example_output_def)
  ultimately show ?thesis using smo_lock_correct [OF t] by simp
qed

end
