(* ===== verification/Kalman_Scalar.thy ===== *)
theory Kalman_Scalar
  imports Filters_Laws
begin

text \<open>
  Model of the fixed-point instantiations (q15 and q31) of \<open>libs/filters/src/kalman_scalar.c\<close> and
  \<open>kalman_scalar_impl.h\<close>: the scalar Kalman filter with the Joseph form of the variance update.

  A signal format is the record \<open>f_format\<close> of \<open>Filters\<close>; coefficients and working values are
  \<open>linears_fixed_t\<close>. \<open>K_TRY\<close> returns at the first failing call, which is the status monad, and the
  local \<open>next\<close> is stored only at the end, which is \<open>fc_commit\<close>.
\<close>

section \<open>Combined products\<close>

definition k_fixed_sub_product ::
  "linears_fixed_t \<Rightarrow> linears_fixed_t \<Rightarrow> linears_fixed_t \<Rightarrow> linears_fixed_t fc" where
  "k_fixed_sub_product base a b = do {
     accumulator1 \<leftarrow> fc_mac accum_zero base LINEARS_FIXED_ONE;
     accumulator2 \<leftarrow> fc_msu accumulator1 a b;
     fc_op 0 (linears_accum_to_fixed accumulator2)
   }"

definition k_two_products ::
  "'t f_format \<Rightarrow> linears_fixed_t \<Rightarrow> linears_fixed_t \<Rightarrow> linears_fixed_t \<Rightarrow> linears_fixed_t \<Rightarrow> 't fc" where
  "k_two_products V a b c d = do {
     accumulator1 \<leftarrow> fc_mac accum_zero a b;
     accumulator2 \<leftarrow> fc_mac accumulator1 c d;
     fc_op (f_zero V) (f_accum_export V accumulator2)
   }"

definition k_product :: "'t f_format \<Rightarrow> linears_fixed_t \<Rightarrow> linears_fixed_t \<Rightarrow> 't fc" where
  "k_product V a b = do {
     accumulator \<leftarrow> fc_mac accum_zero a b;
     fc_op (f_zero V) (f_accum_export V accumulator)
   }"

definition k_sum_product :: "'t f_format \<Rightarrow> linears_fixed_t \<Rightarrow> linears_fixed_t \<Rightarrow> linears_fixed_t \<Rightarrow> 't fc" where
  "k_sum_product V base a b = k_two_products V base LINEARS_FIXED_ONE a b"

section \<open>The filter\<close>

record 't kalman_scalar =
  ks_estimate :: 't
  ks_covariance :: 't

definition kalman_scalar_reset ::
  "'t f_format \<Rightarrow> 't kalman_scalar ptr \<Rightarrow> 't \<Rightarrow> 't \<Rightarrow> linears_status_t \<times> 't kalman_scalar ptr" where
  "kalman_scalar_reset V state estimate covariance = fc_commit state (do {
     let x = f_load V estimate;
     let p = f_load V covariance;
     fc_fail_if (p <s 0) LINEARS_ERROR_DOMAIN;
     next_estimate \<leftarrow> f_store V x;
     next_covariance \<leftarrow> f_store V p;
     State_Monad.return \<lparr>ks_estimate = next_estimate, ks_covariance = next_covariance\<rparr>
   })"

text \<open>What \<open>predict\<close> and \<open>update\<close> compute from a state that is present.\<close>

definition kalman_predicted ::
  "'t f_format \<Rightarrow> 't kalman_scalar \<Rightarrow> linears_fixed_t \<Rightarrow> 't \<Rightarrow> 't kalman_scalar fc" where
  "kalman_predicted V st transition process_noise = do {
     let x = f_load V (ks_estimate st);
     let p = f_load V (ks_covariance st);
     let a = transition;
     let q = f_load V process_noise;
     fc_fail_if (p <s 0 \<or> q <s 0) LINEARS_ERROR_DOMAIN;
     next_estimate \<leftarrow> k_product V a x;
     ap \<leftarrow> fc_op 0 (linears_fixed_mul a p);
     next_covariance \<leftarrow> k_sum_product V q ap a;
     State_Monad.return \<lparr>ks_estimate = next_estimate, ks_covariance = next_covariance\<rparr>
   }"

definition kalman_updated ::
  "'t f_format \<Rightarrow> 't kalman_scalar \<Rightarrow> 't \<Rightarrow> linears_fixed_t \<Rightarrow> 't \<Rightarrow> 't kalman_scalar fc" where
  "kalman_updated V st measurement observation measurement_noise = do {
     let one = LINEARS_FIXED_ONE;
     let x = f_load V (ks_estimate st);
     let p = f_load V (ks_covariance st);
     let z = f_load V measurement;
     let h = observation;
     let r = f_load V measurement_noise;
     fc_fail_if (p <s 0 \<or> r \<le>s 0) LINEARS_ERROR_DOMAIN;
     ph \<leftarrow> fc_op 0 (linears_fixed_mul p h);
     s0 \<leftarrow> fc_op 0 (linears_fixed_mul ph h);
     s \<leftarrow> fc_op 0 (linears_fixed_add s0 r);
     fc_fail_if (s \<le>s 0) LINEARS_ERROR_DOMAIN;
     k \<leftarrow> fc_op 0 (linears_fixed_muldiv p h s);
     residual \<leftarrow> k_fixed_sub_product z h x;
     next_estimate \<leftarrow> k_sum_product V x k residual;
     j \<leftarrow> k_fixed_sub_product one k h;
     jp \<leftarrow> fc_op 0 (linears_fixed_mul j p);
     kr \<leftarrow> fc_op 0 (linears_fixed_mul k r);
     next_covariance \<leftarrow> k_two_products V jp j kr k;
     State_Monad.return \<lparr>ks_estimate = next_estimate, ks_covariance = next_covariance\<rparr>
   }"

definition kalman_scalar_predict ::
  "'t f_format \<Rightarrow> 't kalman_scalar ptr \<Rightarrow> linears_fixed_t \<Rightarrow> 't \<Rightarrow> linears_status_t \<times> 't kalman_scalar ptr" where
  "kalman_scalar_predict V state transition process_noise =
     (case state of None \<Rightarrow> (LINEARS_ERROR_ARGUMENT, None)
      | Some st \<Rightarrow> fc_commit state (kalman_predicted V st transition process_noise))"

definition kalman_scalar_update ::
  "'t f_format \<Rightarrow> 't kalman_scalar ptr \<Rightarrow> 't \<Rightarrow> linears_fixed_t \<Rightarrow> 't \<Rightarrow> linears_status_t \<times> 't kalman_scalar ptr" where
  "kalman_scalar_update V state measurement observation measurement_noise =
     (case state of None \<Rightarrow> (LINEARS_ERROR_ARGUMENT, None)
      | Some st \<Rightarrow> fc_commit state (kalman_updated V st measurement observation measurement_noise))"

section \<open>Sequences of calls\<close>

datatype 't kalman_call =
    KalmanReset 't 't
  | KalmanPredict linears_fixed_t 't
  | KalmanUpdate 't linears_fixed_t 't

fun kalman_apply :: "'t f_format \<Rightarrow> 't kalman_scalar ptr \<Rightarrow> 't kalman_call \<Rightarrow> linears_status_t \<times> 't kalman_scalar ptr" where
  "kalman_apply V state (KalmanReset x p) = kalman_scalar_reset V state x p"
| "kalman_apply V state (KalmanPredict a q) = kalman_scalar_predict V state a q"
| "kalman_apply V state (KalmanUpdate z h r) = kalman_scalar_update V state z h r"

text \<open>A caller that goes on after an error.\<close>

definition kalman_run :: "'t f_format \<Rightarrow> 't kalman_scalar ptr \<Rightarrow> 't kalman_call list \<Rightarrow> 't kalman_scalar ptr" where
  "kalman_run V = foldl (\<lambda>state c. snd (kalman_apply V state c))"

end
