(* ===== verification/Kalman_Scalar_Props.thy ===== *)
theory Kalman_Scalar_Props
  imports Kalman_Scalar
begin

text \<open>
  The scalar Kalman filter over the integers: the equations of a successful call, that no sequence of
  calls makes the variance negative, and that a direct measurement is always accepted, pulls the
  estimate towards the measurement and never increases the variance.
\<close>

section \<open>Successful calls as integer equations\<close>

lemma sint_ONE [simp]: "sint LINEARS_FIXED_ONE = 2 ^ 31"
  by (simp add: LINEARS_FIXED_ONE_def)

lemma abs_product64: "\<bar>sint a * sint b\<bar> \<le> 2 ^ 126" for a b :: i64
proof -
  have "\<bar>sint a\<bar> * \<bar>sint b\<bar> \<le> 2 ^ 63 * 2 ^ 63"
    using abs_sint_bound [of a] abs_sint_bound [of b] by (intro mult_mono) auto
  then show ?thesis by (simp add: abs_mult)
qed

lemma accum_of_product: "\<exists>acc. accum_val acc = sint a * sint b" for a b :: i64
  using abs_product64 [of a b] by (intro exists_accum) (simp_all add: abs_le_iff)

lemma ok_sub_product [fc_ok]:
  "ok_run (k_fixed_sub_product base a b) r \<longleftrightarrow> sint r = round_away (sint base * 2 ^ 31 - sint a * sint b) (2 ^ 31)"
proof -
  obtain acc1 where a1: "accum_val acc1 = sint base * 2 ^ 31" using accum_of_product [of base LINEARS_FIXED_ONE] by auto
  have "\<bar>sint base * 2 ^ 31\<bar> \<le> 2 ^ 94" using abs_sint_bound [of base] by (simp add: abs_mult)
  then have "- (2 ^ 127) \<le> sint base * 2 ^ 31 - sint a * sint b" "sint base * 2 ^ 31 - sint a * sint b < 2 ^ 127"
    using abs_product64 [of a b] by (simp_all add: abs_le_iff)
  then obtain acc2 where "accum_val acc2 = sint base * 2 ^ 31 - sint a * sint b" using exists_accum by blast
  with a1 show ?thesis unfolding k_fixed_sub_product_def by (auto simp: fc_ok) metis
qed

lemma sticky_k [simp]:
  "sticky (k_fixed_sub_product x a b)" "sticky (k_two_products V a b c d)" "sticky (k_product V a b)" "sticky (k_sum_product V x a b)"
  by (simp_all add: k_fixed_sub_product_def k_two_products_def k_product_def k_sum_product_def)

lemma ok_k_arith [fc_ok]:
  "ok_run (fc_op 0 (linears_fixed_mul a b)) r \<longleftrightarrow> sint r = round_away (sint a * sint b) (2 ^ 31)"
  "ok_run (fc_op 0 (linears_fixed_muldiv a b d)) r \<longleftrightarrow> d \<noteq> 0 \<and> sint r = round_away (sint a * sint b) (sint d)"
  using fx_mul.ok_fc_op [of 0 "(a, b)" r] fx_muldiv.ok_fc_op [of 0 "(a, b, d)" r]
  by (auto simp: muldiv_result_def check_i64_iff)

text \<open>A product that was rounded once keeps its sign, so multiplying it by the same factor again gives a square's sign.\<close>

lemma rounded_square:
  assumes "0 < d" "0 \<le> p"
  shows "0 \<le> round_away (a * p) d * a"
proof (cases "0 \<le> a")
  case True
  then show ?thesis using assms by (intro mult_nonneg_nonneg round_away_nonneg) auto
next
  case False
  then have "round_away (a * p) d \<le> 0"
    using assms round_away_mono [of d "a * p" 0] by (simp add: round_away_def mult_nonpos_nonneg)
  then show ?thesis using False by (simp add: mult_nonpos_nonpos)
qed

text \<open>The first result of a run that is returned at its end, behind three more values.\<close>

lemma return_late:
  "(\<exists>t. P t \<and> (\<exists>j. A j \<and> (\<exists>l. B j l \<and> (\<exists>m. C j l m \<and> D j l m \<and> E j l m \<and> t = v)))) \<longleftrightarrow>
    P v \<and> (\<exists>j. A j \<and> (\<exists>l. B j l \<and> (\<exists>m. C j l m \<and> D j l m \<and> E j l m)))"
  by blast

definition variance_ok :: "'t f_format \<Rightarrow> 't kalman_scalar ptr \<Rightarrow> bool" where
  "variance_ok V state \<longleftrightarrow> (\<exists>st. state = Some st \<and> 0 \<le> sint (f_load V (ks_covariance st)))"

context filter_format
begin

lemma unit_le: "S \<le> 2 ^ 31"
  using unit_dvd by (rule zdvd_imp_le) simp

lemma quantized_nonneg: "0 < d \<Longrightarrow> 0 \<le> n \<Longrightarrow> 0 \<le> quantized S n d"
  using unit_pos unit_le by (simp add: quantized_def round_away_nonneg)

lemma ok_two_products: "ok_run (k_two_products V a b c d) t \<longleftrightarrow>
  \<bar>sint a * sint b + sint c * sint d\<bar> \<le> 2 ^ 62 \<and> sint (f_load V t) = quantized S (sint a * sint b + sint c * sint d) (2 ^ 31)"
proof -
  let ?n = "sint a * sint b + sint c * sint d"
  obtain acc1 where a1: "accum_val acc1 = sint a * sint b" using accum_of_product by blast
  have "\<exists>acc2. accum_val acc2 = ?n" if "\<bar>?n\<bar> \<le> 2 ^ 62"
    using that by (intro exists_accum) (simp_all add: abs_le_iff)
  with a1 show ?thesis unfolding k_two_products_def by (auto simp: fc_ok export_ok) metis
qed

lemma ok_product: "ok_run (k_product V a b) t \<longleftrightarrow>
  \<bar>sint a * sint b\<bar> \<le> 2 ^ 62 \<and> sint (f_load V t) = quantized S (sint a * sint b) (2 ^ 31)"
  using accum_of_product [of a b] unfolding k_product_def by (auto simp: fc_ok export_ok)

lemma ok_predicted: "ok_run (kalman_predicted V st a q) st' \<Longrightarrow> 0 \<le> sint (f_load V (ks_covariance st'))"
proof -
  assume "ok_run (kalman_predicted V st a q) st'"
  then obtain ap :: i64 where c: "\<not> f_load V (ks_covariance st) <s 0" "\<not> f_load V q <s 0"
    "sint ap = round_away (sint a * sint (f_load V (ks_covariance st))) (2 ^ 31)"
    "sint (f_load V (ks_covariance st')) = quantized S (sint (f_load V q) * 2 ^ 31 + sint ap * sint a) (2 ^ 31)"
    unfolding kalman_predicted_def k_sum_product_def Let_def
    by (simp add: ok_two_products ok_product fc_ok del: power_numeral) force
  have "0 \<le> sint ap * sint a" unfolding c(3) using c(1) by (intro rounded_square) (simp_all add: word_sless_alt)
  then show ?thesis unfolding c(4) using c(2) by (intro quantized_nonneg) (simp_all add: word_sless_alt)
qed

lemma ok_updated: "ok_run (kalman_updated V st z h r) st' \<longleftrightarrow>
    0 \<le> sint (f_load V (ks_covariance st)) \<and> 0 < sint (f_load V r)
    \<and> (\<exists>ph :: i64. sint ph = round_away (sint (f_load V (ks_covariance st)) * sint h) (2 ^ 31)
    \<and> (\<exists>s0 :: i64. sint s0 = round_away (sint ph * sint h) (2 ^ 31)
    \<and> (\<exists>s :: i64. sint s = sint s0 + sint (f_load V r) \<and> 0 < sint s \<and> s \<noteq> 0
    \<and> (\<exists>k :: i64. sint k = round_away (sint (f_load V (ks_covariance st)) * sint h) (sint s)
    \<and> (\<exists>e :: i64. sint e = round_away (sint (f_load V z) * 2 ^ 31 - sint h * sint (f_load V (ks_estimate st))) (2 ^ 31)
    \<and> \<bar>sint (f_load V (ks_estimate st)) * 2 ^ 31 + sint k * sint e\<bar> \<le> 2 ^ 62
    \<and> sint (f_load V (ks_estimate st')) = quantized S (sint (f_load V (ks_estimate st)) * 2 ^ 31 + sint k * sint e) (2 ^ 31)
    \<and> (\<exists>j :: i64. sint j = round_away (2 ^ 62 - sint k * sint h) (2 ^ 31)
    \<and> (\<exists>jp :: i64. sint jp = round_away (sint j * sint (f_load V (ks_covariance st))) (2 ^ 31)
    \<and> (\<exists>kr :: i64. sint kr = round_away (sint k * sint (f_load V r)) (2 ^ 31)
    \<and> \<bar>sint jp * sint j + sint kr * sint k\<bar> \<le> 2 ^ 62
    \<and> sint (f_load V (ks_covariance st')) = quantized S (sint jp * sint j + sint kr * sint k) (2 ^ 31)))))))))"
proof -
  have st': "st' = \<lparr>ks_estimate = u, ks_covariance = v\<rparr> \<longleftrightarrow> u = ks_estimate st' \<and> v = ks_covariance st'" for u v
    by (cases st') auto
  show ?thesis
    unfolding kalman_updated_def k_sum_product_def Let_def
    by (simp add: ok_two_products fc_ok ok_op_arith word_sless_alt word_sle_eq not_le not_less st' del: power_numeral) (simp add: return_late del: power_numeral)
qed

lemma ok_updatedI:
  fixes ph s0 s k e j jp kr :: i64
  assumes "0 \<le> sint (f_load V (ks_covariance st))" "0 < sint (f_load V r)"
    "sint ph = round_away (sint (f_load V (ks_covariance st)) * sint h) (2 ^ 31)" "sint s0 = round_away (sint ph * sint h) (2 ^ 31)"
    "sint s = sint s0 + sint (f_load V r)" "0 < sint s" "s \<noteq> 0"
    "sint k = round_away (sint (f_load V (ks_covariance st)) * sint h) (sint s)"
    "sint e = round_away (sint (f_load V z) * 2 ^ 31 - sint h * sint (f_load V (ks_estimate st))) (2 ^ 31)"
    "\<bar>sint (f_load V (ks_estimate st)) * 2 ^ 31 + sint k * sint e\<bar> \<le> 2 ^ 62"
    "sint (f_load V (ks_estimate st')) = quantized S (sint (f_load V (ks_estimate st)) * 2 ^ 31 + sint k * sint e) (2 ^ 31)"
    "sint j = round_away (2 ^ 62 - sint k * sint h) (2 ^ 31)"
    "sint jp = round_away (sint j * sint (f_load V (ks_covariance st))) (2 ^ 31)"
    "sint kr = round_away (sint k * sint (f_load V r)) (2 ^ 31)"
    "\<bar>sint jp * sint j + sint kr * sint k\<bar> \<le> 2 ^ 62"
    "sint (f_load V (ks_covariance st')) = quantized S (sint jp * sint j + sint kr * sint k) (2 ^ 31)"
  shows "ok_run (kalman_updated V st z h r) st'"
  unfolding ok_updated using assms by blast

lemma updated_variance_nonneg:
  assumes "ok_run (kalman_updated V st z h r) st'"
  shows "0 \<le> sint (f_load V (ks_covariance st'))"
proof -
  obtain k j jp kr :: i64 where c: "0 \<le> sint (f_load V (ks_covariance st))" "0 < sint (f_load V r)"
    "sint jp = round_away (sint j * sint (f_load V (ks_covariance st))) (2 ^ 31)"
    "sint kr = round_away (sint k * sint (f_load V r)) (2 ^ 31)"
    "sint (f_load V (ks_covariance st')) = quantized S (sint jp * sint j + sint kr * sint k) (2 ^ 31)"
    using assms unfolding ok_updated by blast
  have "0 \<le> sint jp * sint j" "0 \<le> sint kr * sint k"
    unfolding c(3,4) using c(1,2) by (intro rounded_square; simp)+
  then show ?thesis unfolding c(5) by (intro quantized_nonneg) simp_all
qed

lemma apply_keeps_variance:
  assumes "variance_ok V state"
  shows "variance_ok V (snd (kalman_apply V state c))"
proof -
  obtain st where st: "state = Some st" using assms by (auto simp: variance_ok_def)
  have commit: "variance_ok V (snd (fc_commit state m))"
    if "\<And>st'. ok_run m st' \<Longrightarrow> 0 \<le> sint (f_load V (ks_covariance st'))" for m
    using assms that by (auto simp: variance_ok_def fc_commit_def ok_run_def split: prod.splits)
  show ?thesis
  proof (cases c)
    case (KalmanReset x p)
    have "0 \<le> quantized S (sint (f_load V p)) 1" if "\<not> f_load V p <s 0"
      using that by (intro quantized_nonneg) (simp_all add: word_sless_alt)
    then show ?thesis unfolding KalmanReset kalman_apply.simps kalman_scalar_reset_def
      by (intro commit) (auto simp: Let_def store_ok)
  next
    case (KalmanPredict a q)
    then show ?thesis by (auto simp: st kalman_scalar_predict_def intro!: commit [unfolded st] ok_predicted)
  next
    case (KalmanUpdate z h r)
    then show ?thesis by (auto simp: st kalman_scalar_update_def intro!: commit [unfolded st] updated_variance_nonneg)
  qed
qed

lemma run_keeps_variance: "variance_ok V state \<Longrightarrow> variance_ok V (kalman_run V state cs)"
  unfolding kalman_run_def by (induction cs arbitrary: state) (simp_all add: apply_keeps_variance)

end

section \<open>A direct measurement\<close>

text \<open>Signals are multiples of the unit of their format.\<close>

locale graded_format = filter_format +
  assumes load_dvd: "S dvd sint (f_load V t)"
begin

lemma quantized_between:
  assumes "sint (f_load V t) * 2 ^ 31 \<le> n" "n \<le> sint (f_load V u) * 2 ^ 31"
  shows "sint (f_load V t) \<le> quantized S n (2 ^ 31) \<and> quantized S n (2 ^ 31) \<le> sint (f_load V u)"
proof -
  obtain l m where lm: "sint (f_load V t) = l * S" "sint (f_load V u) = m * S"
    using load_dvd [of t] load_dvd [of u] by (metis dvdE mult.commute)
  have "l \<le> round_away n (2 ^ 31 * S) \<and> round_away n (2 ^ 31 * S) \<le> m"
    using assms unit_pos unfolding lm by (intro round_away_bounds) (simp_all add: ac_simps)
  then have "l * S \<le> round_away n (2 ^ 31 * S) * S" "round_away n (2 ^ 31 * S) * S \<le> m * S"
    using unit_pos by simp_all
  then show ?thesis using load_range [of t] unfolding quantized_def lm by auto
qed

lemma exists_signal: "\<bar>n\<bar> \<le> 2 ^ 62 \<Longrightarrow> \<exists>t. sint (f_load V t) = quantized S n (2 ^ 31)"
proof -
  assume n: "\<bar>n\<bar> \<le> 2 ^ 62"
  then obtain acc where acc: "accum_val acc = n" using exists_accum [of n] by (auto simp: abs_le_iff)
  with n show ?thesis using export_total [of acc "f_zero V"] export_value [of acc] by blast
qed

end

text \<open>
  With the observation coefficient one the gain is \<open>p / (p + r)\<close>, rounded. It is at most one, and the
  part of the measurement noise that it lets through is at most the old variance, in spite of the rounding.
\<close>

lemma direct_gain:
  fixes p r k :: int
  assumes k: "k = round_away (p * 2 ^ 31) (p + r)" and p: "0 \<le> p" and r: "0 < r" "r < 2 ^ 31"
  shows "0 \<le> k" "k \<le> 2 ^ 31" "0 \<le> round_away (k * r) (2 ^ 31)" "round_away (k * r) (2 ^ 31) \<le> p"
proof -
  have k01: "0 \<le> k \<and> k \<le> 2 ^ 31"
    unfolding k using p r by (intro round_away_bounds) (simp_all add: mult.commute)
  then show "0 \<le> k" "k \<le> 2 ^ 31" by simp_all
  then show "0 \<le> round_away (k * r) (2 ^ 31)" using r by (intro round_away_nonneg) simp_all
  have "2 * \<bar>k * (p + r) - p * 2 ^ 31\<bar> \<le> p + r" unfolding k using p r by (intro round_away_dist) simp
  then have near: "2 * (k * p) + 2 * (k * r) \<le> p * 2 ^ 32 + p + r" by (simp add: abs_if algebra_simps split: if_splits)
  have "2 * (k * r) < p * 2 ^ 32 + 2 ^ 31"
  proof (cases "k = 0")
    case False
    then have "p \<le> k * p" using k01 p mult_right_mono [of 1 k p] by simp
    then show ?thesis using near p r by simp
  qed (use p in simp)
  moreover have "2 * \<bar>round_away (k * r) (2 ^ 31) * 2 ^ 31 - k * r\<bar> \<le> 2 ^ 31" by (rule round_away_dist) simp
  ultimately show "round_away (k * r) (2 ^ 31) \<le> p" by (simp add: abs_if split: if_splits)
qed

lemma weighted_between:
  fixes k x z :: int
  assumes "0 \<le> k" "k \<le> 2 ^ 31"
  shows "min x z * 2 ^ 31 \<le> x * 2 ^ 31 + k * (z - x) \<and> x * 2 ^ 31 + k * (z - x) \<le> max x z * 2 ^ 31"
proof -
  have "(2 ^ 31 - k) * min x z + k * min x z \<le> (2 ^ 31 - k) * x + k * z"
    "(2 ^ 31 - k) * x + k * z \<le> (2 ^ 31 - k) * max x z + k * max x z"
    using assms by (intro add_mono mult_left_mono; simp)+
  then show ?thesis by (simp add: algebra_simps)
qed

text \<open>The measurement is accepted, pulls the estimate towards itself and does not increase the variance.\<close>

definition accepts_direct :: "'t f_format \<Rightarrow> 't kalman_scalar \<Rightarrow> 't \<Rightarrow> 't \<Rightarrow> bool" where
  "accepts_direct V st z r \<longleftrightarrow> (\<exists>st'. kalman_scalar_update V (Some st) z LINEARS_FIXED_ONE r = (LINEARS_OK, Some st')
     \<and> min (sint (f_load V (ks_estimate st))) (sint (f_load V z)) \<le> sint (f_load V (ks_estimate st'))
     \<and> sint (f_load V (ks_estimate st')) \<le> max (sint (f_load V (ks_estimate st))) (sint (f_load V z))
     \<and> 0 \<le> sint (f_load V (ks_covariance st')) \<and> sint (f_load V (ks_covariance st')) \<le> sint (f_load V (ks_covariance st)))"

context graded_format
begin

lemma update_direct:
  assumes p: "0 \<le> sint (f_load V (ks_covariance st))" and r: "0 < sint (f_load V r)"
  obtains st' where "ok_run (kalman_updated V st z LINEARS_FIXED_ONE r) st'"
    "min (sint (f_load V (ks_estimate st))) (sint (f_load V z)) \<le> sint (f_load V (ks_estimate st'))"
    "sint (f_load V (ks_estimate st')) \<le> max (sint (f_load V (ks_estimate st))) (sint (f_load V z))"
    "0 \<le> sint (f_load V (ks_covariance st'))" "sint (f_load V (ks_covariance st')) \<le> sint (f_load V (ks_covariance st))"
proof -
  define P R X Z where "P = sint (f_load V (ks_covariance st))" and "R = sint (f_load V r)"
    and "X = sint (f_load V (ks_estimate st))" and "Z = sint (f_load V z)"
  note pr = p [folded P_def] r [folded R_def]
  have R31: "R < 2 ^ 31" and X31: "\<bar>X\<bar> \<le> 2 ^ 31" and Z31: "\<bar>Z\<bar> \<le> 2 ^ 31" and P31: "P \<le> 2 ^ 31"
    unfolding R_def X_def Z_def P_def using load_range [of r] unit_pos load_abs abs_le_D1 by (linarith, blast+)
  define K where "K = round_away (P * 2 ^ 31) (P + R)"
  note g = direct_gain [OF K_def pr R31]
  define JP KR where "JP = round_away ((2 ^ 31 - K) * P) (2 ^ 31)" and "KR = round_away (K * R) (2 ^ 31)"
  have "(2 ^ 31 - K) * P \<le> P * 2 ^ 31" using g pr by (simp add: mult.commute mult_left_mono)
  then have jp: "0 \<le> JP" "JP \<le> P"
    using g pr round_away_bounds [of "2 ^ 31" 0 "(2 ^ 31 - K) * P" P] by (simp_all add: JP_def)
  have kr: "0 \<le> KR" "KR \<le> P" using g by (simp_all add: KR_def)
  have cov: "0 \<le> JP * (2 ^ 31 - K) + KR * K" "JP * (2 ^ 31 - K) + KR * K \<le> P * 2 ^ 31"
  proof -
    have "JP * (2 ^ 31 - K) + KR * K \<le> P * (2 ^ 31 - K) + P * K"
      using jp kr g by (intro add_mono mult_right_mono) simp_all
    then show "JP * (2 ^ 31 - K) + KR * K \<le> P * 2 ^ 31" by (simp add: algebra_simps)
  qed (use jp kr g in simp)
  note est = weighted_between [OF g(1,2), of X Z]
  have fits: "\<bar>X * 2 ^ 31 + K * (Z - X)\<bar> \<le> 2 ^ 62" "\<bar>JP * (2 ^ 31 - K) + KR * K\<bar> \<le> 2 ^ 62"
    using est X31 Z31 cov P31 by (auto simp: abs_le_iff min_def max_def split: if_splits)
  obtain x' where x': "sint (f_load V x') = quantized S (X * 2 ^ 31 + K * (Z - X)) (2 ^ 31)" using exists_signal [OF fits(1)] by blast
  obtain p' where p': "sint (f_load V p') = quantized S (JP * (2 ^ 31 - K) + KR * K) (2 ^ 31)" using exists_signal [OF fits(2)] by blast
  have words: "\<exists>v :: i64. sint v = n" if "\<bar>n\<bar> \<le> 2 ^ 33" for n
    using that by (intro exists_i64) (simp_all add: abs_le_iff)
  have small: "\<bar>P\<bar> \<le> 2 ^ 33" "\<bar>P + R\<bar> \<le> 2 ^ 33" "\<bar>K\<bar> \<le> 2 ^ 33" "\<bar>Z - X\<bar> \<le> 2 ^ 33" "\<bar>2 ^ 31 - K\<bar> \<le> 2 ^ 33" "\<bar>JP\<bar> \<le> 2 ^ 33" "\<bar>KR\<bar> \<le> 2 ^ 33"
    using pr P31 R31 X31 Z31 g(1,2) jp kr by simp_all
  from small [THEN words] obtain wp ws wk we wj wjp wkr :: i64 where w: "sint wp = P" "sint ws = P + R" "sint wk = K" "sint we = Z - X"
    "sint wj = 2 ^ 31 - K" "sint wjp = JP" "sint wkr = KR" by metis
  have exact: "round_away (P * 2 ^ 31) (2 ^ 31) = P" "round_away (Z * 2 ^ 31 - 2 ^ 31 * X) (2 ^ 31) = Z - X"
    "round_away (2 ^ 62 - K * 2 ^ 31) (2 ^ 31) = 2 ^ 31 - K"
    using round_away_exact [of "2 ^ 31" P] round_away_exact [of "2 ^ 31" "Z - X"] round_away_exact [of "2 ^ 31" "2 ^ 31 - K"]
    by (simp_all add: algebra_simps)
  have run: "ok_run (kalman_updated V st z LINEARS_FIXED_ONE r) \<lparr>ks_estimate = x', ks_covariance = p'\<rparr>"
  proof (rule ok_updatedI [where ph = wp and ?s0.0 = wp and s = ws and k = wk and e = we and j = wj and jp = wjp and kr = wkr])
    show "ws \<noteq> 0" using w(2) pr by auto
  qed (simp_all only: w exact x' p' fits sint_ONE kalman_scalar.simps pr P_def [symmetric] R_def [symmetric] X_def [symmetric] Z_def [symmetric]
    K_def [symmetric] JP_def [symmetric] KR_def [symmetric] add_nonneg_pos)
  have "sint (f_load V p') \<le> P"
    using quantized_between [of "f_zero V" "JP * (2 ^ 31 - K) + KR * K" "ks_covariance st"] cov by (simp add: load_zero p' P_def)
  moreover have "0 \<le> sint (f_load V p')" using cov(1) by (simp add: p' quantized_nonneg)
  moreover have "min X Z \<le> sint (f_load V x') \<and> sint (f_load V x') \<le> max X Z"
  proof (cases "X \<le> Z")
    case True
    then show ?thesis using est quantized_between [of "ks_estimate st" "X * 2 ^ 31 + K * (Z - X)" z]
      by (simp add: x' X_def [symmetric] Z_def [symmetric] min_def max_def)
  next
    case False
    then show ?thesis using est quantized_between [of z "X * 2 ^ 31 + K * (Z - X)" "ks_estimate st"]
      by (simp add: x' X_def [symmetric] Z_def [symmetric] min_def max_def)
  qed
  ultimately show thesis using that [OF run] by (simp add: X_def Z_def P_def)
qed

lemma run_accepts_direct:
  assumes "0 \<le> sint (f_load V (ks_covariance st))" "0 < sint (f_load V r)"
  shows "\<exists>st'. kalman_run V (Some st) calls = Some st' \<and> 0 \<le> sint (f_load V (ks_covariance st')) \<and> accepts_direct V st' z r"
proof -
  have "variance_ok V (Some st)" using assms(1) by (simp add: variance_ok_def)
  from run_keeps_variance [OF this, of calls] obtain st' where
    st': "kalman_run V (Some st) calls = Some st'" "0 \<le> sint (f_load V (ks_covariance st'))" by (auto simp: variance_ok_def)
  have "accepts_direct V st' z r"
    by (rule update_direct [OF st'(2) assms(2), of z]) (auto simp: accepts_direct_def kalman_scalar_update_def fc_commit_ok)
  with st' show ?thesis by blast
qed

end

interpretation g15: graded_format filters_q15 65536
  by unfold_locales (simp add: filters_q15_def q15_field)

interpretation g31: graded_format filters_q31 1
  by unfold_locales simp

lemma kalman_load [simp]:
  "sint (f_load filters_q15 t) = sint t * 65536" "sint (f_load filters_q31 u) = sint u"
  by (simp_all add: filters_q15_def filters_q31_def q15_field q31_field)

section \<open>Properties\<close>

text \<open>
  C10: no sequence of resets, predictions and measurements makes the variance of a q15 or q31 scalar Kalman
  filter negative, with any transition and observation coefficients and any noise, whether the calls
  succeed or not. After any such sequence a direct measurement, one with observation coefficient one and
  positive noise, is accepted; the new estimate lies between the old one and the measurement, and the
  variance does not grow, although every product of the Joseph form is rounded.
\<close>

theorem kalman_direct_measurement:
  assumes "0 \<le> sint (ks_covariance a)" "0 < sint r" "0 \<le> sint (ks_covariance b)" "0 < sint s"
  shows "(\<exists>a'. kalman_run filters_q15 (Some a) calls15 = Some a' \<and> 0 \<le> sint (ks_covariance a') \<and> accepts_direct filters_q15 a' z r)
    \<and> (\<exists>b'. kalman_run filters_q31 (Some b) calls31 = Some b' \<and> 0 \<le> sint (ks_covariance b') \<and> accepts_direct filters_q31 b' y s)"
  using assms g15.run_accepts_direct [of a r calls15 z] g31.run_accepts_direct [of b s calls31 y] by simp

definition kalman_example :: "linears_q15_t kalman_scalar" where
  "kalman_example = \<lparr>ks_estimate = 0, ks_covariance = 16384\<rparr>"

definition kalman_example_calls :: "linears_q15_t kalman_call list" where
  "kalman_example_calls = [KalmanPredict 0xFFFFFFFF80000000 100, KalmanUpdate 8192 0x40000000 200, KalmanReset 1 (- 1)]"

lemma kalman_example_run:
  "(case kalman_run filters_q15 (Some kalman_example) kalman_example_calls of
      Some st \<Rightarrow> 0 < sint (ks_estimate st) \<and> sint (ks_covariance st) < 16384 | None \<Rightarrow> False)"
  by code_simp

theorem kalman_direct_measurement_witness:
  "\<exists>st. kalman_run filters_q15 (Some kalman_example) kalman_example_calls = Some st
    \<and> 0 < sint (ks_estimate st) \<and> 0 \<le> sint (ks_covariance st) \<and> sint (ks_covariance st) < 16384
    \<and> accepts_direct filters_q15 st 12000 300"
  using kalman_direct_measurement [of kalman_example 300 "\<lparr>ks_estimate = 0, ks_covariance = 1\<rparr>" 1 kalman_example_calls 12000 "[]" 0]
    kalman_example_run
  by (auto simp: kalman_example_def)

end
