(* ===== verification/Linears_Basic.thy ===== *)
theory Linears_Basic
  imports Numeric_Props Memory
begin

text \<open>
  Model of the fixed-point half of \<open>libs/linears/src/basic.c\<close> and of \<open>basic_q_impl.h\<close>: dense matrices over
  caller-owned storage, with an operation that stages its results in a scratch array and commits
  them only when every element was computed.

  \<open>W\<close> is the width of \<open>size_t\<close> and \<open>uintptr_t\<close>; their values are natural numbers, since every product and
  difference is checked in the code before it is formed. An address is a number, NULL is 0, and the
  memory maps the address of an element to its value; \<open>None\<close> is an address without an element, and an
  access to it is the result \<open>None\<close>. Elements are naturally aligned, as on the targets of the library,
  so an element is addressed by its first byte only. Matrix data may overlap. A descriptor pointer is
  its address with the descriptor it points to. The checks that concern floating-point elements
  (\<open>input_values\<close>) accept every fixed-point matrix and have no counterpart.
\<close>

section \<open>Data\<close>

record linears_matrix_t =
  m_data :: nat
  m_rows :: nat
  m_cols :: nat

type_synonym mat_ptr = "(nat \<times> linears_matrix_t) option"

type_synonym 't memory = "nat \<rightharpoonup> 't"

datatype matrix_op = ADD | SUB | HADAMARD | MUL | MATVEC | TRANSPOSE | AXPBY | SCALE

datatype reduction_op = DOT | NORM | TRACE

text \<open>
  The element types: \<open>element_size\<close> and \<open>element_alignment\<close>, which agree, the elements of \<open>fill_matrix\<close>, and
  for the signal formats the number of fraction bits, the load as \<open>int64_t\<close>, the quantisation of an
  accumulator and the cast of a raw value.
\<close>

record 't numeric_kind =
  nk_size :: nat
  nk_zero :: 't
  nk_diagonal :: 't

record 't q_kind = "'t numeric_kind" +
  q_bits :: nat
  q_load :: "'t \<Rightarrow> i64"
  q_accum_to :: "linears_accum_t \<Rightarrow> 't ptr \<Rightarrow> linears_status_t \<times> 't ptr"
  q_cast :: "u64 \<Rightarrow> 't"

definition Q15 :: "linears_q15_t q_kind" where
  "Q15 = \<lparr>nk_size = 2, nk_zero = 0, nk_diagonal = 32767, q_bits = 15, q_load = scast, q_accum_to = linears_accum_to_q15, q_cast = ucast\<rparr>"

definition Q31 :: "linears_q31_t q_kind" where
  "Q31 = \<lparr>nk_size = 4, nk_zero = 0, nk_diagonal = 2147483647, q_bits = 31, q_load = scast, q_accum_to = linears_accum_to_q31, q_cast = ucast\<rparr>"

definition WORK :: "linears_fixed_t numeric_kind" where
  "WORK = \<lparr>nk_size = 8, nk_zero = 0, nk_diagonal = LINEARS_FIXED_ONE\<rparr>"

text \<open>Sizes and alignments of the descriptor and of the scratch unit.\<close>

definition matrix_size :: "nat \<Rightarrow> nat" where "matrix_size W = 3 * (W div 8)"
definition matrix_alignment :: "nat \<Rightarrow> nat" where "matrix_alignment W = W div 8"
definition unit_size :: nat where "unit_size = 8"
definition unit_alignment :: nat where "unit_alignment = 8"

definition mat_load :: "('t, 'z) numeric_kind_scheme \<Rightarrow> 't memory \<Rightarrow> linears_matrix_t \<Rightarrow> nat \<Rightarrow> 't option" where
  "mat_load K m d i = m (m_data d + i * nk_size K)"

definition mat_store :: "('t, 'z) numeric_kind_scheme \<Rightarrow> 't memory \<Rightarrow> linears_matrix_t \<Rightarrow> nat \<Rightarrow> 't \<Rightarrow> 't memory option" where
  "mat_store K m d i v = (case mat_load K m d i of None \<Rightarrow> None | Some _ \<Rightarrow> Some (m(m_data d + i * nk_size K \<mapsto> v)))"

section \<open>Storage checks\<close>

definition mem_overlap :: "nat \<Rightarrow> nat \<Rightarrow> nat \<Rightarrow> nat \<Rightarrow> bool" where
  "mem_overlap x asize y bsize =
     (if asize = 0 \<or> bsize = 0 then False else if x \<le> y then y - x < asize else x - y < bsize)"

definition matrix_storage :: "nat \<Rightarrow> ('t, 'z) numeric_kind_scheme \<Rightarrow> mat_ptr \<Rightarrow> linears_status_t + nat" where
  "matrix_storage W K matrix =
     (case matrix of None \<Rightarrow> Inl LINEARS_ERROR_ARGUMENT
      | Some (p, d) \<Rightarrow>
          if p mod matrix_alignment W \<noteq> 0 then Inl LINEARS_ERROR_ARGUMENT
          else if m_cols d \<noteq> 0 \<and> (2 ^ W - 1) div m_cols d < m_rows d then Inl LINEARS_ERROR_SIZE
          else let count = m_rows d * m_cols d; width = nk_size K
            in if (2 ^ W - 1) div width < count then Inl LINEARS_ERROR_SIZE
               else if count \<noteq> 0 \<and> (m_data d = 0 \<or> m_data d mod width \<noteq> 0) then Inl LINEARS_ERROR_ARGUMENT
               else if 2 ^ W - 1 - m_data d < count * width then Inl LINEARS_ERROR_SIZE
               else Inr count)"

text \<open>The entries that are not NULL among the operands, with their element counts.\<close>

fun operands :: "(mat_ptr \<times> nat) list \<Rightarrow> (nat \<times> linears_matrix_t \<times> nat) list" where
  "operands [] = []"
| "operands ((None, _) # ps) = operands ps"
| "operands ((Some (p, d), n) # ps) = (p, d, n) # operands ps"

definition matrix_aliases :: "nat \<Rightarrow> ('t, 'z) numeric_kind_scheme \<Rightarrow> mat_ptr \<times> nat \<Rightarrow> mat_ptr \<times> nat \<Rightarrow> mat_ptr \<times> nat \<Rightarrow> linears_status_t" where
  "matrix_aliases W K a b out =
     (let ms = operands [a, b, out]
      in if list_ex (\<lambda>(p, _, _). list_ex (\<lambda>(q, d, n).
              mem_overlap p (matrix_size W) (m_data d) (n * nk_size K)
              \<or> (p \<noteq> q \<and> mem_overlap p (matrix_size W) q (matrix_size W))) ms) ms
         then LINEARS_ERROR_ALIAS else LINEARS_OK)"

definition scratch_storage ::
  "nat \<Rightarrow> ('t, 'z) numeric_kind_scheme \<Rightarrow> nat \<Rightarrow> nat \<Rightarrow> nat \<Rightarrow> mat_ptr \<times> nat \<Rightarrow> mat_ptr \<times> nat \<Rightarrow> mat_ptr \<Rightarrow> linears_status_t" where
  "scratch_storage W K workspace bytes count a b out =
     (if (2 ^ W - 1) div unit_size < count then LINEARS_ERROR_SIZE
      else let needed = count * unit_size
        in if needed = 0 then LINEARS_OK
           else if workspace = 0 \<or> bytes < needed \<or> workspace mod unit_alignment \<noteq> 0 then LINEARS_ERROR_WORKSPACE
           else if 2 ^ W - 1 - workspace < bytes then LINEARS_ERROR_SIZE
           else if list_ex (\<lambda>(p, d, n). mem_overlap workspace bytes p (matrix_size W)
                   \<or> mem_overlap workspace bytes (m_data d) (n * nk_size K)) (operands [a, b, (out, count)])
             then LINEARS_ERROR_ALIAS else LINEARS_OK)"

section \<open>Signal kernels\<close>

text \<open>A loop over \<open>n\<close> element pairs starting at index \<open>i\<close>.\<close>

fun dot_loop :: "(i64 \<Rightarrow> i64 \<Rightarrow> 's \<Rightarrow> 's) \<Rightarrow> (nat \<Rightarrow> i64 option) \<Rightarrow> (nat \<Rightarrow> i64 option) \<Rightarrow> nat \<Rightarrow> nat \<Rightarrow> 's \<Rightarrow> 's option" where
  "dot_loop add fa fb i 0 s = Some s"
| "dot_loop add fa fb i (Suc n) s = do { x \<leftarrow> fa i; y \<leftarrow> fb i; dot_loop add fa fb (Suc i) n (add x y s) }"

text \<open>The 64-bit sum serves q15 when the count bounds it, which on a 32-bit \<open>size_t\<close> it always does.\<close>

definition dot_raw :: "nat \<Rightarrow> nat \<Rightarrow> (nat \<Rightarrow> i64 option) \<Rightarrow> (nat \<Rightarrow> i64 option) \<Rightarrow> nat \<Rightarrow> linears_accum_t option" where
  "dot_raw W bits fa fb count =
     (if bits = 15 \<and> (W \<le> 32 \<or> count \<le> (2 ^ 63 - 1) div 2 ^ 30)
      then do { s \<leftarrow> dot_loop (\<lambda>x y s. s + x * y) fa fb 0 count 0; Some (ln_shift_i64 s 32) }
      else do {
        s \<leftarrow> dot_loop (\<lambda>x y s. ln_add_product64 s (x * y)) fa fb 0 count \<lparr>acc_low = 0, acc_high = 0\<rparr>;
        Some (if bits = 15 then ln_shift_accum s 32 else s)
      })"

definition q_element :: "'t q_kind \<Rightarrow> 't memory \<Rightarrow> linears_matrix_t \<Rightarrow> nat \<Rightarrow> i64 option" where
  "q_element F m d i = map_option (q_load F) (mat_load F m d i)"

text \<open>The exact value of one element of the result, except for a transposition.\<close>

definition evaluate_sum ::
  "nat \<Rightarrow> 't q_kind \<Rightarrow> matrix_op \<Rightarrow> linears_matrix_t \<Rightarrow> linears_matrix_t option \<Rightarrow> linears_matrix_t \<Rightarrow> linears_fixed_t \<Rightarrow> linears_fixed_t
    \<Rightarrow> 't memory \<Rightarrow> nat \<Rightarrow> nat \<Rightarrow> linears_accum_t option" where
  "evaluate_sum W F operation a b out alpha beta m row col =
     (if operation = MUL \<or> operation = MATVEC
      then if m_cols a = 0 then Some \<lparr>acc_low = 0, acc_high = 0\<rparr>
           else do {
             bm \<leftarrow> b;
             dot_raw W (q_bits F) (\<lambda>k. q_element F m a (row * m_cols a + k)) (\<lambda>k. q_element F m bm (col + k * m_cols bm)) (m_cols a)
           }
      else do {
        let i = row * m_cols out + col;
        x \<leftarrow> q_element F m a i;
        y \<leftarrow> (case b of None \<Rightarrow> Some 0 | Some bm \<Rightarrow> q_element F m bm i);
        if operation = ADD \<or> operation = SUB
        then Some (ln_shift_i64 (if operation = ADD then x + y else x - y) (62 - q_bits F))
        else if operation = HADAMARD
        then let product = x * y
             in Some (if q_bits F = 15 then ln_shift_i64 product 32
                else \<lparr>acc_low = product, acc_high = (if product <s 0 then UINT64_MAX else 0)\<rparr>)
        else let x' = (if q_bits F = 15 then x * 65536 else x); y' = (if q_bits F = 15 then y * 65536 else y);
                 s = ln_product alpha x'
             in Some (if operation = AXPBY then ln_add_unchecked s (ln_product beta y') else s)
      })"

text \<open>The result of a status call whose output is the scratch element.\<close>

definition staged :: "linears_status_t \<times> 't ptr \<Rightarrow> linears_status_t + 't" where
  "staged r = (case r of (LINEARS_OK, Some v) \<Rightarrow> Inr v | (status, _) \<Rightarrow> Inl status)"

text \<open>One element: the value to stage in the scratch array, or the status that ends the evaluation.\<close>

definition evaluate_q ::
  "nat \<Rightarrow> 't q_kind \<Rightarrow> matrix_op \<Rightarrow> linears_matrix_t \<Rightarrow> linears_matrix_t option \<Rightarrow> linears_matrix_t \<Rightarrow> linears_fixed_t \<Rightarrow> linears_fixed_t
    \<Rightarrow> 't memory \<Rightarrow> nat \<Rightarrow> nat \<Rightarrow> (linears_status_t + 't) option" where
  "evaluate_q W F operation a b out alpha beta m row col =
     (if operation = TRANSPOSE then map_option Inr (mat_load F m a (col * m_cols a + row))
      else do {
        s \<leftarrow> evaluate_sum W F operation a b out alpha beta m row col;
        Some (staged (q_accum_to F s (Some (nk_zero F))))
      })"

section \<open>Working kernel\<close>

fun work_dot :: "(nat \<Rightarrow> i64 option) \<Rightarrow> (nat \<Rightarrow> i64 option) \<Rightarrow> nat \<Rightarrow> nat \<Rightarrow> linears_accum_t \<Rightarrow> (linears_status_t + linears_accum_t) option" where
  "work_dot fa fb k 0 s = Some (Inr s)"
| "work_dot fa fb k (Suc n) s = do {
     x \<leftarrow> fa k;
     y \<leftarrow> fb k;
     case ln_add_checked s (ln_product x y) s of
       (LINEARS_OK, s') \<Rightarrow> work_dot fa fb (Suc k) n s'
     | (status, _) \<Rightarrow> Some (Inl status)
   }"

definition evaluate_work ::
  "matrix_op \<Rightarrow> linears_matrix_t \<Rightarrow> linears_matrix_t option \<Rightarrow> linears_matrix_t \<Rightarrow> linears_fixed_t \<Rightarrow> linears_fixed_t
    \<Rightarrow> linears_fixed_t memory \<Rightarrow> nat \<Rightarrow> nat \<Rightarrow> (linears_status_t + linears_fixed_t) option" where
  "evaluate_work operation a b out alpha beta m row col =
     (let i = row * m_cols out + col
      in if operation = TRANSPOSE then map_option Inr (mat_load WORK m a (col * m_cols a + row))
         else do {
           bm \<leftarrow> b;
           if operation = ADD \<or> operation = SUB
           then do {
             x \<leftarrow> mat_load WORK m a i;
             y \<leftarrow> mat_load WORK m bm i;
             Some (staged (if operation = ADD then linears_fixed_add x y (Some 0) else linears_fixed_sub x y (Some 0)))
           }
           else do {
             s \<leftarrow> (if operation = MUL
               then work_dot (\<lambda>k. mat_load WORK m a (row * m_cols a + k)) (\<lambda>k. mat_load WORK m bm (k * m_cols bm + col)) 0 (m_cols a)
                      \<lparr>acc_low = 0, acc_high = 0\<rparr>
               else do {
                 x \<leftarrow> mat_load WORK m a i;
                 y \<leftarrow> mat_load WORK m bm i;
                 Some (case ln_add_checked (ln_product alpha x) (ln_product beta y) \<lparr>acc_low = 0, acc_high = 0\<rparr> of
                   (LINEARS_OK, s) \<Rightarrow> Inr s | (status, _) \<Rightarrow> Inl status)
               });
             Some (case s of Inl e \<Rightarrow> Inl e | Inr acc \<Rightarrow> staged (linears_accum_to_fixed acc (Some 0)))
           }
         })"

section \<open>Matrix operations\<close>

text \<open>The loops over columns and rows, which stage element \<open>row * cols + col\<close> in the scratch array \<open>ws\<close>.\<close>

function evaluate_cols :: "(nat \<Rightarrow> nat \<Rightarrow> (linears_status_t + 't) option) \<Rightarrow> nat \<Rightarrow> nat \<Rightarrow> nat \<Rightarrow> 't list \<Rightarrow> (linears_status_t \<times> 't list) option" where
  "evaluate_cols f cols row col ws =
     (if col < cols then
        do {
          r \<leftarrow> f row col;
          (case r of Inl status \<Rightarrow> Some (status, ws)
           | Inr v \<Rightarrow> do { ws' \<leftarrow> buf_write (row * cols + col) v ws; evaluate_cols f cols row (Suc col) ws' })
        }
      else Some (LINEARS_OK, ws))"
  by pat_completeness auto
termination by (relation "measure (\<lambda>(_, cols, _, col, _). cols - col)") auto

function evaluate_rows :: "(nat \<Rightarrow> nat \<Rightarrow> (linears_status_t + 't) option) \<Rightarrow> nat \<Rightarrow> nat \<Rightarrow> nat \<Rightarrow> 't list \<Rightarrow> (linears_status_t \<times> 't list) option" where
  "evaluate_rows f rows cols row ws =
     (if row < rows then
        do {
          (status, ws') \<leftarrow> evaluate_cols f cols row 0 ws;
          if status = LINEARS_OK then evaluate_rows f rows cols (Suc row) ws' else Some (status, ws')
        }
      else Some (LINEARS_OK, ws))"
  by pat_completeness auto
termination by (relation "measure (\<lambda>(_, rows, _, row, _). rows - row)") auto

declare evaluate_cols.simps [simp del] evaluate_rows.simps [simp del]

fun commit_result :: "('t, 'z) numeric_kind_scheme \<Rightarrow> linears_matrix_t \<Rightarrow> nat \<Rightarrow> nat \<Rightarrow> 't list \<Rightarrow> 't memory \<Rightarrow> 't memory option" where
  "commit_result K out i 0 ws m = Some m"
| "commit_result K out i (Suc n) ws m = do {
     v \<leftarrow> buf_read i ws;
     m' \<leftarrow> mat_store K m out i v;
     commit_result K out (Suc i) n ws m'
   }"

definition binary_op :: "matrix_op \<Rightarrow> bool" where
  "binary_op operation \<longleftrightarrow> operation = ADD \<or> operation = SUB \<or> operation = HADAMARD \<or> operation = MUL \<or> operation = MATVEC \<or> operation = AXPBY"

definition dimension_error :: "matrix_op \<Rightarrow> linears_matrix_t \<Rightarrow> linears_matrix_t option \<Rightarrow> linears_matrix_t \<Rightarrow> bool" where
  "dimension_error operation a b out =
     (if operation = MUL \<or> operation = MATVEC then
        (case b of None \<Rightarrow> False
         | Some bm \<Rightarrow> m_cols a \<noteq> m_rows bm \<or> m_rows out \<noteq> m_rows a \<or> m_cols out \<noteq> m_cols bm \<or> (operation = MATVEC \<and> m_cols bm \<noteq> 1))
      else if operation = TRANSPOSE then m_rows out \<noteq> m_cols a \<or> m_cols out \<noteq> m_rows a
      else m_rows out \<noteq> m_rows a \<or> m_cols out \<noteq> m_cols a
        \<or> (case b of None \<Rightarrow> False | Some bm \<Rightarrow> m_rows bm \<noteq> m_rows a \<or> m_cols bm \<noteq> m_cols a))"

text \<open>
  The validation of \<open>matrix_compute\<close>: the descriptors of the operands and the element count of the result,
  or the status it returns.
\<close>

definition compute_check ::
  "nat \<Rightarrow> ('t, 'z) numeric_kind_scheme \<Rightarrow> matrix_op \<Rightarrow> mat_ptr \<Rightarrow> mat_ptr \<Rightarrow> mat_ptr \<Rightarrow> nat \<Rightarrow> nat
    \<Rightarrow> linears_status_t + (linears_matrix_t \<times> linears_matrix_t option \<times> linears_matrix_t \<times> nat)" where
  "compute_check W K operation a b out workspace bytes =
     (case matrix_storage W K a of Inl e \<Rightarrow> Inl e | Inr acount \<Rightarrow>
      case (if b = None then Inr 0 else matrix_storage W K b) of Inl e \<Rightarrow> Inl e | Inr bcount \<Rightarrow>
      case matrix_storage W K out of Inl e \<Rightarrow> Inl e | Inr outcount \<Rightarrow>
      if binary_op operation \<and> b = None then Inl LINEARS_ERROR_ARGUMENT
      else let am = snd (the a); bm = map_option snd b; om = snd (the out)
        in if dimension_error operation am bm om then Inl LINEARS_ERROR_DIMENSION
           else let alias_status = matrix_aliases W K (a, acount) (b, bcount) (out, outcount);
                    status = (if alias_status = LINEARS_OK
                      then scratch_storage W K workspace bytes outcount (a, acount) (b, bcount) out else alias_status)
             in if status \<noteq> LINEARS_OK then Inl status else Inr (am, bm, om, outcount))"

definition matrix_compute ::
  "nat \<Rightarrow> ('t, 'z) numeric_kind_scheme
    \<Rightarrow> (matrix_op \<Rightarrow> linears_matrix_t \<Rightarrow> linears_matrix_t option \<Rightarrow> linears_matrix_t \<Rightarrow> linears_fixed_t \<Rightarrow> linears_fixed_t
      \<Rightarrow> 't memory \<Rightarrow> nat \<Rightarrow> nat \<Rightarrow> (linears_status_t + 't) option)
    \<Rightarrow> matrix_op \<Rightarrow> mat_ptr \<Rightarrow> mat_ptr \<Rightarrow> mat_ptr \<Rightarrow> linears_fixed_t \<Rightarrow> linears_fixed_t \<Rightarrow> nat \<Rightarrow> 't list \<Rightarrow> nat \<Rightarrow> 't memory
    \<Rightarrow> (linears_status_t \<times> 't memory) option" where
  "matrix_compute W K evaluate operation a b out alpha beta workspace ws bytes m =
     (case compute_check W K operation a b out workspace bytes of
        Inl e \<Rightarrow> Some (e, m)
      | Inr (am, bm, om, outcount) \<Rightarrow>
          if outcount = 0 then Some (LINEARS_OK, m)
          else do {
            (status, ws') \<leftarrow> evaluate_rows (evaluate operation am bm om alpha beta m) (m_rows om) (m_cols om) 0 ws;
            if status = LINEARS_OK
            then do { m' \<leftarrow> commit_result K om 0 outcount ws' m; Some (LINEARS_OK, m') }
            else Some (status, m)
          })"

section \<open>Copying and filling\<close>

fun read_elements :: "('t, 'z) numeric_kind_scheme \<Rightarrow> 't memory \<Rightarrow> linears_matrix_t \<Rightarrow> nat \<Rightarrow> nat \<Rightarrow> 't list option" where
  "read_elements K m d i 0 = Some []"
| "read_elements K m d i (Suc n) = do { v \<leftarrow> mat_load K m d i; vs \<leftarrow> read_elements K m d (Suc i) n; Some (v # vs) }"

text \<open>\<open>memmove\<close> reads the source as a whole before the destination changes.\<close>

definition copy_matrix :: "nat \<Rightarrow> ('t, 'z) numeric_kind_scheme \<Rightarrow> mat_ptr \<Rightarrow> mat_ptr \<Rightarrow> 't memory \<Rightarrow> (linears_status_t \<times> 't memory) option" where
  "copy_matrix W K a out m =
     (case matrix_storage W K a of Inl e \<Rightarrow> Some (e, m) | Inr acount \<Rightarrow>
      case matrix_storage W K out of Inl e \<Rightarrow> Some (e, m) | Inr outcount \<Rightarrow>
      let am = snd (the a); om = snd (the out)
      in if m_rows am \<noteq> m_rows om \<or> m_cols am \<noteq> m_cols om then Some (LINEARS_ERROR_DIMENSION, m)
         else let status = matrix_aliases W K (a, acount) (None, 0) (out, outcount)
           in if status \<noteq> LINEARS_OK then Some (status, m)
              else if acount \<noteq> 0 then do {
                vs \<leftarrow> read_elements K m am 0 acount;
                m' \<leftarrow> commit_result K om 0 acount vs m;
                Some (LINEARS_OK, m')
              }
              else Some (LINEARS_OK, m))"

fun fill_loop :: "('t, 'z) numeric_kind_scheme \<Rightarrow> linears_matrix_t \<Rightarrow> bool \<Rightarrow> nat \<Rightarrow> nat \<Rightarrow> 't memory \<Rightarrow> 't memory option" where
  "fill_loop K out identity i 0 m = Some m"
| "fill_loop K out identity i (Suc n) m = do {
     let diagonal = identity \<and> i div m_cols out = i mod m_cols out;
     m' \<leftarrow> mat_store K m out i (if diagonal then nk_diagonal K else nk_zero K);
     fill_loop K out identity (Suc i) n m'
   }"

definition fill_matrix :: "nat \<Rightarrow> ('t, 'z) numeric_kind_scheme \<Rightarrow> mat_ptr \<Rightarrow> bool \<Rightarrow> 't memory \<Rightarrow> (linears_status_t \<times> 't memory) option" where
  "fill_matrix W K out identity m =
     (case matrix_storage W K out of Inl e \<Rightarrow> Some (e, m) | Inr count \<Rightarrow>
      let om = snd (the out)
      in if identity \<and> m_rows om \<noteq> m_cols om then Some (LINEARS_ERROR_DIMENSION, m)
         else let status = matrix_aliases W K (None, 0) (None, 0) (out, count)
           in if status \<noteq> LINEARS_OK then Some (status, m)
              else do { m' \<leftarrow> fill_loop K om identity 0 count m; Some (LINEARS_OK, m') })"

section \<open>Reductions\<close>

fun trace_loop :: "(nat \<Rightarrow> i64 option) \<Rightarrow> nat \<Rightarrow> nat \<Rightarrow> linears_accum_t \<Rightarrow> linears_accum_t option" where
  "trace_loop f i 0 s = Some s"
| "trace_loop f i (Suc n) s = do { x \<leftarrow> f i; trace_loop f (Suc i) n (ln_add_product64 s x) }"

definition reduce_q ::
  "nat \<Rightarrow> 't q_kind \<Rightarrow> reduction_op \<Rightarrow> linears_matrix_t \<Rightarrow> linears_matrix_t option \<Rightarrow> nat \<Rightarrow> 't memory \<Rightarrow> (linears_status_t + 't) option" where
  "reduce_q W F operation a b count m =
     (if operation = TRACE then do {
        s \<leftarrow> trace_loop (\<lambda>i. q_element F m a (i * m_cols a + i)) 0 count \<lparr>acc_low = 0, acc_high = 0\<rparr>;
        Some (staged (q_accum_to F (ln_shift_accum s (62 - q_bits F)) (Some (nk_zero F))))
      }
      else do {
        bm \<leftarrow> (if operation = NORM then Some a else b);
        s \<leftarrow> dot_raw W (q_bits F) (q_element F m a) (q_element F m bm) count;
        if operation = NORM
        then if acc_high s \<noteq> 0 \<or> shl 1 62 < acc_low s then Some (Inl LINEARS_ERROR_RANGE)
             else let raw = ln_sqrt_nearest64 (if q_bits F = 15 then shr (acc_low s) 32 else acc_low s);
                      raw' = (if raw = shl 1 (q_bits F) then raw - 1 else raw)
                  in Some (Inr (q_cast F raw'))
        else Some (staged (q_accum_to F s (Some (nk_zero F))))
      })"

definition reduction ::
  "nat \<Rightarrow> 't q_kind \<Rightarrow> reduction_op \<Rightarrow> mat_ptr \<Rightarrow> mat_ptr \<Rightarrow> nat \<Rightarrow> 't memory \<Rightarrow> (linears_status_t \<times> 't memory) option" where
  "reduction W F operation a b out m =
     (case matrix_storage W F a of Inl e \<Rightarrow> Some (e, m) | Inr acount \<Rightarrow>
      case (if b = None then Inr 0 else matrix_storage W F b) of Inl e \<Rightarrow> Some (e, m) | Inr bcount \<Rightarrow>
      if operation = DOT \<and> b = None then Some (LINEARS_ERROR_ARGUMENT, m)
      else let am = snd (the a); bm = map_option snd b
        in if (operation = TRACE \<and> m_rows am \<noteq> m_cols am)
             \<or> (case bm of None \<Rightarrow> False | Some d \<Rightarrow> m_rows am \<noteq> m_rows d \<or> m_cols am \<noteq> m_cols d)
           then Some (LINEARS_ERROR_DIMENSION, m)
           else if out = 0 \<or> out mod nk_size F \<noteq> 0 then Some (LINEARS_ERROR_ARGUMENT, m)
           else if list_ex (\<lambda>(p, _, _). mem_overlap out (nk_size F) p (matrix_size W)) (operands [(a, acount), (b, bcount)])
           then Some (LINEARS_ERROR_ALIAS, m)
           else let status = matrix_aliases W F (a, acount) (b, bcount) (None, 0)
             in if status \<noteq> LINEARS_OK then Some (status, m)
                else do {
                  r \<leftarrow> reduce_q W F operation am bm (if operation = TRACE then m_rows am else acount) m;
                  case r of Inl e \<Rightarrow> Some (e, m)
                  | Inr v \<Rightarrow> (case m out of None \<Rightarrow> None | Some _ \<Rightarrow> Some (LINEARS_OK, m(out \<mapsto> v)))
                })"

section \<open>Public entry points\<close>

definition linears_add :: "nat \<Rightarrow> 't q_kind \<Rightarrow> mat_ptr \<Rightarrow> mat_ptr \<Rightarrow> mat_ptr \<Rightarrow> nat \<Rightarrow> 't list \<Rightarrow> nat \<Rightarrow> 't memory \<Rightarrow> (linears_status_t \<times> 't memory) option" where
  "linears_add W F a b out w ws bytes m = matrix_compute W F (evaluate_q W F) ADD a b out 0 0 w ws bytes m"

definition linears_sub :: "nat \<Rightarrow> 't q_kind \<Rightarrow> mat_ptr \<Rightarrow> mat_ptr \<Rightarrow> mat_ptr \<Rightarrow> nat \<Rightarrow> 't list \<Rightarrow> nat \<Rightarrow> 't memory \<Rightarrow> (linears_status_t \<times> 't memory) option" where
  "linears_sub W F a b out w ws bytes m = matrix_compute W F (evaluate_q W F) SUB a b out 0 0 w ws bytes m"

definition linears_hadamard :: "nat \<Rightarrow> 't q_kind \<Rightarrow> mat_ptr \<Rightarrow> mat_ptr \<Rightarrow> mat_ptr \<Rightarrow> nat \<Rightarrow> 't list \<Rightarrow> nat \<Rightarrow> 't memory \<Rightarrow> (linears_status_t \<times> 't memory) option" where
  "linears_hadamard W F a b out w ws bytes m = matrix_compute W F (evaluate_q W F) HADAMARD a b out 0 0 w ws bytes m"

definition linears_mul :: "nat \<Rightarrow> 't q_kind \<Rightarrow> mat_ptr \<Rightarrow> mat_ptr \<Rightarrow> mat_ptr \<Rightarrow> nat \<Rightarrow> 't list \<Rightarrow> nat \<Rightarrow> 't memory \<Rightarrow> (linears_status_t \<times> 't memory) option" where
  "linears_mul W F a b out w ws bytes m = matrix_compute W F (evaluate_q W F) MUL a b out 0 0 w ws bytes m"

definition linears_matvec :: "nat \<Rightarrow> 't q_kind \<Rightarrow> mat_ptr \<Rightarrow> mat_ptr \<Rightarrow> mat_ptr \<Rightarrow> nat \<Rightarrow> 't list \<Rightarrow> nat \<Rightarrow> 't memory \<Rightarrow> (linears_status_t \<times> 't memory) option" where
  "linears_matvec W F a b out w ws bytes m = matrix_compute W F (evaluate_q W F) MATVEC a b out 0 0 w ws bytes m"

definition linears_transpose :: "nat \<Rightarrow> 't q_kind \<Rightarrow> mat_ptr \<Rightarrow> mat_ptr \<Rightarrow> nat \<Rightarrow> 't list \<Rightarrow> nat \<Rightarrow> 't memory \<Rightarrow> (linears_status_t \<times> 't memory) option" where
  "linears_transpose W F a out w ws bytes m = matrix_compute W F (evaluate_q W F) TRANSPOSE a None out 0 0 w ws bytes m"

definition linears_axpby ::
  "nat \<Rightarrow> 't q_kind \<Rightarrow> linears_fixed_t \<Rightarrow> mat_ptr \<Rightarrow> linears_fixed_t \<Rightarrow> mat_ptr \<Rightarrow> mat_ptr \<Rightarrow> nat \<Rightarrow> 't list \<Rightarrow> nat \<Rightarrow> 't memory
    \<Rightarrow> (linears_status_t \<times> 't memory) option" where
  "linears_axpby W F alpha a beta b out w ws bytes m = matrix_compute W F (evaluate_q W F) AXPBY a b out alpha beta w ws bytes m"

definition linears_scale :: "nat \<Rightarrow> 't q_kind \<Rightarrow> linears_fixed_t \<Rightarrow> mat_ptr \<Rightarrow> mat_ptr \<Rightarrow> nat \<Rightarrow> 't list \<Rightarrow> nat \<Rightarrow> 't memory \<Rightarrow> (linears_status_t \<times> 't memory) option" where
  "linears_scale W F alpha a out w ws bytes m = matrix_compute W F (evaluate_q W F) SCALE a None out alpha alpha w ws bytes m"

definition linears_copy :: "nat \<Rightarrow> 't q_kind \<Rightarrow> mat_ptr \<Rightarrow> mat_ptr \<Rightarrow> 't memory \<Rightarrow> (linears_status_t \<times> 't memory) option" where
  "linears_copy W F a out m = copy_matrix W F a out m"

definition linears_zero :: "nat \<Rightarrow> 't q_kind \<Rightarrow> mat_ptr \<Rightarrow> 't memory \<Rightarrow> (linears_status_t \<times> 't memory) option" where
  "linears_zero W F out m = fill_matrix W F out False m"

definition linears_identity :: "nat \<Rightarrow> 't q_kind \<Rightarrow> mat_ptr \<Rightarrow> 't memory \<Rightarrow> (linears_status_t \<times> 't memory) option" where
  "linears_identity W F out m = fill_matrix W F out True m"

definition linears_dot :: "nat \<Rightarrow> 't q_kind \<Rightarrow> mat_ptr \<Rightarrow> mat_ptr \<Rightarrow> nat \<Rightarrow> 't memory \<Rightarrow> (linears_status_t \<times> 't memory) option" where
  "linears_dot W F a b out m = reduction W F DOT a b out m"

definition linears_norm :: "nat \<Rightarrow> 't q_kind \<Rightarrow> mat_ptr \<Rightarrow> nat \<Rightarrow> 't memory \<Rightarrow> (linears_status_t \<times> 't memory) option" where
  "linears_norm W F a out m = reduction W F NORM a None out m"

definition linears_trace :: "nat \<Rightarrow> 't q_kind \<Rightarrow> mat_ptr \<Rightarrow> nat \<Rightarrow> 't memory \<Rightarrow> (linears_status_t \<times> 't memory) option" where
  "linears_trace W F a out m = reduction W F TRACE a None out m"

text \<open>The entry points on working values.\<close>

definition linears_work_op :: "matrix_op \<Rightarrow> nat \<Rightarrow> linears_fixed_t \<Rightarrow> mat_ptr \<Rightarrow> linears_fixed_t \<Rightarrow> mat_ptr \<Rightarrow> mat_ptr \<Rightarrow> nat \<Rightarrow> linears_fixed_t list \<Rightarrow> nat
    \<Rightarrow> linears_fixed_t memory \<Rightarrow> (linears_status_t \<times> linears_fixed_t memory) option" where
  "linears_work_op operation W alpha a beta b out w ws bytes m = matrix_compute W WORK evaluate_work operation a b out alpha beta w ws bytes m"

definition linears_add_fixed where "linears_add_fixed W a b = linears_work_op ADD W 0 a 0 b"
definition linears_sub_fixed where "linears_sub_fixed W a b = linears_work_op SUB W 0 a 0 b"
definition linears_mul_fixed where "linears_mul_fixed W a b = linears_work_op MUL W 0 a 0 b"
definition linears_transpose_fixed where "linears_transpose_fixed W a = linears_work_op TRANSPOSE W 0 a 0 None"
definition linears_axpby_fixed where "linears_axpby_fixed W alpha a beta b = linears_work_op AXPBY W alpha a beta b"

definition linears_identity_fixed :: "nat \<Rightarrow> mat_ptr \<Rightarrow> linears_fixed_t memory \<Rightarrow> (linears_status_t \<times> linears_fixed_t memory) option" where
  "linears_identity_fixed W out m = fill_matrix W WORK out True m"

end
