(* ===== verification/Linears_Basic_Laws.thy ===== *)
theory Linears_Basic_Laws
  imports Linears_Basic Status_Laws
begin

text \<open>
  The frame of the matrix operations, independent of the element type: the staging loops visit every
  element once, the commit writes exactly the elements of the result, and an operation that fails
  leaves the memory as it was.
\<close>

section \<open>Staging loops\<close>

text \<open>An evaluation that ends early carries an error.\<close>

definition proper :: "(nat \<Rightarrow> nat \<Rightarrow> (linears_status_t + 't) option) \<Rightarrow> bool" where
  "proper f \<longleftrightarrow> (\<forall>r c. f r c \<noteq> Some (Inl LINEARS_OK))"

lemma buf_write_SomeD: "buf_write i v xs = Some ys \<Longrightarrow> i < length xs \<and> ys = xs[i := v]"
  by (auto simp: buf_write_def split: if_splits)

lemma evaluate_cols_ok:
  assumes "evaluate_cols f cols row col ws = Some (LINEARS_OK, ws')" "col \<le> cols" "proper f"
  shows "length ws' = length ws" "col \<le> c \<Longrightarrow> c < cols \<Longrightarrow> f row c = Some (Inr (ws' ! (row * cols + c)))"
    "i < row * cols + col \<Longrightarrow> ws' ! i = ws ! i"
proof -
  have "length ws' = length ws \<and> (\<forall>c. col \<le> c \<and> c < cols \<longrightarrow> f row c = Some (Inr (ws' ! (row * cols + c))))
    \<and> (\<forall>i. i < row * cols + col \<longrightarrow> ws' ! i = ws ! i)"
    using assms
  proof (induction f cols row col ws rule: evaluate_cols.induct)
    case (1 f cols row col ws)
    show ?case
    proof (cases "col < cols")
      case True
      with "1.prems" obtain v ws1 where r: "f row col = Some (Inr v)" "row * cols + col < length ws" "ws1 = ws[row * cols + col := v]"
        and rest: "evaluate_cols f cols row (Suc col) ws1 = Some (LINEARS_OK, ws')"
        by (subst (asm) evaluate_cols.simps) (auto simp: proper_def dest!: buf_write_SomeD split: bind_splits sum.splits)
      have "buf_write (row * cols + col) v ws = Some ws1" using r by (simp add: buf_write_def)
      from "1.IH" [OF True r(1) refl this rest] True "1.prems"(3)
      have IH: "length ws' = length ws1" "\<forall>c. Suc col \<le> c \<and> c < cols \<longrightarrow> f row c = Some (Inr (ws' ! (row * cols + c)))"
        "\<forall>i. i < row * cols + Suc col \<longrightarrow> ws' ! i = ws1 ! i" by simp_all
      have "ws' ! (row * cols + col) = v" using IH(3) r by simp
      then have "f row c = Some (Inr (ws' ! (row * cols + c)))" if "col \<le> c" "c < cols" for c
        using that IH(2) r(1) by (cases "c = col") auto
      moreover have "ws' ! i = ws ! i" if "i < row * cols + col" for i using that IH(3) r(3) by simp
      ultimately show ?thesis using IH(1) r(3) by simp
    next
      case False
      with "1.prems" show ?thesis by (subst (asm) evaluate_cols.simps) auto
    qed
  qed
  then show "length ws' = length ws" "col \<le> c \<Longrightarrow> c < cols \<Longrightarrow> f row c = Some (Inr (ws' ! (row * cols + c)))"
    "i < row * cols + col \<Longrightarrow> ws' ! i = ws ! i" by blast+
qed

lemma evaluate_rows_ok:
  assumes "evaluate_rows f rows cols row ws = Some (LINEARS_OK, ws')" "row \<le> rows" "proper f"
  shows "length ws' = length ws" "row \<le> r \<Longrightarrow> r < rows \<Longrightarrow> c < cols \<Longrightarrow> f r c = Some (Inr (ws' ! (r * cols + c)))"
proof -
  have "length ws' = length ws \<and> (\<forall>r c. row \<le> r \<and> r < rows \<and> c < cols \<longrightarrow> f r c = Some (Inr (ws' ! (r * cols + c))))
    \<and> (\<forall>i. i < row * cols \<longrightarrow> ws' ! i = ws ! i)"
    using assms
  proof (induction f rows cols row ws rule: evaluate_rows.induct)
    case (1 f rows cols row ws)
    show ?case
    proof (cases "row < rows")
      case True
      with "1.prems" obtain ws1 where c1: "evaluate_cols f cols row 0 ws = Some (LINEARS_OK, ws1)"
        and rest: "evaluate_rows f rows cols (Suc row) ws1 = Some (LINEARS_OK, ws')"
        by (subst (asm) evaluate_rows.simps) (auto split: bind_splits if_splits)
      note cols = evaluate_cols_ok [OF c1 _ "1.prems"(3), simplified]
      from "1.IH" [OF True c1 refl refl rest] True "1.prems"(3)
      have IH: "length ws' = length ws1" "\<forall>r c. Suc row \<le> r \<and> r < rows \<and> c < cols \<longrightarrow> f r c = Some (Inr (ws' ! (r * cols + c)))"
        "\<forall>i. i < Suc row * cols \<longrightarrow> ws' ! i = ws1 ! i" by simp_all
      have "f r c = Some (Inr (ws' ! (r * cols + c)))" if "row \<le> r" "r < rows" "c < cols" for r c
      proof (cases "r = row")
        case True
        have "row * cols + c < Suc row * cols" using that by simp
        then show ?thesis using cols(2) [OF that(3)] IH(3) True by simp
      next
        case False
        then show ?thesis using that IH(2) by simp
      qed
      moreover have "ws' ! i = ws ! i" if "i < row * cols" for i using that IH(3) cols(3) by simp
      ultimately show ?thesis using IH(1) cols(1) by simp
    next
      case False
      with "1.prems" show ?thesis by (subst (asm) evaluate_rows.simps) auto
    qed
  qed
  then show "length ws' = length ws" "row \<le> r \<Longrightarrow> r < rows \<Longrightarrow> c < cols \<Longrightarrow> f r c = Some (Inr (ws' ! (r * cols + c)))" by blast+
qed

text \<open>The loops do not leave the scratch array, and a failure is the failure of an element.\<close>

lemma evaluate_cols_total:
  assumes "\<And>c. c < cols \<Longrightarrow> f row c \<noteq> None" "row * cols + cols \<le> length ws"
  shows "\<exists>status ws'. evaluate_cols f cols row col ws = Some (status, ws') \<and> length ws' = length ws
    \<and> (status = LINEARS_OK \<or> (\<exists>c < cols. f row c = Some (Inl status)))"
  using assms
proof (induction f cols row col ws rule: evaluate_cols.induct)
  case (1 f cols row col ws)
  show ?case
  proof (cases "col < cols")
    case True
    then obtain r where r: "f row col = Some r" using "1.prems"(1) by blast
    show ?thesis
    proof (cases r)
      case (Inl status)
      with True r show ?thesis by (subst evaluate_cols.simps) auto
    next
      case (Inr v)
      let ?ws = "ws[row * cols + col := v]"
      have w: "buf_write (row * cols + col) v ws = Some ?ws" using "1.prems"(2) True by (simp add: buf_write_def)
      have "\<exists>status ws'. evaluate_cols f cols row (Suc col) ?ws = Some (status, ws') \<and> length ws' = length ?ws
          \<and> (status = LINEARS_OK \<or> (\<exists>c < cols. f row c = Some (Inl status)))"
        using "1.prems" by (intro "1.IH" [OF True r Inr w]) simp_all
      then show ?thesis using True r Inr w by (subst evaluate_cols.simps) simp
    qed
  next
    case False
    then show ?thesis by (subst evaluate_cols.simps) simp
  qed
qed

lemma evaluate_rows_total:
  assumes "\<And>r c. r < rows \<Longrightarrow> c < cols \<Longrightarrow> f r c \<noteq> None" "rows * cols \<le> length ws"
  shows "\<exists>status ws'. evaluate_rows f rows cols row ws = Some (status, ws') \<and> length ws' = length ws
    \<and> (status = LINEARS_OK \<or> (\<exists>r < rows. \<exists>c < cols. f r c = Some (Inl status)))"
  using assms
proof (induction f rows cols row ws rule: evaluate_rows.induct)
  case (1 f rows cols row ws)
  show ?case
  proof (cases "row < rows")
    case True
    then have "Suc row * cols \<le> rows * cols" by (intro mult_le_mono1) simp
    then have "row * cols + cols \<le> length ws" using "1.prems"(2) by simp
    then obtain status ws1 where c1: "evaluate_cols f cols row 0 ws = Some (status, ws1)" "length ws1 = length ws"
      "status = LINEARS_OK \<or> (\<exists>c < cols. f row c = Some (Inl status))"
      using evaluate_cols_total [of cols f row ws 0] "1.prems"(1) True by blast
    show ?thesis
    proof (cases "status = LINEARS_OK")
      case st: True
      have "\<exists>status ws'. evaluate_rows f rows cols (Suc row) ws1 = Some (status, ws') \<and> length ws' = length ws1
          \<and> (status = LINEARS_OK \<or> (\<exists>r < rows. \<exists>c < cols. f r c = Some (Inl status)))"
        using "1.prems" c1(2) st by (intro "1.IH" [OF True c1(1) refl]) simp_all
      then show ?thesis using True c1 st by (subst evaluate_rows.simps) simp
    next
      case False
      then show ?thesis using True c1 by (subst evaluate_rows.simps) auto
    qed
  next
    case False
    then show ?thesis by (subst evaluate_rows.simps) simp
  qed
qed

section \<open>Commit\<close>

definition element_at :: "('t, 'z) numeric_kind_scheme \<Rightarrow> linears_matrix_t \<Rightarrow> nat \<Rightarrow> nat" where
  "element_at K d i = m_data d + i * nk_size K"

definition mat_valid :: "('t, 'z) numeric_kind_scheme \<Rightarrow> 't memory \<Rightarrow> linears_matrix_t \<Rightarrow> bool" where
  "mat_valid K m d \<longleftrightarrow> (\<forall>i < m_rows d * m_cols d. mat_load K m d i \<noteq> None)"

lemma commit_result_ok:
  assumes "commit_result K out i n ws m = Some m'" "0 < nk_size K"
  shows "i \<le> j \<Longrightarrow> j < i + n \<Longrightarrow> mat_load K m' out j = Some (ws ! j)"
    "\<forall>j. i \<le> j \<and> j < i + n \<longrightarrow> p \<noteq> element_at K out j \<Longrightarrow> m' p = m p"
proof -
  have "(\<forall>j. i \<le> j \<and> j < i + n \<longrightarrow> mat_load K m' out j = Some (ws ! j))
    \<and> (\<forall>p. (\<forall>j. i \<le> j \<and> j < i + n \<longrightarrow> p \<noteq> element_at K out j) \<longrightarrow> m' p = m p)"
    using assms
  proof (induction K out i n ws m rule: commit_result.induct)
    case (2 K out i n ws m)
    from "2.prems"(1) obtain v m1 where v: "i < length ws" "v = ws ! i" and m1: "m1 = m(element_at K out i \<mapsto> v)"
      and st: "buf_read i ws = Some v" "mat_store K m out i v = Some m1"
      and rest: "commit_result K out (Suc i) n ws m1 = Some m'"
      by (auto simp: buf_read_def mat_store_def element_at_def split: bind_split_asm if_splits option.splits)
    note IH = "2.IH" [OF st rest "2.prems"(2)]
    have inj: "element_at K out i \<noteq> element_at K out j" if "Suc i \<le> j" for j
      using that "2.prems"(2) by (simp add: element_at_def)
    have "m' (element_at K out i) = m1 (element_at K out i)" using IH inj by blast
    then have here: "mat_load K m' out i = Some (ws ! i)" by (simp add: mat_load_def m1 v element_at_def)
    have "mat_load K m' out j = Some (ws ! j)" if "i \<le> j" "j < i + Suc n" for j
      using that here IH by (cases "j = i") auto
    moreover have "m' p = m p" if "\<forall>j. i \<le> j \<and> j < i + Suc n \<longrightarrow> p \<noteq> element_at K out j" for p
    proof -
      have "m' p = m1 p" using IH that by auto
      moreover have "p \<noteq> element_at K out i" using that by auto
      ultimately show ?thesis by (simp add: m1)
    qed
    ultimately show ?case by blast
  qed auto
  then show "i \<le> j \<Longrightarrow> j < i + n \<Longrightarrow> mat_load K m' out j = Some (ws ! j)"
    "\<forall>j. i \<le> j \<and> j < i + n \<longrightarrow> p \<noteq> element_at K out j \<Longrightarrow> m' p = m p" by blast+
qed

lemma commit_result_total:
  assumes "\<And>j. i \<le> j \<Longrightarrow> j < i + n \<Longrightarrow> mat_load K m out j \<noteq> None" "i + n \<le> length ws"
  shows "\<exists>m'. commit_result K out i n ws m = Some m'"
  using assms
proof (induction K out i n ws m rule: commit_result.induct)
  case (2 K out i n ws m)
  let ?m = "m(element_at K out i \<mapsto> ws ! i)"
  have r: "buf_read i ws = Some (ws ! i)" using "2.prems"(2) by simp
  have s: "mat_store K m out i (ws ! i) = Some ?m"
    using "2.prems"(1) [of i] by (auto simp: mat_store_def element_at_def split: option.splits)
  have "\<exists>m'. commit_result K out (Suc i) n ws ?m = Some m'"
    using "2.prems" by (intro "2.IH" [OF r s]) (auto simp: mat_load_def)
  then show ?case by (simp add: r s)
qed simp

section \<open>The operations\<close>

lemma matrix_storage_None [simp]: "matrix_storage W K None = Inl LINEARS_ERROR_ARGUMENT"
  by (simp add: matrix_storage_def)

lemma matrix_storage_error [simp]: "matrix_storage W K p \<noteq> Inl LINEARS_OK"
  by (auto simp: matrix_storage_def Let_def split: option.splits)

lemma compute_check_error: "compute_check W K operation a b out w bytes \<noteq> Inl LINEARS_OK"
  by (auto simp: compute_check_def Let_def split: sum.splits if_splits)

lemma matrix_storage_count:
  assumes "matrix_storage W K (Some (p, d)) = Inr n" "0 < nk_size K"
  shows "n = m_rows d * m_cols d" "n < 2 ^ W"
proof -
  from assms(1) have n: "n = m_rows d * m_cols d" "n \<le> (2 ^ W - 1) div nk_size K"
    by (auto simp: matrix_storage_def Let_def split: if_splits)
  show "n = m_rows d * m_cols d" by fact
  have "n * 1 \<le> n * nk_size K" using assms(2) by (intro mult_le_mono2) simp
  also have "n * nk_size K \<le> 2 ^ W - 1" using n(2) assms(2) by (simp add: less_eq_div_iff_mult_less_eq)
  finally show "n < 2 ^ W" by (metis Suc_pred' less_Suc_eq_le mult_1_right nat_zero_less_power_iff pos2)
qed

lemma compute_check_ok:
  assumes "compute_check W K operation a b out workspace bytes = Inr (am, bm, om, n)" "0 < nk_size K"
  obtains pa po where "a = Some (pa, am)" "out = Some (po, om)" "bm = map_option snd b" "n = m_rows om * m_cols om"
    "\<not> dimension_error operation am bm om" "binary_op operation \<Longrightarrow> bm \<noteq> None" "n * unit_size \<le> bytes"
    "m_rows am * m_cols am < 2 ^ W" "n < 2 ^ W"
proof -
  obtain pa am' where a: "a = Some (pa, am')" using assms(1) by (cases a) (auto simp: compute_check_def)
  obtain po om' where out: "out = Some (po, om')"
    using assms(1) by (cases out) (auto simp: compute_check_def split: sum.splits)
  from assms(1) obtain na where eqs: "am = am'" "om = om'" "bm = map_option snd b" "\<not> dimension_error operation am bm om"
    "binary_op operation \<Longrightarrow> b \<noteq> None" "n * unit_size \<le> bytes"
    and st: "matrix_storage W K a = Inr na" "matrix_storage W K out = Inr n"
    unfolding compute_check_def a out
    by (auto simp: Let_def scratch_storage_def split: sum.splits if_splits)
  show thesis
    using that [of pa po] a out eqs matrix_storage_count [OF st(1) [unfolded a] assms(2)] matrix_storage_count [OF st(2) [unfolded out] assms(2)]
    by auto
qed

text \<open>An error leaves the memory alone.\<close>

lemma matrix_compute_error:
  "matrix_compute W K ev operation a b out alpha beta w ws bytes m = Some (status, m') \<Longrightarrow> status \<noteq> LINEARS_OK \<Longrightarrow> m' = m"
  by (auto simp: matrix_compute_def split: sum.splits if_splits bind_splits)

text \<open>
  A successful operation computed every element of the result from the memory before the call,
  whatever the storage of operands and result has in common, and changed nothing else.
\<close>

lemma matrix_compute_ok:
  assumes run: "matrix_compute W K ev operation a b out alpha beta w ws bytes m = Some (LINEARS_OK, m')"
    and K: "0 < nk_size K" and proper: "\<And>am bm om. proper (ev operation am bm om alpha beta m)"
  obtains pa am po om where "a = Some (pa, am)" "out = Some (po, om)" "\<not> dimension_error operation am (map_option snd b) om"
    "binary_op operation \<Longrightarrow> b \<noteq> None" "m_rows am * m_cols am < 2 ^ W" "m_rows om * m_cols om < 2 ^ W"
    "\<And>r c. r < m_rows om \<Longrightarrow> c < m_cols om \<Longrightarrow>
      \<exists>v. ev operation am (map_option snd b) om alpha beta m r c = Some (Inr v) \<and> mat_load K m' om (r * m_cols om + c) = Some v"
    "\<And>p. (\<And>i. i < m_rows om * m_cols om \<Longrightarrow> p \<noteq> element_at K om i) \<Longrightarrow> m' p = m p"
proof -
  obtain am bm om n where chk: "compute_check W K operation a b out w bytes = Inr (am, bm, om, n)"
    using run compute_check_error [of W K operation a b out w bytes] by (auto simp: matrix_compute_def split: sum.splits)
  obtain pa po where c: "a = Some (pa, am)" "out = Some (po, om)" "bm = map_option snd b" "n = m_rows om * m_cols om"
    "\<not> dimension_error operation am bm om" "binary_op operation \<Longrightarrow> bm \<noteq> None" "m_rows am * m_cols am < 2 ^ W" "n < 2 ^ W"
    using compute_check_ok [OF chk K] by metis
  let ?f = "ev operation am bm om alpha beta m"
  have elems: "\<exists>v. ?f r k = Some (Inr v) \<and> mat_load K m' om (r * m_cols om + k) = Some v" if rk: "r < m_rows om" "k < m_cols om" for r k
  proof -
    have "r * m_cols om + k < Suc r * m_cols om" using rk by simp
    also have "\<dots> \<le> n" unfolding c(4) using rk by (intro mult_le_mono1) simp
    finally have n: "n \<noteq> 0" "r * m_cols om + k < n" by simp_all
    obtain ws' where ev: "evaluate_rows ?f (m_rows om) (m_cols om) 0 ws = Some (LINEARS_OK, ws')"
      and com: "commit_result K om 0 n ws' m = Some m'"
      using run n(1) chk by (auto simp: matrix_compute_def split: bind_splits if_splits)
    have "?f r k = Some (Inr (ws' ! (r * m_cols om + k)))" using evaluate_rows_ok(2) [OF ev _ proper] rk by simp
    moreover have "mat_load K m' om (r * m_cols om + k) = Some (ws' ! (r * m_cols om + k))"
      using commit_result_ok(1) [OF com K] n(2) by simp
    ultimately show ?thesis by blast
  qed
  moreover have "m' p = m p" if p: "\<And>i. i < m_rows om * m_cols om \<Longrightarrow> p \<noteq> element_at K om i" for p
  proof (cases "n = 0")
    case True
    then show ?thesis using run chk by (simp add: matrix_compute_def)
  next
    case False
    then obtain ws' where "commit_result K om 0 n ws' m = Some m'"
      using run chk by (auto simp: matrix_compute_def split: bind_splits if_splits)
    then show ?thesis using commit_result_ok(2) [of K om 0 n ws' m m' p] K p c(4) by simp
  qed
  ultimately show thesis using that c by auto
qed

text \<open>
  No access leaves its object when the operands and the result are elements of the memory and the
  scratch array is as long as the caller says.
\<close>

lemma matrix_compute_total:
  assumes K: "0 < nk_size K" and bytes: "bytes \<le> unit_size * length ws"
    and out: "\<And>p om. out = Some (p, om) \<Longrightarrow> mat_valid K m om"
    and ev: "\<And>am bm om n r c. compute_check W K operation a b out w bytes = Inr (am, bm, om, n) \<Longrightarrow> r < m_rows om \<Longrightarrow> c < m_cols om \<Longrightarrow>
      ev operation am bm om alpha beta m r c \<noteq> None"
  shows "\<exists>status m'. matrix_compute W K ev operation a b out alpha beta w ws bytes m = Some (status, m')"
proof (cases "compute_check W K operation a b out w bytes")
  case (Inl e)
  then show ?thesis by (simp add: matrix_compute_def)
next
  case (Inr q)
  then obtain am bm om n where chk: "compute_check W K operation a b out w bytes = Inr (am, bm, om, n)" by (cases q) auto
  obtain po where c: "out = Some (po, om)" "n = m_rows om * m_cols om" "n * unit_size \<le> bytes"
    using compute_check_ok [OF chk K] by metis
  have n: "m_rows om * m_cols om \<le> length ws" using c(2,3) bytes by (simp add: unit_size_def)
  obtain status ws' where r: "evaluate_rows (ev operation am bm om alpha beta m) (m_rows om) (m_cols om) 0 ws = Some (status, ws')"
    "length ws' = length ws"
    using evaluate_rows_total [of "m_rows om" "m_cols om" "ev operation am bm om alpha beta m" ws 0] ev [OF chk] n by blast
  have "\<exists>m'. commit_result K om 0 n ws' m = Some m'"
    using out [OF c(1)] c(2) n r(2) by (intro commit_result_total) (auto simp: mat_valid_def)
  then show ?thesis using chk r(1) by (auto simp: matrix_compute_def)
qed

end
