(* ===== verification/Linears_Kernel.thy ===== *)
theory Linears_Kernel
  imports Linears_Basic_Laws
begin

text \<open>
  The exact arithmetic of the signal kernels: the shifts and products lose no bit, the bounded
  64-bit sum of q15 and the two-limb sum agree with the sum over the integers, and the only rounding
  is the final quantisation.
\<close>

section \<open>Shifts\<close>

lemma ln_shift_i64_val:
  assumes "0 < n" "n < 64" "\<bar>sint v\<bar> * 2 ^ n < 2 ^ 127"
  shows "accum_val (ln_shift_i64 v n) = sint v * 2 ^ n"
proof -
  have u: "accum_uval (ln_shift_u64 (ln_magnitude v) n) = \<bar>sint v\<bar> * 2 ^ n"
    using accum_uval_shift_u64 [OF assms(1,2)] by (simp add: uint_ln_magnitude)
  show ?thesis
    using u assms(3) accum_val_small [of "ln_shift_u64 (ln_magnitude v) n"] ln_negate_val [of "ln_shift_u64 (ln_magnitude v) n"]
    by (auto simp: ln_shift_i64_def Let_def word_sless_alt)
qed

lemma push_drop_disjoint: "push_bit n x AND drop_bit (64 - n) y = 0" if "n < 64" for x y :: u64
  by (rule bit_word_eqI) (use that in \<open>auto simp: bit_and_iff bit_push_bit_iff bit_drop_bit_eq dest: bit_imp_le_length\<close>)

lemma ln_shift_accum_val:
  assumes n: "0 < n" "n < 64" and fits: "\<bar>accum_val s\<bar> * 2 ^ n < 2 ^ 127"
  shows "accum_val (ln_shift_accum s n) = accum_val s * 2 ^ n"
proof (rule accum_val_eqI)
  let ?H = "uint (acc_high s)" and ?L = "uint (acc_low s)"
  have low: "?L div 2 ^ (64 - n) * 2 ^ 64 + ?L * 2 ^ n mod 2 ^ 64 = ?L * 2 ^ n"
    using accum_uval_shift_u64 [OF n, of "acc_low s"] by (simp add: accum_uval_def ln_shift_u64_def uint_shl uint_shr)
  have "accum_uval (ln_shift_accum s n) = ?H * 2 ^ n mod 2 ^ 64 * 2 ^ 64 + (?L div 2 ^ (64 - n) * 2 ^ 64 + ?L * 2 ^ n mod 2 ^ 64)"
    using n by (simp add: accum_uval_def ln_shift_accum_def uint_or_disjoint push_drop_disjoint uint_shl uint_shr distrib_right)
  also have "\<dots> = ?H * 2 ^ n mod 2 ^ 64 * 2 ^ 64 + ?L * 2 ^ n" by (simp only: low)
  finally have u: "accum_uval (ln_shift_accum s n) = ?H * 2 ^ n mod 2 ^ 64 * 2 ^ 64 + ?L * 2 ^ n" .
  have e: "?H * 2 ^ n mod 2 ^ 64 * 2 ^ 64 = (?H * 2 ^ n * 2 ^ 64) mod 2 ^ 128"
    using mod_mult_mult2 [of "?H * 2 ^ n" "2 ^ 64" "2 ^ 64"] by simp
  have "accum_uval (ln_shift_accum s n) mod 2 ^ 128 = (?H * 2 ^ n * 2 ^ 64 + ?L * 2 ^ n) mod 2 ^ 128"
    unfolding u e by (rule mod_add_left_eq)
  also have "?H * 2 ^ n * 2 ^ 64 + ?L * 2 ^ n = accum_uval s * 2 ^ n" by (simp add: accum_uval_def algebra_simps)
  also have "\<dots> mod 2 ^ 128 = accum_val s * 2 ^ n mod 2 ^ 128" using accum_uval_of_val [of s] by (metis mod_mult_left_eq)
  finally show "accum_uval (ln_shift_accum s n) = accum_val s * 2 ^ n mod 2 ^ 128"
    using accum_uval_bounds [of "ln_shift_accum s n"] by (simp add: mod_pos_pos_trivial)
  have "\<bar>accum_val s * 2 ^ n\<bar> < 2 ^ 127" using fits by (simp add: abs_mult)
  then show "- (2 ^ 127) \<le> accum_val s * 2 ^ n" "accum_val s * 2 ^ n < 2 ^ 127" by (simp_all add: abs_less_iff)
qed

section \<open>Sums of products\<close>

lemma dot_loop_run:
  assumes "\<And>k. i \<le> k \<Longrightarrow> k < i + n \<Longrightarrow> fa k = Some (xs k) \<and> fb k = Some (ys k)"
  shows "dot_loop add fa fb i n s = Some (foldl (\<lambda>t k. add (xs k) (ys k) t) s [i..<i + n])"
  using assms
proof (induction n arbitrary: i s)
  case (Suc n)
  have "[i..<i + Suc n] = i # [Suc i..<Suc i + n]" by (simp add: upt_conv_Cons)
  with Suc.IH [of "Suc i"] Suc.prems [of i] Suc.prems show ?case by simp
qed simp

abbreviation prod_sum :: "(nat \<Rightarrow> i64) \<Rightarrow> (nat \<Rightarrow> i64) \<Rightarrow> nat \<Rightarrow> int" where
  "prod_sum xs ys n \<equiv> (\<Sum>k<n. sint (xs k) * sint (ys k))"

lemma prod_sum_bound:
  assumes "\<And>k. k < n \<Longrightarrow> \<bar>sint (xs k)\<bar> \<le> B \<and> \<bar>sint (ys k)\<bar> \<le> B"
  shows "\<bar>prod_sum xs ys n\<bar> \<le> int n * (B * B)"
proof -
  have "\<bar>prod_sum xs ys n\<bar> \<le> (\<Sum>k<n. \<bar>sint (xs k) * sint (ys k)\<bar>)" by (rule sum_abs)
  also have "\<dots> \<le> (\<Sum>k<n. B * B)" unfolding abs_mult using assms by (intro sum_mono mult_mono) force+
  finally show ?thesis by simp
qed

lemma sint_mac64: "- (2 ^ 63) \<le> sint s + sint x * sint y \<Longrightarrow> sint s + sint x * sint y < 2 ^ 63 \<Longrightarrow> sint (s + x * y) = sint s + sint x * sint y"
  for s x y :: i64
proof -
  assume b: "- (2 ^ 63) \<le> sint s + sint x * sint y" "sint s + sint x * sint y < 2 ^ 63"
  have "s + x * y = word_of_int (sint s + sint x * sint y)" by simp
  then show ?thesis using b sint_word_of_int_fits [where 'a = 64, of "sint s + sint x * sint y"] by (simp only:) simp
qed

lemma fold_mac64:
  assumes "\<And>k. k < n \<Longrightarrow> \<bar>sint (xs k)\<bar> \<le> B \<and> \<bar>sint (ys k)\<bar> \<le> B" "int n * (B * B) < 2 ^ 63"
  shows "sint (foldl (\<lambda>t k. t + xs k * ys k) (0 :: i64) [0..<n]) = prod_sum xs ys n"
  using assms
proof (induction n)
  case (Suc n)
  have "int n * (B * B) \<le> int (Suc n) * (B * B)" by (intro mult_right_mono) auto
  then have "int n * (B * B) < 2 ^ 63" using Suc.prems(2) by linarith
  then have IH: "sint (foldl (\<lambda>t k. t + xs k * ys k) (0 :: i64) [0..<n]) = prod_sum xs ys n" using Suc by simp
  have "\<bar>prod_sum xs ys (Suc n)\<bar> < 2 ^ 63" using prod_sum_bound [of "Suc n" xs B ys, OF Suc.prems(1)] Suc.prems(2) by (rule le_less_trans)
  then have "- (2 ^ 63) \<le> prod_sum xs ys (Suc n)" "prod_sum xs ys (Suc n) < 2 ^ 63" by (simp_all add: abs_less_iff)
  then show ?case using sint_mac64 [of "foldl (\<lambda>t k. t + xs k * ys k) (0 :: i64) [0..<n]" "xs n" "ys n"] IH by simp
qed simp

lemma fold_product64:
  assumes "\<And>k. k < n \<Longrightarrow> \<bar>sint (xs k)\<bar> \<le> B \<and> \<bar>sint (ys k)\<bar> \<le> B" "int n * (B * B) < 2 ^ 127" "B * B < 2 ^ 63"
  shows "accum_val (foldl (\<lambda>t k. ln_add_product64 t (xs k * ys k)) accum_zero [0..<n]) = prod_sum xs ys n"
  using assms(1,2)
proof (induction n)
  case (Suc n)
  have "int n * (B * B) \<le> int (Suc n) * (B * B)" by (intro mult_right_mono) auto
  then have "int n * (B * B) < 2 ^ 127" using Suc.prems(2) by linarith
  then have IH: "accum_val (foldl (\<lambda>t k. ln_add_product64 t (xs k * ys k)) accum_zero [0..<n]) = prod_sum xs ys n" using Suc by simp
  have "\<bar>sint (xs n) * sint (ys n)\<bar> \<le> B * B" unfolding abs_mult using Suc.prems(1) [of n] by (intro mult_mono) auto
  then have p: "sint (xs n * ys n) = sint (xs n) * sint (ys n)" using sint_mac64 [of 0 "xs n" "ys n"] assms(3) by simp
  have "\<bar>prod_sum xs ys (Suc n)\<bar> < 2 ^ 127" using prod_sum_bound [of "Suc n" xs B ys, OF Suc.prems(1)] Suc.prems(2) by (rule le_less_trans)
  then have "- (2 ^ 127) \<le> prod_sum xs ys (Suc n)" "prod_sum xs ys (Suc n) < 2 ^ 127" by (simp_all add: abs_less_iff)
  then show ?case using ln_add_product64_val [of "foldl (\<lambda>t k. ln_add_product64 t (xs k * ys k)) accum_zero [0..<n]" "xs n * ys n"] IH p by simp
qed simp

lemma dot_raw_val:
  assumes bits: "bits = 15 \<or> bits = 31" and W: "W \<le> 64" "count < 2 ^ W"
    and el: "\<And>k. k < count \<Longrightarrow> fa k = Some (xs k) \<and> fb k = Some (ys k)"
    and B: "\<And>k. k < count \<Longrightarrow> \<bar>sint (xs k)\<bar> \<le> 2 ^ bits \<and> \<bar>sint (ys k)\<bar> \<le> 2 ^ bits"
  shows "\<exists>s. dot_raw W bits fa fb count = Some s \<and> accum_val s = prod_sum xs ys count * 2 ^ (62 - 2 * bits)"
proof -
  have "(2 :: nat) ^ W \<le> 2 ^ 64" using W(1) by (intro power_increasing) auto
  then have c64: "int count < 2 ^ 64" using W(2) by (metis less_le_trans of_nat_less_iff of_nat_numeral of_nat_power)
  have bound: "\<bar>prod_sum xs ys count\<bar> \<le> int count * (2 ^ bits * 2 ^ bits)" by (rule prod_sum_bound [OF B])
  have run: "dot_loop add fa fb 0 count s = Some (foldl (\<lambda>t k. add (xs k) (ys k) t) s [0..<count])" for add :: "i64 \<Rightarrow> i64 \<Rightarrow> 's \<Rightarrow> 's" and s
    using dot_loop_run [of 0 count fa xs fb ys add s] el by simp
  have wide: "accum_val (foldl (\<lambda>t k. ln_add_product64 t (xs k * ys k)) accum_zero [0..<count]) = prod_sum xs ys count"
    using B c64 bits by (intro fold_product64 [of count xs "2 ^ bits" ys]) auto
  show ?thesis
  proof (cases "bits = 15 \<and> (W \<le> 32 \<or> count \<le> (2 ^ 63 - 1) div 2 ^ 30)")
    case True
    have "(2 :: nat) ^ W \<le> 2 ^ 32" if "W \<le> 32" using that by (intro power_increasing) auto
    then have "count \<le> 8589934591" using True W(2) by auto
    then have n: "int count * (2 ^ 15 * 2 ^ 15) < 2 ^ 63" by simp
    then have s: "sint (foldl (\<lambda>t k. t + xs k * ys k) (0 :: i64) [0..<count]) = prod_sum xs ys count"
      using B True by (intro fold_mac64 [of count xs "2 ^ 15" ys]) auto
    have "\<bar>prod_sum xs ys count\<bar> < 2 ^ 63" using bound n True by simp
    then show ?thesis
      using True s ln_shift_i64_val [of 32 "foldl (\<lambda>t k. t + xs k * ys k) (0 :: i64) [0..<count]"]
      by (simp add: dot_raw_def run)
  next
    case False
    show ?thesis
    proof (cases "bits = 15")
      case b: True
      have "\<bar>prod_sum xs ys count\<bar> < 2 ^ 94" using bound c64 b by simp
      then show ?thesis using False b wide ln_shift_accum_val [of 32 "foldl (\<lambda>t k. ln_add_product64 t (xs k * ys k)) accum_zero [0..<count]"]
        by (simp add: dot_raw_def run)
    next
      case False
      then show ?thesis using bits wide by (simp add: dot_raw_def run)
    qed
  qed
qed

section \<open>The signal formats\<close>

locale q_signal =
  fixes F :: "'t q_kind"
  assumes bits: "q_bits F = 15 \<or> q_bits F = 31"
    and size_pos: "0 < nk_size F"
    and load_range: "- (2 ^ q_bits F) \<le> sint (q_load F t) \<and> sint (q_load F t) < 2 ^ q_bits F"
    and accum_fits: "\<bar>accum_val s\<bar> \<le> 2 ^ 62 \<Longrightarrow> \<exists>v. q_accum_to F s (Some old) = (LINEARS_OK, Some v)
      \<and> sint (q_load F v) = min (round_away (accum_val s) (2 ^ (62 - q_bits F))) (2 ^ q_bits F - 1)"
    and accum_range: "2 ^ 62 < \<bar>accum_val s\<bar> \<Longrightarrow> q_accum_to F s (Some old) = (LINEARS_ERROR_RANGE, Some old)"

lemma sint_scast_q: "sint (scast t :: i64) = sint t" "sint (scast u :: i64) = sint u" for t :: i16 and u :: i32
  using i16_range [of t] i32_range [of u] by (simp_all add: signed_scast_eq signed_take_bit_int_eq_self_iff)

interpretation q15m: q_signal Q15
proof (unfold_locales, goal_cases)
  case (3 t)
  show ?case using i16_range [of t] by (simp add: Q15_def sint_scast_q)
next
  case (4 s old)
  have "- (2 ^ 15) \<le> round_away (accum_val s) (2 ^ 47)"
    using round_away_bounds [of "2 ^ 47" "- (2 ^ 15)" "accum_val s" "2 ^ 15"] 4 by (simp add: abs_le_iff)
  then have "sint (word_of_int (min (round_away (accum_val s) (2 ^ 47)) (2 ^ 15 - 1)) :: i16) = min (round_away (accum_val s) (2 ^ 47)) (2 ^ 15 - 1)"
    by (intro sint_word_of_int_fits) auto
  with 4 show ?case by (simp add: Q15_def linears_accum_to_q15_spec sint_scast_q)
next
  case (5 s old)
  then show ?case by (simp add: Q15_def linears_accum_to_q15_spec)
qed (simp_all add: Q15_def)

interpretation q31m: q_signal Q31
proof (unfold_locales, goal_cases)
  case (3 t)
  show ?case using i32_range [of t] by (simp add: Q31_def sint_scast_q)
next
  case (4 s old)
  have "- (2 ^ 31) \<le> round_away (accum_val s) (2 ^ 31)"
    using round_away_bounds [of "2 ^ 31" "- (2 ^ 31)" "accum_val s" "2 ^ 31"] 4 by (simp add: abs_le_iff)
  then have "sint (word_of_int (min (round_away (accum_val s) (2 ^ 31)) (2 ^ 31 - 1)) :: i32) = min (round_away (accum_val s) (2 ^ 31)) (2 ^ 31 - 1)"
    by (intro sint_word_of_int_fits) auto
  with 4 show ?case by (simp add: Q31_def linears_accum_to_q31_spec sint_scast_q)
next
  case (5 s old)
  then show ?case by (simp add: Q31_def linears_accum_to_q31_spec)
qed (simp_all add: Q31_def)

end
