(* ===== verification/Linears_Exact.thy ===== *)
theory Linears_Exact
  imports Linears_Kernel
begin

text \<open>
  What a matrix operation promises, over the integers: the value of every element of the result in
  units of \<open>2 ^ - 62\<close>, and the quantisation that stores it. The lemmas of the locale show, for a signal
  format, that an operation on valid storage stores the quantised exact values, or stores nothing when
  one of them is out of range.
\<close>

section \<open>Specification\<close>

text \<open>The raw value of an element, and the matrix of an operand that may be absent.\<close>

definition elem :: "'t q_kind \<Rightarrow> 't memory \<Rightarrow> linears_matrix_t \<Rightarrow> nat \<Rightarrow> nat \<Rightarrow> int" where
  "elem F m d r c = (case q_element F m d (r * m_cols d + c) of None \<Rightarrow> 0 | Some x \<Rightarrow> sint x)"

definition elem_opt :: "'t q_kind \<Rightarrow> 't memory \<Rightarrow> linears_matrix_t option \<Rightarrow> nat \<Rightarrow> nat \<Rightarrow> int" where
  "elem_opt F m b r c = (case b of None \<Rightarrow> 0 | Some d \<Rightarrow> elem F m d r c)"

definition exact_value :: "nat \<Rightarrow> matrix_op \<Rightarrow> int \<Rightarrow> int \<Rightarrow> nat \<Rightarrow> (nat \<Rightarrow> nat \<Rightarrow> int) \<Rightarrow> (nat \<Rightarrow> nat \<Rightarrow> int) \<Rightarrow> nat \<Rightarrow> nat \<Rightarrow> int" where
  "exact_value bits operation alpha beta inner X Y r c =
     (case operation of
        ADD \<Rightarrow> (X r c + Y r c) * 2 ^ (62 - bits)
      | SUB \<Rightarrow> (X r c - Y r c) * 2 ^ (62 - bits)
      | HADAMARD \<Rightarrow> X r c * Y r c * 2 ^ (62 - 2 * bits)
      | MUL \<Rightarrow> (\<Sum>k<inner. X r k * Y k c) * 2 ^ (62 - 2 * bits)
      | MATVEC \<Rightarrow> (\<Sum>k<inner. X r k * Y k c) * 2 ^ (62 - 2 * bits)
      | TRANSPOSE \<Rightarrow> X c r * 2 ^ (62 - bits)
      | AXPBY \<Rightarrow> (alpha * X r c + beta * Y r c) * 2 ^ (31 - bits)
      | SCALE \<Rightarrow> alpha * X r c * 2 ^ (31 - bits))"

definition quantised :: "nat \<Rightarrow> int \<Rightarrow> int" where
  "quantised bits v = min (round_away v (2 ^ (62 - bits))) (2 ^ bits - 1)"

text \<open>The hypotheses that validation and the caller establish for an operation.\<close>

definition computable :: "'t q_kind \<Rightarrow> nat \<Rightarrow> matrix_op \<Rightarrow> linears_matrix_t \<Rightarrow> linears_matrix_t option \<Rightarrow> linears_matrix_t \<Rightarrow> 't memory \<Rightarrow> bool" where
  "computable F W operation am bm om m \<longleftrightarrow> W \<le> 64 \<and> m_rows am * m_cols am < 2 ^ W \<and> \<not> dimension_error operation am bm om
    \<and> (binary_op operation \<longrightarrow> bm \<noteq> None) \<and> mat_valid F m am \<and> (\<forall>d \<in> set_option bm. mat_valid F m d)"

definition value_of :: "'t q_kind \<Rightarrow> matrix_op \<Rightarrow> linears_matrix_t \<Rightarrow> linears_matrix_t option \<Rightarrow> linears_fixed_t \<Rightarrow> linears_fixed_t \<Rightarrow> 't memory \<Rightarrow> nat \<Rightarrow> nat \<Rightarrow> int" where
  "value_of F operation am bm alpha beta m r c =
     exact_value (q_bits F) operation (sint alpha) (sint beta) (m_cols am) (elem F m am) (elem_opt F m bm) r c"

lemma quantised_exact: "x < 2 ^ bits \<Longrightarrow> quantised bits (x * 2 ^ (62 - bits)) = x"
  using round_away_exact [of "2 ^ (62 - bits)" x] by (simp add: quantised_def min_def mult.commute)

lemma index_less: "r < rows \<Longrightarrow> c < cols \<Longrightarrow> r * cols + c < rows * cols" for r c rows cols :: nat
proof -
  assume "r < rows" "c < cols"
  then have "r * cols + c < Suc r * cols" by simp
  also have "\<dots> \<le> rows * cols" using \<open>r < rows\<close> by (intro mult_le_mono1) simp
  finally show ?thesis .
qed

lemma accum_val_extend: "accum_val \<lparr>acc_low = p, acc_high = (if p <s 0 then UINT64_MAX else 0)\<rparr> = sint p"
  using u64_bounds [of p] by (auto simp: accum_val_num word_sless_alt sint64)

lemma sint_add_i64:
  "- (2 ^ 63) \<le> sint x + sint y \<Longrightarrow> sint x + sint y < 2 ^ 63 \<Longrightarrow> sint (x + y) = sint x + sint y" for x y :: i64
  using sint_mac64 [of x 1 y] by simp

lemma sint_sub_i64:
  "- (2 ^ 63) \<le> sint x - sint y \<Longrightarrow> sint x - sint y < 2 ^ 63 \<Longrightarrow> sint (x - y) = sint x - sint y" for x y :: i64
  using sint_mac64 [of x "- 1" y] by simp

section \<open>One element\<close>

context q_signal
begin

lemma element_valid:
  assumes "mat_valid F m d" "r < m_rows d" "c < m_cols d"
  obtains x where "q_element F m d (r * m_cols d + c) = Some x" "sint x = elem F m d r c"
    "- (2 ^ q_bits F) \<le> sint x" "sint x < 2 ^ q_bits F"
proof -
  obtain t where t: "mat_load F m d (r * m_cols d + c) = Some t"
    using assms(1) index_less [OF assms(2,3)] unfolding mat_valid_def by blast
  then show thesis using that [of "q_load F t"] load_range [of t] by (simp add: q_element_def elem_def)
qed

lemma product_fits:
  "- (2 ^ q_bits F) \<le> sint x \<Longrightarrow> sint x < 2 ^ q_bits F \<Longrightarrow> - (2 ^ q_bits F) \<le> sint y \<Longrightarrow> sint y < 2 ^ q_bits F \<Longrightarrow>
    sint (x * y) = sint x * sint y \<and> \<bar>sint x * sint y\<bar> \<le> 2 ^ (2 * q_bits F)" for x y :: i64
proof -
  assume "- (2 ^ q_bits F) \<le> sint x" "sint x < 2 ^ q_bits F" "- (2 ^ q_bits F) \<le> sint y" "sint y < 2 ^ q_bits F"
  then have "\<bar>sint x\<bar> \<le> 2 ^ q_bits F" "\<bar>sint y\<bar> \<le> 2 ^ q_bits F" by (auto simp: abs_le_iff)
  then have b: "\<bar>sint x * sint y\<bar> \<le> 2 ^ q_bits F * 2 ^ q_bits F" unfolding abs_mult by (intro mult_mono) auto
  have "(2 :: int) ^ q_bits F * 2 ^ q_bits F \<le> 2 ^ 62" using bits by auto
  with b have "\<bar>sint x * sint y\<bar> \<le> 2 ^ 62" by (rule order_trans)
  then have "sint (x * y) = sint x * sint y" using sint_mac64 [of 0 x y] by (simp add: abs_le_iff)
  with b show ?thesis by (simp add: mult_2 power_add)
qed

lemma evaluate_sum_mul:
  assumes op: "operation = MUL \<or> operation = MATVEC" and W: "W \<le> 64" "m_rows a * m_cols a < 2 ^ W"
    and valid: "mat_valid F m a" "mat_valid F m bm" and dim: "m_cols a = m_rows bm" and rc: "r < m_rows a" "c < m_cols bm"
  shows "\<exists>s. evaluate_sum W F operation a (Some bm) out alpha beta m r c = Some s
    \<and> accum_val s = (\<Sum>k<m_cols a. elem F m a r k * elem F m bm k c) * 2 ^ (62 - 2 * q_bits F)"
proof (cases "m_cols a = 0")
  case True
  then show ?thesis using op by (auto simp: evaluate_sum_def)
next
  case False
  let ?fa = "\<lambda>k. q_element F m a (r * m_cols a + k)" and ?fb = "\<lambda>k. q_element F m bm (c + k * m_cols bm)"
  define xs ys where "xs k = the (?fa k)" and "ys k = the (?fb k)" for k
  have "m_cols a \<le> m_rows a * m_cols a" using rc(1) by (cases "m_rows a") auto
  then have n: "m_cols a < 2 ^ W" using W(2) by (rule le_less_trans)
  have el: "?fa k = Some (xs k) \<and> ?fb k = Some (ys k) \<and> sint (xs k) = elem F m a r k \<and> sint (ys k) = elem F m bm k c
      \<and> \<bar>sint (xs k)\<bar> \<le> 2 ^ q_bits F \<and> \<bar>sint (ys k)\<bar> \<le> 2 ^ q_bits F" if "k < m_cols a" for k
  proof -
    obtain x where "?fa k = Some x" "sint x = elem F m a r k" "- (2 ^ q_bits F) \<le> sint x" "sint x < 2 ^ q_bits F"
      using element_valid [OF valid(1) rc(1) \<open>k < m_cols a\<close>] .
    moreover have k: "k < m_rows bm" using that dim by simp
    moreover obtain y where "?fb k = Some y" "sint y = elem F m bm k c" "- (2 ^ q_bits F) \<le> sint y" "sint y < 2 ^ q_bits F"
      using element_valid [OF valid(2) k rc(2)] by (metis add.commute)
    ultimately show ?thesis by (simp add: xs_def ys_def abs_le_iff)
  qed
  have "\<exists>s. dot_raw W (q_bits F) ?fa ?fb (m_cols a) = Some s \<and> accum_val s = prod_sum xs ys (m_cols a) * 2 ^ (62 - 2 * q_bits F)"
    using el by (intro dot_raw_val [OF bits W(1) n]) blast+
  moreover have "prod_sum xs ys (m_cols a) = (\<Sum>k<m_cols a. elem F m a r k * elem F m bm k c)"
    using el by (intro sum.cong) auto
  ultimately show ?thesis using op False by (auto simp: evaluate_sum_def)
qed

lemma evaluate_sum_elementwise:
  assumes op: "operation \<notin> {MUL, MATVEC, TRANSPOSE}"
    and x: "q_element F m a (r * m_cols out + c) = Some x" "- (2 ^ q_bits F) \<le> sint x" "sint x < 2 ^ q_bits F"
    and y: "(case b of None \<Rightarrow> Some 0 | Some bm \<Rightarrow> q_element F m bm (r * m_cols out + c)) = Some y" "- (2 ^ q_bits F) \<le> sint y" "sint y < 2 ^ q_bits F"
  shows "\<exists>s. evaluate_sum W F operation a b out alpha beta m r c = Some s
    \<and> accum_val s = exact_value (q_bits F) operation (sint alpha) (sint beta) inner (\<lambda>_ _. sint x) (\<lambda>_ _. sint y) r c"
proof -
  have B: "- (2 ^ 31) \<le> sint x" "sint x < 2 ^ 31" "- (2 ^ 31) \<le> sint y" "sint y < 2 ^ 31" using x(2,3) y(2,3) bits by auto
  have lin: "accum_val (ln_shift_i64 v (62 - q_bits F)) = sint v * 2 ^ (62 - q_bits F)" if "\<bar>sint v\<bar> \<le> 2 ^ 32" for v
    using that bits by (intro ln_shift_i64_val) auto
  have add: "sint (x + y) = sint x + sint y" "sint (x - y) = sint x - sint y" using B by (simp_all add: sint_add_i64 sint_sub_i64)
  note p = product_fits [OF x(2,3) y(2,3)]
  have had: "accum_val (if q_bits F = 15 then ln_shift_i64 (x * y) 32 else \<lparr>acc_low = x * y, acc_high = (if x * y <s 0 then UINT64_MAX else 0)\<rparr>)
      = sint x * sint y * 2 ^ (62 - 2 * q_bits F)"
    using p bits accum_val_extend [of "x * y"] ln_shift_i64_val [of 32 "x * y"] by auto
  define x' y' where "x' = (if q_bits F = 15 then x * 65536 else x)" and "y' = (if q_bits F = 15 then y * 65536 else y)"
  have sc: "sint x' = sint x * 2 ^ (31 - q_bits F)" "sint y' = sint y * 2 ^ (31 - q_bits F)" "\<bar>sint x'\<bar> \<le> 2 ^ 31" "\<bar>sint y'\<bar> \<le> 2 ^ 31"
    using x(2,3) y(2,3) bits sint_mac64 [of 0 x 65536] sint_mac64 [of 0 y 65536] by (auto simp: x'_def y'_def abs_le_iff)
  have prod: "\<bar>sint alpha * sint x'\<bar> \<le> 2 ^ 94" "\<bar>sint beta * sint y'\<bar> \<le> 2 ^ 94"
    using sc(3,4) i64_range [of alpha] i64_range [of beta] mult_mono [of "\<bar>sint alpha\<bar>" "2 ^ 63" "\<bar>sint x'\<bar>" "2 ^ 31"]
      mult_mono [of "\<bar>sint beta\<bar>" "2 ^ 63" "\<bar>sint y'\<bar>" "2 ^ 31"] by (auto simp: abs_mult abs_le_iff)
  have comb: "accum_val (ln_add_unchecked (ln_product alpha x') (ln_product beta y')) = sint alpha * sint x' + sint beta * sint y'"
    using prod ln_add_unchecked_val [of "ln_product alpha x'" "ln_product beta y'"] by (simp add: accum_val_product abs_le_iff)
  show ?thesis
    using op x(1) y(1) add B lin [of "x + y"] lin [of "x - y"] had comb
    by (cases operation) (auto simp: evaluate_sum_def exact_value_def Let_def accum_val_product sc(1,2) distrib_right mult.assoc
      simp flip: x'_def y'_def simp del: power_Suc)
qed

lemma evaluate_sum_exact:
  assumes ok: "computable F W operation am bm om m" and rc: "r < m_rows om" "c < m_cols om" and op: "operation \<noteq> TRANSPOSE"
  shows "\<exists>s. evaluate_sum W F operation am bm om alpha beta m r c = Some s \<and> accum_val s = value_of F operation am bm alpha beta m r c"
proof (cases "operation = MUL \<or> operation = MATVEC")
  case True
  with ok obtain d where d: "bm = Some d" by (auto simp: computable_def binary_op_def)
  then have "m_cols am = m_rows d" "m_rows om = m_rows am" "m_cols om = m_cols d" using True ok by (auto simp: computable_def dimension_error_def)
  with evaluate_sum_mul [OF True, of W am m d r c om alpha beta] ok rc d True show ?thesis
    by (auto simp: computable_def value_of_def exact_value_def elem_opt_def)
next
  case False
  then have dim: "m_rows om = m_rows am" "m_cols om = m_cols am" "\<forall>d \<in> set_option bm. m_rows d = m_rows am \<and> m_cols d = m_cols am"
    using ok op by (auto simp: computable_def dimension_error_def split: option.splits)
  obtain x where x: "q_element F m am (r * m_cols om + c) = Some x" "sint x = elem F m am r c" "- (2 ^ q_bits F) \<le> sint x" "sint x < 2 ^ q_bits F"
    using element_valid [of m am r c] ok rc dim by (metis computable_def)
  have "\<exists>y. (case bm of None \<Rightarrow> Some 0 | Some d \<Rightarrow> q_element F m d (r * m_cols om + c)) = Some y \<and> sint y = elem_opt F m bm r c
      \<and> - (2 ^ q_bits F) \<le> sint y \<and> sint y < 2 ^ q_bits F"
  proof (cases bm)
    case (Some d)
    then show ?thesis using element_valid [of m d r c] ok rc dim unfolding computable_def by (simp add: elem_opt_def) metis
  qed (simp add: elem_opt_def)
  then obtain y where y: "(case bm of None \<Rightarrow> Some 0 | Some d \<Rightarrow> q_element F m d (r * m_cols om + c)) = Some y" "sint y = elem_opt F m bm r c"
    "- (2 ^ q_bits F) \<le> sint y" "sint y < 2 ^ q_bits F" by blast
  have "operation \<notin> {MUL, MATVEC, TRANSPOSE}" using False op by simp
  from evaluate_sum_elementwise [OF this x(1,3,4) y(1,3,4), of W alpha beta "m_cols am"] show ?thesis
    using False op unfolding value_of_def x(2) y(2) by (cases operation) (auto simp: exact_value_def)
qed

lemma evaluate_q_exact:
  assumes ok: "computable F W operation am bm om m" and rc: "r < m_rows om" "c < m_cols om"
  shows "\<bar>value_of F operation am bm alpha beta m r c\<bar> \<le> 2 ^ 62 \<Longrightarrow>
      \<exists>v. evaluate_q W F operation am bm om alpha beta m r c = Some (Inr v)
        \<and> sint (q_load F v) = quantised (q_bits F) (value_of F operation am bm alpha beta m r c)" (is "?small \<Longrightarrow> ?P")
    and "2 ^ 62 < \<bar>value_of F operation am bm alpha beta m r c\<bar> \<Longrightarrow>
      evaluate_q W F operation am bm om alpha beta m r c = Some (Inl LINEARS_ERROR_RANGE)" (is "?large \<Longrightarrow> ?Q")
proof -
  have "(?small \<longrightarrow> ?P) \<and> (?large \<longrightarrow> ?Q)"
  proof (cases "operation = TRANSPOSE")
    case True
    then have dim: "m_rows om = m_cols am" "m_cols om = m_rows am" using ok by (auto simp: computable_def dimension_error_def)
    then obtain t where t: "mat_load F m am (c * m_cols am + r) = Some t"
      using ok rc index_less [of c "m_rows am" r "m_cols am"] by (auto simp: computable_def mat_valid_def)
    have v: "value_of F operation am bm alpha beta m r c = sint (q_load F t) * 2 ^ (62 - q_bits F)"
      using True t by (simp add: value_of_def exact_value_def elem_def q_element_def)
    have "\<bar>sint (q_load F t)\<bar> \<le> 2 ^ q_bits F" using load_range [of t] by (simp add: abs_le_iff)
    then have "\<bar>sint (q_load F t) * 2 ^ (62 - q_bits F)\<bar> \<le> 2 ^ 62" using bits by auto
    then show ?thesis using True t load_range [of t] unfolding v by (simp add: evaluate_q_def quantised_exact)
  next
    case False
    obtain s where s: "evaluate_sum W F operation am bm om alpha beta m r c = Some s"
      "accum_val s = value_of F operation am bm alpha beta m r c"
      using evaluate_sum_exact [OF ok rc False] by blast
    show ?thesis using False s accum_fits [of s "nk_zero F"] accum_range [of s "nk_zero F"]
      by (auto simp: evaluate_q_def staged_def quantised_def)
  qed
  then show "?small \<Longrightarrow> ?P" "?large \<Longrightarrow> ?Q" by blast+
qed

lemma staged_proper: "staged (q_accum_to F s (Some old)) \<noteq> Inl LINEARS_OK"
  using accum_fits [of s old] accum_range [of s old] by (cases "\<bar>accum_val s\<bar> \<le> 2 ^ 62") (auto simp: staged_def)

lemma evaluate_q_proper: "proper (evaluate_q W F operation am bm om alpha beta m)"
  by (auto simp: proper_def evaluate_q_def staged_proper split: bind_splits)

section \<open>A whole operation\<close>

lemma matrix_compute_exact:
  fixes alpha beta :: linears_fixed_t
  assumes chk: "compute_check W F operation a b out w bytes = Inr (am, bm, om, n)" and W: "W \<le> 64" and ws: "bytes \<le> unit_size * length ws"
    and valid: "mat_valid F m am" "\<forall>d \<in> set_option bm. mat_valid F m d" "mat_valid F m om"
  defines "V \<equiv> value_of F operation am bm alpha beta m"
  shows "(\<forall>r < m_rows om. \<forall>c < m_cols om. \<bar>V r c\<bar> \<le> 2 ^ 62) \<Longrightarrow>
      \<exists>m'. matrix_compute W F (evaluate_q W F) operation a b out alpha beta w ws bytes m = Some (LINEARS_OK, m')
        \<and> (\<forall>r < m_rows om. \<forall>c < m_cols om. elem F m' om r c = quantised (q_bits F) (V r c))
        \<and> (\<forall>p. (\<forall>i < m_rows om * m_cols om. p \<noteq> element_at F om i) \<longrightarrow> m' p = m p)"
    and "\<not> (\<forall>r < m_rows om. \<forall>c < m_cols om. \<bar>V r c\<bar> \<le> 2 ^ 62) \<Longrightarrow>
      matrix_compute W F (evaluate_q W F) operation a b out alpha beta w ws bytes m = Some (LINEARS_ERROR_RANGE, m)"
proof -
  obtain pa po where c: "a = Some (pa, am)" "out = Some (po, om)" "bm = map_option snd b" "\<not> dimension_error operation am bm om"
    "binary_op operation \<Longrightarrow> bm \<noteq> None" "m_rows am * m_cols am < 2 ^ W" "n = m_rows om * m_cols om"
    using compute_check_ok [OF chk size_pos] by metis
  have ok: "computable F W operation am bm om m" using c W valid by (simp add: computable_def)
  note ev = evaluate_q_exact [OF ok, of _ _ alpha beta, folded V_def]
  let ?f = "evaluate_q W F operation am bm om alpha beta m"
  have def: "?f r k \<noteq> None" if "r < m_rows om" "k < m_cols om" for r k
    using ev [OF that] by (cases "\<bar>V r k\<bar> \<le> 2 ^ 62") auto
  have "n * unit_size \<le> bytes" using compute_check_ok [OF chk size_pos] by metis
  then have n: "m_rows om * m_cols om \<le> length ws" using ws c(7) by (simp add: unit_size_def)
  obtain status m' where run: "matrix_compute W F (evaluate_q W F) operation a b out alpha beta w ws bytes m = Some (status, m')"
    using matrix_compute_total [of F bytes ws out m W operation a b w "evaluate_q W F" alpha beta] size_pos ws valid(3) c(2) chk def by fastforce
  have bad: "status = LINEARS_OK \<or> status = LINEARS_ERROR_RANGE \<and> (\<exists>r < m_rows om. \<exists>k < m_cols om. 2 ^ 62 < \<bar>V r k\<bar>)"
  proof (cases "n = 0")
    case True
    then show ?thesis using run chk by (simp add: matrix_compute_def)
  next
    case False
    obtain st ws' where r: "evaluate_rows ?f (m_rows om) (m_cols om) 0 ws = Some (st, ws')"
      "st = LINEARS_OK \<or> (\<exists>r < m_rows om. \<exists>k < m_cols om. ?f r k = Some (Inl st))"
      using evaluate_rows_total [of "m_rows om" "m_cols om" ?f ws 0] def n by blast
    have "st = status" using run chk r(1) False by (auto simp: matrix_compute_def split: if_splits bind_splits)
    moreover have "st = LINEARS_ERROR_RANGE \<and> 2 ^ 62 < \<bar>V r k\<bar>" if "r < m_rows om" "k < m_cols om" "?f r k = Some (Inl st)" for r k
      using ev [OF that(1,2)] that(3) by (cases "\<bar>V r k\<bar> \<le> 2 ^ 62") auto
    ultimately show ?thesis using r(2) by blast
  qed
  have ran: "(\<forall>r < m_rows om. \<forall>k < m_cols om. \<exists>v. ?f r k = Some (Inr v) \<and> mat_load F m' om (r * m_cols om + k) = Some v)
      \<and> (\<forall>p. (\<forall>i < m_rows om * m_cols om. p \<noteq> element_at F om i) \<longrightarrow> m' p = m p)" if "status = LINEARS_OK"
    by (rule matrix_compute_ok [OF run [unfolded that] size_pos evaluate_q_proper]) (use c in auto)
  have good: "\<bar>V r k\<bar> \<le> 2 ^ 62 \<and> elem F m' om r k = quantised (q_bits F) (V r k)"
    if st: "status = LINEARS_OK" and rk: "r < m_rows om" "k < m_cols om" for r k
  proof -
    obtain v where v: "?f r k = Some (Inr v)" "mat_load F m' om (r * m_cols om + k) = Some v" using ran [OF st] rk by blast
    show ?thesis using ev [OF rk] v by (cases "\<bar>V r k\<bar> \<le> 2 ^ 62") (auto simp: elem_def q_element_def)
  qed
  show "\<exists>m'. matrix_compute W F (evaluate_q W F) operation a b out alpha beta w ws bytes m = Some (LINEARS_OK, m')
        \<and> (\<forall>r < m_rows om. \<forall>c < m_cols om. elem F m' om r c = quantised (q_bits F) (V r c))
        \<and> (\<forall>p. (\<forall>i < m_rows om * m_cols om. p \<noteq> element_at F om i) \<longrightarrow> m' p = m p)"
    if "\<forall>r < m_rows om. \<forall>c < m_cols om. \<bar>V r c\<bar> \<le> 2 ^ 62"
    using that run bad good ran by (intro exI [of _ m']) (auto simp: not_less [symmetric])
  show "matrix_compute W F (evaluate_q W F) operation a b out alpha beta w ws bytes m = Some (LINEARS_ERROR_RANGE, m)"
    if "\<not> (\<forall>r < m_rows om. \<forall>c < m_cols om. \<bar>V r c\<bar> \<le> 2 ^ 62)"
  proof -
    have "status \<noteq> LINEARS_OK" using that good by auto
    then show ?thesis using run bad matrix_compute_error [OF run] by simp
  qed
qed

end

end
