(* ===== verification/Linears_Safe.thy ===== *)
theory Linears_Safe
  imports Linears_Exact
begin

text \<open>
  Every operation on matrices whose elements exist returns, touches no address outside its objects and
  neither adds nor removes an element; an operation that fails leaves the memory as it was.
\<close>

definition run_safe :: "'t memory \<Rightarrow> (linears_status_t \<times> 't memory) option \<Rightarrow> bool" where
  "run_safe m r \<longleftrightarrow> (\<exists>status m'. r = Some (status, m') \<and> dom m' = dom m \<and> (status \<noteq> LINEARS_OK \<longrightarrow> m' = m))"

definition ptr_valid :: "('t, 'z) numeric_kind_scheme \<Rightarrow> 't memory \<Rightarrow> mat_ptr \<Rightarrow> bool" where
  "ptr_valid K m p \<longleftrightarrow> (\<forall>q d. p = Some (q, d) \<longrightarrow> mat_valid K m d)"

lemma run_safe_unchanged [simp]: "run_safe m (Some (status, m))"
  by (simp add: run_safe_def)

lemma run_safe_ok [simp]: "run_safe m (Some (LINEARS_OK, m')) \<longleftrightarrow> dom m' = dom m"
  by (simp add: run_safe_def)

section \<open>Stores keep the set of elements\<close>

lemma mat_store_dom: "mat_store K m d i v = Some m' \<Longrightarrow> dom m' = dom m"
  by (auto simp: mat_store_def mat_load_def split: option.splits if_splits)

lemma mat_store_total: "mat_load K m d i \<noteq> None \<Longrightarrow> \<exists>m'. mat_store K m d i v = Some m'"
  by (auto simp: mat_store_def split: option.splits)

lemma mat_load_dom: "dom m' = dom m \<Longrightarrow> mat_load K m' d i \<noteq> None \<longleftrightarrow> mat_load K m d i \<noteq> None"
  by (metis domIff mat_load_def)

lemma commit_result_dom: "commit_result K out i n ws m = Some m' \<Longrightarrow> dom m' = dom m"
proof (induction K out i n ws m rule: commit_result.induct)
  case (2 K out i n ws m)
  from "2.prems" obtain v m1 where st: "buf_read i ws = Some v" "mat_store K m out i v = Some m1" "commit_result K out (Suc i) n ws m1 = Some m'"
    by (auto split: bind_splits)
  show ?case using "2.IH" [OF st] mat_store_dom [OF st(2)] by simp
qed simp

lemma fill_loop_safe:
  assumes "\<And>j. i \<le> j \<Longrightarrow> j < i + n \<Longrightarrow> mat_load K m d j \<noteq> None"
  shows "\<exists>m'. fill_loop K d identity i n m = Some m' \<and> dom m' = dom m"
  using assms
proof (induction K d identity i n m rule: fill_loop.induct)
  case (2 K out identity i n m)
  define v where "v = (if identity \<and> i div m_cols out = i mod m_cols out then nk_diagonal K else nk_zero K)"
  obtain m1 where s: "mat_store K m out i v = Some m1" using mat_store_total "2.prems" [of i] by fastforce
  note dom = mat_store_dom [OF s]
  have "\<exists>m'. fill_loop K out identity (Suc i) n m1 = Some m' \<and> dom m' = dom m1"
    using "2.prems" mat_load_dom [OF dom, of K out] by (intro "2.IH" [OF refl s [unfolded v_def]]) auto
  then show ?case using s dom by (auto simp: v_def)
qed simp

lemma read_elements_total:
  "(\<And>j. i \<le> j \<Longrightarrow> j < i + n \<Longrightarrow> mat_load K m d j \<noteq> None) \<Longrightarrow> \<exists>vs. read_elements K m d i n = Some vs \<and> length vs = n"
proof (induction K m d i n rule: read_elements.induct)
  case (2 K m d i n)
  obtain v where "mat_load K m d i = Some v" using "2.prems" [of i] by auto
  moreover have "\<exists>vs. read_elements K m d (Suc i) n = Some vs \<and> length vs = n" using "2.prems" calculation by (intro "2.IH") auto
  ultimately show ?case by auto
qed simp

section \<open>Reads stay inside the operands\<close>

lemma dot_loop_total:
  assumes "\<And>k. i \<le> k \<Longrightarrow> k < i + n \<Longrightarrow> fa k \<noteq> None \<and> fb k \<noteq> None"
  shows "dot_loop add fa fb i n s \<noteq> None"
  using dot_loop_run [of i n fa "\<lambda>k. the (fa k)" fb "\<lambda>k. the (fb k)" add s] assms by auto

lemma dot_raw_total:
  assumes "\<And>k. k < n \<Longrightarrow> fa k \<noteq> None \<and> fb k \<noteq> None"
  shows "dot_raw W bits fa fb n \<noteq> None"
proof -
  have "dot_loop (\<lambda>x y s. s + x * y) fa fb 0 n 0 \<noteq> None" "dot_loop (\<lambda>x y s. ln_add_product64 s (x * y)) fa fb 0 n accum_zero \<noteq> None"
    using assms by (intro dot_loop_total; simp)+
  then show ?thesis by (auto simp: dot_raw_def)
qed

lemma trace_loop_total: "(\<And>k. i \<le> k \<Longrightarrow> k < i + n \<Longrightarrow> f k \<noteq> None) \<Longrightarrow> trace_loop f i n s \<noteq> None"
proof (induction f i n s rule: trace_loop.induct)
  case (2 f i n s)
  obtain x where "f i = Some x" using "2.prems" [of i] by auto
  moreover have "trace_loop f (Suc i) n (ln_add_product64 s x) \<noteq> None" using "2.prems" calculation by (intro "2.IH") auto
  ultimately show ?case by simp
qed simp

lemma work_dot_total: "(\<And>j. k \<le> j \<Longrightarrow> j < k + n \<Longrightarrow> fa j \<noteq> None \<and> fb j \<noteq> None) \<Longrightarrow> work_dot fa fb k n s \<noteq> None"
proof (induction fa fb k n s rule: work_dot.induct)
  case (2 fa fb k n s)
  obtain x y where xy: "fa k = Some x" "fb k = Some y" using "2.prems" [of k] by auto
  have "work_dot fa fb (Suc k) n s' \<noteq> None" if "ln_add_checked s (ln_product x y) s = (LINEARS_OK, s')" for s'
    using "2.prems" that xy by (intro "2.IH") auto
  then show ?case using xy by (auto simp: ln_add_checked_spec)
qed simp

lemma valid_element:
  assumes "mat_valid K m d" "r < m_rows d" "c < m_cols d"
  shows "mat_load K m d (r * m_cols d + c) \<noteq> None"
  using assms index_less [OF assms(2,3)] by (auto simp: mat_valid_def)

lemma evaluate_q_total:
  assumes "\<not> dimension_error operation am bm om" "binary_op operation \<Longrightarrow> bm \<noteq> None" "mat_valid F m am" "\<forall>d \<in> set_option bm. mat_valid F m d"
    and rc: "r < m_rows om" "c < m_cols om"
  shows "evaluate_q W F operation am bm om alpha beta m r c \<noteq> None"
proof (cases "operation = MUL \<or> operation = MATVEC")
  case True
  with assms(2) obtain d where d: "bm = Some d" by (auto simp: binary_op_def)
  then have dim: "m_cols am = m_rows d" "m_rows om = m_rows am" "m_cols om = m_cols d" using True assms(1) by (auto simp: dimension_error_def)
  have "dot_raw W (q_bits F) (\<lambda>k. q_element F m am (r * m_cols am + k)) (\<lambda>k. q_element F m d (c + k * m_cols d)) (m_cols am) \<noteq> None"
    using valid_element [OF assms(3), of r] valid_element [of F m d _ c] assms(4) d dim rc
    by (intro dot_raw_total) (auto simp: q_element_def add.commute)
  then show ?thesis using True d by (auto simp: evaluate_q_def evaluate_sum_def)
next
  case False
  show ?thesis
  proof (cases "operation = TRANSPOSE")
    case True
    then show ?thesis using assms valid_element [of F m am c r] by (auto simp: evaluate_q_def dimension_error_def)
  next
    case tr: False
    then have dim: "m_rows om = m_rows am" "m_cols om = m_cols am" "\<forall>d \<in> set_option bm. m_rows d = m_rows am \<and> m_cols d = m_cols am"
      using assms(1) False by (auto simp: dimension_error_def split: option.splits)
    have "mat_load F m am (r * m_cols om + c) \<noteq> None" using valid_element [OF assms(3)] dim rc by simp
    moreover have "\<forall>d \<in> set_option bm. mat_load F m d (r * m_cols om + c) \<noteq> None" using assms(4) valid_element [of F m _ r c] dim rc by fastforce
    ultimately show ?thesis using tr False
      by (auto simp: evaluate_q_def evaluate_sum_def q_element_def Let_def split: option.splits bind_splits)
  qed
qed

lemma evaluate_work_total:
  assumes "\<not> dimension_error operation am bm om" "operation \<noteq> TRANSPOSE \<Longrightarrow> bm \<noteq> None" "mat_valid WORK m am" "\<forall>d \<in> set_option bm. mat_valid WORK m d"
    and op: "operation \<noteq> MATVEC" and rc: "r < m_rows om" "c < m_cols om"
  shows "evaluate_work operation am bm om alpha beta m r c \<noteq> None"
proof (cases "operation = TRANSPOSE")
  case True
  then show ?thesis using assms valid_element [of WORK m am c r] by (auto simp: evaluate_work_def dimension_error_def)
next
  case tr: False
  then obtain d where d: "bm = Some d" using assms(2) by auto
  show ?thesis
  proof (cases "operation = MUL")
    case True
    then have dim: "m_cols am = m_rows d" "m_rows om = m_rows am" "m_cols om = m_cols d" using d assms(1) by (auto simp: dimension_error_def)
    have "work_dot (\<lambda>k. mat_load WORK m am (r * m_cols am + k)) (\<lambda>k. mat_load WORK m d (k * m_cols d + c)) 0 (m_cols am) accum_zero \<noteq> None"
      using valid_element [OF assms(3), of r] valid_element [of WORK m d _ c] assms(4) d dim rc by (intro work_dot_total) auto
    then show ?thesis using True d by (auto simp: evaluate_work_def Let_def)
  next
    case False
    then have dim: "m_rows om = m_rows am" "m_cols om = m_cols am" "m_rows d = m_rows am" "m_cols d = m_cols am"
      using assms(1) d tr op by (auto simp: dimension_error_def)
    have "mat_load WORK m am (r * m_cols om + c) \<noteq> None" "mat_load WORK m d (r * m_cols om + c) \<noteq> None"
      using valid_element [OF assms(3)] valid_element [of WORK m d r c] assms(4) d dim rc by auto
    then show ?thesis using tr False d by (auto simp: evaluate_work_def Let_def split: bind_splits)
  qed
qed

section \<open>Whole operations\<close>

lemma matrix_compute_safe:
  assumes K: "0 < nk_size K" and ws: "bytes \<le> unit_size * length ws" and out: "ptr_valid K m out"
    and ev: "\<And>am bm om r c. \<not> dimension_error operation am bm om \<Longrightarrow> (binary_op operation \<Longrightarrow> bm \<noteq> None) \<Longrightarrow> a \<noteq> None \<Longrightarrow> am = snd (the a) \<Longrightarrow>
      bm = map_option snd b \<Longrightarrow> r < m_rows om \<Longrightarrow> c < m_cols om \<Longrightarrow> ev operation am bm om alpha beta m r c \<noteq> None"
  shows "run_safe m (matrix_compute W K ev operation a b out alpha beta w ws bytes m)"
proof -
  have "ev operation am bm om alpha beta m r c \<noteq> None"
    if "compute_check W K operation a b out w bytes = Inr (am, bm, om, n)" "r < m_rows om" "c < m_cols om" for am bm om n r c
    using compute_check_ok [OF that(1) K] ev that(2,3) by (metis option.distinct(1) option.sel snd_conv)
  then obtain status m' where run: "matrix_compute W K ev operation a b out alpha beta w ws bytes m = Some (status, m')"
    using matrix_compute_total [OF K ws] out by (metis ptr_valid_def)
  have "dom m' = dom m"
    using run commit_result_dom by (fastforce simp: matrix_compute_def split: sum.splits if_splits bind_splits)
  then show ?thesis using run matrix_compute_error [OF run] by (auto simp: run_safe_def)
qed

lemma ptr_validD: "ptr_valid K m p \<Longrightarrow> p \<noteq> None \<Longrightarrow> mat_valid K m (snd (the p))"
  by (auto simp: ptr_valid_def)

lemma ptr_valid_all: "ptr_valid K m p \<Longrightarrow> \<forall>d \<in> set_option (map_option snd p). mat_valid K m d"
  by (auto simp: ptr_valid_def)

lemma matrix_compute_q_safe:
  assumes "0 < nk_size F" "bytes \<le> unit_size * length ws" "ptr_valid F m a" "ptr_valid F m b" "ptr_valid F m out"
  shows "run_safe m (matrix_compute W F (evaluate_q W F) operation a b out alpha beta w ws bytes m)"
  using assms by (intro matrix_compute_safe evaluate_q_total) (auto simp: ptr_validD ptr_valid_all)

lemma matrix_compute_work_safe:
  assumes "bytes \<le> unit_size * length ws" "ptr_valid WORK m a" "ptr_valid WORK m b" "ptr_valid WORK m out"
    "operation \<in> {ADD, SUB, MUL, TRANSPOSE, AXPBY}"
  shows "run_safe m (matrix_compute W WORK evaluate_work operation a b out alpha beta w ws bytes m)"
  using assms by (intro matrix_compute_safe evaluate_work_total) (auto simp: ptr_validD ptr_valid_all binary_op_def WORK_def)

lemma storage_elements:
  assumes "matrix_storage W K p = Inr n" "ptr_valid K m p" "0 < nk_size K"
  shows "p \<noteq> None" "n = m_rows (snd (the p)) * m_cols (snd (the p))" "\<And>i. i < n \<Longrightarrow> mat_load K m (snd (the p)) i \<noteq> None"
  using assms matrix_storage_count(1) [of W K _ _ n] by (cases p; auto simp: ptr_valid_def mat_valid_def)+

lemma copy_matrix_safe:
  assumes K: "0 < nk_size K" and valid: "ptr_valid K m a" "ptr_valid K m out"
  shows "run_safe m (copy_matrix W K a out m)"
proof (cases "\<exists>na no. matrix_storage W K a = Inr na \<and> matrix_storage W K out = Inr no")
  case True
  then obtain na no where st: "matrix_storage W K a = Inr na" "matrix_storage W K out = Inr no" by blast
  note ea = storage_elements [OF st(1) valid(1) K] and eo = storage_elements [OF st(2) valid(2) K]
  obtain vs where vs: "read_elements K m (snd (the a)) 0 na = Some vs" "length vs = na"
    using read_elements_total [of 0 na K m "snd (the a)"] ea(3) by auto
  have "\<exists>m'. commit_result K (snd (the out)) 0 na vs m = Some m' \<and> dom m' = dom m" if "no = na"
    using commit_result_total [of 0 na K m "snd (the out)" vs] eo(3) that vs(2) commit_result_dom by fastforce
  then show ?thesis using st vs ea(2) eo(2) by (auto simp: copy_matrix_def Let_def)
next
  case False
  then show ?thesis by (auto simp: copy_matrix_def split: sum.splits)
qed

lemma fill_matrix_safe:
  assumes K: "0 < nk_size K" and valid: "ptr_valid K m out"
  shows "run_safe m (fill_matrix W K out identity m)"
proof (cases "matrix_storage W K out")
  case (Inr n)
  then obtain m' where "fill_loop K (snd (the out)) identity 0 n m = Some m'" "dom m' = dom m"
    using fill_loop_safe [of 0 n K m "snd (the out)" identity] storage_elements(3) [OF Inr valid K] by auto
  then show ?thesis using Inr by (auto simp: fill_matrix_def Let_def)
qed (simp add: fill_matrix_def)

lemma reduce_q_total:
  assumes "mat_valid F m a" "\<forall>d \<in> set_option b. mat_valid F m d \<and> m_rows d * m_cols d = m_rows a * m_cols a"
    "operation = DOT \<Longrightarrow> b \<noteq> None" "operation = TRACE \<Longrightarrow> m_rows a = m_cols a"
  shows "reduce_q W F operation a b (if operation = TRACE then m_rows a else m_rows a * m_cols a) m \<noteq> None"
proof -
  have dot: "dot_raw W (q_bits F) (q_element F m a) (q_element F m d) (m_rows a * m_cols a) \<noteq> None" if "d \<in> insert a (set_option b)" for d
    using assms(1,2) that by (intro dot_raw_total) (auto simp: q_element_def mat_valid_def)
  have trace: "trace_loop (\<lambda>i. q_element F m a (i * m_cols a + i)) 0 (m_rows a) accum_zero \<noteq> None" if "operation = TRACE"
    using valid_element [OF assms(1)] assms(4) [OF that] by (intro trace_loop_total) (auto simp: q_element_def)
  show ?thesis
  proof (cases operation)
    case DOT
    then obtain d where "b = Some d" using assms(3) by auto
    then show ?thesis using DOT dot [of d] by (auto simp: reduce_q_def)
  next
    case NORM
    then show ?thesis using dot [of a] by (auto simp: reduce_q_def Let_def split: bind_splits)
  next
    case TRACE
    then show ?thesis using trace by (auto simp: reduce_q_def)
  qed
qed

lemma reduction_safe:
  assumes K: "0 < nk_size F" and valid: "ptr_valid F m a" "ptr_valid F m b" "m out \<noteq> None"
  shows "run_safe m (reduction W F operation a b out m)"
proof (cases "\<exists>na nb. matrix_storage W F a = Inr na \<and> (if b = None then Inr 0 else matrix_storage W F b) = Inr nb")
  case True
  then obtain na nb where st: "matrix_storage W F a = Inr na" "(if b = None then Inr 0 else matrix_storage W F b) = Inr nb" by blast
  note ea = storage_elements [OF st(1) valid(1) K]
  let ?a = "snd (the a)" and ?b = "map_option snd b"
  let ?bad = "(operation = TRACE \<and> m_rows ?a \<noteq> m_cols ?a) \<or> (case ?b of None \<Rightarrow> False | Some d \<Rightarrow> m_rows ?a \<noteq> m_rows d \<or> m_cols ?a \<noteq> m_cols d)"
  have "reduce_q W F operation ?a ?b (if operation = TRACE then m_rows ?a else na) m \<noteq> None" if "\<not> ?bad" "operation = DOT \<Longrightarrow> b \<noteq> None"
    unfolding ea(2) using ptr_validD [OF valid(1) ea(1)] ptr_valid_all [OF valid(2)] that by (intro reduce_q_total) (auto split: option.splits)
  moreover have "dom (m(out \<mapsto> v)) = dom m" for v using valid(3) by auto
  ultimately show ?thesis using st valid(3)
    unfolding reduction_def by (simp only: sum.case Let_def) (auto split: option.splits sum.splits)
next
  case False
  then show ?thesis by (auto simp: reduction_def split: sum.splits)
qed

end
