(* ===== verification/Linears_Props.thy ===== *)
theory Linears_Props
  imports Linears_Safe
begin

text \<open>
  Correctness of the matrix operations on the signal formats: products and linear combinations are
  exact up to one final rounding, for operands and results that overlap in any way, transposition is
  its own inverse, and every entry point is memory safe and leaves the memory alone when it fails.
\<close>

section \<open>Products\<close>

lemma scale_le_iff: "\<bar>x * 2 ^ k\<bar> \<le> 2 ^ (k + l) \<longleftrightarrow> \<bar>x\<bar> \<le> (2 :: int) ^ l"
  by (simp add: abs_mult power_add)

text \<open>
  C3: for q15 matrices that pass validation, with elements that exist and a scratch array of the stated
  length, \<open>linears_mul\<close> stores in every element of the result the exact inner product of the row and the
  column, divided by \<open>2 ^ 15\<close> with one rounding to nearest (halves away from zero) and \<open>2 ^ 15\<close> clamped to
  \<open>2 ^ 15 - 1\<close>. All products are taken over the elements before the call, even when the storage of the
  result overlaps that of the operands, and no other element changes. When one inner product is larger
  than \<open>2 ^ 30\<close> in magnitude the result is \<open>LINEARS_ERROR_RANGE\<close> and the memory is unchanged.
\<close>

theorem linears_mul_exact:
  fixes m :: "linears_q15_t memory"
  assumes "compute_check W Q15 MUL a b out w bytes = Inr (am, Some bm, om, n)" "W \<le> 64" "bytes \<le> unit_size * length ws"
    "mat_valid Q15 m am" "mat_valid Q15 m bm" "mat_valid Q15 m om"
  defines "P \<equiv> \<lambda>r c. \<Sum>k<m_cols am. elem Q15 m am r k * elem Q15 m bm k c"
  shows "if \<forall>r < m_rows om. \<forall>c < m_cols om. \<bar>P r c\<bar> \<le> 2 ^ 30
    then \<exists>m'. linears_mul W Q15 a b out w ws bytes m = Some (LINEARS_OK, m')
      \<and> (\<forall>r < m_rows om. \<forall>c < m_cols om. elem Q15 m' om r c = min (round_away (P r c) (2 ^ 15)) (2 ^ 15 - 1))
      \<and> (\<forall>p. (\<forall>i < m_rows om * m_cols om. p \<noteq> element_at Q15 om i) \<longrightarrow> m' p = m p)
    else linears_mul W Q15 a b out w ws bytes m = Some (LINEARS_ERROR_RANGE, m)"
proof -
  have bits: "q_bits Q15 = 15" by (simp add: Q15_def)
  have v: "value_of Q15 MUL am (Some bm) 0 0 m r c = P r c * 2 ^ 32" for r c
    by (simp add: value_of_def exact_value_def elem_opt_def P_def bits)
  have q: "quantised 15 (P r c * 2 ^ 32) = min (round_away (P r c) (2 ^ 15)) (2 ^ 15 - 1)" for r c
    using round_away_scale [of "2 ^ 32" "2 ^ 15" "P r c"] by (simp add: quantised_def mult.commute)
  have le: "\<bar>P r c * 2 ^ 32\<bar> \<le> 2 ^ 62 \<longleftrightarrow> \<bar>P r c\<bar> \<le> 2 ^ 30" for r c using scale_le_iff [of "P r c" 32 30] by simp
  note run = q15m.matrix_compute_exact [OF assms(1-4) _ assms(6), of 0 0, unfolded v bits q le]
  show ?thesis using run assms(5) unfolding linears_mul_def by simp
qed

section \<open>Linear combinations\<close>

text \<open>
  C37: for q31 matrices that pass validation, with elements that exist and a scratch array of the stated
  length, \<open>linears_axpby\<close> stores \<open>alpha * x + beta * y\<close> in every element, formed exactly for coefficients over
  the whole range of the working format and rounded once; operands and result may overlap. When one
  combination is larger than \<open>2 ^ 62\<close> in magnitude the result is \<open>LINEARS_ERROR_RANGE\<close> and the memory is
  unchanged.
\<close>

theorem linears_axpby_exact:
  fixes m :: "linears_q31_t memory" and alpha beta :: linears_fixed_t
  assumes "compute_check W Q31 AXPBY a b out w bytes = Inr (am, Some bm, om, n)" "W \<le> 64" "bytes \<le> unit_size * length ws"
    "mat_valid Q31 m am" "mat_valid Q31 m bm" "mat_valid Q31 m om"
  defines "P \<equiv> \<lambda>r c. sint alpha * elem Q31 m am r c + sint beta * elem Q31 m bm r c"
  shows "if \<forall>r < m_rows om. \<forall>c < m_cols om. \<bar>P r c\<bar> \<le> 2 ^ 62
    then \<exists>m'. linears_axpby W Q31 alpha a beta b out w ws bytes m = Some (LINEARS_OK, m')
      \<and> (\<forall>r < m_rows om. \<forall>c < m_cols om. elem Q31 m' om r c = min (round_away (P r c) (2 ^ 31)) (2 ^ 31 - 1))
      \<and> (\<forall>p. (\<forall>i < m_rows om * m_cols om. p \<noteq> element_at Q31 om i) \<longrightarrow> m' p = m p)
    else linears_axpby W Q31 alpha a beta b out w ws bytes m = Some (LINEARS_ERROR_RANGE, m)"
proof -
  have bits: "q_bits Q31 = 31" by (simp add: Q31_def)
  have v: "value_of Q31 AXPBY am (Some bm) alpha beta m r c = P r c" for r c
    by (simp add: value_of_def exact_value_def elem_opt_def P_def bits)
  have q: "quantised 31 (P r c) = min (round_away (P r c) (2 ^ 31)) (2 ^ 31 - 1)" for r c by (simp add: quantised_def)
  note run = q31m.matrix_compute_exact [OF assms(1-4) _ assms(6), of alpha beta, unfolded v bits q]
  show ?thesis using run assms(5) unfolding linears_axpby_def by simp
qed

section \<open>Transposition\<close>

lemma transpose_run:
  fixes m :: "linears_q15_t memory"
  assumes "compute_check W Q15 TRANSPOSE a None out w bytes = Inr (am, None, om, n)" "W \<le> 64" "bytes \<le> unit_size * length ws"
    "mat_valid Q15 m am" "mat_valid Q15 m om"
  obtains m' where "linears_transpose W Q15 a out w ws bytes m = Some (LINEARS_OK, m')" "dom m' = dom m"
    "m_rows om = m_cols am" "m_cols om = m_rows am"
    "\<And>r c. r < m_rows am \<Longrightarrow> c < m_cols am \<Longrightarrow> elem Q15 m' om c r = elem Q15 m am r c"
proof -
  have bits: "q_bits Q15 = 15" by (simp add: Q15_def)
  obtain pa po where c: "a = Some (pa, am)" "out = Some (po, om)" "\<not> dimension_error TRANSPOSE am None om"
    using compute_check_ok [OF assms(1) q15m.size_pos] by metis
  then have dim: "m_rows om = m_cols am" "m_cols om = m_rows am" by (simp_all add: dimension_error_def)
  have el: "- (2 ^ 15) \<le> elem Q15 m am r c \<and> elem Q15 m am r c < 2 ^ 15" if "r < m_rows am" "c < m_cols am" for r c
    using q15m.element_valid [OF assms(4) that] by (metis bits)
  have v: "value_of Q15 TRANSPOSE am None 0 0 m r c = elem Q15 m am c r * 2 ^ (62 - 15)" for r c
    by (simp add: value_of_def exact_value_def bits)
  have small: "\<forall>r < m_rows om. \<forall>c < m_cols om. \<bar>value_of Q15 TRANSPOSE am None 0 0 m r c\<bar> \<le> 2 ^ 62"
    unfolding v dim using el by (force simp: abs_mult abs_le_iff)
  obtain m' where m': "linears_transpose W Q15 a out w ws bytes m = Some (LINEARS_OK, m')"
    "\<forall>r < m_rows om. \<forall>c < m_cols om. elem Q15 m' om r c = quantised 15 (elem Q15 m am c r * 2 ^ (62 - 15))"
    using q15m.matrix_compute_exact(1) [OF assms(1-4) _ assms(5) small] unfolding v bits linears_transpose_def by auto
  have "run_safe m (linears_transpose W Q15 a out w ws bytes m)"
    unfolding linears_transpose_def using assms c q15m.size_pos by (intro matrix_compute_q_safe) (auto simp: ptr_valid_def)
  then have "dom m' = dom m" using m'(1) by simp
  moreover have "elem Q15 m' om c r = elem Q15 m am r c" if "r < m_rows am" "c < m_cols am" for r c
    using m'(2) dim that el [OF that] quantised_exact [of "elem Q15 m am r c" 15] by simp
  ultimately show thesis using that m' dim by blast
qed

text \<open>
  C38: transposing into a second q15 matrix and back restores every element, although the two matrices may
  share storage in any way, the in-place case included; both calls succeed whenever both pairs of
  descriptors pass validation.
\<close>

theorem linears_transpose_twice:
  fixes m :: "linears_q15_t memory"
  assumes "compute_check W Q15 TRANSPOSE a None out w bytes = Inr (am, None, om, n)" "compute_check W Q15 TRANSPOSE out None a w bytes = Inr (om, None, am, n')"
    "W \<le> 64" "bytes \<le> unit_size * length ws" "mat_valid Q15 m am" "mat_valid Q15 m om"
  shows "\<exists>m1 m2. linears_transpose W Q15 a out w ws bytes m = Some (LINEARS_OK, m1) \<and> linears_transpose W Q15 out a w ws bytes m1 = Some (LINEARS_OK, m2)
    \<and> (\<forall>r < m_rows am. \<forall>c < m_cols am. elem Q15 m1 om c r = elem Q15 m am r c \<and> elem Q15 m2 am r c = elem Q15 m am r c)"
proof -
  obtain m1 where m1: "linears_transpose W Q15 a out w ws bytes m = Some (LINEARS_OK, m1)" "dom m1 = dom m"
    "m_rows om = m_cols am" "m_cols om = m_rows am"
    "\<And>r c. r < m_rows am \<Longrightarrow> c < m_cols am \<Longrightarrow> elem Q15 m1 om c r = elem Q15 m am r c"
    using transpose_run [OF assms(1,3-6)] by metis
  have "mat_valid Q15 m1 om" "mat_valid Q15 m1 am" using assms(5,6) mat_load_dom [OF m1(2), of Q15] unfolding mat_valid_def by blast+
  then obtain m2 where m2: "linears_transpose W Q15 out a w ws bytes m1 = Some (LINEARS_OK, m2)"
    "\<And>r c. r < m_rows om \<Longrightarrow> c < m_cols om \<Longrightarrow> elem Q15 m2 am c r = elem Q15 m1 om r c"
    using transpose_run [OF assms(2-4)] by metis
  show ?thesis using m1 m2 by auto
qed

section \<open>Norm\<close>

lemma ln_sqrt_nearest64_spec: "nearest_sqrt (uint v) (uint (ln_sqrt_nearest64 v))"
proof -
  obtain t m where tm: "ln_sqrt_floor64 v = (t, m)" by fastforce
  note s = ln_sqrt_floor64_spec [OF tm]
  have t1: "uint (t + 1) = uint t + 1" using s by (subst u64_add_fits) simp_all
  have "uint (t + of_bool (t + 1 \<le> m)) = uint t + of_bool (uint t + 1 \<le> uint m)"
    using s by (subst u64_add_fits) (simp_all add: word_le_def t1)
  then show ?thesis using nearest_sqrt_of_floor [of "uint t" "uint m" "uint v"] s by (simp add: ln_sqrt_nearest64_def tm)
qed

lemma nearest_sqrt_le:
  assumes "nearest_sqrt n k" "n \<le> b * b" "0 \<le> b"
  shows "k \<le> b"
proof (rule ccontr)
  assume "\<not> k \<le> b"
  then have "(b + 1) * b \<le> k * (k - 1)" using assms(3) by (intro mult_mono) auto
  then show False using assms \<open>\<not> k \<le> b\<close> by (auto simp: nearest_sqrt_def algebra_simps)
qed

lemma accum_small_iff: "0 \<le> accum_val s \<Longrightarrow> acc_high s \<noteq> 0 \<or> shl 1 62 < acc_low s \<longleftrightarrow> 2 ^ 62 < accum_val s"
proof -
  assume s: "0 \<le> accum_val s"
  show ?thesis
  proof (cases "acc_high s = 0")
    case True
    then show ?thesis using u64_bounds [of "acc_low s"] by (simp add: accum_val_num word_less_def)
  next
    case False
    then have "sint (acc_high s) \<noteq> 0" using sint_inject [of "acc_high s" 0] by simp
    with s have "1 \<le> sint (acc_high s)" using u64_bounds [of "acc_low s"] unfolding accum_val_num by linarith
    then have "4611686018427387904 < accum_val s" using u64_bounds [of "acc_low s"] unfolding accum_val_num by linarith
    then show ?thesis using False by simp
  qed
qed

lemma norm_reduce:
  fixes m :: "linears_q31_t memory"
  assumes s: "dot_raw W 31 (q_element Q31 m d) (q_element Q31 m d) n = Some s" and S: "0 \<le> accum_val s"
  shows "if accum_val s \<le> 2 ^ 62
    then \<exists>v k. reduce_q W Q31 NORM d None n m = Some (Inr v) \<and> nearest_sqrt (accum_val s) k \<and> sint v = min k (2 ^ 31 - 1)
    else reduce_q W Q31 NORM d None n m = Some (Inl LINEARS_ERROR_RANGE)"
proof -
  show ?thesis
  proof (cases "accum_val s \<le> 2 ^ 62")
    case True
    then have low: "acc_high s = 0" "\<not> shl 1 62 < acc_low s" using accum_small_iff [OF S] by auto
    then have "uint (acc_low s) = accum_val s" using u64_bounds [of "acc_low s"] by (simp add: accum_val_num)
    define k where "k = uint (ln_sqrt_nearest64 (acc_low s))"
    have k: "nearest_sqrt (accum_val s) k" using ln_sqrt_nearest64_spec [of "acc_low s"] \<open>uint (acc_low s) = accum_val s\<close> by (simp add: k_def)
    then have kb: "0 \<le> k" "k \<le> 2 ^ 31" using True nearest_sqrt_le [OF k, of "2 ^ 31"] by (simp_all add: nearest_sqrt_def)
    define raw where "raw = (if ln_sqrt_nearest64 (acc_low s) = shl 1 31 then ln_sqrt_nearest64 (acc_low s) - 1 else ln_sqrt_nearest64 (acc_low s))"
    have raw: "uint raw = min k (2 ^ 31 - 1)"
    proof (cases "ln_sqrt_nearest64 (acc_low s) = shl 1 31")
      case False
      then have "k \<noteq> 2 ^ 31" using word_uint_eqI [of "ln_sqrt_nearest64 (acc_low s)" "shl 1 31"] by (auto simp: k_def)
      then show ?thesis using kb False by (simp add: raw_def k_def)
    qed (simp add: raw_def k_def)
    have "reduce_q W Q31 NORM d None n m = Some (Inr (ucast raw))"
      using s low by (simp add: reduce_q_def Q31_def raw_def Let_def)
    moreover have "sint (ucast raw :: i32) = min k (2 ^ 31 - 1)"
    proof -
      have "(ucast raw :: i32) = word_of_int (min k (2 ^ 31 - 1))" unfolding raw [symmetric] by (simp add: unsigned_ucast_eq)
      then show ?thesis using sint_word_of_int_fits [where 'a = 32, of "min k (2 ^ 31 - 1)"] kb by simp
    qed
    ultimately show ?thesis using True k by auto
  next
    case False
    then have "acc_high s \<noteq> 0 \<or> shl 1 62 < acc_low s" using accum_small_iff [OF S] by auto
    then have "reduce_q W Q31 NORM d None n m = Some (Inl LINEARS_ERROR_RANGE)"
      using s by (auto simp: reduce_q_def Q31_def)
    then show ?thesis using False by simp
  qed
qed

text \<open>
  C39: for a q31 matrix that passes validation, with elements that exist, \<open>linears_norm\<close> sums the squares of
  all elements exactly and stores the square root of that sum rounded to nearest, \<open>2 ^ 31\<close> clamped to
  \<open>2 ^ 31 - 1\<close>; only the result changes. When the sum of squares is larger than \<open>2 ^ 62\<close> the result is
  \<open>LINEARS_ERROR_RANGE\<close> and the memory is unchanged.
\<close>

theorem linears_norm_nearest:
  fixes m :: "linears_q31_t memory"
  assumes storage: "matrix_storage W Q31 (Some (p, d)) = Inr n" "matrix_aliases W Q31 (Some (p, d), n) (None, 0) (None, 0) = LINEARS_OK"
    and out: "out \<noteq> 0" "out mod 4 = 0" "\<not> mem_overlap out 4 p (matrix_size W)" "m out \<noteq> None"
    and valid: "mat_valid Q31 m d" and W: "W \<le> 64"
  defines "S \<equiv> \<Sum>i<m_rows d * m_cols d. (sint (the (mat_load Q31 m d i)))\<^sup>2"
  shows "if S \<le> 2 ^ 62
    then \<exists>v k. linears_norm W Q31 (Some (p, d)) out m = Some (LINEARS_OK, m(out \<mapsto> v)) \<and> nearest_sqrt S k \<and> sint v = min k (2 ^ 31 - 1)
    else linears_norm W Q31 (Some (p, d)) out m = Some (LINEARS_ERROR_RANGE, m)"
proof -
  note n = matrix_storage_count [OF storage(1) q31m.size_pos]
  define xs where "xs i = the (q_element Q31 m d i)" for i
  have el: "q_element Q31 m d i = Some (xs i) \<and> sint (xs i) = sint (the (mat_load Q31 m d i)) \<and> \<bar>sint (xs i)\<bar> \<le> 2 ^ 31" if "i < n" for i
  proof -
    obtain t where t: "mat_load Q31 m d i = Some t" using valid n(1) \<open>i < n\<close> by (auto simp: mat_valid_def)
    then show ?thesis using i32_range [of t] by (simp add: xs_def q_element_def Q31_def sint_scast_q abs_le_iff)
  qed
  have S: "prod_sum xs xs n = S" unfolding S_def n(1) [symmetric] using el by (intro sum.cong) (auto simp: power2_eq_square)
  have "\<exists>s. dot_raw W 31 (q_element Q31 m d) (q_element Q31 m d) n = Some s \<and> accum_val s = prod_sum xs xs n * 2 ^ (62 - 2 * 31)"
    using el by (intro dot_raw_val [OF _ W n(2)]) blast+
  then obtain s where s: "dot_raw W 31 (q_element Q31 m d) (q_element Q31 m d) n = Some s" "accum_val s = S"
    unfolding S by auto
  have S0: "0 \<le> S" unfolding S_def by (intro sum_nonneg) simp
  have run: "linears_norm W Q31 (Some (p, d)) out m =
      (case reduce_q W Q31 NORM d None n m of Some (Inl e) \<Rightarrow> Some (e, m) | Some (Inr v) \<Rightarrow> Some (LINEARS_OK, m(out \<mapsto> v)) | None \<Rightarrow> None)"
    using storage out by (auto simp: linears_norm_def reduction_def Q31_def Let_def split: option.splits sum.splits bind_splits)
  show ?thesis using norm_reduce [OF s(1)] S0 s(2) run by (auto split: if_splits)
qed

section \<open>Safety\<close>

text \<open>
  C40: an operation on matrices whose elements exist, with a scratch array of the stated length, returns
  a status without an access outside its objects, and keeps the set of existing elements, so that every
  matrix that was usable before is usable after. Every status other than \<open>LINEARS_OK\<close> leaves the memory
  as it was. This holds for all entry points on signal formats, for any descriptors and for any
  overlap of operands, result and scratch.
\<close>

theorem matrix_operations_safe:
  fixes F :: "'t q_kind"
  assumes "0 < nk_size F" "bytes \<le> unit_size * length ws" "ptr_valid F m a" "ptr_valid F m b" "ptr_valid F m out" "m cell \<noteq> None"
  shows "list_all (run_safe m)
    [linears_add W F a b out w ws bytes m, linears_sub W F a b out w ws bytes m, linears_hadamard W F a b out w ws bytes m,
     linears_mul W F a b out w ws bytes m, linears_matvec W F a b out w ws bytes m, linears_transpose W F a out w ws bytes m,
     linears_axpby W F alpha a beta b out w ws bytes m, linears_scale W F alpha a out w ws bytes m,
     linears_copy W F a out m, linears_zero W F out m, linears_identity W F out m,
     linears_dot W F a b cell m, linears_norm W F a cell m, linears_trace W F a cell m]"
proof -
  have none: "ptr_valid F m None" by (simp add: ptr_valid_def)
  note safe = matrix_compute_q_safe copy_matrix_safe fill_matrix_safe reduction_safe
  show ?thesis
    unfolding linears_add_def linears_sub_def linears_hadamard_def linears_mul_def linears_matvec_def linears_transpose_def linears_axpby_def
      linears_scale_def linears_copy_def linears_zero_def linears_identity_def linears_dot_def linears_norm_def linears_trace_def
    by (simp only: list.pred_inject simp_thms) (intro conjI safe assms none)
qed

text \<open>The entry points on working values are memory safe in the same way.\<close>

lemma work_operations_safe:
  assumes "bytes \<le> unit_size * length ws" "ptr_valid WORK m a" "ptr_valid WORK m b" "ptr_valid WORK m out"
  shows "list_all (run_safe m)
    [linears_add_fixed W a b out w ws bytes m, linears_sub_fixed W a b out w ws bytes m, linears_mul_fixed W a b out w ws bytes m,
     linears_transpose_fixed W a out w ws bytes m, linears_axpby_fixed W alpha a beta b out w ws bytes m, linears_identity_fixed W out m]"
proof -
  have none: "ptr_valid WORK m None" by (simp add: ptr_valid_def)
  have size: "0 < nk_size WORK" by (simp add: WORK_def)
  show ?thesis
    unfolding linears_add_fixed_def linears_sub_fixed_def linears_mul_fixed_def linears_transpose_fixed_def linears_axpby_fixed_def
      linears_identity_fixed_def linears_work_op_def
    by (simp only: list.pred_inject simp_thms) (intro conjI matrix_compute_work_safe fill_matrix_safe assms none size; simp)
qed

section \<open>Examples\<close>

text \<open>
  A memory of eight q15 elements with a 2 by 2 matrix at 16, one at 24 and a result at 18, which shares
  storage with both, and the descriptors at 1000, 1032 and 1064.
\<close>

definition demo_memory :: "linears_q15_t memory" where
  "demo_memory = map_of [(16, 16384), (18, -8192), (20, 100), (22, 32767), (24, 16384), (26, 3), (28, -32768), (30, 32767)]"

definition demo_at :: "nat \<Rightarrow> nat \<Rightarrow> mat_ptr" where
  "demo_at p x = Some (p, \<lparr>m_data = x, m_rows = 2, m_cols = 2\<rparr>)"

abbreviation (input) demo_mat :: "nat \<Rightarrow> linears_matrix_t" where
  "demo_mat x \<equiv> \<lparr>m_data = x, m_rows = 2, m_cols = 2\<rparr>"

lemmas demo_simps = demo_at_def compute_check_def matrix_storage_def matrix_alignment_def matrix_size_def unit_size_def unit_alignment_def
  Q15_def Q31_def binary_op_def dimension_error_def matrix_aliases_def scratch_storage_def mem_overlap_def Let_def

lemma demo_valid: "mat_valid Q15 demo_memory (demo_mat 16)" "mat_valid Q15 demo_memory (demo_mat 24)" "mat_valid Q15 demo_memory (demo_mat 18)"
  by (simp_all add: mat_valid_def mat_load_def demo_memory_def Q15_def numeral_eq_Suc less_Suc_eq)

theorem linears_mul_exact_witness:
  "\<exists>m'. linears_mul 64 Q15 (demo_at 1000 16) (demo_at 1032 24) (demo_at 1064 18) 2000 [0, 0, 0, 0] 32 demo_memory = Some (LINEARS_OK, m')
    \<and> map (\<lambda>(r, c). elem Q15 m' (demo_mat 18) r c) [(0, 0), (0, 1), (1, 0), (1, 1)] = [16384, -8190, -32717, 32766]"
proof -
  have chk: "compute_check 64 Q15 MUL (demo_at 1000 16) (demo_at 1032 24) (demo_at 1064 18) 2000 32 = Inr (demo_mat 16, Some (demo_mat 24), demo_mat 18, 4)"
    by (simp add: demo_simps)
  let ?P = "\<lambda>r c. \<Sum>k<2. elem Q15 demo_memory (demo_mat 16) r k * elem Q15 demo_memory (demo_mat 24) k c"
  have P: "?P 0 0 = 536870912" "?P 0 1 = - 268378112" "?P 1 0 = - 1072070656" "?P 1 1 = 1073676589" by code_simp+
  have q: "round_away 536870912 32768 = 16384" "round_away (- 268378112) 32768 = - 8190" "round_away (- 1072070656) 32768 = - 32717"
    "round_away 1073676589 32768 = 32766" by code_simp+
  have all2: "(\<forall>r < 2. \<forall>c < 2. T r c) \<longleftrightarrow> T 0 0 \<and> T 0 1 \<and> T 1 0 \<and> T 1 (1 :: nat)" for T :: "nat \<Rightarrow> nat \<Rightarrow> bool"
    by (auto simp: numeral_eq_Suc less_Suc_eq)
  have dims: "m_rows (demo_mat x) = 2" "m_cols (demo_mat x) = 2" for x by simp_all
  show ?thesis
    using linears_mul_exact [OF chk _ _ demo_valid, of "[0, 0, 0, 0]", unfolded dims all2 P]
    by (auto simp: unit_size_def q)
qed

theorem linears_transpose_twice_witness:
  "\<exists>m1 m2. linears_transpose 64 Q15 (demo_at 1000 16) (demo_at 1064 18) 2000 [0, 0, 0, 0] 32 demo_memory = Some (LINEARS_OK, m1)
    \<and> linears_transpose 64 Q15 (demo_at 1064 18) (demo_at 1000 16) 2000 [0, 0, 0, 0] 32 m1 = Some (LINEARS_OK, m2)
    \<and> (\<forall>r < 2. \<forall>c < 2. elem Q15 m1 (demo_mat 18) c r = elem Q15 demo_memory (demo_mat 16) r c
      \<and> elem Q15 m2 (demo_mat 16) r c = elem Q15 demo_memory (demo_mat 16) r c)"
proof -
  have chk: "compute_check 64 Q15 TRANSPOSE (demo_at 1000 16) None (demo_at 1064 18) 2000 32 = Inr (demo_mat 16, None, demo_mat 18, 4)"
    "compute_check 64 Q15 TRANSPOSE (demo_at 1064 18) None (demo_at 1000 16) 2000 32 = Inr (demo_mat 18, None, demo_mat 16, 4)"
    by (simp_all add: demo_simps)
  show ?thesis using linears_transpose_twice [OF chk _ _ demo_valid(1,3), of "[0, 0, 0, 0]"] by (simp add: unit_size_def)
qed

theorem matrix_operations_safe_witness:
  "run_safe demo_memory (linears_mul 64 Q15 (demo_at 1000 16) (demo_at 1032 24) (demo_at 1064 18) 2000 [0, 0, 0, 0] 32 demo_memory)
    \<and> run_safe demo_memory (linears_add 64 Q15 (demo_at 1000 16) (demo_at 1001 24) None 2000 [0, 0, 0, 0] 32 demo_memory)"
proof -
  have valid: "ptr_valid Q15 demo_memory (demo_at p 16)" "ptr_valid Q15 demo_memory (demo_at p 24)" "ptr_valid Q15 demo_memory (demo_at p 18)"
    "ptr_valid Q15 demo_memory None" for p
    using demo_valid by (simp_all add: ptr_valid_def demo_at_def)
  have cell: "demo_memory 16 \<noteq> None" by (simp add: demo_memory_def)
  show ?thesis
    using matrix_operations_safe [OF q15m.size_pos _ valid(1,2,3) cell, of 32 "[0, 0, 0, 0]" 64 1000 1032 1064 2000 0 0]
      matrix_operations_safe [OF q15m.size_pos _ valid(1,2,4) cell, of 32 "[0, 0, 0, 0]" 64 1000 1001 2000 0 0]
    by (simp add: unit_size_def)
qed

text \<open>Two q31 rows of two elements at 16 and 24, and a cell at 32.\<close>

definition demo_memory31 :: "linears_q31_t memory" where
  "demo_memory31 = map_of [(16, 1073741824), (20, -2147483648), (24, 1610612736), (28, 3), (32, 0)]"

definition demo_row :: "nat \<Rightarrow> linears_matrix_t" where
  "demo_row x = \<lparr>m_data = x, m_rows = 1, m_cols = 2\<rparr>"

lemma demo_valid31: "mat_valid Q31 demo_memory31 (demo_row 16)" "mat_valid Q31 demo_memory31 (demo_row 24)"
  by (simp_all add: mat_valid_def mat_load_def demo_memory31_def demo_row_def Q31_def numeral_eq_Suc less_Suc_eq)

theorem linears_axpby_exact_witness:
  "\<exists>m'. linears_axpby 64 Q31 1073741825 (Some (1000, demo_row 16)) (-715827883) (Some (1032, demo_row 24)) (Some (1000, demo_row 16)) 2000 [0, 0] 16 demo_memory31
      = Some (LINEARS_OK, m')
    \<and> elem Q31 m' (demo_row 16) 0 0 = 0 \<and> elem Q31 m' (demo_row 16) 0 1 = -1073741826"
proof -
  have chk: "compute_check 64 Q31 AXPBY (Some (1000, demo_row 16)) (Some (1032, demo_row 24)) (Some (1000, demo_row 16)) 2000 16
    = Inr (demo_row 16, Some (demo_row 24), demo_row 16, 2)"
    by (simp add: demo_simps demo_row_def)
  have e: "elem Q31 demo_memory31 (demo_row 16) 0 0 = 1073741824" "elem Q31 demo_memory31 (demo_row 16) 0 1 = - 2147483648"
    "elem Q31 demo_memory31 (demo_row 24) 0 0 = 1610612736" "elem Q31 demo_memory31 (demo_row 24) 0 1 = 3" by code_simp+
  have dims: "m_rows (demo_row x) = 1" "m_cols (demo_row x) = 2" for x by (simp_all add: demo_row_def)
  have all: "(\<forall>r < 1. \<forall>c < 2. T r c) \<longleftrightarrow> T 0 0 \<and> T 0 (1 :: nat)" for T :: "nat \<Rightarrow> nat \<Rightarrow> bool"
    by (auto simp: numeral_eq_Suc less_Suc_eq)
  have s: "sint (1073741825 :: i64) = 1073741825" "sint (-715827883 :: i64) = -715827883" by simp_all
  have q: "round_away (1073741825 * 1073741824 + -715827883 * 1610612736) 2147483648 = 0"
    "round_away (1073741825 * -2147483648 + -715827883 * 3) 2147483648 = -1073741826" by code_simp+
  show ?thesis
    using linears_axpby_exact [OF chk _ _ demo_valid31(1,2,1), of "[0, 0]" 1073741825 "-715827883", unfolded dims all s e]
    by (auto simp: unit_size_def q [simplified])
qed

theorem linears_norm_nearest_witness:
  "\<exists>v k. linears_norm 64 Q31 (Some (1000, demo_row 24)) 32 demo_memory31 = Some (LINEARS_OK, demo_memory31(32 \<mapsto> v))
    \<and> nearest_sqrt (1610612736\<^sup>2 + 3\<^sup>2) k \<and> sint v = min k (2 ^ 31 - 1)"
proof -
  have st: "matrix_storage 64 Q31 (Some (1000, demo_row 24)) = Inr 2" "matrix_aliases 64 Q31 (Some (1000, demo_row 24), 2) (None, 0) (None, 0) = LINEARS_OK"
    "\<not> mem_overlap 32 4 1000 (matrix_size 64)"
    by (simp_all add: demo_simps demo_row_def)
  have S: "(\<Sum>i<m_rows (demo_row 24) * m_cols (demo_row 24). (sint (the (mat_load Q31 demo_memory31 (demo_row 24) i)))\<^sup>2) = 1610612736\<^sup>2 + 3\<^sup>2"
    by code_simp
  show ?thesis
    using linears_norm_nearest [OF st(1,2) _ _ st(3) _ demo_valid31(2), unfolded S] by (simp add: demo_memory31_def)
qed

end
