(* ===== verification/Sha256.thy ===== *)
theory Sha256
  imports Memory
begin

text \<open>
  Model of \<open>libs/sha256/src/sha256.c\<close>. The block buffer is a list with checked accesses; the arrays \<open>hash[8]\<close>
  and \<open>bits[2]\<close>, which the code only indexes by constants, are tuples of their elements. The schedule array
  \<open>W\<close> is the list of the elements written so far in the current call: every element is written before it
  is read, so the static storage of \<open>W\<close> carries nothing from one call to the next.
\<close>

section \<open>Data\<close>

type_synonym sha_words = "u32 \<times> u32 \<times> u32 \<times> u32 \<times> u32 \<times> u32 \<times> u32 \<times> u32"

record sha256_ctx_t =
  sha_buf :: "u8 list"
  sha_hash :: sha_words
  sha_bits :: "u32 \<times> u32"
  sha_len :: u32

text \<open>The round constants, in the rows of the source.\<close>

definition K256 :: "u32 list" where
  "K256 = concat [
     [0x428a2f98, 0x71374491, 0xb5c0fbcf, 0xe9b5dba5],
     [0x3956c25b, 0x59f111f1, 0x923f82a4, 0xab1c5ed5],
     [0xd807aa98, 0x12835b01, 0x243185be, 0x550c7dc3],
     [0x72be5d74, 0x80deb1fe, 0x9bdc06a7, 0xc19bf174],
     [0xe49b69c1, 0xefbe4786, 0x0fc19dc6, 0x240ca1cc],
     [0x2de92c6f, 0x4a7484aa, 0x5cb0a9dc, 0x76f988da],
     [0x983e5152, 0xa831c66d, 0xb00327c8, 0xbf597fc7],
     [0xc6e00bf3, 0xd5a79147, 0x06ca6351, 0x14292967],
     [0x27b70a85, 0x2e1b2138, 0x4d2c6dfc, 0x53380d13],
     [0x650a7354, 0x766a0abb, 0x81c2c92e, 0x92722c85],
     [0xa2bfe8a1, 0xa81a664b, 0xc24b8b70, 0xc76c51a3],
     [0xd192e819, 0xd6990624, 0xf40e3585, 0x106aa070],
     [0x19a4c116, 0x1e376c08, 0x2748774c, 0x34b0bcb5],
     [0x391c0cb3, 0x4ed8aa4a, 0x5b9cca4f, 0x682e6ff3],
     [0x748f82ee, 0x78a5636f, 0x84c87814, 0x8cc70208],
     [0x90befffa, 0xa4506ceb, 0xbef9a3f7, 0xc67178f2]]"

section \<open>Bit functions\<close>

definition shb :: "u32 \<Rightarrow> u32 \<Rightarrow> u8" where
  "shb x n = ucast (shr x (unat (n AND 31)) AND 0xff)"

definition shw :: "u32 \<Rightarrow> u32 \<Rightarrow> u32" where
  "shw x n = shl x (unat (n AND 31)) AND 0xffffffff"

definition sha_r :: "u32 \<Rightarrow> u8 \<Rightarrow> u32" where
  "sha_r x n = shr x (unat n) OR shw x (32 - ucast n)"

definition sha_Ch :: "u32 \<Rightarrow> u32 \<Rightarrow> u32 \<Rightarrow> u32" where
  "sha_Ch x y z = (x AND y) XOR ((NOT x) AND z)"

definition sha_Ma :: "u32 \<Rightarrow> u32 \<Rightarrow> u32 \<Rightarrow> u32" where
  "sha_Ma x y z = (x AND y) XOR (x AND z) XOR (y AND z)"

definition sha_S0 :: "u32 \<Rightarrow> u32" where
  "sha_S0 x = sha_r x 2 XOR sha_r x 13 XOR sha_r x 22"

definition sha_S1 :: "u32 \<Rightarrow> u32" where
  "sha_S1 x = sha_r x 6 XOR sha_r x 11 XOR sha_r x 25"

definition sha_G0 :: "u32 \<Rightarrow> u32" where
  "sha_G0 x = sha_r x 7 XOR sha_r x 18 XOR shr x 3"

definition sha_G1 :: "u32 \<Rightarrow> u32" where
  "sha_G1 x = sha_r x 17 XOR sha_r x 19 XOR shr x 10"

text \<open>Four bytes of the buffer from index \<open>k\<close>.\<close>

definition sha_word :: "u8 list \<Rightarrow> nat \<Rightarrow> u32 option" where
  "sha_word buf k = do {
     c0 \<leftarrow> buf_read k buf;
     c1 \<leftarrow> buf_read (k + 1) buf;
     c2 \<leftarrow> buf_read (k + 2) buf;
     c3 \<leftarrow> buf_read (k + 3) buf;
     Some (shw (ucast c0) 24 OR shw (ucast c1) 16 OR shw (ucast c2) 8 OR ucast c3)
   }"

definition addbits :: "sha256_ctx_t \<Rightarrow> u32 \<Rightarrow> sha256_ctx_t" where
  "addbits ctx n =
     (let (b0, b1) = sha_bits ctx;
          b1' = (if 0xffffffff - n < b0 then (b1 + 1) AND 0xffffffff else b1)
      in ctx\<lparr>sha_bits := ((b0 + n) AND 0xffffffff, b1')\<rparr>)"

section \<open>Compression\<close>

definition sha_schedule :: "u8 list \<Rightarrow> u32 list \<Rightarrow> nat \<Rightarrow> u32 option" where
  "sha_schedule buf W i =
     (if i < 16 then sha_word buf (unat (shw (of_nat i) 2))
      else do {
        w2 \<leftarrow> buf_read (i - 2) W;
        w7 \<leftarrow> buf_read (i - 7) W;
        w15 \<leftarrow> buf_read (i - 15) W;
        w16 \<leftarrow> buf_read (i - 16) W;
        Some (sha_G1 w2 + w7 + sha_G0 w15 + w16)
      })"

definition sha_round :: "u32 \<Rightarrow> u32 \<Rightarrow> sha_words \<Rightarrow> sha_words" where
  "sha_round k w = (\<lambda>(a, b, c, d, e, f, g, h).
     let t0 = h + sha_S1 e + sha_Ch e f g + k + w;
         t1 = sha_S0 a + sha_Ma a b c
     in (t0 + t1, a, b, c, d + t0, e, f, g))"

function hash_rounds :: "u8 list \<Rightarrow> nat \<Rightarrow> u32 list \<Rightarrow> sha_words \<Rightarrow> sha_words option" where
  "hash_rounds buf i W s =
     (if i < 64 then do {
        w \<leftarrow> sha_schedule buf W i;
        k \<leftarrow> buf_read i K256;
        hash_rounds buf (Suc i) (W @ [w]) (sha_round k w s)
      }
      else Some s)"
  by pat_completeness auto
termination by (relation "measure (\<lambda>(_, i, _, _). 64 - i)") auto

declare hash_rounds.simps [simp del]

definition sha_words_add :: "sha_words \<Rightarrow> sha_words \<Rightarrow> sha_words" where
  "sha_words_add = (\<lambda>(h0, h1, h2, h3, h4, h5, h6, h7) (a, b, c, d, e, f, g, h).
     (h0 + a, h1 + b, h2 + c, h3 + d, h4 + e, h5 + f, h6 + g, h7 + h))"

definition hash_block :: "sha256_ctx_t \<Rightarrow> sha256_ctx_t option" where
  "hash_block ctx = do {
     s \<leftarrow> hash_rounds (sha_buf ctx) 0 [] (sha_hash ctx);
     Some (ctx\<lparr>sha_hash := sha_words_add (sha_hash ctx) s\<rparr>)
   }"

section \<open>Streaming interface\<close>

definition sha256_init_value :: sha_words where
  "sha256_init_value = (0x6a09e667, 0xbb67ae85, 0x3c6ef372, 0xa54ff53a, 0x510e527f, 0x9b05688c, 0x1f83d9ab, 0x5be0cd19)"

definition sha256_init :: "sha256_ctx_t ptr \<Rightarrow> sha256_ctx_t ptr" where
  "sha256_init ctx = (case ctx of None \<Rightarrow> None | Some c \<Rightarrow> Some (c\<lparr>sha_bits := (0, 0), sha_len := 0, sha_hash := sha256_init_value\<rparr>))"

definition sha256_push :: "u8 \<Rightarrow> sha256_ctx_t \<Rightarrow> sha256_ctx_t option" where
  "sha256_push byte ctx = do {
     buf \<leftarrow> buf_write (unat (sha_len ctx)) byte (sha_buf ctx);
     let c = ctx\<lparr>sha_buf := buf, sha_len := sha_len ctx + 1\<rparr>;
     if sha_len c = 64
     then do { c' \<leftarrow> hash_block c; Some ((addbits c' 512)\<lparr>sha_len := 0\<rparr>) }
     else Some c
   }"

function sha256_hash_loop :: "u8 list \<Rightarrow> nat \<Rightarrow> nat \<Rightarrow> sha256_ctx_t \<Rightarrow> sha256_ctx_t option" where
  "sha256_hash_loop bytes i len ctx =
     (if i < len then do {
        byte \<leftarrow> buf_read i bytes;
        ctx' \<leftarrow> sha256_push byte ctx;
        sha256_hash_loop bytes (Suc i) len ctx'
      }
      else Some ctx)"
  by pat_completeness auto
termination by (relation "measure (\<lambda>(_, i, len, _). len - i)") auto

declare sha256_hash_loop.simps [simp del]

definition sha256_hash :: "sha256_ctx_t ptr \<Rightarrow> u8 list ptr \<Rightarrow> nat \<Rightarrow> sha256_ctx_t ptr option" where
  "sha256_hash ctx data len =
     (case (ctx, data) of (Some c, Some bytes) \<Rightarrow> map_option Some (sha256_hash_loop bytes 0 len c) | _ \<Rightarrow> Some ctx)"

text \<open>The loop that clears the buffer from index \<open>i\<close> on.\<close>

function sha_clear :: "nat \<Rightarrow> u8 list \<Rightarrow> u8 list option" where
  "sha_clear i buf = (if i < 64 then do { buf' \<leftarrow> buf_write i 0 buf; sha_clear (Suc i) buf' } else Some buf)"
  by pat_completeness auto
termination by (relation "measure (\<lambda>(i, _). 64 - i)") auto

declare sha_clear.simps [simp del]

text \<open>The stores of the length at the end of the buffer.\<close>

fun sha_store :: "(nat \<times> u8) list \<Rightarrow> u8 list \<Rightarrow> u8 list option" where
  "sha_store [] buf = Some buf"
| "sha_store ((i, v) # ws) buf = do { buf' \<leftarrow> buf_write i v buf; sha_store ws buf' }"

definition sha_length_bytes :: "u32 \<times> u32 \<Rightarrow> (nat \<times> u8) list" where
  "sha_length_bytes = (\<lambda>(b0, b1).
     [(63, shb b0 0), (62, shb b0 8), (61, shb b0 16), (60, shb b0 24), (59, shb b1 0), (58, shb b1 8), (57, shb b1 16), (56, shb b1 24)])"

definition sha_digest_bytes :: "sha_words \<Rightarrow> nat \<Rightarrow> u32 \<Rightarrow> (nat \<times> u8) list" where
  "sha_digest_bytes = (\<lambda>(h0, h1, h2, h3, h4, h5, h6, h7) i j.
     [(i, shb h0 j), (i + 4, shb h1 j), (i + 8, shb h2 j), (i + 12, shb h3 j),
      (i + 16, shb h4 j), (i + 20, shb h5 j), (i + 24, shb h6 j), (i + 28, shb h7 j)])"

function sha_output :: "sha_words \<Rightarrow> nat \<Rightarrow> u32 \<Rightarrow> u8 list \<Rightarrow> u8 list option" where
  "sha_output s i j out =
     (if i < 4 then do { out' \<leftarrow> sha_store (sha_digest_bytes s i j) out; sha_output s (Suc i) (j - 8) out' } else Some out)"
  by pat_completeness auto
termination by (relation "measure (\<lambda>(_, i, _, _). 4 - i)") auto

declare sha_output.simps [simp del]

definition sha256_done_body :: "sha256_ctx_t \<Rightarrow> sha256_ctx_t option" where
  "sha256_done_body ctx = do {
     let j = unat (sha_len ctx mod 64);
     b1 \<leftarrow> buf_write j 0x80 (sha_buf ctx);
     b2 \<leftarrow> sha_clear (j + 1) b1;
     let c1 = ctx\<lparr>sha_buf := b2\<rparr>;
     c2 \<leftarrow> (if 55 < sha_len c1 then do { c \<leftarrow> hash_block c1; b \<leftarrow> sha_clear 0 (sha_buf c); Some (c\<lparr>sha_buf := b\<rparr>) } else Some c1);
     let c3 = addbits c2 (sha_len c2 * 8);
     b3 \<leftarrow> sha_store (sha_length_bytes (sha_bits c3)) (sha_buf c3);
     hash_block (c3\<lparr>sha_buf := b3\<rparr>)
   }"

definition sha256_done :: "sha256_ctx_t ptr \<Rightarrow> u8 list ptr \<Rightarrow> (sha256_ctx_t ptr \<times> u8 list ptr) option" where
  "sha256_done ctx hash =
     (case ctx of None \<Rightarrow> Some (None, hash)
      | Some c \<Rightarrow> do {
          c' \<leftarrow> sha256_done_body c;
          out \<leftarrow> (case hash of None \<Rightarrow> Some None | Some h \<Rightarrow> map_option Some (sha_output (sha_hash c') 0 24 h));
          Some (Some c', out)
        })"

text \<open>The context is a local variable; \<open>garbage\<close> is its indeterminate content before \<open>sha256_init\<close>.\<close>

definition sha256 :: "sha256_ctx_t \<Rightarrow> u8 list ptr \<Rightarrow> nat \<Rightarrow> u8 list ptr \<Rightarrow> u8 list ptr option" where
  "sha256 garbage data len hash = do {
     ctx \<leftarrow> sha256_hash (sha256_init (Some garbage)) data len;
     (_, out) \<leftarrow> sha256_done ctx hash;
     Some out
   }"

end
