(* ===== verification/Sha256_Spec.thy ===== *)
theory Sha256_Spec
  imports Sha256
begin

text \<open>
  The hash function of FIPS 180-4 over byte lists, and the proof that the compression function of the
  code computes it: rotations, schedule and rounds.
\<close>

section \<open>Specification\<close>

text \<open>Big-endian numbers.\<close>

definition be_num :: "u8 list \<Rightarrow> nat" where
  "be_num bs = foldl (\<lambda>n b. 256 * n + unat b) 0 bs"

definition be_bytes :: "nat \<Rightarrow> nat \<Rightarrow> u8 list" where
  "be_bytes n k = map (\<lambda>i. of_nat (k div 256 ^ (n - 1 - i))) [0..<n]"

definition Ch :: "u32 \<Rightarrow> u32 \<Rightarrow> u32 \<Rightarrow> u32" where
  "Ch x y z = (x AND y) OR (NOT x AND z)"

definition Maj :: "u32 \<Rightarrow> u32 \<Rightarrow> u32 \<Rightarrow> u32" where
  "Maj x y z = (x AND y) OR (x AND z) OR (y AND z)"

definition big_sigma0 :: "u32 \<Rightarrow> u32" where "big_sigma0 x = word_rotr 2 x XOR word_rotr 13 x XOR word_rotr 22 x"
definition big_sigma1 :: "u32 \<Rightarrow> u32" where "big_sigma1 x = word_rotr 6 x XOR word_rotr 11 x XOR word_rotr 25 x"
definition small_sigma0 :: "u32 \<Rightarrow> u32" where "small_sigma0 x = word_rotr 7 x XOR word_rotr 18 x XOR shr x 3"
definition small_sigma1 :: "u32 \<Rightarrow> u32" where "small_sigma1 x = word_rotr 17 x XOR word_rotr 19 x XOR shr x 10"

text \<open>The message schedule of a block of 64 bytes.\<close>

fun sched :: "u8 list \<Rightarrow> nat \<Rightarrow> u32" where
  "sched M t =
     (if t < 16 then of_nat (be_num (take 4 (drop (4 * t) M)))
      else small_sigma1 (sched M (t - 2)) + sched M (t - 7) + small_sigma0 (sched M (t - 15)) + sched M (t - 16))"

declare sched.simps [simp del]

definition spec_round :: "u8 list \<Rightarrow> sha_words \<Rightarrow> nat \<Rightarrow> sha_words" where
  "spec_round M s t = (case s of (a, b, c, d, e, f, g, h) \<Rightarrow>
     let T1 = h + big_sigma1 e + Ch e f g + K256 ! t + sched M t;
         T2 = big_sigma0 a + Maj a b c
     in (T1 + T2, a, b, c, d + T1, e, f, g))"

definition compress :: "sha_words \<Rightarrow> u8 list \<Rightarrow> sha_words" where
  "compress H M = sha_words_add H (foldl (spec_round M) H [0..<64])"

text \<open>The padded message and the digest.\<close>

definition pad :: "u8 list \<Rightarrow> u8 list" where
  "pad msg = msg @ 0x80 # replicate ((119 - length msg mod 64) mod 64) 0 @ be_bytes 8 (8 * length msg)"

function hash_blocks :: "sha_words \<Rightarrow> u8 list \<Rightarrow> sha_words" where
  "hash_blocks H msg = (if length msg < 64 then H else hash_blocks (compress H (take 64 msg)) (drop 64 msg))"
  by pat_completeness auto
termination by (relation "measure (\<lambda>(_, msg). length msg)") auto

declare hash_blocks.simps [simp del]

definition digest_bytes :: "sha_words \<Rightarrow> u8 list" where
  "digest_bytes = (\<lambda>(h0, h1, h2, h3, h4, h5, h6, h7). concat (map (\<lambda>h. be_bytes 4 (unat h)) [h0, h1, h2, h3, h4, h5, h6, h7]))"

definition sha256_spec :: "u8 list \<Rightarrow> u8 list" where
  "sha256_spec msg = digest_bytes (hash_blocks sha256_init_value (pad msg))"

section \<open>Bit functions\<close>

lemma mask32: "x AND 0xffffffff = x" for x :: u32
proof -
  have "(0xffffffff :: u32) = - 1" by simp
  then show ?thesis by (simp only: and.right_neutral)
qed

lemma unat_and_31: "unat (n AND 31) = unat n mod 32" for n :: u32
proof -
  have "n AND 31 = take_bit 5 n" by (simp add: take_bit_eq_mask mask_eq_exp_minus_1)
  then show ?thesis by (simp add: unsigned_take_bit_eq take_bit_eq_mod unat_mod)
qed

lemma byte_bound: "unat b < 256" for b :: u8
  using unsigned_less [of b, where ?'a = nat] by simp

lemma unat_ucast_byte: "unat (ucast b :: u32) = unat b" for b :: u8
  using byte_bound [of b] by (simp add: unsigned_ucast_eq unsigned_take_bit_eq take_bit_nat_eq_self)

lemma sha_r_rotr:
  assumes "0 < unat n" "unat n < 32"
  shows "sha_r x n = word_rotr (unat n) x"
proof -
  have "unat (32 - ucast n :: u32) = 32 - unat n" using assms by (subst unat_sub) (auto simp: word_le_nat_alt unat_ucast_byte)
  then have s: "unat ((32 - ucast n :: u32) AND 31) = 32 - unat n" using assms by (simp add: unat_and_31)
  show ?thesis
    unfolding sha_r_def shw_def mask32 s
  proof (rule bit_word_eqI)
    fix i assume i: "i < LENGTH(32)"
    show "bit (shr x (unat n) OR shl x (32 - unat n)) i \<longleftrightarrow> bit (word_rotr (unat n) x) i"
    proof (cases "i + unat n < 32")
      case True
      then have "\<not> 32 - unat n \<le> i" by simp
      then show ?thesis using True i assms by (simp add: bit_simps add.commute)
    next
      case False
      then have "(i + unat n) mod 32 = i - (32 - unat n)" using i assms by (simp add: mod_if)
      then show ?thesis using i assms False by (simp add: bit_simps) (auto dest: bit_imp_le_length)
    qed
  qed
qed

lemma unat_be_word:
  fixes a b c d :: u8
  shows "shw (ucast a) 24 OR shw (ucast b) 16 OR shw (ucast c) 8 OR ucast d = of_nat (be_num [a, b, c, d])"
proof -
  define x1 :: u32 where "x1 = shl (ucast a) 8 OR ucast b"
  define x2 where "x2 = shl x1 8 OR ucast c"
  define x3 where "x3 = shl x2 8 OR ucast d"
  have 1: "unat x1 = 256 * unat a + unat b"
    using unat_shl_or_byte [of "ucast a" b] byte_bound [of a] by (simp add: x1_def unat_ucast_byte)
  have 2: "unat x2 = 256 * unat x1 + unat c"
    using unat_shl_or_byte [of x1 c] 1 byte_bound [of a] byte_bound [of b] by (simp add: x2_def)
  have 3: "unat x3 = 256 * unat x2 + unat d"
    using unat_shl_or_byte [of x2 d] 1 2 byte_bound [of a] byte_bound [of b] byte_bound [of c] by (simp add: x3_def)
  have "shw (ucast a) 24 OR shw (ucast b) 16 OR shw (ucast c) 8 OR ucast d = x3"
    by (simp add: shw_def mask32 push_bit_or or.assoc x1_def x2_def x3_def)
  also have "x3 = of_nat (unat x3)" by simp
  also have "unat x3 = be_num [a, b, c, d]" by (simp add: 1 2 3 be_num_def)
  finally show ?thesis .
qed

lemma sha_word_be: "k + 4 \<le> length buf \<Longrightarrow> sha_word buf k = Some (of_nat (be_num (take 4 (drop k buf))))"
proof -
  assume k: "k + 4 \<le> length buf"
  have "take 4 (drop k buf) = [buf ! k, buf ! (k + 1), buf ! (k + 2), buf ! (k + 3)]"
    using k by (intro nth_equalityI) (auto simp: less_Suc_eq numeral_eq_Suc)
  then show ?thesis using k by (simp add: sha_word_def unat_be_word)
qed

lemma sha_functions:
  "sha_Ch x y z = Ch x y z" "sha_Ma x y z = Maj x y z" "sha_S0 x = big_sigma0 x" "sha_S1 x = big_sigma1 x" "sha_G0 x = small_sigma0 x" "sha_G1 x = small_sigma1 x"
  by (auto intro!: bit_word_eqI simp: sha_Ch_def Ch_def sha_Ma_def Maj_def bit_simps sha_S0_def sha_S1_def sha_G0_def sha_G1_def
    big_sigma0_def big_sigma1_def small_sigma0_def small_sigma1_def sha_r_rotr)

section \<open>Compression\<close>

lemma unat_index: "i < 16 \<Longrightarrow> unat (shw (of_nat i) 2) = 4 * i"
proof -
  assume i: "i < 16"
  have "unat (of_nat i :: u32) = i" using i by (simp add: unat_of_nat)
  then show ?thesis using i by (simp add: shw_def mask32 unat_and_31 push_bit_eq_mult unat_word_ariths mult.commute)
qed

lemma sha_schedule_sched:
  assumes "length buf = 64" "i < 64"
  shows "sha_schedule buf (map (sched buf) [0..<i]) i = Some (sched buf i)"
  using assms by (subst sched.simps) (auto simp: sha_schedule_def unat_index sha_word_be sha_functions)

lemma sha_round_spec: "sha_round (K256 ! t) (sched M t) s = spec_round M s t"
  by (simp add: sha_round_def spec_round_def sha_functions split_beta)

lemma length_K256: "length K256 = 64"
  by (simp add: K256_def)

lemma hash_rounds_spec:
  assumes "length buf = 64" "i \<le> 64"
  shows "hash_rounds buf i (map (sched buf) [0..<i]) s = Some (foldl (spec_round buf) s [i..<64])"
  using assms(2)
proof (induction "64 - i" arbitrary: i s)
  case 0
  then show ?case by (subst hash_rounds.simps) simp
next
  case (Suc n)
  then have i: "i < 64" by simp
  then have "[i..<64] = i # [Suc i..<64]" by (simp add: upt_conv_Cons)
  then show ?case
    using i Suc.hyps(1) [of "Suc i" "spec_round buf s i"] Suc.hyps(2) assms(1)
    by (subst hash_rounds.simps) (simp add: sha_schedule_sched length_K256 sha_round_spec)
qed

lemma hash_block_spec: "length (sha_buf ctx) = 64 \<Longrightarrow> hash_block ctx = Some (ctx\<lparr>sha_hash := compress (sha_hash ctx) (sha_buf ctx)\<rparr>)"
  using hash_rounds_spec [of "sha_buf ctx" 0] by (simp add: hash_block_def compress_def)

lemma hash_blocks_append: "length p mod 64 = 0 \<Longrightarrow> length b = 64 \<Longrightarrow> hash_blocks H (p @ b) = compress (hash_blocks H p) b"
proof (induction H p rule: hash_blocks.induct)
  case (1 H p)
  show ?case
  proof (cases "length p < 64")
    case True
    then have "p = []" using "1.prems"(1) by simp
    then show ?thesis using "1.prems"(2) by (simp add: hash_blocks.simps)
  next
    case False
    have "length (drop 64 p) mod 64 = 0" using "1.prems"(1) False by (simp add: mod_if)
    then show ?thesis using "1.IH" [OF False] "1.prems"(2) False by (subst (1 2) hash_blocks.simps) simp
  qed
qed

end
