(* ===== verification/Sha256_Props.thy ===== *)
theory Sha256_Props
  imports Sha256_Spec
begin

text \<open>
  The streaming interface implements the hash function: a context represents the message it was fed,
  every byte extends it, and finishing pads it.
\<close>

section \<open>Bit count\<close>

definition bits_val :: "u32 \<times> u32 \<Rightarrow> nat" where
  "bits_val = (\<lambda>(b0, b1). unat b1 * 2 ^ 32 + unat b0)"

lemma u32_less: "unat x < 4294967296" for x :: u32
  using unsigned_less [of x, where ?'a = nat] by simp

lemma addbits_val: "bits_val (sha_bits (addbits ctx n)) = (bits_val (sha_bits ctx) + unat n) mod 2 ^ 64"
proof -
  obtain b0 b1 where b: "sha_bits ctx = (b0, b1)" by fastforce
  have c: "0xffffffff - n < b0 \<longleftrightarrow> 2 ^ 32 \<le> unat b0 + unat n"
  proof -
    have "n \<le> 0xffffffff" using u32_less [of n] by (simp add: word_le_nat_alt)
    then have "unat (0xffffffff - n) = 4294967295 - unat n" by (subst unat_sub) simp_all
    then show ?thesis using u32_less [of n] u32_less [of b0] by (auto simp: word_less_nat_alt)
  qed
  have s: "unat (b0 + n) = (unat b0 + unat n) mod 2 ^ 32" "unat (b1 + 1) = (unat b1 + 1) mod 2 ^ 32"
    by (simp_all add: unat_word_ariths)
  show ?thesis
  proof (cases "2 ^ 32 \<le> unat b0 + unat n")
    case True
    then have "unat (b0 + n) = unat b0 + unat n - 2 ^ 32" using s(1) u32_less [of n] u32_less [of b0] by (simp add: mod_if)
    moreover have "(unat b1 * 2 ^ 32 + unat b0 + unat n) mod 2 ^ 64 = (unat b1 + 1) mod 2 ^ 32 * 2 ^ 32 + (unat b0 + unat n - 2 ^ 32)"
    proof (cases "unat b1 = 4294967295")
      case b1: True
      show ?thesis using True u32_less [of n] u32_less [of b0] unfolding b1 by (simp add: mod_if)
    next
      case False
      then have "unat b1 + 1 < 2 ^ 32" using u32_less [of b1] by simp
      then show ?thesis using True u32_less [of n] u32_less [of b0] by simp
    qed
    ultimately show ?thesis using True c s(2) by (simp add: addbits_def b bits_val_def mask32)
  next
    case False
    then show ?thesis using c s(1) u32_less [of b1] by (simp add: addbits_def b bits_val_def mask32)
  qed
qed

lemma addbits_rest [simp]:
  "sha_buf (addbits ctx n) = sha_buf ctx" "sha_hash (addbits ctx n) = sha_hash ctx" "sha_len (addbits ctx n) = sha_len ctx"
  by (simp_all add: addbits_def split_beta Let_def)

section \<open>The context represents a message\<close>

definition represents :: "sha256_ctx_t \<Rightarrow> u8 list \<Rightarrow> bool" where
  "represents ctx msg \<longleftrightarrow> length (sha_buf ctx) = 64 \<and> unat (sha_len ctx) = length msg mod 64
    \<and> take (length msg mod 64) (sha_buf ctx) = drop (64 * (length msg div 64)) msg
    \<and> sha_hash ctx = hash_blocks sha256_init_value (take (64 * (length msg div 64)) msg)
    \<and> bits_val (sha_bits ctx) = 512 * (length msg div 64) mod 2 ^ 64"

lemma represents_init: "length (sha_buf c) = 64 \<Longrightarrow> \<exists>c'. sha256_init (Some c) = Some c' \<and> represents c' []"
  by (simp add: sha256_init_def represents_def hash_blocks.simps bits_val_def)

lemma represents_push:
  assumes "represents ctx msg"
  shows "\<exists>ctx'. sha256_push b ctx = Some ctx' \<and> represents ctx' (msg @ [b])"
proof -
  let ?q = "length msg div 64" and ?r = "length msg mod 64"
  note r = assms [unfolded represents_def]
  define buf where "buf = (sha_buf ctx)[?r := b]"
  have len: "length buf = 64" "?r < 64" using r by (simp_all add: buf_def)
  have w: "buf_write (unat (sha_len ctx)) b (sha_buf ctx) = Some buf" using r by (simp add: buf_write_def buf_def)
  have t: "take (Suc ?r) buf = drop (64 * ?q) msg @ [b]"
    using r len by (simp add: buf_def take_Suc_conv_app_nth)
  have split: "msg = take (64 * ?q) msg @ drop (64 * ?q) msg" by simp
  have lq: "length (take (64 * ?q) msg) = 64 * ?q" by simp
  have u: "unat (sha_len ctx + 1) = Suc ?r" using r by (simp add: unat_word_ariths)
  show ?thesis
  proof (cases "?r = 63")
    case True
    then have full: "sha_len ctx + 1 = 64" using u word_unat_eq_iff [of "sha_len ctx + 1" 64] by simp
    have d: "length (msg @ [b]) div 64 = Suc ?q" "length (msg @ [b]) mod 64 = 0" using True by (simp_all add: div_Suc mod_Suc)
    have bl: "buf = drop (64 * ?q) msg @ [b]" using t True len by simp
    have msg: "take (64 * Suc ?q) (msg @ [b]) = take (64 * ?q) msg @ buf"
    proof -
      have "length (msg @ [b]) = 64 * Suc ?q" using True by (metis d mult_div_mod_eq add.right_neutral)
      then show ?thesis using bl by simp
    qed
    define c where "c = ctx\<lparr>sha_buf := buf, sha_len := sha_len ctx + 1\<rparr>"
    define c' where "c' = (addbits (c\<lparr>sha_hash := compress (sha_hash ctx) buf\<rparr>) 512)\<lparr>sha_len := 0\<rparr>"
    have "sha256_push b ctx = Some c'"
      using full len w hash_block_spec [of c] by (simp add: sha256_push_def c_def c'_def)
    moreover have "bits_val (sha_bits c') = 512 * Suc ?q mod 2 ^ 64"
    proof -
      have "(512 * ?q mod 2 ^ 64 + 512) mod 2 ^ 64 = (512 * ?q + 512) mod 2 ^ 64" by (rule mod_add_left_eq)
      also have "512 * ?q + 512 = 512 * Suc ?q" by simp
      finally show ?thesis
        using r addbits_val [of "c\<lparr>sha_hash := compress (sha_hash ctx) buf\<rparr>" 512] by (simp add: c'_def c_def)
    qed
    moreover have "sha_hash c' = hash_blocks sha256_init_value (take (64 * Suc ?q) (msg @ [b]))"
      using r len unfolding msg by (simp add: c'_def hash_blocks_append)
    ultimately show ?thesis using len by (simp add: represents_def d c'_def c_def del: length_append)
  next
    case False
    then have "unat (sha_len ctx + 1) \<noteq> 64" using u len by simp
    then have part: "sha_len ctx + 1 \<noteq> 64" by auto
    have d: "length (msg @ [b]) div 64 = ?q" "length (msg @ [b]) mod 64 = Suc ?r" using False len by (simp_all add: div_Suc mod_Suc)
    show ?thesis using r w part len t u
      by (simp add: sha256_push_def represents_def d del: length_append)
  qed
qed

lemma represents_loop:
  "represents ctx msg \<Longrightarrow> i \<le> len \<Longrightarrow> len \<le> length bytes \<Longrightarrow>
    \<exists>ctx'. sha256_hash_loop bytes i len ctx = Some ctx' \<and> represents ctx' (msg @ drop i (take len bytes))"
proof (induction bytes i len ctx arbitrary: msg rule: sha256_hash_loop.induct)
  case (1 bytes i len ctx)
  show ?case
  proof (cases "i < len")
    case True
    obtain c where c: "sha256_push (bytes ! i) ctx = Some c" "represents c (msg @ [bytes ! i])"
      using represents_push [OF "1.prems"(1)] by blast
    have "bytes ! i # drop (Suc i) (take len bytes) = drop i (take len bytes)" using Cons_nth_drop_Suc [of i "take len bytes"] True "1.prems"(3) by simp
    moreover obtain c' where "sha256_hash_loop bytes (Suc i) len c = Some c'" "represents c' ((msg @ [bytes ! i]) @ drop (Suc i) (take len bytes))"
      using "1.IH" [OF True _ c(1) c(2)] True "1.prems"(3) by auto
    ultimately show ?thesis using True "1.prems"(3) c(1) by (subst sha256_hash_loop.simps) simp
  next
    case False
    then show ?thesis using "1.prems" by (subst sha256_hash_loop.simps) simp
  qed
qed

section \<open>Stores\<close>

lemma sha_store_run:
  "\<forall>(i, v) \<in> set ws. i < length buf \<Longrightarrow> sha_store ws buf = Some (foldl (\<lambda>b (i, v). b[i := v]) buf ws)"
  by (induction ws buf rule: sha_store.induct) (auto simp: buf_write_def)

lemma length_foldl_update [simp]: "length (foldl (\<lambda>b (i, v). b[i := v]) buf ws) = length buf"
  by (induction ws arbitrary: buf) auto

lemma nth_foldl_update:
  "j < length buf \<Longrightarrow> foldl (\<lambda>b (i, v). b[i := v]) buf ws ! j = (case map_of (rev ws) j of None \<Rightarrow> buf ! j | Some v \<Rightarrow> v)"
  by (induction ws rule: rev_induct) (auto simp: nth_list_update split: option.splits)

lemma sha_clear_run: "i \<le> 64 \<Longrightarrow> length buf = 64 \<Longrightarrow> sha_clear i buf = Some (take i buf @ replicate (64 - i) 0)"
proof (induction i buf rule: sha_clear.induct)
  case (1 i buf)
  show ?case
  proof (cases "i < 64")
    case True
    then have "buf_write i 0 buf = Some (buf[i := 0])" using "1.prems"(2) by (simp add: buf_write_def)
    moreover have "64 - i = Suc (64 - Suc i)" using True by simp
    then have "take (Suc i) (buf[i := 0]) @ replicate (64 - Suc i) 0 = take i buf @ replicate (64 - i) 0"
      using True "1.prems"(2) by (simp add: take_Suc_conv_app_nth)
    ultimately show ?thesis using "1.IH" [OF True, of "buf[i := 0]"] True "1.prems"(2) by (subst sha_clear.simps) simp
  next
    case False
    then show ?thesis using "1.prems" by (subst sha_clear.simps) simp
  qed
qed

lemma shb_be:
  assumes "unat n = 8 * i" "i < 4"
  shows "shb x n = of_nat (unat x div 256 ^ i)"
proof -
  have "ucast (y AND 0xff) = (ucast y :: u8)" for y :: u32
  proof -
    have "y AND 0xff = take_bit 8 y" by (simp add: take_bit_eq_mask mask_eq_exp_minus_1)
    then show ?thesis by (intro bit_word_eqI) (simp add: bit_simps)
  qed
  moreover have "unat (n AND 31) = 8 * i" using assms by (simp add: unat_and_31)
  moreover have "unat (shr x (8 * i)) = unat x div 256 ^ i" by (simp add: unat_shr power_mult)
  moreover have "ucast y = (of_nat (unat y) :: u8)" for y :: u32 by simp
  ultimately show ?thesis by (metis shb_def)
qed

lemma of_nat_byte_eqI: "m mod 256 = n mod 256 \<Longrightarrow> (of_nat m :: u8) = of_nat n"
  using word_unat_eq_iff [of "of_nat m :: u8" "of_nat n"] by (simp add: unat_of_nat)

lemma div_mod_byte: "j < 8 \<Longrightarrow> k mod 2 ^ 64 div 256 ^ j mod 256 = k div 256 ^ j mod (256 :: nat)"
proof -
  assume j: "j < 8"
  then have "(2 :: nat) ^ 64 = 256 ^ j * 256 ^ (8 - j)" by (simp flip: power_add)
  then have "k mod 2 ^ 64 div 256 ^ j = k div 256 ^ j mod 256 ^ (8 - j)" by (simp only: mod_mult2_eq) simp
  moreover have "(256 :: nat) ^ (8 - j) = 256 * 256 ^ (7 - j)" using j by (simp flip: power_Suc add: Suc_diff_le)
  ultimately show ?thesis by (simp add: mod_mult_cong mod_mod_cancel)
qed

lemma be_bytes_mod: "be_bytes 8 (k mod 2 ^ 64) = be_bytes 8 k"
proof -
  have "(of_nat (k mod 2 ^ 64 div 256 ^ (7 - i)) :: u8) = of_nat (k div 256 ^ (7 - i))" if "i < 8" for i
  proof (rule of_nat_byte_eqI)
    show "k mod 2 ^ 64 div 256 ^ (7 - i) mod 256 = k div 256 ^ (7 - i) mod 256" by (rule div_mod_byte) simp
  qed
  then show ?thesis by (simp add: be_bytes_def)
qed

lemma be_bytes_length:
  "be_bytes 8 (bits_val (b0, b1)) = [shb b1 24, shb b1 16, shb b1 8, shb b1 0, shb b0 24, shb b0 16, shb b0 8, shb b0 0]"
proof -
  have hi: "(of_nat ((unat b1 * 2 ^ 32 + unat b0) div (256 ^ 4 * 256 ^ i)) :: u8) = of_nat (unat b1 div 256 ^ i)" for i
  proof -
    have "(unat b1 * 2 ^ 32 + unat b0) div 256 ^ 4 = unat b1" using u32_less [of b0] by simp
    then show ?thesis by (simp only: div_mult2_eq)
  qed
  have lo: "(of_nat ((unat b1 * 2 ^ 32 + unat b0) div 256 ^ i) :: u8) = of_nat (unat b0 div 256 ^ i)" if "i < 4" for i
  proof (rule of_nat_byte_eqI)
    define d where "d = unat b1 * 256 ^ (3 - i)"
    have "(2 :: nat) ^ 32 = 256 ^ (i + (3 - i) + 1)" using that by simp
    then have "(2 :: nat) ^ 32 = 256 ^ i * (256 ^ (3 - i) * 256)" by (simp only: power_add power_one_right mult.assoc)
    then have "unat b1 * 2 ^ 32 + unat b0 = unat b0 + 256 ^ i * (d * 256)" unfolding d_def by (simp only: mult_ac add.commute)
    then have "(unat b1 * 2 ^ 32 + unat b0) div 256 ^ i = d * 256 + unat b0 div 256 ^ i" by (simp only: div_mult_self2) simp
    then show "(unat b1 * 2 ^ 32 + unat b0) div 256 ^ i mod 256 = unat b0 div 256 ^ i mod 256" by simp
  qed
  show ?thesis
    using hi [of 0] hi [of 1] hi [of 2] hi [of 3] lo [of 0] lo [of 1] lo [of 2] lo [of 3]
    by (simp add: be_bytes_def bits_val_def upt_rec shb_be [of _ 0] shb_be [of _ 1] shb_be [of _ 2] shb_be [of _ 3])
qed

lemma sha_store_length:
  assumes "length buf = 64"
  shows "sha_store (sha_length_bytes bits) buf = Some (take 56 buf @ be_bytes 8 (bits_val bits))"
proof -
  obtain b0 b1 where b: "bits = (b0, b1)" by fastforce
  have "sha_store (sha_length_bytes bits) buf = Some (foldl (\<lambda>b (i, v). b[i := v]) buf (sha_length_bytes bits))"
    using assms by (intro sha_store_run) (simp add: b sha_length_bytes_def)
  moreover have "foldl (\<lambda>b (i, v). b[i := v]) buf (sha_length_bytes bits) = take 56 buf @ be_bytes 8 (bits_val bits)"
  proof (rule nth_equalityI)
    show "length (foldl (\<lambda>b (i, v). b[i := v]) buf (sha_length_bytes bits)) = length (take 56 buf @ be_bytes 8 (bits_val bits))"
      using assms by (simp add: be_bytes_def)
    fix i assume "i < length (foldl (\<lambda>b (i, v). b[i := v]) buf (sha_length_bytes bits))"
    then consider "i < 56" | "i \<in> {56, 57, 58, 59, 60, 61, 62, 63}" using assms by fastforce
    then show "foldl (\<lambda>b (i, v). b[i := v]) buf (sha_length_bytes bits) ! i = (take 56 buf @ be_bytes 8 (bits_val bits)) ! i"
      using assms by cases (auto simp: nth_foldl_update b sha_length_bytes_def be_bytes_length nth_append)
  qed
  ultimately show ?thesis by simp
qed

lemma be_bytes_word: "be_bytes 4 (unat h) = [shb h 24, shb h 16, shb h 8, shb h 0]"
  by (simp add: be_bytes_def upt_rec shb_be [of _ 0] shb_be [of _ 1] shb_be [of _ 2] shb_be [of _ 3])

lemma sha_output_run:
  assumes "32 \<le> length out"
  shows "sha_output s 0 24 out = Some (digest_bytes s @ drop 32 out)"
proof -
  obtain h0 h1 h2 h3 h4 h5 h6 h7 where s: "s = (h0, h1, h2, h3, h4, h5, h6, h7)" by (cases s) auto
  let ?upd = "foldl (\<lambda>b (i, v). b[i := v])" and ?w = "sha_digest_bytes s"
  define ws where "ws = ?w 0 24 @ ?w 1 16 @ ?w 2 8 @ ?w 3 0"
  have st: "sha_store (?w i j) b = Some (?upd b (?w i j))" if "i < 4" "32 \<le> length b" for i j b
    using that by (intro sha_store_run) (auto simp: s sha_digest_bytes_def)
  have run: "sha_output s 0 24 out = Some (?upd out ws)"
    using assms by (simp add: sha_output.simps st ws_def numeral_2_eq_2 numeral_3_eq_3)
  have w: "ws = [(0, shb h0 24), (4, shb h1 24), (8, shb h2 24), (12, shb h3 24), (16, shb h4 24), (20, shb h5 24), (24, shb h6 24), (28, shb h7 24),
    (1, shb h0 16), (5, shb h1 16), (9, shb h2 16), (13, shb h3 16), (17, shb h4 16), (21, shb h5 16), (25, shb h6 16), (29, shb h7 16),
    (2, shb h0 8), (6, shb h1 8), (10, shb h2 8), (14, shb h3 8), (18, shb h4 8), (22, shb h5 8), (26, shb h6 8), (30, shb h7 8),
    (3, shb h0 0), (7, shb h1 0), (11, shb h2 0), (15, shb h3 0), (19, shb h4 0), (23, shb h5 0), (27, shb h6 0), (31, shb h7 0)]"
    by (simp add: ws_def s sha_digest_bytes_def)
  have d: "digest_bytes s = map (\<lambda>i. the (map_of (rev ws) i)) [0..<32]"
    unfolding w by (simp add: digest_bytes_def s be_bytes_word upt_rec)
  have dom: "map_of (rev ws) i \<noteq> None \<longleftrightarrow> i < 32" for i
    unfolding w map_of_eq_None_iff by (auto; presburger)
  have "?upd out ws = digest_bytes s @ drop 32 out"
  proof (rule nth_equalityI)
    show "length (?upd out ws) = length (digest_bytes s @ drop 32 out)" using assms by (simp add: d)
    fix i assume "i < length (?upd out ws)"
    then show "?upd out ws ! i = (digest_bytes s @ drop 32 out) ! i"
      using dom [of i] by (auto simp: nth_foldl_update d nth_append split: option.splits)
  qed
  then show ?thesis using run by simp
qed

section \<open>Finishing\<close>

lemma hash_blocks_blocks:
  "length p mod 64 = 0 \<Longrightarrow> length b1 = 64 \<Longrightarrow> length b2 = 64 \<Longrightarrow> hash_blocks H (p @ b1 @ b2) = compress (compress (hash_blocks H p) b1) b2"
  using hash_blocks_append [of "p @ b1" b2 H] hash_blocks_append [of p b1 H] by simp

lemma done_bits:
  assumes "represents ctx msg" "sha_bits c = sha_bits ctx" "sha_len c = sha_len ctx"
  shows "be_bytes 8 (bits_val (sha_bits (addbits c (sha_len c * 8)))) = be_bytes 8 (8 * length msg)"
proof -
  let ?q = "length msg div 64" and ?r = "length msg mod 64"
  have "unat (sha_len ctx * 8) = 8 * ?r" using assms(1) by (simp add: represents_def unat_word_ariths)
  then have "bits_val (sha_bits (addbits c (sha_len c * 8))) = (512 * ?q mod 2 ^ 64 + 8 * ?r) mod 2 ^ 64"
    using assms addbits_val [of c "sha_len c * 8"] by (simp add: represents_def)
  also have "\<dots> = (512 * ?q + 8 * ?r) mod 2 ^ 64" by (rule mod_add_left_eq)
  also have "512 * ?q + 8 * ?r = 8 * length msg" using mult_div_mod_eq [of 64 "length msg"] by linarith
  finally show ?thesis by (simp only: be_bytes_mod)
qed

lemma pad_count: "r \<le> 55 \<Longrightarrow> (119 - r) mod 64 = 55 - r" for r :: nat
proof -
  assume "r \<le> 55"
  then have "119 - r = 64 + (55 - r)" by simp
  then have "(119 - r) mod 64 = (55 - r) mod 64" by (simp only: mod_add_self1)
  then show ?thesis by simp
qed

lemma pad_count_two: "55 < r \<Longrightarrow> r < 64 \<Longrightarrow> (119 - r) mod 64 = 63 - r + 56" for r :: nat
  by simp

text \<open>The last partial block, the end mark, and zeros up to the end of the buffer.\<close>

definition first_block :: "u8 list \<Rightarrow> u8 list" where
  "first_block msg = drop (64 * (length msg div 64)) msg @ 0x80 # replicate (63 - length msg mod 64) 0"

lemma done_first:
  assumes "represents ctx msg"
  shows "\<exists>b. buf_write (unat (sha_len ctx mod 64)) 0x80 (sha_buf ctx) = Some b \<and> sha_clear (Suc (unat (sha_len ctx mod 64))) b = Some (first_block msg)"
    "length (first_block msg) = 64"
proof -
  let ?r = "length msg mod 64" and ?t = "drop (64 * (length msg div 64)) msg"
  note rep = assms [unfolded represents_def]
  define b where "b = (sha_buf ctx)[?r := 0x80]"
  have p: "length ?t = ?r" "?r < 64" by (simp_all add: minus_mult_div_eq_mod)
  have "take (Suc ?r) b = ?t @ [0x80]" using rep p(2) by (simp add: b_def take_Suc_conv_app_nth)
  then have "sha_clear (Suc ?r) b = Some (first_block msg)"
    using sha_clear_run [of "Suc ?r" b] p(2) rep by (simp add: b_def first_block_def)
  moreover have "unat (sha_len ctx mod 64) = ?r" using rep by (simp add: unat_mod)
  moreover have "buf_write ?r 0x80 (sha_buf ctx) = Some b" using rep by (simp add: buf_write_def b_def)
  ultimately show "\<exists>b. buf_write (unat (sha_len ctx mod 64)) 0x80 (sha_buf ctx) = Some b \<and> sha_clear (Suc (unat (sha_len ctx mod 64))) b = Some (first_block msg)"
    by auto
  show "length (first_block msg) = 64" using p by (simp add: first_block_def)
qed

lemma done_body_run:
  assumes "represents ctx msg"
  shows "\<exists>c. sha256_done_body ctx = Some c \<and> sha_hash c = hash_blocks sha256_init_value (pad msg)"
proof -
  let ?r = "length msg mod 64" and ?L = "be_bytes 8 (8 * length msg)"
  let ?p = "take (64 * (length msg div 64)) msg" and ?t = "drop (64 * (length msg div 64)) msg"
  note rep = assms [unfolded represents_def]
  obtain b1 where b1: "buf_write (unat (sha_len ctx mod 64)) 0x80 (sha_buf ctx) = Some b1"
    "sha_clear (Suc (unat (sha_len ctx mod 64))) b1 = Some (first_block msg)"
    using done_first(1) [OF assms] by blast
  note len1 = done_first(2) [OF assms]
  have p: "length ?p mod 64 = 0" "length ?t = ?r" by (simp_all add: minus_mult_div_eq_mod)
  have L: "length ?L = 8" by (simp add: be_bytes_def)
  show ?thesis
  proof (cases "?r \<le> 55")
    case True
    then have le: "\<not> 55 < sha_len ctx" using rep by (simp add: word_less_nat_alt)
    define blk where "blk = ?t @ 0x80 # replicate (55 - ?r) 0 @ ?L"
    have "56 - ?r = Suc (55 - ?r)" using True by simp
    moreover have "55 - ?r \<le> 63 - ?r" by (rule diff_le_mono) simp
    ultimately have "take 56 (first_block msg) = ?t @ 0x80 # replicate (55 - ?r) 0" using True p(2) by (simp add: first_block_def min_absorb1)
    then have store: "sha_store (sha_length_bytes (sha_bits (addbits (ctx\<lparr>sha_buf := first_block msg\<rparr>) (sha_len ctx * 8)))) (first_block msg) = Some blk"
      using sha_store_length [OF len1] done_bits [OF assms, of "ctx\<lparr>sha_buf := first_block msg\<rparr>"] by (simp add: blk_def)
    have "(119 - ?r) mod 64 = 55 - ?r" by (rule pad_count [OF True])
    then have "pad msg = ?p @ blk" by (simp add: pad_def blk_def)
    moreover have "length blk = 64" using True p(2) L by (simp add: blk_def)
    ultimately have "hash_blocks sha256_init_value (pad msg) = compress (sha_hash ctx) blk" using rep p(1) by (simp add: hash_blocks_append)
    then show ?thesis using b1 le store hash_block_spec \<open>length blk = 64\<close>
      by (simp add: sha256_done_body_def Let_def)
  next
    case False
    then have gt: "55 < sha_len ctx" using rep by (simp add: word_less_nat_alt)
    define blk where "blk = replicate 56 0 @ ?L"
    define c where "c = ctx\<lparr>sha_hash := compress (sha_hash ctx) (first_block msg), sha_buf := replicate 64 0\<rparr>"
    have store: "sha_store (sha_length_bytes (sha_bits (addbits c (sha_len ctx * 8)))) (replicate 64 0) = Some blk"
      using sha_store_length [of "replicate 64 0"] done_bits [OF assms, of c] by (simp add: blk_def c_def)
    have "(119 - ?r) mod 64 = 63 - ?r + 56" using False by (intro pad_count_two) simp_all
    then have "pad msg = ?p @ first_block msg @ blk" by (simp only: pad_def replicate_add) (simp add: blk_def first_block_def)
    moreover have "length blk = 64" using L by (simp add: blk_def)
    ultimately have "hash_blocks sha256_init_value (pad msg) = compress (compress (sha_hash ctx) (first_block msg)) blk"
      using rep p(1) len1 by (simp add: hash_blocks_blocks)
    then show ?thesis using b1 gt store sha_clear_run [of 0 "first_block msg"] hash_block_spec len1 \<open>length blk = 64\<close>
      by (simp add: sha256_done_body_def c_def Let_def)
  qed
qed

section \<open>The hash function\<close>

text \<open>Hashing a message in pieces.\<close>

fun sha256_feed :: "sha256_ctx_t ptr \<Rightarrow> u8 list list \<Rightarrow> sha256_ctx_t ptr option" where
  "sha256_feed ctx [] = Some ctx"
| "sha256_feed ctx (piece # pieces) = do { ctx' \<leftarrow> sha256_hash ctx (Some piece) (length piece); sha256_feed ctx' pieces }"

lemma hash_run:
  "represents c msg \<Longrightarrow> len \<le> length bytes \<Longrightarrow> \<exists>c'. sha256_hash (Some c) (Some bytes) len = Some (Some c') \<and> represents c' (msg @ take len bytes)"
  using represents_loop [of c msg 0 len bytes] by (auto simp: sha256_hash_def)

lemma feed_run: "represents c msg \<Longrightarrow> \<exists>c'. sha256_feed (Some c) pieces = Some (Some c') \<and> represents c' (msg @ concat pieces)"
proof (induction pieces arbitrary: c msg)
  case (Cons p ps)
  obtain c1 where c1: "sha256_hash (Some c) (Some p) (length p) = Some (Some c1)" "represents c1 (msg @ p)"
    using hash_run [OF Cons.prems, of "length p" p] by auto
  then show ?case using Cons.IH [OF c1(2)] by simp
qed simp

lemma done_run:
  assumes "represents c msg" "32 \<le> length out"
  shows "\<exists>c'. sha256_done (Some c) (Some out) = Some (Some c', Some (sha256_spec msg @ drop 32 out))"
  using done_body_run [OF assms(1)] sha_output_run [OF assms(2)] by (auto simp: sha256_done_def sha256_spec_def)

text \<open>
  C2: \<open>sha256\<close> writes the digest of FIPS 180-4 of the first \<open>len\<close> bytes of the data to the first 32 bytes of the
  output and leaves the rest of it alone, whatever the indeterminate content of its local context, and
  without an access outside an object. Feeding the message in pieces of any sizes to \<open>sha256_hash\<close> and
  finishing with \<open>sha256_done\<close> gives the same digest.
\<close>

theorem sha256_correct:
  assumes "length (sha_buf garbage) = 64" "len \<le> length data" "32 \<le> length out" "concat pieces = take len data"
  shows "sha256 garbage (Some data) len (Some out) = Some (Some (sha256_spec (take len data) @ drop 32 out))
    \<and> (\<exists>c c'. sha256_feed (sha256_init (Some garbage)) pieces = Some (Some c)
      \<and> sha256_done (Some c) (Some out) = Some (Some c', Some (sha256_spec (take len data) @ drop 32 out)))"
proof -
  obtain c0 where c0: "sha256_init (Some garbage) = Some c0" "represents c0 []" using represents_init [OF assms(1)] by blast
  obtain c1 where c1: "sha256_hash (Some c0) (Some data) len = Some (Some c1)" "represents c1 (take len data)"
    using hash_run [OF c0(2) assms(2)] by auto
  obtain c2 where c2: "sha256_feed (Some c0) pieces = Some (Some c2)" "represents c2 (take len data)"
    using feed_run [OF c0(2), of pieces] assms(4) by auto
  show ?thesis using c0(1) c1(1) c2(1) done_run [OF c1(2) assms(3)] done_run [OF c2(2) assms(3)] by (auto simp: sha256_def)
qed

theorem sha256_correct_witness:
  "sha256 \<lparr>sha_buf = replicate 64 7, sha_hash = (1, 2, 3, 4, 5, 6, 7, 8), sha_bits = (9, 10), sha_len = 77\<rparr> (Some [97, 98, 99, 0]) 3 (Some (replicate 33 1))
      = Some (Some (sha256_spec [97, 98, 99] @ [1]))
    \<and> concat [[97], [], [98, 99]] = take 3 [97, 98, 99, 0 :: u8]"
  using sha256_correct [of "\<lparr>sha_buf = replicate 64 7, sha_hash = (1, 2, 3, 4, 5, 6, 7, 8), sha_bits = (9, 10), sha_len = 77\<rparr>" 3 "[97, 98, 99, 0]"
    "replicate 33 1" "[[97], [], [98, 99]]"]
  by simp

end
