(* ===== verification/Heatshrink_Output.thy ===== *)
theory Heatshrink_Output
  imports Memory
begin

text \<open>
  What the heatshrink encoder and decoder share: the limits of the two window parameters, the description of
  the caller's output buffer, and copies into an array at an offset.
\<close>

section \<open>Definitions\<close>

abbreviation HEATSHRINK_MIN_WINDOW_BITS :: u8 where "HEATSHRINK_MIN_WINDOW_BITS \<equiv> 4"
abbreviation HEATSHRINK_MAX_WINDOW_BITS :: u8 where "HEATSHRINK_MAX_WINDOW_BITS \<equiv> 15"
abbreviation HEATSHRINK_MIN_LOOKAHEAD_BITS :: u8 where "HEATSHRINK_MIN_LOOKAHEAD_BITS \<equiv> 3"

record output_info =
  oi_buf :: "u8 list"
  oi_buf_size :: nat
  oi_output_size :: nat

text \<open>A difference of type \<open>size_t\<close>, and \<open>memcpy\<close> into an array at an offset.\<close>

definition size_diff :: "nat \<Rightarrow> nat \<Rightarrow> nat \<Rightarrow> nat" where
  "size_diff W a b = nat ((int a - int b) mod 2 ^ W)"

definition buf_blit :: "nat \<Rightarrow> u8 list \<Rightarrow> nat \<Rightarrow> u8 list \<Rightarrow> u8 list option" where
  "buf_blit off src n dst =
     (if off + n \<le> length dst \<and> n \<le> length src then Some (take off dst @ take n src @ drop (off + n) dst) else None)"

text \<open>\<open>oi->buf[(*oi->output_size)++] = byte\<close>\<close>

definition push_byte :: "output_info \<Rightarrow> u8 \<Rightarrow> output_info option" where
  "push_byte oi byte = do {
     buf \<leftarrow> buf_write (oi_output_size oi) byte (oi_buf oi);
     Some (oi\<lparr>oi_buf := buf, oi_output_size := oi_output_size oi + 1\<rparr>)
   }"

section \<open>Output within the buffer\<close>

definition out_ok :: "nat \<Rightarrow> output_info \<Rightarrow> bool" where
  "out_ok W oi \<longleftrightarrow> oi_output_size oi \<le> oi_buf_size oi \<and> oi_buf_size oi \<le> length (oi_buf oi) \<and> oi_buf_size oi < 2 ^ W"

definition emit :: "output_info \<Rightarrow> u8 list \<Rightarrow> output_info" where
  "emit oi bs = oi\<lparr>
     oi_buf := take (oi_output_size oi) (oi_buf oi) @ bs @ drop (oi_output_size oi + length bs) (oi_buf oi),
     oi_output_size := oi_output_size oi + length bs\<rparr>"

lemma emit_Nil [simp]: "emit oi [] = oi"
  by (simp add: emit_def)

lemma emit_fields [simp]:
  "oi_buf_size (emit oi bs) = oi_buf_size oi" "oi_output_size (emit oi bs) = oi_output_size oi + length bs"
  by (simp_all add: emit_def)

lemma emit_emit: "oi_output_size oi \<le> length (oi_buf oi) \<Longrightarrow> emit (emit oi as) bs = emit oi (as @ bs)"
  by (simp add: emit_def ac_simps)

lemma length_emit: "oi_output_size oi + length bs \<le> length (oi_buf oi) \<Longrightarrow> length (oi_buf (emit oi bs)) = length (oi_buf oi)"
  by (simp add: emit_def)

lemma out_ok_emit: "out_ok W oi \<Longrightarrow> oi_output_size oi + length bs \<le> oi_buf_size oi \<Longrightarrow> out_ok W (emit oi bs)"
  by (simp add: out_ok_def emit_def)

lemma push_byte_emit: "oi_output_size oi < length (oi_buf oi) \<Longrightarrow> push_byte oi c = Some (emit oi [c])"
  by (simp add: push_byte_def emit_def buf_write_def upd_conv_take_nth_drop)

lemma size_diff_exact: "b \<le> a \<Longrightarrow> a < 2 ^ W \<Longrightarrow> size_diff W a b = a - b"
proof -
  assume "b \<le> a" "a < 2 ^ W"
  then have "int (a - b) < 2 ^ W" by (metis less_imp_diff_less of_nat_less_iff of_nat_numeral of_nat_power)
  then show ?thesis using \<open>b \<le> a\<close> by (simp add: size_diff_def flip: of_nat_diff)
qed

lemma unat_index_succ:
  assumes "i < (n :: 'a::len word)"
  shows "unat (i + 1) = Suc (unat i)"
proof -
  have "Suc (unat i) \<le> unat n" using assms by (simp add: word_less_nat_alt)
  also have "\<dots> < 2 ^ LENGTH('a)" by (rule unsigned_less)
  finally show ?thesis by (simp add: unat_word_ariths)
qed

end
