(* ===== verification/Heatshrink_Encoder.thy ===== *)
theory Heatshrink_Encoder
  imports Heatshrink_Output
begin

text \<open>
  Model of \<open>libs/heatshrink/src/heatshrink_encoder.c\<close>: a polling state machine that searches its buffer for
  repetitions and writes literals and back-references bit by bit. The configurations with dynamic
  allocation and with external buffers are modelled, with the search index (\<open>use_index\<close>, the default) and
  without. The result \<open>None\<close> is an access outside an object or a loop that does not end. A negative array
  index, which the 16-bit signed counters of the source can produce, is outside every object.
\<close>

section \<open>Data\<close>

datatype HSE_state =
  HSES_NOT_FULL
| HSES_FILLED
| HSES_SEARCH
| HSES_YIELD_TAG_BIT
| HSES_YIELD_LITERAL
| HSES_YIELD_BR_INDEX
| HSES_YIELD_BR_LENGTH
| HSES_SAVE_BACKLOG
| HSES_FLUSH_BITS
| HSES_DONE

datatype HSE_sink_res = HSER_SINK_OK | HSER_SINK_ERROR_NULL | HSER_SINK_ERROR_MISUSE
datatype HSE_poll_res = HSER_POLL_EMPTY | HSER_POLL_MORE | HSER_POLL_ERROR_NULL | HSER_POLL_ERROR_MISUSE
datatype HSE_finish_res = HSER_FINISH_DONE | HSER_FINISH_MORE | HSER_FINISH_ERROR_NULL
datatype HSE_init_res = HSER_INIT_OK | HSER_INIT_ERROR_NULL | HSER_INIT_ERROR_MISUSE

fun HSE_byte :: "HSE_state \<Rightarrow> u8" where
  "HSE_byte HSES_NOT_FULL = 0"
| "HSE_byte HSES_FILLED = 1"
| "HSE_byte HSES_SEARCH = 2"
| "HSE_byte HSES_YIELD_TAG_BIT = 3"
| "HSE_byte HSES_YIELD_LITERAL = 4"
| "HSE_byte HSES_YIELD_BR_INDEX = 5"
| "HSE_byte HSES_YIELD_BR_LENGTH = 6"
| "HSE_byte HSES_SAVE_BACKLOG = 7"
| "HSE_byte HSES_FLUSH_BITS = 8"
| "HSE_byte HSES_DONE = 9"

definition HSE_of :: "u8 \<Rightarrow> HSE_state option" where
  "HSE_of b = map_of (map (\<lambda>s. (HSE_byte s, s))
     [HSES_NOT_FULL, HSES_FILLED, HSES_SEARCH, HSES_YIELD_TAG_BIT, HSES_YIELD_LITERAL, HSES_YIELD_BR_INDEX,
      HSES_YIELD_BR_LENGTH, HSES_SAVE_BACKLOG, HSES_FLUSH_BITS, HSES_DONE]) b"

record heatshrink_encoder =
  he_input_size :: u16
  he_match_scan_index :: u16
  he_match_length :: u16
  he_match_pos :: u16
  he_outgoing_bits :: u16
  he_outgoing_bits_count :: u8
  he_flags :: u8
  he_state :: u8
  he_current_byte :: u8
  he_bit_index :: u8
  he_window_sz2 :: u8
  he_lookahead_sz2 :: u8
  he_index_size :: u16
  he_index :: "i16 list"
  he_buffer :: "u8 list"

abbreviation FLAG_IS_FINISHING :: u8 where "FLAG_IS_FINISHING \<equiv> 0x01"
abbreviation MATCH_NOT_FOUND :: u16 where "MATCH_NOT_FOUND \<equiv> 0xFFFF"
abbreviation HEATSHRINK_LITERAL_MARKER :: u8 where "HEATSHRINK_LITERAL_MARKER \<equiv> 0x01"
abbreviation HEATSHRINK_BACKREF_MARKER :: u8 where "HEATSHRINK_BACKREF_MARKER \<equiv> 0x00"

text \<open>Array accesses through a signed index.\<close>

definition sread :: "int \<Rightarrow> 'a list \<Rightarrow> 'a option" where
  "sread i xs = (if 0 \<le> i then buf_read (nat i) xs else None)"

definition swrite :: "int \<Rightarrow> 'a \<Rightarrow> 'a list \<Rightarrow> 'a list option" where
  "swrite i v xs = (if 0 \<le> i then buf_write (nat i) v xs else None)"

section \<open>Small helpers\<close>

definition get_input_buffer_size :: "heatshrink_encoder \<Rightarrow> u16" where
  "get_input_buffer_size hse = shl 1 (unat (he_window_sz2 hse))"

definition get_input_offset :: "heatshrink_encoder \<Rightarrow> u16" where
  "get_input_offset hse = get_input_buffer_size hse"

definition get_lookahead_size :: "heatshrink_encoder \<Rightarrow> u16" where
  "get_lookahead_size hse = shl 1 (unat (he_lookahead_sz2 hse))"

definition is_finishing :: "heatshrink_encoder \<Rightarrow> bool" where
  "is_finishing hse \<longleftrightarrow> he_flags hse AND FLAG_IS_FINISHING \<noteq> 0"

definition can_take_byte :: "output_info \<Rightarrow> bool" where
  "can_take_byte oi \<longleftrightarrow> oi_output_size oi < oi_buf_size oi"

section \<open>Construction\<close>

definition heatshrink_encoder_reset :: "heatshrink_encoder \<Rightarrow> heatshrink_encoder option" where
  "heatshrink_encoder_reset hse = do {
     let buf_sz = 2 * 2 ^ unat (he_window_sz2 hse);
     buffer \<leftarrow> buf_fill buf_sz 0 (he_buffer hse);
     Some (hse\<lparr>he_buffer := buffer, he_input_size := 0, he_state := HSE_byte HSES_NOT_FULL, he_match_scan_index := 0,
       he_flags := 0, he_bit_index := 0x80, he_current_byte := 0, he_match_length := 0,
       he_outgoing_bits := 0, he_outgoing_bits_count := 0\<rparr>)
   }"

definition encoder_misuse :: "u8 \<Rightarrow> u8 \<Rightarrow> bool" where
  "encoder_misuse window_sz2 lookahead_sz2 \<longleftrightarrow>
     window_sz2 < HEATSHRINK_MIN_WINDOW_BITS \<or> HEATSHRINK_MAX_WINDOW_BITS < window_sz2
     \<or> lookahead_sz2 < HEATSHRINK_MIN_LOOKAHEAD_BITS \<or> window_sz2 \<le> lookahead_sz2"

text \<open>
  \<open>HEATSHRINK_MALLOC\<close> is a parameter for each of the two allocations: the indeterminate bytes of the buffer behind
  the structure, and the indeterminate entries of the index. \<open>garbage\<close> is the content of the other fields.
\<close>

definition heatshrink_encoder_alloc ::
  "bool \<Rightarrow> (nat \<Rightarrow> u8 list option) \<Rightarrow> (nat \<Rightarrow> i16 list option) \<Rightarrow> heatshrink_encoder \<Rightarrow> u8 \<Rightarrow> u8 \<Rightarrow> heatshrink_encoder ptr option" where
  "heatshrink_encoder_alloc use_index malloc_buffer malloc_index garbage window_sz2 lookahead_sz2 =
     (if encoder_misuse window_sz2 lookahead_sz2 then Some None
      else let buf_sz = 2 * 2 ^ unat window_sz2 in
        case malloc_buffer buf_sz of
          None \<Rightarrow> Some None
        | Some buffer \<Rightarrow> do {
            hse \<leftarrow> heatshrink_encoder_reset
              (garbage\<lparr>he_window_sz2 := window_sz2, he_lookahead_sz2 := lookahead_sz2, he_buffer := buffer\<rparr>);
            Some (if use_index then
                (case malloc_index buf_sz of
                   None \<Rightarrow> None
                 | Some index \<Rightarrow> Some (hse\<lparr>he_index := index, he_index_size := of_nat (buf_sz * 2)\<rparr>))
              else Some hse)
          })"

text \<open>The index buffer is the structure \<open>hs_index\<close>: two bytes for its size and two for each entry.\<close>

definition heatshrink_encoder_init ::
  "bool \<Rightarrow> heatshrink_encoder ptr \<Rightarrow> u8 \<Rightarrow> u8 \<Rightarrow> u8 list ptr \<Rightarrow> nat \<Rightarrow> i16 list ptr \<Rightarrow> nat \<Rightarrow> (HSE_init_res \<times> heatshrink_encoder ptr) option" where
  "heatshrink_encoder_init use_index hse window_sz2 lookahead_sz2 window_buffer window_buffer_size index_buffer index_buffer_size =
     (case hse of None \<Rightarrow> Some (HSER_INIT_ERROR_NULL, hse)
      | Some e \<Rightarrow>
          if encoder_misuse window_sz2 lookahead_sz2 \<or> window_buffer = None \<or> window_buffer_size < 2 * 2 ^ unat window_sz2
          then Some (HSER_INIT_ERROR_MISUSE, hse)
          else if use_index \<and> (index_buffer = None \<or> index_buffer_size < 2 + 2 * 2 ^ unat window_sz2 * 2)
          then Some (HSER_INIT_ERROR_MISUSE, hse)
          else do {
            let e1 = e\<lparr>he_window_sz2 := window_sz2, he_lookahead_sz2 := lookahead_sz2, he_buffer := the window_buffer\<rparr>;
            let e2 = (if use_index then e1\<lparr>he_index := the index_buffer, he_index_size := of_nat (2 * 2 ^ unat window_sz2 * 2)\<rparr> else e1);
            e3 \<leftarrow> heatshrink_encoder_reset e2;
            Some (HSER_INIT_OK, Some e3)
          })"

section \<open>Input\<close>

definition heatshrink_encoder_sink ::
  "heatshrink_encoder ptr \<Rightarrow> u8 list ptr \<Rightarrow> nat \<Rightarrow> nat ptr \<Rightarrow> (HSE_sink_res \<times> heatshrink_encoder ptr \<times> nat ptr) option" where
  "heatshrink_encoder_sink hse in_buf len input_size =
     (case (hse, in_buf, input_size) of
        (Some e, Some src, Some _) \<Rightarrow>
          if is_finishing e then Some (HSER_SINK_ERROR_MISUSE, hse, input_size)
          else if he_state e \<noteq> HSE_byte HSES_NOT_FULL then Some (HSER_SINK_ERROR_MISUSE, hse, input_size)
          else do {
            let write_offset = get_input_offset e + he_input_size e;
            let ibs = get_input_buffer_size e;
            let rem = ibs - he_input_size e;
            let cp_sz = (if unat rem < len then rem else of_nat len);
            buffer \<leftarrow> buf_blit (unat write_offset) src (unat cp_sz) (he_buffer e);
            let e1 = e\<lparr>he_buffer := buffer, he_input_size := he_input_size e + cp_sz\<rparr>;
            Some (HSER_SINK_OK, Some (if cp_sz = rem then e1\<lparr>he_state := HSE_byte HSES_FILLED\<rparr> else e1), Some (unat cp_sz))
          }
      | _ \<Rightarrow> Some (HSER_SINK_ERROR_NULL, hse, input_size))"

section \<open>The search index\<close>

text \<open>\<open>for (int16_t i = 0; i < end; i++)\<close>: the counter is signed and wraps, the bound is unsigned.\<close>

function do_indexing_loop :: "u16 \<Rightarrow> u8 list \<Rightarrow> i16 \<Rightarrow> i16 list \<Rightarrow> i16 list \<Rightarrow> i16 list option" where
  "do_indexing_loop stop data i lasts index =
     (if sint i < int (unat stop) then do {
        v \<leftarrow> sread (sint i) data;
        lv \<leftarrow> buf_read (unat v) lasts;
        index' \<leftarrow> swrite (sint i) lv index;
        lasts' \<leftarrow> buf_write (unat v) i lasts;
        do_indexing_loop stop data (i + 1) lasts' index'
      }
      else Some index)"
  by pat_completeness auto

lemma sint_succ16: "sint (i + 1) = (if sint i = 2 ^ 15 - 1 then - (2 ^ 15) else sint i + 1)" for i :: i16
proof -
  have b: "- (2 ^ 15) \<le> sint i" "sint i < 2 ^ 15" using sint_range_size [of i] by (simp_all add: word_size)
  have "i + 1 = word_of_int (sint i + 1)" by simp
  moreover have "sint (word_of_int (sint i + 1) :: i16) = sint i + 1" if "sint i \<noteq> 2 ^ 15 - 1"
    using b that by (intro sint_word_of_int_fits) simp_all
  moreover have "sint (word_of_int (sint i + 1) :: i16) = - (2 ^ 15)" if "sint i = 2 ^ 15 - 1"
    using that by simp
  ultimately show ?thesis by metis
qed

lemma sint16_less: "sint (i :: i16) < 2 ^ 16"
  using sint_range_size [of i] by (simp add: word_size)

termination do_indexing_loop
  by (relation "measure (\<lambda>(stop, data, i, lasts, index). if sint i < 0 then 0 else nat (2 ^ 16 - sint i))")
    (auto simp: sread_def sint_succ16 sint16_less [simplified] split: if_splits)

declare do_indexing_loop.simps [simp del]

definition do_indexing :: "bool \<Rightarrow> heatshrink_encoder \<Rightarrow> heatshrink_encoder option" where
  "do_indexing use_index hse =
     (if use_index then do {
        let stop = get_input_offset hse + he_input_size hse;
        index \<leftarrow> do_indexing_loop stop (he_buffer hse) 0 (replicate 256 0xFFFF) (he_index hse);
        Some (hse\<lparr>he_index := index\<rparr>)
      }
      else Some hse)"

section \<open>Searching\<close>

text \<open>\<open>for (len = 1; len < maxlen; len++) { if (pospoint[len] != needlepoint[len]) break; }\<close>\<close>

function match_len :: "u8 list \<Rightarrow> i16 \<Rightarrow> u16 \<Rightarrow> u16 \<Rightarrow> u16 \<Rightarrow> u16 option" where
  "match_len buf pos stop maxlen len =
     (if len < maxlen then do {
        a \<leftarrow> sread (sint pos + int (unat len)) buf;
        b \<leftarrow> buf_read (unat stop + unat len) buf;
        if a \<noteq> b then Some len else match_len buf pos stop maxlen (len + 1)
      }
      else Some len)"
  by pat_completeness auto

termination match_len
  by (relation "measure (\<lambda>(buf, pos, stop, maxlen, len). unat maxlen - unat len)")
    (auto simp: unat_index_succ word_less_nat_alt)

declare match_len.simps [simp del]

text \<open>The two builds of the search: along the index, and over all positions from the end down.\<close>

partial_function (option) match_index_loop ::
  "u8 list \<Rightarrow> i16 list \<Rightarrow> u16 \<Rightarrow> u16 \<Rightarrow> u16 \<Rightarrow> i16 \<Rightarrow> u16 \<Rightarrow> u16 \<Rightarrow> (u16 \<times> u16) option" where
  "match_index_loop buf index start stop maxlen pos match_maxlen match_index =
     (if 0 \<le> sint pos - sint start then do {
        a \<leftarrow> sread (sint pos + int (unat match_maxlen)) buf;
        b \<leftarrow> buf_read (unat stop + unat match_maxlen) buf;
        if a \<noteq> b then do {
          pos' \<leftarrow> sread (sint pos) index;
          match_index_loop buf index start stop maxlen pos' match_maxlen match_index
        }
        else do {
          len \<leftarrow> match_len buf pos stop maxlen 1;
          if match_maxlen < len \<and> len = maxlen then Some (len, pos)
          else do {
            pos' \<leftarrow> sread (sint pos) index;
            match_index_loop buf index start stop maxlen pos' (if match_maxlen < len then len else match_maxlen)
              (if match_maxlen < len then pos else match_index)
          }
        }
      }
      else Some (match_maxlen, match_index))"

partial_function (option) match_scan_loop ::
  "u8 list \<Rightarrow> u16 \<Rightarrow> u16 \<Rightarrow> u16 \<Rightarrow> i16 \<Rightarrow> u16 \<Rightarrow> u16 \<Rightarrow> (u16 \<times> u16) option" where
  "match_scan_loop buf start stop maxlen pos match_maxlen match_index =
     (if 0 \<le> sint pos - sint start then do {
        a \<leftarrow> sread (sint pos + int (unat match_maxlen)) buf;
        b \<leftarrow> buf_read (unat stop + unat match_maxlen) buf;
        if a \<noteq> b then match_scan_loop buf start stop maxlen (pos - 1) match_maxlen match_index
        else do {
          c \<leftarrow> sread (sint pos) buf;
          n \<leftarrow> buf_read (unat stop) buf;
          if c \<noteq> n then match_scan_loop buf start stop maxlen (pos - 1) match_maxlen match_index
          else do {
            len \<leftarrow> match_len buf pos stop maxlen 1;
            if match_maxlen < len \<and> len = maxlen then Some (len, pos)
            else match_scan_loop buf start stop maxlen (pos - 1) (if match_maxlen < len then len else match_maxlen)
              (if match_maxlen < len then pos else match_index)
          }
        }
      }
      else Some (match_maxlen, match_index))"

declare match_index_loop.simps [code] match_scan_loop.simps [code]

text \<open>The result, and the match length after the call.\<close>

definition find_longest_match ::
  "bool \<Rightarrow> heatshrink_encoder \<Rightarrow> u16 \<Rightarrow> u16 \<Rightarrow> u16 \<Rightarrow> u16 \<Rightarrow> (u16 \<times> u16) option" where
  "find_longest_match use_index hse start stop maxlen match_length = do {
     let buf = he_buffer hse;
     (match_maxlen, match_index) \<leftarrow>
       (if use_index then do {
          pos \<leftarrow> buf_read (unat stop) (he_index hse);
          match_index_loop buf (he_index hse) start stop maxlen pos 0 MATCH_NOT_FOUND
        }
        else match_scan_loop buf start stop maxlen (stop - 1) 0 MATCH_NOT_FOUND);
     let break_even_point = 1 + unat (he_window_sz2 hse) + unat (he_lookahead_sz2 hse);
     Some (if break_even_point div 8 < unat match_maxlen then (stop - match_index, match_maxlen)
       else (MATCH_NOT_FOUND, match_length))
   }"

definition st_step_search :: "bool \<Rightarrow> heatshrink_encoder \<Rightarrow> (HSE_state \<times> heatshrink_encoder) option" where
  "st_step_search use_index hse =
     (let window_length = get_input_buffer_size hse;
          lookahead_sz = get_lookahead_size hse;
          msi = he_match_scan_index hse;
          fin = is_finishing hse
      in if int (unat (he_input_size hse)) - (if fin then 1 else int (unat lookahead_sz)) < int (unat msi)
         then Some (if fin then HSES_FLUSH_BITS else HSES_SAVE_BACKLOG, hse)
         else do {
           let stop = get_input_offset hse + msi;
           let start = stop - window_length;
           let max_possible =
             (if int (unat (he_input_size hse)) - int (unat msi) < int (unat lookahead_sz) then he_input_size hse - msi else lookahead_sz);
           (match_pos, match_length) \<leftarrow> find_longest_match use_index hse start stop max_possible 0;
           Some (HSES_YIELD_TAG_BIT,
             if match_pos = MATCH_NOT_FOUND then hse\<lparr>he_match_scan_index := msi + 1, he_match_length := 0\<rparr>
             else hse\<lparr>he_match_pos := match_pos, he_match_length := match_length\<rparr>)
         })"

section \<open>Writing bits\<close>

fun push_bits_loop :: "nat \<Rightarrow> u8 \<Rightarrow> heatshrink_encoder \<Rightarrow> output_info \<Rightarrow> (heatshrink_encoder \<times> output_info) option" where
  "push_bits_loop 0 bits hse oi = Some (hse, oi)"
| "push_bits_loop (Suc i) bits hse oi =
     (let current = (if bits AND shl 1 i \<noteq> 0 then he_current_byte hse OR he_bit_index hse else he_current_byte hse);
          index = shr (he_bit_index hse) 1
      in if index = 0 then do {
           oi' \<leftarrow> push_byte oi current;
           push_bits_loop i bits (hse\<lparr>he_current_byte := 0, he_bit_index := 0x80\<rparr>) oi'
         }
         else push_bits_loop i bits (hse\<lparr>he_current_byte := current, he_bit_index := index\<rparr>) oi)"

definition push_bits :: "heatshrink_encoder \<Rightarrow> u8 \<Rightarrow> u8 \<Rightarrow> output_info \<Rightarrow> (heatshrink_encoder \<times> output_info) option" where
  "push_bits hse count bits oi =
     (if count = 8 \<and> he_bit_index hse = 0x80 then do { oi' \<leftarrow> push_byte oi bits; Some (hse, oi') }
      else push_bits_loop (unat count) bits hse oi)"

definition add_tag_bit :: "heatshrink_encoder \<Rightarrow> output_info \<Rightarrow> u8 \<Rightarrow> (heatshrink_encoder \<times> output_info) option" where
  "add_tag_bit hse oi tag = push_bits hse 1 tag oi"

definition push_outgoing_bits :: "heatshrink_encoder \<Rightarrow> output_info \<Rightarrow> (u8 \<times> heatshrink_encoder \<times> output_info) option" where
  "push_outgoing_bits hse oi =
     (let n = he_outgoing_bits_count hse;
          count = (if 8 < n then 8 else n);
          bits = (if 8 < n then ucast (shr (he_outgoing_bits hse) (unat (n - 8))) else ucast (he_outgoing_bits hse))
      in if 0 < count then do {
           (e, oi') \<leftarrow> push_bits hse count bits oi;
           Some (count, e\<lparr>he_outgoing_bits_count := he_outgoing_bits_count e - count\<rparr>, oi')
         }
         else Some (count, hse, oi))"

definition push_literal_byte :: "heatshrink_encoder \<Rightarrow> output_info \<Rightarrow> (heatshrink_encoder \<times> output_info) option" where
  "push_literal_byte hse oi = do {
     let processed_offset = he_match_scan_index hse - 1;
     let input_offset = get_input_offset hse + processed_offset;
     c \<leftarrow> buf_read (unat input_offset) (he_buffer hse);
     push_bits hse 8 c oi
   }"

section \<open>States\<close>

definition st_yield_tag_bit :: "heatshrink_encoder \<Rightarrow> output_info \<Rightarrow> (HSE_state \<times> heatshrink_encoder \<times> output_info) option" where
  "st_yield_tag_bit hse oi =
     (if can_take_byte oi then
        if he_match_length hse = 0 then do {
          (e, oi') \<leftarrow> add_tag_bit hse oi HEATSHRINK_LITERAL_MARKER;
          Some (HSES_YIELD_LITERAL, e, oi')
        }
        else do {
          (e, oi') \<leftarrow> add_tag_bit hse oi HEATSHRINK_BACKREF_MARKER;
          Some (HSES_YIELD_BR_INDEX,
            e\<lparr>he_outgoing_bits := he_match_pos e - 1, he_outgoing_bits_count := he_window_sz2 e\<rparr>, oi')
        }
      else Some (HSES_YIELD_TAG_BIT, hse, oi))"

definition st_yield_literal_hse :: "heatshrink_encoder \<Rightarrow> output_info \<Rightarrow> (HSE_state \<times> heatshrink_encoder \<times> output_info) option" where
  "st_yield_literal_hse hse oi =
     (if can_take_byte oi then do {
        (e, oi') \<leftarrow> push_literal_byte hse oi;
        Some (HSES_SEARCH, e, oi')
      }
      else Some (HSES_YIELD_LITERAL, hse, oi))"

definition st_yield_br_index :: "heatshrink_encoder \<Rightarrow> output_info \<Rightarrow> (HSE_state \<times> heatshrink_encoder \<times> output_info) option" where
  "st_yield_br_index hse oi =
     (if can_take_byte oi then do {
        (count, e, oi') \<leftarrow> push_outgoing_bits hse oi;
        Some (if 0 < count then (HSES_YIELD_BR_INDEX, e, oi')
          else (HSES_YIELD_BR_LENGTH,
            e\<lparr>he_outgoing_bits := he_match_length e - 1, he_outgoing_bits_count := he_lookahead_sz2 e\<rparr>, oi'))
      }
      else Some (HSES_YIELD_BR_INDEX, hse, oi))"

definition st_yield_br_length :: "heatshrink_encoder \<Rightarrow> output_info \<Rightarrow> (HSE_state \<times> heatshrink_encoder \<times> output_info) option" where
  "st_yield_br_length hse oi =
     (if can_take_byte oi then do {
        (count, e, oi') \<leftarrow> push_outgoing_bits hse oi;
        Some (if 0 < count then (HSES_YIELD_BR_LENGTH, e, oi')
          else (HSES_SEARCH, e\<lparr>he_match_scan_index := he_match_scan_index e + he_match_length e, he_match_length := 0\<rparr>, oi'))
      }
      else Some (HSES_YIELD_BR_LENGTH, hse, oi))"

text \<open>
  \<open>memmove\<close> inside the buffer: the source and the destination may overlap. A negative source offset wraps to an
  address outside the buffer.
\<close>

definition save_backlog :: "heatshrink_encoder \<Rightarrow> heatshrink_encoder option" where
  "save_backlog hse = do {
     let input_buf_sz = get_input_buffer_size hse;
     let msi = he_match_scan_index hse;
     let rem = input_buf_sz - msi;
     let shift_sz = input_buf_sz + rem;
     buffer \<leftarrow> (if rem \<le> input_buf_sz
       then buf_blit 0 (drop (unat input_buf_sz - unat rem) (he_buffer hse)) (unat shift_sz) (he_buffer hse) else None);
     Some (hse\<lparr>he_buffer := buffer, he_match_scan_index := 0, he_input_size := he_input_size hse - (input_buf_sz - rem)\<rparr>)
   }"

definition st_save_backlog :: "heatshrink_encoder \<Rightarrow> (HSE_state \<times> heatshrink_encoder) option" where
  "st_save_backlog hse = map_option (\<lambda>e. (HSES_NOT_FULL, e)) (save_backlog hse)"

definition st_flush_bit_buffer :: "heatshrink_encoder \<Rightarrow> output_info \<Rightarrow> (HSE_state \<times> output_info) option" where
  "st_flush_bit_buffer hse oi =
     (if he_bit_index hse = 0x80 then Some (HSES_DONE, oi)
      else if can_take_byte oi then do { oi' \<leftarrow> push_byte oi (he_current_byte hse); Some (HSES_DONE, oi') }
      else Some (HSES_FLUSH_BITS, oi))"

section \<open>Polling\<close>

text \<open>The states of the switch that produce a next state; the others return from the loop.\<close>

definition encoder_step ::
  "bool \<Rightarrow> HSE_state \<Rightarrow> heatshrink_encoder \<Rightarrow> output_info \<Rightarrow> (HSE_state \<times> heatshrink_encoder \<times> output_info) option" where
  "encoder_step use_index st hse oi =
     (case st of
        HSES_FILLED \<Rightarrow> map_option (\<lambda>e. (HSES_SEARCH, e, oi)) (do_indexing use_index hse)
      | HSES_SEARCH \<Rightarrow> map_option (\<lambda>(s, e). (s, e, oi)) (st_step_search use_index hse)
      | HSES_YIELD_TAG_BIT \<Rightarrow> st_yield_tag_bit hse oi
      | HSES_YIELD_LITERAL \<Rightarrow> st_yield_literal_hse hse oi
      | HSES_YIELD_BR_INDEX \<Rightarrow> st_yield_br_index hse oi
      | HSES_YIELD_BR_LENGTH \<Rightarrow> st_yield_br_length hse oi
      | _ \<Rightarrow> map_option (\<lambda>(s, e). (s, e, oi)) (st_save_backlog hse))"

partial_function (option) encoder_poll_loop ::
  "bool \<Rightarrow> heatshrink_encoder \<Rightarrow> output_info \<Rightarrow> (HSE_poll_res \<times> heatshrink_encoder \<times> output_info) option" where
  "encoder_poll_loop use_index hse oi =
     (case HSE_of (he_state hse) of
        None \<Rightarrow> Some (HSER_POLL_ERROR_MISUSE, hse, oi)
      | Some st \<Rightarrow>
          if st = HSES_NOT_FULL \<or> st = HSES_DONE then Some (HSER_POLL_EMPTY, hse, oi)
          else if st = HSES_FLUSH_BITS
          then Option.bind (st_flush_bit_buffer hse oi) (\<lambda>(s, oi'). Some (HSER_POLL_EMPTY, hse\<lparr>he_state := HSE_byte s\<rparr>, oi'))
          else Option.bind (encoder_step use_index st hse oi) (\<lambda>(s, e, oi').
            if s = st \<and> oi_output_size oi' = oi_buf_size oi' then Some (HSER_POLL_MORE, e\<lparr>he_state := HSE_byte s\<rparr>, oi')
            else encoder_poll_loop use_index (e\<lparr>he_state := HSE_byte s\<rparr>) oi'))"

declare encoder_poll_loop.simps [code]

definition heatshrink_encoder_poll ::
  "bool \<Rightarrow> heatshrink_encoder ptr \<Rightarrow> u8 list ptr \<Rightarrow> nat \<Rightarrow> nat ptr \<Rightarrow> (HSE_poll_res \<times> heatshrink_encoder ptr \<times> u8 list ptr \<times> nat ptr) option" where
  "heatshrink_encoder_poll use_index hse out_buf out_buf_size output_size =
     (case (hse, out_buf, output_size) of
        (Some e, Some buf, Some _) \<Rightarrow>
          if out_buf_size = 0 then Some (HSER_POLL_ERROR_MISUSE, hse, out_buf, output_size)
          else do {
            (res, e', oi) \<leftarrow> encoder_poll_loop use_index e \<lparr>oi_buf = buf, oi_buf_size = out_buf_size, oi_output_size = 0\<rparr>;
            Some (res, Some e', Some (oi_buf oi), Some (oi_output_size oi))
          }
      | _ \<Rightarrow> Some (HSER_POLL_ERROR_NULL, hse, out_buf, output_size))"

definition heatshrink_encoder_finish :: "heatshrink_encoder ptr \<Rightarrow> HSE_finish_res \<times> heatshrink_encoder ptr" where
  "heatshrink_encoder_finish hse =
     (case hse of None \<Rightarrow> (HSER_FINISH_ERROR_NULL, hse)
      | Some e \<Rightarrow>
          let e1 = e\<lparr>he_flags := he_flags e OR FLAG_IS_FINISHING\<rparr>;
              e2 = (if he_state e1 = HSE_byte HSES_NOT_FULL then e1\<lparr>he_state := HSE_byte HSES_FILLED\<rparr> else e1)
          in (if he_state e2 = HSE_byte HSES_DONE then HSER_FINISH_DONE else HSER_FINISH_MORE, Some e2))"

end
