(* ===== verification/Heatshrink_Decoder.thy ===== *)
theory Heatshrink_Decoder
  imports Heatshrink_Output
begin

text \<open>
  Model of \<open>libs/heatshrink/src/heatshrink_decoder.c\<close>: a polling state machine that expands a bit stream of
  literals and back-references through a circular window. The configurations with dynamic allocation and
  with external buffers are modelled; in both, the input buffer and the window are disjoint, so they are
  two lists with checked accesses. \<open>W\<close> is the width of \<open>size_t\<close>. The result \<open>None\<close> is an access outside an
  object, an undefined shift, or a polling loop that does not end. The logging macros expand to nothing.
\<close>

section \<open>Data\<close>

datatype HSD_state =
  HSDS_TAG_BIT
| HSDS_YIELD_LITERAL
| HSDS_BACKREF_INDEX_MSB
| HSDS_BACKREF_INDEX_LSB
| HSDS_BACKREF_COUNT_MSB
| HSDS_BACKREF_COUNT_LSB
| HSDS_YIELD_BACKREF

datatype HSD_sink_res = HSDR_SINK_OK | HSDR_SINK_FULL | HSDR_SINK_ERROR_NULL
datatype HSD_poll_res = HSDR_POLL_EMPTY | HSDR_POLL_MORE | HSDR_POLL_ERROR_NULL | HSDR_POLL_ERROR_UNKNOWN
datatype HSD_finish_res = HSDR_FINISH_DONE | HSDR_FINISH_MORE | HSDR_FINISH_ERROR_NULL
datatype HSD_init_res = HSDR_INIT_OK | HSDR_INIT_ERROR_NULL | HSDR_INIT_ERROR_MISUSE

text \<open>The state is stored as a byte; a byte outside the enumeration is the default case of the switch.\<close>

fun HSD_byte :: "HSD_state \<Rightarrow> u8" where
  "HSD_byte HSDS_TAG_BIT = 0"
| "HSD_byte HSDS_YIELD_LITERAL = 1"
| "HSD_byte HSDS_BACKREF_INDEX_MSB = 2"
| "HSD_byte HSDS_BACKREF_INDEX_LSB = 3"
| "HSD_byte HSDS_BACKREF_COUNT_MSB = 4"
| "HSD_byte HSDS_BACKREF_COUNT_LSB = 5"
| "HSD_byte HSDS_YIELD_BACKREF = 6"

definition HSD_of :: "u8 \<Rightarrow> HSD_state option" where
  "HSD_of b =
     (if b = 0 then Some HSDS_TAG_BIT else if b = 1 then Some HSDS_YIELD_LITERAL
      else if b = 2 then Some HSDS_BACKREF_INDEX_MSB else if b = 3 then Some HSDS_BACKREF_INDEX_LSB
      else if b = 4 then Some HSDS_BACKREF_COUNT_MSB else if b = 5 then Some HSDS_BACKREF_COUNT_LSB
      else if b = 6 then Some HSDS_YIELD_BACKREF else None)"

record heatshrink_decoder =
  hd_input_size :: u16
  hd_input_index :: u16
  hd_output_count :: u16
  hd_output_index :: u16
  hd_head_index :: u16
  hd_state :: u8
  hd_current_byte :: u8
  hd_bit_index :: u8
  hd_window_sz2 :: u8
  hd_lookahead_sz2 :: u8
  hd_input_buffer_size :: u16
  hd_input_buffer :: "u8 list"
  hd_window_buffer :: "u8 list"

abbreviation NO_BITS :: u16 where "NO_BITS \<equiv> 0xFFFF"

section \<open>Construction\<close>

definition heatshrink_decoder_reset :: "heatshrink_decoder \<Rightarrow> heatshrink_decoder option" where
  "heatshrink_decoder_reset hsd = do {
     let buf_sz = 2 ^ unat (hd_window_sz2 hsd);
     let input_sz = unat (hd_input_buffer_size hsd);
     input \<leftarrow> buf_fill input_sz 0 (hd_input_buffer hsd);
     window \<leftarrow> buf_fill buf_sz 0 (hd_window_buffer hsd);
     Some (hsd\<lparr>hd_input_buffer := input, hd_window_buffer := window, hd_state := HSD_byte HSDS_TAG_BIT,
       hd_input_size := 0, hd_input_index := 0, hd_bit_index := 0, hd_current_byte := 0,
       hd_output_count := 0, hd_output_index := 0, hd_head_index := 0\<rparr>)
   }"

definition decoder_misuse :: "u16 \<Rightarrow> u8 \<Rightarrow> u8 \<Rightarrow> bool" where
  "decoder_misuse input_buffer_size window_sz2 lookahead_sz2 \<longleftrightarrow>
     window_sz2 < HEATSHRINK_MIN_WINDOW_BITS \<or> HEATSHRINK_MAX_WINDOW_BITS < window_sz2 \<or> input_buffer_size = 0
     \<or> lookahead_sz2 < HEATSHRINK_MIN_LOOKAHEAD_BITS \<or> window_sz2 \<le> lookahead_sz2"

text \<open>
  \<open>HEATSHRINK_MALLOC\<close> is a parameter: the indeterminate bytes of the flexible array behind the structure,
  or NULL. \<open>garbage\<close> is the indeterminate content of the other fields.
\<close>

definition heatshrink_decoder_alloc ::
  "(nat \<Rightarrow> u8 list option) \<Rightarrow> heatshrink_decoder \<Rightarrow> u16 \<Rightarrow> u8 \<Rightarrow> u8 \<Rightarrow> heatshrink_decoder ptr option" where
  "heatshrink_decoder_alloc malloc garbage input_buffer_size window_sz2 lookahead_sz2 =
     (if decoder_misuse input_buffer_size window_sz2 lookahead_sz2 then Some None
      else case malloc (2 ^ unat window_sz2 + unat input_buffer_size) of
        None \<Rightarrow> Some None
      | Some buffers \<Rightarrow>
          map_option Some (heatshrink_decoder_reset
            (garbage\<lparr>hd_input_buffer_size := input_buffer_size, hd_window_sz2 := window_sz2, hd_lookahead_sz2 := lookahead_sz2,
              hd_input_buffer := take (unat input_buffer_size) buffers, hd_window_buffer := drop (unat input_buffer_size) buffers\<rparr>)))"

definition heatshrink_decoder_init ::
  "heatshrink_decoder ptr \<Rightarrow> u16 \<Rightarrow> u8 \<Rightarrow> u8 \<Rightarrow> u8 list ptr \<Rightarrow> u8 list ptr \<Rightarrow> nat \<Rightarrow> (HSD_init_res \<times> heatshrink_decoder ptr) option" where
  "heatshrink_decoder_init hsd input_buffer_size window_sz2 lookahead_sz2 input_buffer window_buffer window_buffer_size =
     (case hsd of None \<Rightarrow> Some (HSDR_INIT_ERROR_NULL, hsd)
      | Some d \<Rightarrow>
          if decoder_misuse input_buffer_size window_sz2 lookahead_sz2 \<or> input_buffer = None \<or> window_buffer = None
            \<or> window_buffer_size < 2 ^ unat window_sz2
          then Some (HSDR_INIT_ERROR_MISUSE, hsd)
          else do {
            d' \<leftarrow> heatshrink_decoder_reset (d\<lparr>hd_input_buffer_size := input_buffer_size, hd_window_sz2 := window_sz2,
              hd_lookahead_sz2 := lookahead_sz2, hd_input_buffer := the input_buffer, hd_window_buffer := the window_buffer\<rparr>);
            Some (HSDR_INIT_OK, Some d')
          })"

section \<open>Input\<close>

definition heatshrink_decoder_sink ::
  "nat \<Rightarrow> heatshrink_decoder ptr \<Rightarrow> u8 list ptr \<Rightarrow> nat \<Rightarrow> nat ptr \<Rightarrow> (HSD_sink_res \<times> heatshrink_decoder ptr \<times> nat ptr) option" where
  "heatshrink_decoder_sink W hsd in_buf len input_size =
     (case (hsd, in_buf, input_size) of
        (Some d, Some src, Some _) \<Rightarrow>
          let rem = size_diff W (unat (hd_input_buffer_size d)) (unat (hd_input_size d))
          in if rem = 0 then Some (HSDR_SINK_FULL, hsd, Some 0)
             else do {
               let n = (if rem < len then rem else len);
               buf \<leftarrow> buf_blit (unat (hd_input_size d)) src n (hd_input_buffer d);
               Some (HSDR_SINK_OK, Some (d\<lparr>hd_input_buffer := buf, hd_input_size := hd_input_size d + of_nat n\<rparr>), Some n)
             }
      | _ \<Rightarrow> Some (HSDR_SINK_ERROR_NULL, hsd, input_size))"

text \<open>The next byte of the input buffer becomes the current byte.\<close>

definition pull_byte :: "heatshrink_decoder \<Rightarrow> heatshrink_decoder option" where
  "pull_byte hsd = do {
     byte \<leftarrow> buf_read (unat (hd_input_index hsd)) (hd_input_buffer hsd);
     let index = hd_input_index hsd + 1;
     let exhausted = (index = hd_input_size hsd);
     Some (hsd\<lparr>hd_current_byte := byte, hd_input_index := (if exhausted then 0 else index),
       hd_input_size := (if exhausted then 0 else hd_input_size hsd), hd_bit_index := 0x80\<rparr>)
   }"

fun get_bits_loop :: "nat \<Rightarrow> u16 \<Rightarrow> heatshrink_decoder \<Rightarrow> (u16 \<times> heatshrink_decoder) option" where
  "get_bits_loop 0 accumulator hsd = Some (accumulator, hsd)"
| "get_bits_loop (Suc n) accumulator hsd =
     (if hd_bit_index hsd = 0 \<and> hd_input_size hsd = 0 then Some (NO_BITS, hsd)
      else do {
        d \<leftarrow> (if hd_bit_index hsd = 0 then pull_byte hsd else Some hsd);
        let acc = shl accumulator 1;
        let acc' = (if hd_current_byte d AND hd_bit_index d \<noteq> 0 then acc OR 1 else acc);
        get_bits_loop n acc' (d\<lparr>hd_bit_index := shr (hd_bit_index d) 1\<rparr>)
      })"

definition get_bits :: "heatshrink_decoder \<Rightarrow> nat \<Rightarrow> (u16 \<times> heatshrink_decoder) option" where
  "get_bits hsd count =
     (if 15 < count then Some (NO_BITS, hsd)
      else if hd_input_size hsd = 0 \<and> count = 0 then None
      else if hd_input_size hsd = 0 \<and> unat (hd_bit_index hsd) < 2 ^ (count - 1) then Some (NO_BITS, hsd)
      else get_bits_loop count 0 hsd)"

section \<open>States\<close>

definition window_mask :: "heatshrink_decoder \<Rightarrow> u16" where
  "window_mask hsd = shl 1 (unat (hd_window_sz2 hsd)) - 1"

definition st_tag_bit :: "heatshrink_decoder \<Rightarrow> (HSD_state \<times> heatshrink_decoder) option" where
  "st_tag_bit hsd = do {
     (bits, d) \<leftarrow> get_bits hsd 1;
     Some (if bits = NO_BITS then (HSDS_TAG_BIT, d)
       else if 0 < bits then (HSDS_YIELD_LITERAL, d)
       else if 8 < hd_window_sz2 d then (HSDS_BACKREF_INDEX_MSB, d)
       else (HSDS_BACKREF_INDEX_LSB, d\<lparr>hd_output_index := 0\<rparr>))
   }"

definition st_yield_literal :: "heatshrink_decoder \<Rightarrow> output_info \<Rightarrow> (HSD_state \<times> heatshrink_decoder \<times> output_info) option" where
  "st_yield_literal hsd oi =
     (if oi_output_size oi < oi_buf_size oi then do {
        (byte, d) \<leftarrow> get_bits hsd 8;
        if byte = NO_BITS then Some (HSDS_YIELD_LITERAL, d, oi)
        else do {
          let c = ucast (byte AND 0xFF);
          window \<leftarrow> buf_write (unat (hd_head_index d AND window_mask d)) c (hd_window_buffer d);
          oi' \<leftarrow> push_byte oi c;
          Some (HSDS_TAG_BIT, d\<lparr>hd_window_buffer := window, hd_head_index := hd_head_index d + 1\<rparr>, oi')
        }
      }
      else Some (HSDS_YIELD_LITERAL, hsd, oi))"

definition st_backref_index_msb :: "heatshrink_decoder \<Rightarrow> (HSD_state \<times> heatshrink_decoder) option" where
  "st_backref_index_msb hsd = do {
     (bits, d) \<leftarrow> get_bits hsd (unat (hd_window_sz2 hsd - 8));
     Some (if bits = NO_BITS then (HSDS_BACKREF_INDEX_MSB, d)
       else (HSDS_BACKREF_INDEX_LSB, d\<lparr>hd_output_index := shl bits 8\<rparr>))
   }"

definition st_backref_index_lsb :: "heatshrink_decoder \<Rightarrow> (HSD_state \<times> heatshrink_decoder) option" where
  "st_backref_index_lsb hsd = do {
     (bits, d) \<leftarrow> get_bits hsd (if hd_window_sz2 hsd < 8 then unat (hd_window_sz2 hsd) else 8);
     Some (if bits = NO_BITS then (HSDS_BACKREF_INDEX_LSB, d)
       else (if 8 < hd_lookahead_sz2 d then HSDS_BACKREF_COUNT_MSB else HSDS_BACKREF_COUNT_LSB,
         d\<lparr>hd_output_index := (hd_output_index d OR bits) + 1, hd_output_count := 0\<rparr>))
   }"

definition st_backref_count_msb :: "heatshrink_decoder \<Rightarrow> (HSD_state \<times> heatshrink_decoder) option" where
  "st_backref_count_msb hsd = do {
     (bits, d) \<leftarrow> get_bits hsd (unat (hd_lookahead_sz2 hsd - 8));
     Some (if bits = NO_BITS then (HSDS_BACKREF_COUNT_MSB, d)
       else (HSDS_BACKREF_COUNT_LSB, d\<lparr>hd_output_count := shl bits 8\<rparr>))
   }"

definition st_backref_count_lsb :: "heatshrink_decoder \<Rightarrow> (HSD_state \<times> heatshrink_decoder) option" where
  "st_backref_count_lsb hsd = do {
     (bits, d) \<leftarrow> get_bits hsd (if hd_lookahead_sz2 hsd < 8 then unat (hd_lookahead_sz2 hsd) else 8);
     Some (if bits = NO_BITS then (HSDS_BACKREF_COUNT_LSB, d)
       else (HSDS_YIELD_BACKREF, d\<lparr>hd_output_count := (hd_output_count d OR bits) + 1\<rparr>))
   }"

fun backref_loop :: "nat \<Rightarrow> u16 \<Rightarrow> u16 \<Rightarrow> heatshrink_decoder \<Rightarrow> output_info \<Rightarrow> (heatshrink_decoder \<times> output_info) option" where
  "backref_loop 0 neg_offset msk hsd oi = Some (hsd, oi)"
| "backref_loop (Suc n) neg_offset msk hsd oi = do {
     c \<leftarrow> buf_read (unat ((hd_head_index hsd - neg_offset) AND msk)) (hd_window_buffer hsd);
     oi' \<leftarrow> push_byte oi c;
     window \<leftarrow> buf_write (unat (hd_head_index hsd AND msk)) c (hd_window_buffer hsd);
     backref_loop n neg_offset msk (hsd\<lparr>hd_window_buffer := window, hd_head_index := hd_head_index hsd + 1\<rparr>) oi'
   }"

definition st_yield_backref :: "nat \<Rightarrow> heatshrink_decoder \<Rightarrow> output_info \<Rightarrow> (HSD_state \<times> heatshrink_decoder \<times> output_info) option" where
  "st_yield_backref W hsd oi =
     (let room = size_diff W (oi_buf_size oi) (oi_output_size oi)
      in if 0 < room then do {
           let count = (if unat (hd_output_count hsd) < room then unat (hd_output_count hsd) else room);
           (d, oi') \<leftarrow> backref_loop count (hd_output_index hsd) (window_mask hsd) hsd oi;
           let left = hd_output_count d - of_nat count;
           Some (if left = 0 then HSDS_TAG_BIT else HSDS_YIELD_BACKREF, d\<lparr>hd_output_count := left\<rparr>, oi')
         }
         else Some (HSDS_YIELD_BACKREF, hsd, oi))"

section \<open>Polling\<close>

definition poll_step :: "nat \<Rightarrow> HSD_state \<Rightarrow> heatshrink_decoder \<Rightarrow> output_info \<Rightarrow> (HSD_state \<times> heatshrink_decoder \<times> output_info) option" where
  "poll_step W st hsd oi =
     (case st of
        HSDS_TAG_BIT \<Rightarrow> map_option (\<lambda>(s, d). (s, d, oi)) (st_tag_bit hsd)
      | HSDS_YIELD_LITERAL \<Rightarrow> st_yield_literal hsd oi
      | HSDS_BACKREF_INDEX_MSB \<Rightarrow> map_option (\<lambda>(s, d). (s, d, oi)) (st_backref_index_msb hsd)
      | HSDS_BACKREF_INDEX_LSB \<Rightarrow> map_option (\<lambda>(s, d). (s, d, oi)) (st_backref_index_lsb hsd)
      | HSDS_BACKREF_COUNT_MSB \<Rightarrow> map_option (\<lambda>(s, d). (s, d, oi)) (st_backref_count_msb hsd)
      | HSDS_BACKREF_COUNT_LSB \<Rightarrow> map_option (\<lambda>(s, d). (s, d, oi)) (st_backref_count_lsb hsd)
      | HSDS_YIELD_BACKREF \<Rightarrow> st_yield_backref W hsd oi)"

partial_function (option) poll_loop ::
  "nat \<Rightarrow> heatshrink_decoder \<Rightarrow> output_info \<Rightarrow> (HSD_poll_res \<times> heatshrink_decoder \<times> output_info) option" where
  "poll_loop W hsd oi =
     (case HSD_of (hd_state hsd) of
        None \<Rightarrow> Some (HSDR_POLL_ERROR_UNKNOWN, hsd, oi)
      | Some st \<Rightarrow> Option.bind (poll_step W st hsd oi) (\<lambda>(next_state, d, oi').
          if HSD_byte next_state = hd_state hsd
          then Some (if oi_output_size oi' = oi_buf_size oi' then HSDR_POLL_MORE else HSDR_POLL_EMPTY, d, oi')
          else poll_loop W (d\<lparr>hd_state := HSD_byte next_state\<rparr>) oi'))"

declare poll_loop.simps [code]

definition heatshrink_decoder_poll ::
  "nat \<Rightarrow> heatshrink_decoder ptr \<Rightarrow> u8 list ptr \<Rightarrow> nat \<Rightarrow> nat ptr \<Rightarrow> (HSD_poll_res \<times> heatshrink_decoder ptr \<times> u8 list ptr \<times> nat ptr) option" where
  "heatshrink_decoder_poll W hsd out_buf out_buf_size output_size =
     (case (hsd, out_buf, output_size) of
        (Some d, Some buf, Some _) \<Rightarrow> do {
          (res, d', oi) \<leftarrow> poll_loop W d \<lparr>oi_buf = buf, oi_buf_size = out_buf_size, oi_output_size = 0\<rparr>;
          Some (res, Some d', Some (oi_buf oi), Some (oi_output_size oi))
        }
      | _ \<Rightarrow> Some (HSDR_POLL_ERROR_NULL, hsd, out_buf, output_size))"

definition heatshrink_decoder_finish :: "heatshrink_decoder ptr \<Rightarrow> HSD_finish_res" where
  "heatshrink_decoder_finish hsd =
     (case hsd of None \<Rightarrow> HSDR_FINISH_ERROR_NULL
      | Some d \<Rightarrow>
          (case HSD_of (hd_state d) of
             None \<Rightarrow> HSDR_FINISH_MORE
           | Some HSDS_YIELD_BACKREF \<Rightarrow> HSDR_FINISH_MORE
           | Some _ \<Rightarrow> if hd_input_size d = 0 then HSDR_FINISH_DONE else HSDR_FINISH_MORE))"

end
