(* ===== verification/Heatshrink_Spec.thy ===== *)
theory Heatshrink_Spec
  imports Prelude
begin

text \<open>
  The heatshrink format as a function on bit lists, independent of how the decoder buffers its input and
  output. A stream is a sequence of tokens, most significant bit first: a set tag bit and eight bits are a
  literal; a clear tag bit, \<open>w\<close> index bits and \<open>l\<close> count bits copy \<open>count + 1\<close> bytes from \<open>index + 1\<close>
  bytes back, byte by byte, so that a copy may overlap itself; what lies before the start of the output
  reads as zero. An incomplete token at the end of the stream yields nothing.
\<close>

section \<open>Bits\<close>

definition byte_bits :: "u8 \<Rightarrow> bool list" where
  "byte_bits b = map (bit b) (rev [0..<8])"

definition bytes_bits :: "u8 list \<Rightarrow> bool list" where
  "bytes_bits bs = concat (map byte_bits bs)"

definition bits_value :: "bool list \<Rightarrow> nat" where
  "bits_value bs = foldl (\<lambda>a b. 2 * a + of_bool b) 0 bs"

section \<open>The stream\<close>

definition look_back :: "u8 list \<Rightarrow> nat \<Rightarrow> u8" where
  "look_back h off = (if off \<le> length h then h ! (length h - off) else 0)"

fun copy_back :: "nat \<Rightarrow> nat \<Rightarrow> u8 list \<Rightarrow> u8 list" where
  "copy_back 0 off h = h"
| "copy_back (Suc n) off h = copy_back n off (h @ [look_back h off])"

text \<open>\<open>h\<close> is the output so far; the result is the output after the whole tokens of the bits.\<close>

function hs_decode :: "nat \<Rightarrow> nat \<Rightarrow> u8 list \<Rightarrow> bool list \<Rightarrow> u8 list" where
  "hs_decode w l h [] = h"
| "hs_decode w l h (True # bs) =
     (if length bs < 8 then h else hs_decode w l (h @ [of_nat (bits_value (take 8 bs))]) (drop 8 bs))"
| "hs_decode w l h (False # bs) =
     (if length bs < w + l then h
      else hs_decode w l (copy_back (Suc (bits_value (take l (drop w bs)))) (Suc (bits_value (take w bs))) h) (drop (w + l) bs))"
  by pat_completeness auto
termination by (relation "measure (\<lambda>(w, l, h, bs). length bs)") auto

text \<open>
  A back-reference read part-way: the index so far is \<open>a\<close> with \<open>n\<close> bits to come, the count so far is \<open>c\<close>
  with \<open>m\<close> bits to come.
\<close>

definition hs_backref :: "nat \<Rightarrow> nat \<Rightarrow> u8 list \<Rightarrow> nat \<Rightarrow> nat \<Rightarrow> nat \<Rightarrow> nat \<Rightarrow> bool list \<Rightarrow> u8 list" where
  "hs_backref w l h a n c m bs =
     (if length bs < n + m then h
      else hs_decode w l (copy_back (Suc (c + bits_value (take m (drop n bs)))) (Suc (a + bits_value (take n bs))) h) (drop (n + m) bs))"

section \<open>Laws\<close>

lemma length_byte_bits [simp]: "length (byte_bits b) = 8"
  by (simp add: byte_bits_def)

lemma bytes_bits_simps [simp]:
  "bytes_bits [] = []" "bytes_bits (b # bs) = byte_bits b @ bytes_bits bs"
  "bytes_bits (bs @ cs) = bytes_bits bs @ bytes_bits cs"
  by (simp_all add: bytes_bits_def)

lemma length_bytes_bits [simp]: "length (bytes_bits bs) = 8 * length bs"
  by (induction bs) auto

lemma bits_value_Nil [simp]: "bits_value [] = 0"
  by (simp add: bits_value_def)

lemma bits_value_snoc [simp]: "bits_value (bs @ [b]) = 2 * bits_value bs + of_bool b"
  by (simp add: bits_value_def)

lemma bits_value_append: "bits_value (bs @ cs) = bits_value bs * 2 ^ length cs + bits_value cs"
proof (induction cs rule: rev_induct)
  case (snoc c cs)
  then show ?case by (simp flip: append_assoc)
qed simp

lemma bits_value_Cons: "bits_value (b # bs) = of_bool b * 2 ^ length bs + bits_value bs"
  using bits_value_append [of "[b]" bs] bits_value_snoc [of "[]" b] by simp

lemma bits_value_less: "bits_value bs < 2 ^ length bs"
  by (induction bs rule: rev_induct) auto

lemma bits_value_take_less: "bits_value (take n bs) < 2 ^ n"
proof -
  have "bits_value (take n bs) < 2 ^ length (take n bs)" by (rule bits_value_less)
  also have "\<dots> \<le> (2 :: nat) ^ n" by (intro power_increasing) auto
  finally show ?thesis .
qed

lemma bits_value_take_add:
  "n + k \<le> length bs \<Longrightarrow> bits_value (take (n + k) bs) = bits_value (take n bs) * 2 ^ k + bits_value (take k (drop n bs))"
  by (simp add: take_add bits_value_append)

lemma copy_back_add: "copy_back (m + n) off h = copy_back n off (copy_back m off h)"
  by (induction m arbitrary: h) auto

lemma copy_back_extends: "\<exists>out. copy_back n off h = h @ out \<and> length out = n"
proof (induction n arbitrary: h)
  case (Suc n)
  then obtain out where "copy_back n off (h @ [look_back h off]) = (h @ [look_back h off]) @ out \<and> length out = n" by blast
  then show ?case by (intro exI [of _ "look_back h off # out"]) simp
qed simp

lemma length_copy_back [simp]: "length (copy_back n off h) = length h + n"
  using copy_back_extends [of n off h] by auto

lemma take_copy_back [simp]: "take (length h) (copy_back n off h) = h"
  using copy_back_extends [of n off h] by auto

lemma hs_decode_extends: "\<exists>out. hs_decode w l h bs = h @ out"
proof (induction w l h bs rule: hs_decode.induct)
  case (2 w l h bs)
  then show ?case by (cases "length bs < 8") auto
next
  case (3 w l h bs)
  show ?case
  proof (cases "length bs < w + l")
    case False
    then show ?thesis
      using 3 copy_back_extends [of "Suc (bits_value (take l (drop w bs)))" "Suc (bits_value (take w bs))" h] by fastforce
  qed simp
qed simp

lemma hs_backref_extends: "\<exists>out. hs_backref w l h a n c m bs = h @ out"
proof (cases "length bs < n + m")
  case False
  let ?c = "Suc (c + bits_value (take m (drop n bs)))" and ?o = "Suc (a + bits_value (take n bs))"
  show ?thesis
    using False copy_back_extends [of ?c ?o h] hs_decode_extends [of w l "copy_back ?c ?o h" "drop (n + m) bs"]
    unfolding hs_backref_def by (metis append_assoc)
qed (simp add: hs_backref_def)

lemma hs_backref_short: "length bs < n + m \<Longrightarrow> hs_backref w l h a n c m bs = h"
  by (simp add: hs_backref_def)

lemma hs_backref_index:
  assumes "n \<le> length bs"
  shows "hs_backref w l h a (n + k) c m bs = hs_backref w l h (a + bits_value (take n bs) * 2 ^ k) k c m (drop n bs)"
proof (cases "length bs < n + k + m")
  case False
  have d: "drop (n + k + m) bs = drop (k + m) (drop n bs)" "drop (n + k) bs = drop k (drop n bs)"
    by (simp_all add: ac_simps)
  have "bits_value (take (n + k) bs) = bits_value (take n bs) * 2 ^ k + bits_value (take k (drop n bs))"
    using False by (intro bits_value_take_add) simp
  moreover have "\<not> length bs - n < k + m" using False by simp
  ultimately show ?thesis using False unfolding hs_backref_def d by (simp add: add.assoc del: drop_drop copy_back.simps)
qed (use assms in \<open>simp add: hs_backref_def; linarith\<close>)

lemma hs_backref_count:
  assumes "n \<le> length bs"
  shows "hs_backref w l h a 0 c (n + k) bs = hs_backref w l h a 0 (c + bits_value (take n bs) * 2 ^ k) k (drop n bs)"
proof (cases "length bs < n + k")
  case False
  have d: "drop (n + k) bs = drop k (drop n bs)" by (simp add: ac_simps)
  have "bits_value (take (n + k) bs) = bits_value (take n bs) * 2 ^ k + bits_value (take k (drop n bs))"
    using False by (intro bits_value_take_add) simp
  moreover have "\<not> length bs - n < k" using False by simp
  ultimately show ?thesis using False by (simp add: hs_backref_def d add.assoc del: drop_drop copy_back.simps)
qed (use assms in \<open>simp add: hs_backref_def; linarith\<close>)

lemma hs_backref_done: "hs_backref w l h a 0 c 0 bs = hs_decode w l (copy_back (Suc c) (Suc a) h) bs"
  by (simp add: hs_backref_def)

lemma hs_decode_backref: "hs_decode w l h (False # bs) = hs_backref w l h 0 w 0 l bs"
  by (simp add: hs_backref_def)

end
