(* ===== verification/Heatshrink_Reader.thy ===== *)
theory Heatshrink_Reader
  imports Heatshrink_Decoder Heatshrink_Spec
begin

text \<open>
  The bit reader of the decoder: the bits still to be read, the validity of the four fields that describe
  them, and \<open>get_bits\<close> as an all-or-nothing read of up to eight bits.
\<close>

section \<open>The unread bits\<close>

text \<open>\<open>bit_index\<close> is the mask of the next bit of the current byte, or zero.\<close>

definition bits_left :: "u8 \<Rightarrow> nat" where
  "bits_left m = length (takeWhile (\<lambda>i. 2 ^ i \<le> unat m) [0..<8])"

definition pending :: "heatshrink_decoder \<Rightarrow> bool list" where
  "pending d = map (bit (hd_current_byte d)) (rev [0..<bits_left (hd_bit_index d)])
     @ bytes_bits (drop (unat (hd_input_index d)) (take (unat (hd_input_size d)) (hd_input_buffer d)))"

definition reader_ok :: "heatshrink_decoder \<Rightarrow> bool" where
  "reader_ok d \<longleftrightarrow>
     hd_bit_index d \<in> {0, 1, 2, 4, 8, 16, 32, 64}
     \<and> unat (hd_input_size d) \<le> length (hd_input_buffer d)
     \<and> (hd_input_index d < hd_input_size d \<or> hd_input_index d = 0 \<and> hd_input_size d = 0)"

text \<open>What reading leaves alone; the input only shrinks.\<close>

definition reader_frame :: "heatshrink_decoder \<Rightarrow> heatshrink_decoder \<Rightarrow> bool" where
  "reader_frame d d' \<longleftrightarrow>
     d' = d\<lparr>hd_current_byte := hd_current_byte d', hd_bit_index := hd_bit_index d',
       hd_input_index := hd_input_index d', hd_input_size := hd_input_size d'\<rparr>
     \<and> hd_input_size d' \<le> hd_input_size d"

lemma reader_frame_refl [simp]: "reader_frame d d"
  by (simp add: reader_frame_def)

lemma reader_frame_trans: "reader_frame a b \<Longrightarrow> reader_frame b c \<Longrightarrow> reader_frame a c"
  unfolding reader_frame_def by (cases a; cases b; cases c) auto

lemma reader_frame_fields:
  assumes "reader_frame d d'"
  shows "hd_output_count d' = hd_output_count d" "hd_output_index d' = hd_output_index d" "hd_head_index d' = hd_head_index d"
    "hd_state d' = hd_state d" "hd_window_sz2 d' = hd_window_sz2 d" "hd_lookahead_sz2 d' = hd_lookahead_sz2 d"
    "hd_input_buffer_size d' = hd_input_buffer_size d" "hd_input_buffer d' = hd_input_buffer d"
    "hd_window_buffer d' = hd_window_buffer d"
  using assms unfolding reader_frame_def by (cases d; cases d'; simp)+

lemma reader_frame_shrinks: "reader_frame d d' \<Longrightarrow> unat (hd_input_size d') \<le> unat (hd_input_size d)"
  unfolding reader_frame_def word_le_nat_alt by (rule conjunct2)

section \<open>One bit\<close>

lemma bits_left_simps [simp]:
  "bits_left 0 = 0" "bits_left 1 = 1" "bits_left 2 = 2" "bits_left 4 = 3" "bits_left 8 = 4" "bits_left 16 = 5"
  "bits_left 32 = 6" "bits_left 64 = 7" "bits_left 128 = 8"
  by (simp_all add: bits_left_def upt_rec)

lemma bits_left_0_iff: "m \<in> {0, 1, 2, 4, 8, 16, 32, 64} \<Longrightarrow> bits_left m = 0 \<longleftrightarrow> m = 0"
  by auto

lemma bits_left_le: "m \<in> {0, 1, 2, 4, 8, 16, 32, 64} \<Longrightarrow> bits_left m \<le> 7"
  by auto

lemma nat_less_8: "k < 8 \<longleftrightarrow> k \<in> {0, 1, 2, 3, 4, 5, 6, 7}" for k :: nat
  by auto

lemma mask_set: "{1, 2, 4, 8, 16, 32, 64, 128} = (\<lambda>k. 2 ^ k :: u8) ` {0, 1, 2, 3, 4, 5, 6, 7}"
  by simp

lemma mask_cases: "m \<in> {1, 2, 4, 8, 16, 32, 64, 128} \<Longrightarrow> \<exists>k < 8. m = 2 ^ k" for m :: u8
  unfolding mask_set nat_less_8 by blast

lemma bits_left_mask: "k < 8 \<Longrightarrow> bits_left (2 ^ k) = Suc k"
  unfolding nat_less_8 by (elim insertE emptyE) simp_all

lemma bits_left_shifted_mask: "k < 8 \<Longrightarrow> bits_left (shr (2 ^ k) 1) = k \<and> shr (2 ^ k) 1 \<in> {0, 1, 2, 4, 8, 16, 32, 64 :: u8}"
  unfolding nat_less_8 by (elim insertE emptyE) simp_all

text \<open>Taking the bit under the mask and shifting the mask.\<close>

lemma take_mask_bit:
  fixes c m :: u8
  assumes "m \<in> {1, 2, 4, 8, 16, 32, 64, 128}"
  shows "map (bit c) (rev [0..<bits_left m]) = (c AND m \<noteq> 0) # map (bit c) (rev [0..<bits_left (shr m 1)])"
    and "shr m 1 \<in> {0, 1, 2, 4, 8, 16, 32, 64}"
proof -
  obtain k where k: "k < 8" "m = 2 ^ k" using mask_cases [OF assms] by blast
  show "shr m 1 \<in> {0, 1, 2, 4, 8, 16, 32, 64}" using k bits_left_shifted_mask by blast
  show "map (bit c) (rev [0..<bits_left m]) = (c AND m \<noteq> 0) # map (bit c) (rev [0..<bits_left (shr m 1)])"
    using k bits_left_mask [of k] bits_left_shifted_mask [of k] by (simp add: and_exp_eq_0_iff_not_bit)
qed

text \<open>A fresh byte: what \<open>pull_byte\<close> leaves is the same bits under the mask \<open>0x80\<close>.\<close>

lemma pull_byte_pending:
  assumes "reader_ok d" and "hd_bit_index d = 0" and "hd_input_size d \<noteq> 0"
  shows "\<exists>d'. pull_byte d = Some d' \<and> reader_frame d d' \<and> hd_bit_index d' = 128 \<and> pending d' = pending d
    \<and> unat (hd_input_size d') \<le> length (hd_input_buffer d')
    \<and> (hd_input_index d' < hd_input_size d' \<or> hd_input_index d' = 0 \<and> hd_input_size d' = 0)"
proof -
  let ?i = "unat (hd_input_index d)" and ?n = "unat (hd_input_size d)" and ?buf = "hd_input_buffer d"
  have lt: "hd_input_index d < hd_input_size d" and len: "?n \<le> length ?buf" using assms by (auto simp: reader_ok_def)
  have i: "?i < ?n" using lt by (simp add: word_less_nat_alt)
  have succ: "unat (hd_input_index d + 1) = Suc ?i" using lt by (rule unat_index_succ)
  have split: "drop ?i (take ?n ?buf) = ?buf ! ?i # drop (Suc ?i) (take ?n ?buf)"
    using i len Cons_nth_drop_Suc [of ?i "take ?n ?buf"] by simp
  show ?thesis
  proof (cases "hd_input_index d + 1 = hd_input_size d")
    case True
    then have "Suc ?i = ?n" using succ by simp
    then show ?thesis
      using True i len split assms
      by (auto simp: pull_byte_def reader_frame_def pending_def byte_bits_def)
  next
    case False
    then have "Suc ?i \<noteq> ?n" using succ by (metis word_unat_eq_iff)
    then have "hd_input_index d + 1 < hd_input_size d" using i succ by (simp add: word_less_nat_alt)
    then show ?thesis
      using False i len split assms succ
      by (auto simp: pull_byte_def reader_frame_def pending_def byte_bits_def)
  qed
qed

lemma length_pending:
  "reader_ok d \<Longrightarrow> length (pending d) = bits_left (hd_bit_index d) + 8 * (unat (hd_input_size d) - unat (hd_input_index d))"
  by (simp add: reader_ok_def pending_def)

lemma pending_empty_iff: "reader_ok d \<Longrightarrow> pending d = [] \<longleftrightarrow> hd_bit_index d = 0 \<and> hd_input_size d = 0"
  using length_pending [of d] bits_left_0_iff [of "hd_bit_index d"]
  by (auto simp: reader_ok_def word_less_nat_alt unat_eq_0 simp flip: length_0_conv)

lemma read_mask_bit:
  assumes "hd_bit_index d \<in> {1, 2, 4, 8, 16, 32, 64, 128}" and "pending d = b # bs"
    and "unat (hd_input_size d) \<le> length (hd_input_buffer d)"
    and "hd_input_index d < hd_input_size d \<or> hd_input_index d = 0 \<and> hd_input_size d = 0"
  shows "(hd_current_byte d AND hd_bit_index d \<noteq> 0) = b
    \<and> reader_ok (d\<lparr>hd_bit_index := shr (hd_bit_index d) 1\<rparr>) \<and> pending (d\<lparr>hd_bit_index := shr (hd_bit_index d) 1\<rparr>) = bs"
  using assms(2-4) take_mask_bit(1) [OF assms(1), of "hd_current_byte d"] take_mask_bit(2) [OF assms(1)] by (auto simp: pending_def reader_ok_def)

lemma read_bit:
  assumes "reader_ok d" and "pending d = b # bs"
  shows "\<exists>d1. (if hd_bit_index d = 0 then pull_byte d else Some d) = Some d1
    \<and> \<not> (hd_bit_index d = 0 \<and> hd_input_size d = 0) \<and> (hd_current_byte d1 AND hd_bit_index d1 \<noteq> 0) = b
    \<and> reader_frame d (d1\<lparr>hd_bit_index := shr (hd_bit_index d1) 1\<rparr>)
    \<and> reader_ok (d1\<lparr>hd_bit_index := shr (hd_bit_index d1) 1\<rparr>) \<and> pending (d1\<lparr>hd_bit_index := shr (hd_bit_index d1) 1\<rparr>) = bs"
proof (cases "hd_bit_index d = 0")
  case True
  then have "hd_input_size d \<noteq> 0" using assms pending_empty_iff [of d] by auto
  then obtain d' where d': "pull_byte d = Some d'" "reader_frame d d'" "hd_bit_index d' = 128" "pending d' = pending d"
    "unat (hd_input_size d') \<le> length (hd_input_buffer d')"
    "hd_input_index d' < hd_input_size d' \<or> hd_input_index d' = 0 \<and> hd_input_size d' = 0"
    using pull_byte_pending [OF assms(1) True] by blast
  then have "reader_frame d (d'\<lparr>hd_bit_index := shr (hd_bit_index d') 1\<rparr>)"
    by (intro reader_frame_trans [OF d'(2)]) (simp add: reader_frame_def)
  then show ?thesis
    using True d' read_mask_bit [of d' b bs] assms(2) \<open>hd_input_size d \<noteq> 0\<close> by (intro exI [of _ d']) auto
next
  case False
  then show ?thesis
    using assms read_mask_bit [of d b bs]
    by (intro exI [of _ d]) (auto simp: reader_ok_def reader_frame_def)
qed

section \<open>Several bits\<close>

lemma shl_or_bit: "(if b then shl (of_nat a) 1 OR 1 else shl (of_nat a) 1) = (of_nat (2 * a + of_bool b) :: 'a::len word)"
  by (simp add: push_bit_eq_mult mult.commute or_one_eq)

lemma get_bits_loop_value:
  "reader_ok d \<Longrightarrow> n \<le> length (pending d) \<Longrightarrow>
    \<exists>d'. get_bits_loop n (of_nat a) d = Some (of_nat (a * 2 ^ n + bits_value (take n (pending d))), d')
      \<and> reader_frame d d' \<and> reader_ok d' \<and> pending d' = drop n (pending d)"
proof (induction n arbitrary: a d)
  case (Suc n)
  then obtain b bs where bs: "pending d = b # bs" by (cases "pending d") auto
  obtain d1 d2 where d1: "(if hd_bit_index d = 0 then pull_byte d else Some d) = Some d1"
      "\<not> (hd_bit_index d = 0 \<and> hd_input_size d = 0)" "(hd_current_byte d1 AND hd_bit_index d1 \<noteq> 0) = b"
    and d2: "d2 = d1\<lparr>hd_bit_index := shr (hd_bit_index d1) 1\<rparr>" "reader_frame d d2" "reader_ok d2" "pending d2 = bs"
    using read_bit [OF Suc.prems(1) bs] by blast
  obtain d' where d': "get_bits_loop n (of_nat (2 * a + of_bool b)) d2
        = Some (of_nat ((2 * a + of_bool b) * 2 ^ n + bits_value (take n bs)), d')"
      "reader_frame d2 d'" "reader_ok d'" "pending d' = drop n bs"
    using Suc.IH [of d2 "2 * a + of_bool b"] Suc.prems d2 bs by auto
  have "get_bits_loop (Suc n) (of_nat a) d = get_bits_loop n (of_nat (2 * a + of_bool b)) d2"
    using d1 unfolding get_bits_loop.simps d2 Let_def by (simp only: if_False bind.bind_lunit shl_or_bit)
  moreover have "(2 * a + of_bool b) * 2 ^ n + bits_value (take n bs) = a * 2 ^ Suc n + bits_value (take (Suc n) (pending d))"
    using Suc.prems by (simp add: bs bits_value_Cons algebra_simps)
  ultimately show ?case using d' d2 bs reader_frame_trans [OF d2(2) d'(2)] by auto
qed simp

lemma short_pending:
  assumes "reader_ok d" and "0 < count" and "count \<le> 8"
  shows "length (pending d) < count \<longleftrightarrow> hd_input_size d = 0 \<and> unat (hd_bit_index d) < 2 ^ (count - 1)"
proof (cases "hd_input_size d = 0")
  case True
  have c: "count \<in> {1, 2, 3, 4, 5, 6, 7, 8}" using assms(2,3) by auto
  have "hd_bit_index d \<in> {0, 1, 2, 4, 8, 16, 32, 64}" using assms(1) by (simp add: reader_ok_def)
  then show ?thesis using True c length_pending [OF assms(1)] by (elim insertE emptyE) simp_all
next
  case False
  then have "8 \<le> length (pending d)" using assms(1) length_pending [OF assms(1)] by (auto simp: reader_ok_def word_less_nat_alt)
  then show ?thesis using False assms(3) by simp
qed

lemma unat_bits_value: "n \<le> 15 \<Longrightarrow> unat (of_nat (bits_value (take n bs)) :: u16) = bits_value (take n bs)"
  using bits_value_take_less [of n bs] power_increasing [of n 15 "2 :: nat"] by (simp add: take_bit_nat_eq_self unsigned_of_nat)

lemma bits_value_not_NO_BITS: "n \<le> 15 \<Longrightarrow> of_nat (bits_value (take n bs)) \<noteq> NO_BITS"
  using unat_bits_value [of n bs] bits_value_take_less [of n bs] power_increasing [of n 15 "2 :: nat"] by (auto dest: arg_cong [of _ _ unat])

text \<open>Too few bits leave the decoder as it is; otherwise all of them are consumed.\<close>

lemma get_bits_short:
  "reader_ok d \<Longrightarrow> 0 < count \<Longrightarrow> count \<le> 8 \<Longrightarrow> length (pending d) < count \<Longrightarrow> get_bits d count = Some (NO_BITS, d)"
  using short_pending [of d count] by (simp add: get_bits_def)

lemma get_bits_enough:
  assumes "reader_ok d" and "0 < count" and "count \<le> 8" and "count \<le> length (pending d)"
  shows "\<exists>d'. get_bits d count = Some (of_nat (bits_value (take count (pending d))), d')
    \<and> reader_frame d d' \<and> reader_ok d' \<and> pending d' = drop count (pending d)"
proof -
  have "get_bits d count = get_bits_loop count (of_nat 0) d"
    using assms short_pending [OF assms(1-3)] by (auto simp: get_bits_def)
  then show ?thesis using get_bits_loop_value [OF assms(1,4), of 0] by simp
qed

end
