(* ===== verification/Heatshrink_Writer.thy ===== *)
theory Heatshrink_Writer
  imports Heatshrink_Encoder Heatshrink_Reader
begin

text \<open>
  The bit writer of the encoder: the bits of the byte in progress, and the push operations as appending bits,
  most significant first, to the bytes already written.
\<close>

section \<open>Bits of a number\<close>

definition nbits :: "nat \<Rightarrow> nat \<Rightarrow> bool list" where
  "nbits n v = map (bit v) (rev [0..<n])"

lemma length_nbits [simp]: "length (nbits n v) = n"
  by (simp add: nbits_def)

lemma nbits_0 [simp]: "nbits 0 v = []"
  by (simp add: nbits_def)

lemma nbits_Suc: "nbits (Suc n) v = bit v n # nbits n v"
  by (simp add: nbits_def)

lemma nbits_add: "nbits (m + n) v = nbits m (drop_bit n v) @ nbits n v"
proof (induction m)
  case (Suc m)
  then show ?case by (simp add: nbits_Suc bit_drop_bit_eq add.commute)
qed simp

lemma nbits_take_bit: "n \<le> m \<Longrightarrow> nbits n (take_bit m v) = nbits n v"
  by (simp add: nbits_def bit_take_bit_iff)

lemma byte_bits_nbits: "byte_bits b = nbits 8 (unat b)"
  by (simp add: byte_bits_def nbits_def bit_unsigned_iff)

lemma bits_value_nbits: "bits_value (nbits n v) = take_bit n v"
proof (induction n)
  case (Suc n)
  then show ?case by (simp add: nbits_Suc bits_value_Cons take_bit_Suc_from_most mult.commute)
qed simp

section \<open>The byte in progress\<close>

definition writer_ok :: "heatshrink_encoder \<Rightarrow> bool" where
  "writer_ok e \<longleftrightarrow> he_bit_index e \<in> {1, 2, 4, 8, 16, 32, 64, 128}
     \<and> (\<forall>i < bits_left (he_bit_index e). \<not> bit (he_current_byte e) i)"

definition written :: "heatshrink_encoder \<Rightarrow> bool list" where
  "written e = nbits (8 - bits_left (he_bit_index e)) (drop_bit (bits_left (he_bit_index e)) (unat (he_current_byte e)))"

definition writer_frame :: "heatshrink_encoder \<Rightarrow> heatshrink_encoder \<Rightarrow> bool" where
  "writer_frame e e' \<longleftrightarrow> e' = e\<lparr>he_current_byte := he_current_byte e', he_bit_index := he_bit_index e'\<rparr>"

lemma writer_frame_refl [simp]: "writer_frame e e"
  by (simp add: writer_frame_def)

lemma writer_frame_trans: "writer_frame a b \<Longrightarrow> writer_frame b c \<Longrightarrow> writer_frame a c"
  unfolding writer_frame_def by (cases a; cases b; cases c) simp

lemma writer_frame_fields:
  assumes "writer_frame e e'"
  shows "he_input_size e' = he_input_size e" "he_match_scan_index e' = he_match_scan_index e" "he_match_length e' = he_match_length e"
    "he_match_pos e' = he_match_pos e" "he_outgoing_bits e' = he_outgoing_bits e" "he_outgoing_bits_count e' = he_outgoing_bits_count e"
    "he_flags e' = he_flags e" "he_state e' = he_state e" "he_window_sz2 e' = he_window_sz2 e" "he_lookahead_sz2 e' = he_lookahead_sz2 e"
    "he_index_size e' = he_index_size e" "he_index e' = he_index e" "he_buffer e' = he_buffer e"
  using assms unfolding writer_frame_def by (cases e; cases e'; simp)+

lemma written_update [simp]:
  "written (e\<lparr>he_index := x0\<rparr>) = written e" "written (e\<lparr>he_outgoing_bits := x1\<rparr>) = written e" "written (e\<lparr>he_outgoing_bits_count := x2\<rparr>) = written e"
  "written (e\<lparr>he_match_scan_index := x3\<rparr>) = written e" "written (e\<lparr>he_match_length := x4\<rparr>) = written e" "written (e\<lparr>he_match_pos := x5\<rparr>) = written e"
  "written (e\<lparr>he_state := x6\<rparr>) = written e" "written (e\<lparr>he_flags := x7\<rparr>) = written e" "written (e\<lparr>he_buffer := x8\<rparr>) = written e"
  "written (e\<lparr>he_input_size := x9\<rparr>) = written e"
  by (simp_all add: written_def)

lemma writer_ok_update [simp]:
  "writer_ok (e\<lparr>he_index := x0\<rparr>) = writer_ok e" "writer_ok (e\<lparr>he_outgoing_bits := x1\<rparr>) = writer_ok e" "writer_ok (e\<lparr>he_outgoing_bits_count := x2\<rparr>) = writer_ok e"
  "writer_ok (e\<lparr>he_match_scan_index := x3\<rparr>) = writer_ok e" "writer_ok (e\<lparr>he_match_length := x4\<rparr>) = writer_ok e" "writer_ok (e\<lparr>he_match_pos := x5\<rparr>) = writer_ok e"
  "writer_ok (e\<lparr>he_state := x6\<rparr>) = writer_ok e" "writer_ok (e\<lparr>he_flags := x7\<rparr>) = writer_ok e" "writer_ok (e\<lparr>he_buffer := x8\<rparr>) = writer_ok e"
  "writer_ok (e\<lparr>he_input_size := x9\<rparr>) = writer_ok e"
  by (simp_all add: writer_ok_def)

lemma writer_okE:
  assumes "writer_ok e"
  obtains k where "k < 8" "he_bit_index e = 2 ^ k" "bits_left (he_bit_index e) = Suc k" "\<forall>i \<le> k. \<not> bit (he_current_byte e) i"
proof -
  have "he_bit_index e \<in> {1, 2, 4, 8, 16, 32, 64, 128}" using assms by (simp add: writer_ok_def)
  then obtain k where k: "k < 8" "he_bit_index e = 2 ^ k" using mask_cases by blast
  then have "bits_left (he_bit_index e) = Suc k" by (simp add: bits_left_mask)
  then show ?thesis using k assms that by (auto simp: writer_ok_def)
qed

lemma length_written: "writer_ok e \<Longrightarrow> length (written e) = 8 - bits_left (he_bit_index e) \<and> length (written e) \<le> 7"
  by (auto simp: written_def elim!: writer_okE)

text \<open>One bit: the byte goes out when it is complete.\<close>

lemma write_bit:
  assumes "writer_ok e" and "cur = (if b then he_current_byte e OR he_bit_index e else he_current_byte e)"
  shows "shr (he_bit_index e) 1 = 0 \<Longrightarrow> byte_bits cur = written e @ [b]"
    and "shr (he_bit_index e) 1 \<noteq> 0 \<Longrightarrow> writer_ok (e\<lparr>he_current_byte := cur, he_bit_index := shr (he_bit_index e) 1\<rparr>)
      \<and> written (e\<lparr>he_current_byte := cur, he_bit_index := shr (he_bit_index e) 1\<rparr>) = written e @ [b]"
proof -
  obtain k where k: "k < 8" "he_bit_index e = 2 ^ k" "bits_left (he_bit_index e) = Suc k" "\<forall>i \<le> k. \<not> bit (he_current_byte e) i"
    using assms(1) by (rule writer_okE)
  have cur: "bit cur i = (if i = k then b else bit (he_current_byte e) i)" for i
    using k by (auto simp: assms(2) bit_or_iff bit_exp_iff)
  have bits: "nbits (8 - k) (drop_bit k (unat cur)) = written e @ [b]"
  proof -
    have "8 - k = 7 - k + 1" using k(1) by simp
    then have "nbits (8 - k) (drop_bit k (unat cur)) = nbits (7 - k) (drop_bit (Suc k) (unat cur)) @ nbits 1 (drop_bit k (unat cur))"
      using nbits_add [of "7 - k" 1 "drop_bit k (unat cur)"] by (simp flip: drop_bit_Suc)
    also have "nbits (7 - k) (drop_bit (Suc k) (unat cur)) = written e"
      using k cur by (simp add: written_def nbits_def bit_drop_bit_eq bit_unsigned_iff)
    also have "nbits 1 (drop_bit k (unat cur)) = [b]"
      using k(1) cur [of k] by (simp add: nbits_def bit_drop_bit_eq bit_unsigned_iff)
    finally show ?thesis .
  qed
  have sh: "bits_left (shr (he_bit_index e) 1) = k" "shr (he_bit_index e) 1 \<in> {0, 1, 2, 4, 8, 16, 32, 64}"
    using bits_left_shifted_mask [OF k(1)] k(2) by simp_all
  show "byte_bits cur = written e @ [b]" if "shr (he_bit_index e) 1 = 0"
    using bits sh(1) that by (simp add: byte_bits_nbits)
  show "writer_ok (e\<lparr>he_current_byte := cur, he_bit_index := shr (he_bit_index e) 1\<rparr>)
      \<and> written (e\<lparr>he_current_byte := cur, he_bit_index := shr (he_bit_index e) 1\<rparr>) = written e @ [b]"
    if "shr (he_bit_index e) 1 \<noteq> 0"
    using bits sh that k(4) cur by (auto simp: writer_ok_def written_def)
qed

section \<open>Pushing bits\<close>

text \<open>Appending bits: the bytes that become complete go to the output.\<close>

definition pushed :: "bool list \<Rightarrow> heatshrink_encoder \<Rightarrow> output_info \<Rightarrow> heatshrink_encoder \<times> output_info \<Rightarrow> bool" where
  "pushed bs e oi = (\<lambda>(e', oi'). \<exists>out. oi' = emit oi out \<and> writer_frame e e' \<and> writer_ok e'
     \<and> bytes_bits out @ written e' = written e @ bs)"

lemma fresh_writer: "writer_ok (e\<lparr>he_current_byte := 0, he_bit_index := 128\<rparr>)" "written (e\<lparr>he_current_byte := 0, he_bit_index := 128\<rparr>) = []"
  by (simp_all add: writer_ok_def written_def)

lemma push_bits_loop_pushed:
  "writer_ok e \<Longrightarrow> n \<le> 8 \<Longrightarrow> oi_output_size oi + (length (written e) + n) div 8 \<le> length (oi_buf oi) \<Longrightarrow>
    \<exists>r. push_bits_loop n bits e oi = Some r \<and> pushed (nbits n (unat bits)) e oi r"
proof (induction n arbitrary: e oi)
  case 0
  then show ?case by (auto simp: pushed_def intro: exI [of _ "[]"])
next
  case (Suc n)
  define b where "b = bit bits n"
  define cur where "cur = (if b then he_current_byte e OR he_bit_index e else he_current_byte e)"
  have tst: "(bits AND push_bit n 1 \<noteq> 0) = b" using Suc.prems(2) by (simp add: b_def push_bit_of_1 and_exp_eq_0_iff_not_bit)
  have head: "nbits (Suc n) (unat bits) = b # nbits n (unat bits)"
    using Suc.prems(2) by (simp add: nbits_Suc b_def bit_unsigned_iff)
  note wb = write_bit [OF Suc.prems(1) cur_def]
  show ?case
  proof (cases "shr (he_bit_index e) 1 = 0")
    case True
    let ?e = "e\<lparr>he_current_byte := 0, he_bit_index := 128\<rparr>"
    have len: "length (written e) = 7" using wb(1) [OF True] length_byte_bits [of cur] by simp
    have room: "Suc (oi_output_size oi) \<le> length (oi_buf oi)" using Suc.prems(3) len by simp
    then have push: "push_byte oi cur = Some (emit oi [cur])" by (intro push_byte_emit) simp
    obtain e' out where r: "push_bits_loop n bits ?e (emit oi [cur]) = Some (e', emit (emit oi [cur]) out)" "writer_frame ?e e'" "writer_ok e'"
        "bytes_bits out @ written e' = nbits n (unat bits)"
      using Suc.IH [of ?e "emit oi [cur]"] fresh_writer [of e] Suc.prems(2,3) len room length_emit [of oi "[cur]"] by (auto simp: pushed_def)
    have "emit (emit oi [cur]) out = emit oi (cur # out)" using Suc.prems(3) by (simp add: emit_emit)
    moreover have "writer_frame e e'" using r(2) by (rule writer_frame_trans [rotated]) (simp add: writer_frame_def)
    ultimately show ?thesis
      using True r push wb(1) [OF True] head tst by (auto simp: pushed_def Let_def simp flip: cur_def intro!: exI [of _ "cur # out"])
  next
    case False
    let ?e = "e\<lparr>he_current_byte := cur, he_bit_index := shr (he_bit_index e) 1\<rparr>"
    obtain e' out where r: "push_bits_loop n bits ?e oi = Some (e', emit oi out)" "writer_frame ?e e'" "writer_ok e'"
        "bytes_bits out @ written e' = written ?e @ nbits n (unat bits)"
      using Suc.IH [of ?e oi] wb(2) [OF False] Suc.prems(2,3) by (auto simp: pushed_def)
    moreover have "writer_frame e e'" using r(2) by (rule writer_frame_trans [rotated]) (simp add: writer_frame_def)
    ultimately show ?thesis
      using False wb(2) [OF False] head tst by (auto simp: pushed_def Let_def simp flip: cur_def)
  qed
qed

lemma push_bits_pushed:
  assumes "writer_ok e" and "unat count \<le> 8" and "oi_output_size oi < length (oi_buf oi)"
  shows "\<exists>r. push_bits e count bits oi = Some r \<and> pushed (nbits (unat count) (unat bits)) e oi r"
proof (cases "count = 8 \<and> he_bit_index e = 0x80")
  case True
  then have "written e = []" by (simp add: written_def)
  then have "pushed (nbits (unat count) (unat bits)) e oi (e, emit oi [bits])"
    using True assms(1) by (auto simp: pushed_def byte_bits_nbits intro: exI [of _ "[bits]"])
  then show ?thesis using True assms(3) push_byte_emit [of oi bits] by (simp add: push_bits_def)
next
  case False
  have "(length (written e) + unat count) div 8 \<le> (7 + 8) div 8"
    using length_written [OF assms(1)] assms(2) by (intro div_le_mono add_mono) simp_all
  then have "oi_output_size oi + (length (written e) + unat count) div 8 \<le> length (oi_buf oi)" using assms(3) by simp
  moreover have "push_bits e count bits oi = push_bits_loop (unat count) bits e oi" using False by (auto simp: push_bits_def)
  ultimately show ?thesis using push_bits_loop_pushed [OF assms(1,2)] by presburger
qed

text \<open>Up to eight of the outgoing bits leave at a time, from the top.\<close>

lemma outgoing_none: "he_outgoing_bits_count e = 0 \<Longrightarrow> push_outgoing_bits e oi = Some (0, e, oi)"
  by (simp add: push_outgoing_bits_def)

lemma outgoing_some:
  assumes "writer_ok e" and "oi_output_size oi < length (oi_buf oi)" and "he_outgoing_bits_count e \<noteq> 0"
  defines "c \<equiv> unat (he_outgoing_bits_count e)"
  shows "\<exists>count e' oi' bs. push_outgoing_bits e oi = Some (count, e'\<lparr>he_outgoing_bits_count := he_outgoing_bits_count e - count\<rparr>, oi')
    \<and> 0 < count \<and> unat (he_outgoing_bits_count e - count) = c - unat count \<and> unat count \<le> c
    \<and> pushed bs e oi (e', oi') \<and> length bs \<le> 8 \<and> nbits c (unat (he_outgoing_bits e)) = bs @ nbits (c - unat count) (unat (he_outgoing_bits e))"
proof -
  let ?v = "unat (he_outgoing_bits e)"
  define count where "count = (if 8 < he_outgoing_bits_count e then 8 else he_outgoing_bits_count e)"
  define bits :: u8 where "bits = (if 8 < he_outgoing_bits_count e
    then ucast (shr (he_outgoing_bits e) (unat (he_outgoing_bits_count e - 8))) else ucast (he_outgoing_bits e))"
  have count: "0 < count" "unat count = min 8 c" "count \<le> he_outgoing_bits_count e"
    using assms(3) by (auto simp: count_def c_def word_less_nat_alt word_le_nat_alt unat_gt_0 min_def)
  have rest: "unat (he_outgoing_bits_count e - count) = c - unat count" using count(3) by (simp add: unat_sub c_def)
  have "unat count \<le> 8" using count(2) by simp
  then obtain e' oi' where p: "push_bits e count bits oi = Some (e', oi')" "pushed (nbits (unat count) (unat bits)) e oi (e', oi')"
    using push_bits_pushed [OF assms(1) _ assms(2), of count bits] by auto
  have "?v < 2 ^ 16" using unsigned_less [of "he_outgoing_bits e", where ?'a = nat] by simp
  then have "take_bit 16 ?v = ?v" by (rule take_bit_nat_eq_self)
  then have "nbits (min 8 c) (unat bits) = nbits (min 8 c) (drop_bit (c - min 8 c) ?v)"
    using nbits_take_bit [of "min 8 c" 8] unfolding bits_def c_def
    by (auto simp: word_less_nat_alt unat_sub word_le_nat_alt unsigned_ucast_eq unsigned_drop_bit_eq take_bit_nat_eq_self drop_bit_0)
  moreover have "nbits c ?v = nbits (min 8 c) (drop_bit (c - min 8 c) ?v) @ nbits (c - min 8 c) ?v"
    using nbits_add [of "min 8 c" "c - min 8 c" ?v] by simp
  ultimately have "nbits c ?v = nbits (unat count) (unat bits) @ nbits (c - unat count) ?v" by (simp add: count(2))
  moreover have "he_outgoing_bits_count e' = he_outgoing_bits_count e" using p(2) by (auto simp: pushed_def writer_frame_fields)
  then have "push_outgoing_bits e oi = Some (count, e'\<lparr>he_outgoing_bits_count := he_outgoing_bits_count e - count\<rparr>, oi')"
    using p(1) count(1) by (simp add: push_outgoing_bits_def count_def bits_def Let_def)
  ultimately show ?thesis using p(2) count rest by (intro exI [of _ count] exI [of _ e'] exI [of _ oi'] exI) auto
qed

end
