(* ===== verification/Heatshrink_Tokens.thy ===== *)
theory Heatshrink_Tokens
  imports Heatshrink_Writer
begin

text \<open>
  Encoding in terms of the format: a bit string says a prefix of the stream when decoding it, and whatever
  follows, yields that prefix and goes on from there. Appending a token extends the prefix.
\<close>

definition says :: "nat \<Rightarrow> nat \<Rightarrow> bool list \<Rightarrow> u8 list \<Rightarrow> bool" where
  "says w l B h \<longleftrightarrow> (\<forall>X. hs_decode w l [] (B @ X) = hs_decode w l h X)"

lemma says_Nil: "says w l [] []"
  by (simp add: says_def)

lemma byte_of_bits: "of_nat (bits_value (byte_bits c)) = c"
proof -
  have "unat c < 2 ^ 8" using unsigned_less [of c, where ?'a = nat] by simp
  then show ?thesis by (simp add: byte_bits_nbits bits_value_nbits take_bit_nat_eq_self)
qed

lemma says_literal: "says w l B h \<Longrightarrow> says w l (B @ True # byte_bits c) (h @ [c])"
  by (simp add: says_def byte_of_bits)

lemma says_backref:
  assumes "says w l B h" and "off \<in> {1..2 ^ w}" and "n \<in> {1..2 ^ l}"
  shows "says w l (B @ False # nbits w (off - 1) @ nbits l (n - 1)) (copy_back n off h)"
proof -
  have "bits_value (nbits w (off - 1)) = off - 1" "bits_value (nbits l (n - 1)) = n - 1"
    using assms(2,3) by (auto simp: bits_value_nbits intro!: take_bit_nat_eq_self)
  moreover have "Suc (off - 1) = off" "Suc (n - 1) = n" using assms(2,3) by auto
  ultimately show ?thesis
    using assms(1) hs_backref_done [of w l h "off - 1" "n - 1"]
    by (simp add: says_def hs_backref_def del: copy_back.simps)
qed

text \<open>Fewer than eight clear bits after the last token are no token.\<close>

lemma says_padding:
  assumes "says w l B h" and "k < 8" and "7 \<le> w + l"
  shows "hs_decode w l [] (B @ replicate k False) = h"
proof -
  have "hs_decode w l [] (B @ replicate k False) = hs_decode w l h (replicate k False)" using assms(1) by (simp only: says_def)
  also have "\<dots> = h" using assms(2,3) by (cases k) auto
  finally show ?thesis .
qed

section \<open>Copies and the stream\<close>

text \<open>The stream behind a window of zeros, and a position in it as the history of the decoder.\<close>

definition padded :: "nat \<Rightarrow> u8 list \<Rightarrow> u8 list" where
  "padded w S = replicate (2 ^ w) 0 @ S"

lemma look_back_padded:
  assumes "p \<le> length S" and "1 \<le> off" and "off \<le> 2 ^ w"
  shows "look_back (take p S) off = padded w S ! (2 ^ w + p - off)"
proof -
  have len: "length (take p S) = p" using assms(1) by simp
  show ?thesis
  proof (cases "off \<le> p")
    case True
    then have "2 ^ w + p - off = 2 ^ w + (p - off)" by simp
    then have "padded w S ! (2 ^ w + p - off) = S ! (p - off)" 
      using nth_append_length_plus [of "replicate (2 ^ w) 0" S "p - off"] by (simp add: padded_def)
    then show ?thesis using True assms(2) unfolding look_back_def len by simp
  next
    case False
    then have "2 ^ w + p - off < 2 ^ w" by (simp add: less_diff_conv2 assms(3) trans_le_add1)
    then show ?thesis using False unfolding look_back_def len by (simp add: padded_def nth_append)
  qed
qed

lemma copy_back_stream:
  assumes "p + n \<le> length S" and "1 \<le> off" and "off \<le> 2 ^ w"
    and "\<forall>i < n. padded w S ! (2 ^ w + p - off + i) = padded w S ! (2 ^ w + p + i)"
  shows "copy_back n off (take p S) = take (p + n) S"
  using assms(1,4)
proof (induction n arbitrary: p)
  case (Suc n)
  have "look_back (take p S) off = padded w S ! (2 ^ w + p - off)" using Suc.prems(1) assms(2,3) by (intro look_back_padded) auto
  also have "\<dots> = S ! p" using Suc.prems(2) by (auto simp: padded_def nth_append)
  finally have "take p S @ [look_back (take p S) off] = take (Suc p) S" using Suc.prems(1) by (simp add: take_Suc_conv_app_nth)
  moreover have "padded w S ! (2 ^ w + Suc p - off + i) = padded w S ! (2 ^ w + Suc p + i)" if "i < n" for i
    using Suc.prems(2) that assms(3) by (auto dest: spec [of _ "Suc i"] simp: Suc_diff_le trans_le_add1)
  ultimately show ?case using Suc.IH [of "Suc p"] Suc.prems(1) by simp
qed simp

end
