(* ===== verification/Heatshrink_Search.thy ===== *)
theory Heatshrink_Search
  imports Heatshrink_Encoder
begin

text \<open>
  The search of the encoder: the index links every position to an earlier one with the same byte, both searches
  end, and what they report is a repetition inside the window.
\<close>

section \<open>Signed indices\<close>

lemma sint_of_nat16: "n < 2 ^ 15 \<Longrightarrow> sint (of_nat n :: i16) = int n"
  using sint_word_of_int_fits [of "int n", where ?'a = 16] by simp

lemma sread_nat: "sread (int n) xs = (if n < length xs then Some (xs ! n) else None)"
  by (simp add: sread_def buf_read_def)

lemma swrite_nat: "n < length xs \<Longrightarrow> swrite (int n) v xs = Some (xs[n := v])"
  by (simp add: swrite_def buf_write_def)

lemma unat_nonneg:
  fixes p :: "'a::len word"
  assumes "0 \<le> sint p"
  shows "unat p = nat (sint p)"
proof -
  have "sint p = uint p"
  proof (cases "uint p < 2 ^ (LENGTH('a) - 1)")
    case False
    then have "sint p = uint p - 2 ^ LENGTH('a)" by (simp only: sint_alt if_False)
    then show ?thesis using assms uint_bounds(2) [of p] by linarith
  qed (simp only: sint_alt if_True)
  then show ?thesis by (simp only: unat_eq_nat_uint)
qed

section \<open>The index\<close>

text \<open>The entry of a position is a smaller position with the same byte, or negative.\<close>

definition links :: "u8 list \<Rightarrow> i16 \<Rightarrow> nat \<Rightarrow> u8 \<Rightarrow> bool" where
  "links data p k v \<longleftrightarrow> sint p = - 1 \<or> 0 \<le> sint p \<and> nat (sint p) < k \<and> data ! nat (sint p) = v"

definition index_ok :: "u8 list \<Rightarrow> i16 list \<Rightarrow> nat \<Rightarrow> bool" where
  "index_ok data index n \<longleftrightarrow> (\<forall>k < n. links data (index ! k) k (data ! k))"

lemma links_mono: "links data p k v \<Longrightarrow> k \<le> k' \<Longrightarrow> links data p k' v"
  by (auto simp: links_def)

lemma do_indexing_loop_ok:
  assumes "i \<le> n" and "n < 2 ^ 15" and "unat stop = n" and "n \<le> length data" and "n \<le> length index" and "length lasts = 256"
    and "\<forall>v < 256. links data (lasts ! v) i (of_nat v)" and "index_ok data index i"
  shows "\<exists>index'. do_indexing_loop stop data (of_nat i) lasts index = Some index' \<and> length index' = length index \<and> index_ok data index' n"
  using assms
proof (induction "n - i" arbitrary: i lasts index)
  case 0
  then have "i = n" by simp
  then show ?case using 0 by (simp add: sint_of_nat16 do_indexing_loop.simps [of stop])
next
  case (Suc m)
  then have i: "i < n" by simp
  define v where "v = data ! i"
  have v: "unat v < 256" using unsigned_less [of v, where ?'a = nat] by simp
  let ?lasts = "lasts[unat v := of_nat i]" and ?index = "index[i := lasts ! unat v]"
  have s: "sint (of_nat i :: i16) = int i" using i Suc.prems(2) by (simp add: sint_of_nat16)
  have step: "do_indexing_loop stop data (of_nat i) lasts index = do_indexing_loop stop data (of_nat (Suc i)) ?lasts ?index"
    using i Suc.prems v unfolding do_indexing_loop.simps [of stop data "of_nat i"] s
    by (simp add: sread_nat swrite_nat buf_write_def add.commute flip: v_def)
  have "links data (?lasts ! u) (Suc i) (of_nat u)" if "u < 256" for u
  proof (cases "u = unat v")
    case True
    then show ?thesis using v Suc.prems(6) s by (simp add: links_def v_def)
  next
    case False
    then show ?thesis using that Suc.prems(6,7) links_mono [of data "lasts ! u" i "of_nat u" "Suc i"] by simp
  qed
  moreover have "index_ok data ?index (Suc i)"
    unfolding index_ok_def
  proof (intro allI impI)
    fix k assume "k < Suc i"
    then show "links data (?index ! k) k (data ! k)"
      using Suc.prems(5,7,8) i v by (cases "k = i") (auto simp: index_ok_def v_def dest!: spec [of _ "unat v"])
  qed
  ultimately show ?case using Suc.hyps(1) [of "Suc i" ?index ?lasts] Suc.hyps(2) Suc.prems i step by auto
qed

section \<open>Repetitions\<close>

definition repeats :: "u8 list \<Rightarrow> nat \<Rightarrow> nat \<Rightarrow> nat \<Rightarrow> bool" where
  "repeats buf x e n \<longleftrightarrow> (\<forall>i < n. buf ! (x + i) = buf ! (e + i))"

text \<open>What a search that has found \<open>m\<close> bytes at \<open>x\<close> may report.\<close>

definition found :: "u8 list \<Rightarrow> nat \<Rightarrow> nat \<Rightarrow> nat \<Rightarrow> u16 \<times> u16 \<Rightarrow> bool" where
  "found buf s e maxlen = (\<lambda>(m, x). m = 0 \<or> s \<le> unat x \<and> unat x < e \<and> unat m \<le> maxlen \<and> repeats buf (unat x) e (unat m))"

lemma match_len_ok:
  assumes "0 \<le> sint pos" and "nat (sint pos) < unat stop" and "unat stop + unat maxlen \<le> length buf"
    and "len \<le> maxlen" and "repeats buf (nat (sint pos)) (unat stop) (unat len)"
  shows "\<exists>len'. match_len buf pos stop maxlen len = Some len' \<and> len \<le> len' \<and> len' \<le> maxlen
    \<and> repeats buf (nat (sint pos)) (unat stop) (unat len')"
  using assms
proof (induction "unat maxlen - unat len" arbitrary: len)
  case 0
  then have "len = maxlen" by (simp add: word_le_nat_alt word_unat_eq_iff)
  then show ?case using 0 by (simp add: match_len.simps [of buf])
next
  case (Suc n)
  then have less: "len < maxlen" by (simp add: word_less_nat_alt)
  have succ: "unat (len + 1) = Suc (unat len)" using less by (rule unat_index_succ)
  let ?p = "nat (sint pos)"
  have bounds: "?p + unat len < length buf" "unat stop + unat len < length buf"
    using Suc.prems(2,3) less by (auto simp: word_less_nat_alt)
  have rd: "sread (sint pos + int (unat len)) buf = Some (buf ! (?p + unat len))"
    using sread_nat [of "?p + unat len" buf] Suc.prems(1) bounds(1) by simp
  show ?case
  proof (cases "buf ! (?p + unat len) = buf ! (unat stop + unat len)")
    case True
    then have "repeats buf ?p (unat stop) (unat (len + 1))" using Suc.prems(5) succ by (auto simp: repeats_def less_Suc_eq)
    moreover have "n = unat maxlen - unat (len + 1)" using Suc.hyps(2) succ by simp
    ultimately obtain len' where len': "match_len buf pos stop maxlen (len + 1) = Some len'" "len + 1 \<le> len'" "len' \<le> maxlen"
        "repeats buf ?p (unat stop) (unat len')"
      using Suc.hyps(1) [of "len + 1"] Suc.prems less succ by (auto simp: word_le_nat_alt word_less_nat_alt)
    moreover have "match_len buf pos stop maxlen len = match_len buf pos stop maxlen (len + 1)"
      using True less bounds rd by (simp add: match_len.simps [of buf pos stop maxlen len])
    moreover have "len \<le> len'" using len'(2) succ by (simp add: word_le_nat_alt)
    ultimately show ?thesis by auto
  next
    case False
    then show ?thesis using less bounds rd Suc.prems(4,5) by (simp add: match_len.simps [of buf pos stop maxlen len])
  qed
qed

text \<open>One candidate position: the longest repetition there replaces a shorter one.\<close>

lemma candidate_ok:
  assumes "0 \<le> sint pos" and "s \<le> nat (sint pos)" and "nat (sint pos) < unat stop" and "unat stop + unat maxlen \<le> length buf"
    and "m < maxlen" and "buf ! nat (sint pos) = buf ! unat stop" and "found buf s (unat stop) (unat maxlen) (m, x)"
  shows "\<exists>len. match_len buf pos stop maxlen 1 = Some len
    \<and> found buf s (unat stop) (unat maxlen) (if m < len then len else m, if m < len then pos else x)
    \<and> (\<not> (m < len \<and> len = maxlen) \<longrightarrow> (if m < len then len else m) < maxlen)"
proof -
  have "1 \<le> maxlen" using assms(5) by (metis word_less_1 linorder_not_le word_not_simps(1))
  moreover have "repeats buf (nat (sint pos)) (unat stop) (unat (1 :: u16))" using assms(6) by (simp add: repeats_def)
  ultimately obtain len where "match_len buf pos stop maxlen 1 = Some len" "len \<le> maxlen" "repeats buf (nat (sint pos)) (unat stop) (unat len)"
    using match_len_ok [OF assms(1,3,4)] by blast
  moreover from this have "len = maxlen \<or> len < maxlen" by (auto simp only: le_less)
  ultimately show ?thesis using assms(2,3,5,7) unat_nonneg [OF assms(1)] by (auto simp: found_def word_le_nat_alt)
qed

section \<open>Both searches\<close>

lemma match_index_loop_ok:
  assumes "unat stop + unat maxlen \<le> length buf" and "unat stop \<le> length index" and "index_ok buf index (unat stop)" and "0 \<le> sint start"
    and "links buf pos (unat stop) (buf ! unat stop)" and "m < maxlen"
    and "found buf (nat (sint start)) (unat stop) (unat maxlen) (m, x)"
  shows "\<exists>r. match_index_loop buf index start stop maxlen pos m x = Some r \<and> found buf (nat (sint start)) (unat stop) (unat maxlen) r"
  using assms(5-7)
proof (induction "nat (sint pos + 1)" arbitrary: pos m x rule: less_induct)
  case less
  let ?p = "nat (sint pos)"
  show ?case
  proof (cases "0 \<le> sint pos - sint start")
    case False
    then show ?thesis using less.prems(3) by (simp add: match_index_loop.simps [of buf])
  next
    case True
    then have pos: "0 \<le> sint pos" "nat (sint start) \<le> ?p" using assms(4) by auto
    then have p: "?p < unat stop" "buf ! ?p = buf ! unat stop" using less.prems(1) by (auto simp: links_def)
    have m: "unat m < unat maxlen" using less.prems(2) by (simp add: word_less_nat_alt)
    have rd: "sread (sint pos + int (unat m)) buf = Some (buf ! (?p + unat m))" "sread (sint pos) index = Some (index ! ?p)"
      using sread_nat [of "?p + unat m" buf] sread_nat [of ?p index] pos p m assms(1,2) by auto
    have rd2: "buf_read (unat stop + unat m) buf = Some (buf ! (unat stop + unat m))" using m assms(1) by simp
    have nxt: "links buf (index ! ?p) ?p (buf ! ?p)" using assms(3) p(1) by (simp add: index_ok_def)
    then have smaller: "nat (sint (index ! ?p) + 1) < nat (sint pos + 1)" using pos(1) by (auto simp: links_def)
    have link: "links buf (index ! ?p) (unat stop) (buf ! unat stop)" using nxt p links_mono [of buf _ ?p] by auto
    obtain len where len: "match_len buf pos stop maxlen 1 = Some len"
        "found buf (nat (sint start)) (unat stop) (unat maxlen) (if m < len then len else m, if m < len then pos else x)"
        "\<not> (m < len \<and> len = maxlen) \<longrightarrow> (if m < len then len else m) < maxlen"
      using candidate_ok [OF pos p(1) assms(1) less.prems(2) p(2) less.prems(3)] by blast
    note step = match_index_loop.simps [of buf index start stop maxlen pos m x]
    consider "buf ! (?p + unat m) \<noteq> buf ! (unat stop + unat m)"
      | "buf ! (?p + unat m) = buf ! (unat stop + unat m)" "m < len \<and> len = maxlen"
      | "buf ! (?p + unat m) = buf ! (unat stop + unat m)" "\<not> (m < len \<and> len = maxlen)" by blast
    then show ?thesis
    proof cases
      case 1
      then show ?thesis using True rd rd2 less.hyps [OF smaller link less.prems(2,3)] by (simp add: step)
    next
      case 2
      then show ?thesis using True rd rd2 len by (simp add: step)
    next
      case 3
      then show ?thesis
        using True rd rd2 len(1) less.hyps [OF smaller link _ len(2)] len(3) by (cases "m < len") (simp_all add: step)
    qed
  qed
qed

lemma sint_pred16: "0 \<le> sint p \<Longrightarrow> sint (p - 1) = sint p - 1" for p :: i16
  using sint_word_of_int_fits [of "sint p - 1", where ?'a = 16] sint_range_size [of p] by (simp add: word_size)

lemma match_scan_loop_ok:
  assumes "unat stop + unat maxlen \<le> length buf" and "0 \<le> sint start"
    and "- 1 \<le> sint pos" "sint pos < int (unat stop)" and "m < maxlen"
    and "found buf (nat (sint start)) (unat stop) (unat maxlen) (m, x)"
  shows "\<exists>r. match_scan_loop buf start stop maxlen pos m x = Some r \<and> found buf (nat (sint start)) (unat stop) (unat maxlen) r"
  using assms(3-6)
proof (induction "nat (sint pos + 1)" arbitrary: pos m x rule: less_induct)
  case less
  let ?p = "nat (sint pos)"
  show ?case
  proof (cases "0 \<le> sint pos - sint start")
    case False
    then show ?thesis using less.prems(4) by (simp add: match_scan_loop.simps [of buf])
  next
    case True
    then have pos: "0 \<le> sint pos" "nat (sint start) \<le> ?p" using assms(2) by auto
    have p: "?p < unat stop" using less.prems(2) pos(1) by (simp only: nat_less_iff)
    have m: "unat m < unat maxlen" using less.prems(3) by (simp add: word_less_nat_alt)
    have rd: "sread (sint pos + int (unat m)) buf = Some (buf ! (?p + unat m))" "sread (sint pos) buf = Some (buf ! ?p)"
      using sread_nat [of "?p + unat m" buf] sread_nat [of ?p buf] pos p m assms(1) by auto
    have rd2: "buf_read (unat stop + unat m) buf = Some (buf ! (unat stop + unat m))" "buf_read (unat stop) buf = Some (buf ! unat stop)"
      using m assms(1) by simp_all
    have smaller: "nat (sint (pos - 1) + 1) < nat (sint pos + 1)" "- 1 \<le> sint (pos - 1)" "sint (pos - 1) < int (unat stop)"
      using pos(1) less.prems(2) by (auto simp: sint_pred16)
    note step = match_scan_loop.simps [of buf start stop maxlen pos m x]
    show ?thesis
    proof (cases "buf ! (?p + unat m) = buf ! (unat stop + unat m) \<and> buf ! ?p = buf ! unat stop")
      case False
      then show ?thesis using True rd rd2 less.hyps [OF smaller less.prems(3,4)] by (auto simp: step)
    next
      case eq: True
      obtain len where len: "match_len buf pos stop maxlen 1 = Some len"
          "found buf (nat (sint start)) (unat stop) (unat maxlen) (if m < len then len else m, if m < len then pos else x)"
          "\<not> (m < len \<and> len = maxlen) \<longrightarrow> (if m < len then len else m) < maxlen"
        using candidate_ok [OF pos p assms(1) less.prems(3) _ less.prems(4)] eq by blast
      show ?thesis
      proof (cases "m < len \<and> len = maxlen")
        case True
        then show ?thesis using \<open>0 \<le> sint pos - sint start\<close> rd rd2 len eq by (simp add: step)
      next
        case False
        then show ?thesis
          using True rd rd2 len(1) eq less.hyps [OF smaller _ len(2)] len(3) by (cases "m < len") (simp_all add: step)
      qed
    qed
  qed
qed

end
