(* ===== verification/Heatshrink_Encoder_Steps.thy ===== *)
theory Heatshrink_Encoder_Steps
  imports Heatshrink_Tokens Heatshrink_Search
begin

text \<open>
  Every state of the encoder's polling machine keeps the encoder well formed, stays inside its buffers, and
  extends the bits written so far towards an encoding of the stream it was fed.
\<close>

section \<open>Well-formed encoders\<close>

abbreviation ewbits :: "heatshrink_encoder \<Rightarrow> nat" where "ewbits e \<equiv> unat (he_window_sz2 e)"
abbreviation elbits :: "heatshrink_encoder \<Rightarrow> nat" where "elbits e \<equiv> unat (he_lookahead_sz2 e)"
abbreviation esize :: "heatshrink_encoder \<Rightarrow> nat" where "esize e \<equiv> unat (he_input_size e)"
abbreviation escan :: "heatshrink_encoder \<Rightarrow> nat" where "escan e \<equiv> unat (he_match_scan_index e)"
abbreviation emlen :: "heatshrink_encoder \<Rightarrow> nat" where "emlen e \<equiv> unat (he_match_length e)"
abbreviation eout :: "heatshrink_encoder \<Rightarrow> nat" where "eout e \<equiv> unat (he_outgoing_bits_count e)"

text \<open>
  The 16-bit counters bound the window: the counter of the indexing loop must reach the end of the buffer, and
  without the index the last position must be a nonnegative \<open>int16_t\<close>.
\<close>

definition max_window :: "bool \<Rightarrow> nat" where
  "max_window use_index = (if use_index then 13 else 14)"

definition enc_config :: "bool \<Rightarrow> heatshrink_encoder \<Rightarrow> bool" where
  "enc_config U e \<longleftrightarrow> ewbits e \<le> max_window U \<and> 3 \<le> elbits e \<and> elbits e < ewbits e
     \<and> 2 * 2 ^ ewbits e \<le> length (he_buffer e) \<and> (U \<longrightarrow> 2 * 2 ^ ewbits e \<le> length (he_index e))
     \<and> esize e \<le> 2 ^ ewbits e \<and> escan e \<le> esize e \<and> writer_ok e"

text \<open>The buffer holds the end of the stream \<open>S\<close>, behind zeros.\<close>

definition stream_held :: "heatshrink_encoder \<Rightarrow> u8 list \<Rightarrow> bool" where
  "stream_held e S \<longleftrightarrow> esize e \<le> length S
     \<and> take (2 ^ ewbits e + esize e) (he_buffer e) = drop (length S - esize e) (padded (ewbits e) S)"

definition ready :: "bool \<Rightarrow> heatshrink_encoder \<Rightarrow> bool" where
  "ready U e \<longleftrightarrow> (U \<longrightarrow> index_ok (he_buffer e) (he_index e) (2 ^ ewbits e + esize e)) \<and> (is_finishing e \<or> esize e = 2 ^ ewbits e)"

definition match_ok :: "heatshrink_encoder \<Rightarrow> bool" where
  "match_ok e \<longleftrightarrow> 1 \<le> emlen e \<and> emlen e \<le> 2 ^ elbits e \<and> escan e + emlen e \<le> esize e"

fun enc_state_ok :: "bool \<Rightarrow> HSE_state \<Rightarrow> heatshrink_encoder \<Rightarrow> bool" where
  "enc_state_ok U HSES_NOT_FULL e \<longleftrightarrow> escan e = 0 \<and> \<not> is_finishing e"
| "enc_state_ok U HSES_FILLED e \<longleftrightarrow> escan e = 0 \<and> (is_finishing e \<or> esize e = 2 ^ ewbits e)"
| "enc_state_ok U HSES_SEARCH e \<longleftrightarrow> ready U e"
| "enc_state_ok U HSES_YIELD_TAG_BIT e \<longleftrightarrow> ready U e \<and> (if emlen e = 0 then 1 \<le> escan e else match_ok e)"
| "enc_state_ok U HSES_YIELD_LITERAL e \<longleftrightarrow> ready U e \<and> 1 \<le> escan e \<and> emlen e = 0"
| "enc_state_ok U HSES_YIELD_BR_INDEX e \<longleftrightarrow> ready U e \<and> match_ok e \<and> eout e \<le> 15"
| "enc_state_ok U HSES_YIELD_BR_LENGTH e \<longleftrightarrow> ready U e \<and> match_ok e \<and> eout e \<le> 15"
| "enc_state_ok U HSES_SAVE_BACKLOG e \<longleftrightarrow> \<not> is_finishing e \<and> esize e = 2 ^ ewbits e"
| "enc_state_ok U HSES_FLUSH_BITS e \<longleftrightarrow> is_finishing e \<and> escan e = esize e"
| "enc_state_ok U HSES_DONE e \<longleftrightarrow> is_finishing e"

text \<open>The bits of the current token that are still to be written, and the input the token covers.\<close>

definition last_literal :: "heatshrink_encoder \<Rightarrow> u8" where
  "last_literal e = he_buffer e ! (2 ^ ewbits e + escan e - 1)"

fun rest_bits :: "HSE_state \<Rightarrow> heatshrink_encoder \<Rightarrow> bool list" where
  "rest_bits HSES_YIELD_TAG_BIT e =
     (if emlen e = 0 then True # byte_bits (last_literal e)
      else False # nbits (ewbits e) (unat (he_match_pos e - 1)) @ nbits (elbits e) (unat (he_match_length e - 1)))"
| "rest_bits HSES_YIELD_LITERAL e = byte_bits (last_literal e)"
| "rest_bits HSES_YIELD_BR_INDEX e = nbits (eout e) (unat (he_outgoing_bits e)) @ nbits (elbits e) (unat (he_match_length e - 1))"
| "rest_bits HSES_YIELD_BR_LENGTH e = nbits (eout e) (unat (he_outgoing_bits e))"
| "rest_bits _ e = []"

fun reach :: "HSE_state \<Rightarrow> heatshrink_encoder \<Rightarrow> nat" where
  "reach HSES_YIELD_TAG_BIT e = escan e + emlen e"
| "reach HSES_YIELD_BR_INDEX e = escan e + emlen e"
| "reach HSES_YIELD_BR_LENGTH e = escan e + emlen e"
| "reach _ e = escan e"

definition enc_says :: "HSE_state \<Rightarrow> heatshrink_encoder \<Rightarrow> u8 list \<Rightarrow> u8 list \<Rightarrow> bool" where
  "enc_says st e S D \<longleftrightarrow>
     (if st = HSES_DONE then hs_decode (ewbits e) (elbits e) [] (bytes_bits D) = S
      else says (ewbits e) (elbits e) (bytes_bits D @ written e @ rest_bits st e) (take (length S - esize e + reach st e) S))"

definition enc_ok :: "bool \<Rightarrow> HSE_state \<Rightarrow> heatshrink_encoder \<Rightarrow> u8 list \<Rightarrow> u8 list \<Rightarrow> bool" where
  "enc_ok U st e S D \<longleftrightarrow> enc_config U e \<and> enc_state_ok U st e \<and> stream_held e S \<and> enc_says st e S D"

definition eweight :: "HSE_state \<Rightarrow> heatshrink_encoder \<Rightarrow> nat" where
  "eweight st e = 64 * (esize e - escan e) +
     (case st of HSES_FILLED \<Rightarrow> 61 | HSES_SEARCH \<Rightarrow> 60 | HSES_YIELD_TAG_BIT \<Rightarrow> (if emlen e = 0 then 63 else 59)
      | HSES_YIELD_LITERAL \<Rightarrow> 62 | HSES_YIELD_BR_INDEX \<Rightarrow> 20 + eout e | HSES_YIELD_BR_LENGTH \<Rightarrow> eout e
      | HSES_SAVE_BACKLOG \<Rightarrow> 1 | _ \<Rightarrow> 0)"

definition enc_step_ok ::
  "bool \<Rightarrow> HSE_state \<Rightarrow> heatshrink_encoder \<Rightarrow> output_info \<Rightarrow> u8 list \<Rightarrow> u8 list \<Rightarrow> HSE_state \<times> heatshrink_encoder \<times> output_info \<Rightarrow> bool" where
  "enc_step_ok U st e oi S D = (\<lambda>(st', e', oi'). \<exists>out. oi' = emit oi out \<and> oi_output_size oi + length out \<le> oi_buf_size oi
     \<and> enc_ok U st' e' S (D @ out) \<and> (ewbits e', elbits e', he_flags e') = (ewbits e, elbits e, he_flags e)
     \<and> (st' = st \<and> oi_output_size oi' = oi_buf_size oi' \<or> eweight st' e' < eweight st e))"

section \<open>Sizes as words\<close>

lemma max_window_le: "max_window U \<le> 14"
  by (simp add: max_window_def)

lemma enc_config_bounds:
  assumes "enc_config U e"
  shows "ewbits e \<le> 14" "2 ^ ewbits e \<le> (2 :: nat) ^ 14" "esize e \<le> 2 ^ ewbits e" "escan e \<le> esize e" "3 \<le> elbits e"
    "elbits e < ewbits e" "(2 :: nat) ^ elbits e \<le> 2 ^ 14"
proof -
  show w: "ewbits e \<le> 14" and l: "3 \<le> elbits e" "elbits e < ewbits e" and "esize e \<le> 2 ^ ewbits e" "escan e \<le> esize e"
    using assms max_window_le [of U] by (auto simp: enc_config_def)
  show "2 ^ ewbits e \<le> (2 :: nat) ^ 14" using w by (intro power_increasing) simp_all
  show "(2 :: nat) ^ elbits e \<le> 2 ^ 14" using w l by (intro power_increasing) simp_all
qed

lemma unat_pow16: "n < 16 \<Longrightarrow> unat (2 ^ n :: u16) = 2 ^ n"
proof -
  assume "n < 16"
  then have "(2 :: nat) ^ n < 2 ^ LENGTH(16)" by (intro power_strict_increasing) simp_all
  then have "unat (of_nat (2 ^ n) :: u16) = 2 ^ n" by (simp only: unat_of_nat mod_less)
  then show ?thesis by simp
qed

lemma unat_sizes:
  assumes "enc_config U e"
  shows "unat (get_input_buffer_size e) = 2 ^ ewbits e" "unat (get_lookahead_size e) = 2 ^ elbits e"
  using enc_config_bounds [OF assms] by (simp_all add: get_input_buffer_size_def get_lookahead_size_def unat_pow16)

lemma unat_add16: "unat a + unat b < 2 ^ 16 \<Longrightarrow> unat (a + b) = unat a + unat b" for a b :: u16
  by (simp add: unat_word_ariths)

lemma unat_offset:
  assumes "enc_config U e" and "unat i \<le> 2 ^ ewbits e"
  shows "unat (get_input_offset e + i) = 2 ^ ewbits e + unat i"
  using unat_sizes(1) [OF assms(1)] enc_config_bounds(2) [OF assms(1)] assms(2) unat_add16 [of "get_input_offset e" i]
  by (simp add: get_input_offset_def)

lemma buffer_stream:
  assumes "stream_held e S" and "k < 2 ^ ewbits e + esize e"
  shows "he_buffer e ! k = padded (ewbits e) S ! (length S - esize e + k)"
proof -
  have "he_buffer e ! k = drop (length S - esize e) (padded (ewbits e) S) ! k"
    using assms nth_take [of k "2 ^ ewbits e + esize e" "he_buffer e"] by (simp only: stream_held_def)
  also have "\<dots> = padded (ewbits e) S ! (length S - esize e + k)"
    using assms(1) by (intro nth_drop) (simp add: stream_held_def padded_def)
  finally show ?thesis .
qed

lemma enc_silent_step:
  assumes "enc_ok U st' e' S D" and "(ewbits e', elbits e', he_flags e') = (ewbits e, elbits e, he_flags e)"
    and "out_ok W oi" and "eweight st' e' < eweight st e"
  shows "enc_step_ok U st e oi S D (st', e', oi)"
  using assms unfolding enc_step_ok_def by (auto simp: out_ok_def intro!: exI [of _ "[]"])

section \<open>Indexing\<close>

lemma do_indexing_ok:
  assumes ok: "enc_ok U HSES_FILLED e S D" and oi: "out_ok W oi"
  shows "\<exists>e'. do_indexing U e = Some e' \<and> enc_step_ok U HSES_FILLED e oi S D (HSES_SEARCH, e', oi)"
proof (cases U)
  case False
  then have "enc_ok U HSES_SEARCH e S D" using ok by (auto simp: enc_ok_def ready_def enc_says_def)
  then have "enc_step_ok U HSES_FILLED e oi S D (HSES_SEARCH, e, oi)" using oi by (intro enc_silent_step) (simp_all add: eweight_def)
  then show ?thesis using False by (simp add: do_indexing_def)
next
  case True
  have c: "enc_config U e" using ok by (simp add: enc_ok_def)
  define n where "n = 2 ^ ewbits e + esize e"
  have "ewbits e \<le> 13" using c True by (simp add: enc_config_def max_window_def)
  then have "(2 :: nat) ^ ewbits e \<le> 2 ^ 13" by (intro power_increasing) simp_all
  then have n: "n < 2 ^ 15" "n \<le> length (he_buffer e)" "n \<le> length (he_index e)"
    using c True by (simp_all add: n_def enc_config_def)
  have "unat (get_input_offset e + he_input_size e) = n"
    using unat_offset [OF c, of "he_input_size e"] c by (simp add: n_def enc_config_def)
  moreover have "links (he_buffer e) (replicate 256 0xFFFF ! v) 0 (of_nat v)" if "v < 256" for v
    using that by (simp add: links_def)
  ultimately obtain index where index: "do_indexing_loop (get_input_offset e + he_input_size e) (he_buffer e) 0 (replicate 256 0xFFFF) (he_index e) = Some index"
      "length index = length (he_index e)" "index_ok (he_buffer e) index n"
    using do_indexing_loop_ok [of 0 n "get_input_offset e + he_input_size e" "he_buffer e" "he_index e" "replicate 256 0xFFFF"] n
    by (auto simp: index_ok_def)
  have "enc_ok U HSES_SEARCH (e\<lparr>he_index := index\<rparr>) S D"
    using ok index(2,3) unfolding n_def
    by (auto simp: enc_ok_def ready_def enc_says_def enc_config_def stream_held_def is_finishing_def)
  then have "enc_step_ok U HSES_FILLED e oi S D (HSES_SEARCH, e\<lparr>he_index := index\<rparr>, oi)"
    using oi by (intro enc_silent_step) (simp_all add: eweight_def)
  then show ?thesis using True index(1) by (simp add: do_indexing_def Let_def)
qed

section \<open>Searching\<close>

text \<open>The position in the buffer where the search is, and the window before it.\<close>

lemma search_words:
  assumes "enc_config U e" and "escan e < esize e"
  defines "stop \<equiv> get_input_offset e + he_match_scan_index e"
  shows "unat stop = 2 ^ ewbits e + escan e" "stop - get_input_buffer_size e = he_match_scan_index e"
    "sint (he_match_scan_index e) = int (escan e)" "sint (stop - 1) = int (unat stop) - 1"
proof -
  note b = enc_config_bounds [OF assms(1)]
  show stop: "unat stop = 2 ^ ewbits e + escan e" using unat_offset [OF assms(1)] assms(2) b(3) by (simp add: stop_def)
  show "stop - get_input_buffer_size e = he_match_scan_index e" by (simp add: stop_def get_input_offset_def)
  have "escan e < 2 ^ 15" "unat stop - 1 < 2 ^ 15" "1 \<le> unat stop" using stop b(2,3) assms(2) by simp_all
  then show "sint (he_match_scan_index e) = int (escan e)" "sint (stop - 1) = int (unat stop) - 1"
    using sint_of_nat16 [of "escan e"] sint_of_nat16 [of "unat stop - 1"] by (simp_all add: of_nat_diff)
qed

lemma find_longest_match_ok:
  assumes c: "enc_config U e" and r: "ready U e" and scan: "escan e < esize e" and n: "0 < maxlen" "escan e + unat maxlen \<le> esize e"
  defines "stop \<equiv> get_input_offset e + he_match_scan_index e"
  shows "\<exists>mp ml. find_longest_match U e (stop - get_input_buffer_size e) stop maxlen 0 = Some (mp, ml)
    \<and> (mp = MATCH_NOT_FOUND \<or> unat mp \<in> {1..2 ^ ewbits e} \<and> 1 \<le> unat ml \<and> unat ml \<le> unat maxlen
        \<and> repeats (he_buffer e) (unat stop - unat mp) (unat stop) (unat ml))"
proof -
  note w = search_words [OF c scan, folded stop_def] and b = enc_config_bounds [OF c]
  let ?start = "stop - get_input_buffer_size e" and ?buf = "he_buffer e"
  have len: "unat stop + unat maxlen \<le> length ?buf" using w(1) n(2) b(3) c by (simp add: enc_config_def)
  have start: "0 \<le> sint ?start" "nat (sint ?start) = escan e" using w by simp_all
  have search: "\<exists>r. (if U then do {
          pos \<leftarrow> buf_read (unat stop) (he_index e);
          match_index_loop ?buf (he_index e) ?start stop maxlen pos 0 MATCH_NOT_FOUND
        }
        else match_scan_loop ?buf ?start stop maxlen (stop - 1) 0 MATCH_NOT_FOUND) = Some r
      \<and> found ?buf (escan e) (unat stop) (unat maxlen) r"
  proof (cases U)
    case True
    have idx: "unat stop < length (he_index e)" "unat stop < 2 ^ ewbits e + esize e"
      using w(1) scan b(3) c True by (simp_all add: enc_config_def)
    have "index_ok ?buf (he_index e) (2 ^ ewbits e + esize e)" using r True by (simp add: ready_def)
    then have "index_ok ?buf (he_index e) (unat stop)" "links ?buf (he_index e ! unat stop) (unat stop) (?buf ! unat stop)"
      using idx(2) by (auto simp: index_ok_def)
    then show ?thesis
      using match_index_loop_ok [OF len _ _ start(1), of "he_index e" "he_index e ! unat stop" 0 MATCH_NOT_FOUND] True idx(1) n(1) start(2)
      by (auto simp: found_def)
  next
    case False
    have "1 \<le> unat stop" by (simp add: w(1) trans_le_add1)
    then show ?thesis
      using match_scan_loop_ok [OF len start(1), of "stop - 1" 0 MATCH_NOT_FOUND] False n(1) start(2) w(4)
      by (auto simp: found_def)
  qed
  then obtain ml x where res: "(if U then do {
          pos \<leftarrow> buf_read (unat stop) (he_index e);
          match_index_loop ?buf (he_index e) ?start stop maxlen pos 0 MATCH_NOT_FOUND
        }
        else match_scan_loop ?buf ?start stop maxlen (stop - 1) 0 MATCH_NOT_FOUND) = Some (ml, x)"
      "found ?buf (escan e) (unat stop) (unat maxlen) (ml, x)"
    by auto
  have x: "unat (stop - x) = unat stop - unat x" if "unat x < unat stop" using that by (simp add: unat_sub word_le_nat_alt)
  show ?thesis
    using res x w(1) unfolding find_longest_match_def Let_def by (auto simp: found_def)
qed

text \<open>What the search decides, as a change of the bits to be written.\<close>

lemma literal_says:
  assumes ok: "enc_ok U HSES_SEARCH e S D" and scan: "escan e < esize e"
  defines "e' \<equiv> e\<lparr>he_match_scan_index := he_match_scan_index e + 1, he_match_length := 0\<rparr>"
  shows "enc_ok U HSES_YIELD_TAG_BIT e' S D" "escan e' = Suc (escan e)"
proof -
  let ?p = "length S - esize e + escan e"
  have c: "stream_held e S" "esize e \<le> length S" using ok by (auto simp: enc_ok_def stream_held_def)
  show succ: "escan e' = Suc (escan e)"
    using unat_index_succ [of "he_match_scan_index e" "he_input_size e"] scan by (simp add: e'_def word_less_nat_alt)
  have "last_literal e' = he_buffer e ! (2 ^ ewbits e + escan e)" using succ by (simp add: last_literal_def e'_def)
  also have "\<dots> = padded (ewbits e) S ! (length S - esize e + (2 ^ ewbits e + escan e))" using c scan by (intro buffer_stream) simp_all
  also have "\<dots> = S ! ?p" using nth_append_length_plus [of "replicate (2 ^ ewbits e) 0" S ?p] by (simp add: padded_def ac_simps)
  finally have lit: "last_literal e' = S ! ?p" .
  have "take ?p S @ [S ! ?p] = take (length S - esize e + escan e') S"
    using c(2) scan succ by (simp add: take_Suc_conv_app_nth)
  then have "says (ewbits e) (elbits e) ((bytes_bits D @ written e) @ True # byte_bits (last_literal e')) (take (length S - esize e + escan e') S)"
    using ok says_literal [of "ewbits e" "elbits e" "bytes_bits D @ written e" "take ?p S" "S ! ?p"]
    by (simp add: enc_ok_def enc_says_def lit)
  then show "enc_ok U HSES_YIELD_TAG_BIT e' S D"
    using ok succ scan by (auto simp: enc_ok_def enc_says_def enc_config_def ready_def stream_held_def is_finishing_def e'_def)
qed

lemma match_says:
  assumes ok: "enc_ok U HSES_SEARCH e S D" and scan: "escan e + unat ml \<le> esize e" and ml: "1 \<le> unat ml" "unat ml \<le> 2 ^ elbits e"
    and mp: "unat mp \<in> {1..2 ^ ewbits e}"
    and rep: "repeats (he_buffer e) (2 ^ ewbits e + escan e - unat mp) (2 ^ ewbits e + escan e) (unat ml)"
  shows "enc_ok U HSES_YIELD_TAG_BIT (e\<lparr>he_match_pos := mp, he_match_length := ml\<rparr>) S D"
proof -
  let ?w = "ewbits e" and ?b = "length S - esize e"
  have c: "stream_held e S" "esize e \<le> length S" using ok by (auto simp: enc_ok_def stream_held_def)
  have "padded ?w S ! (2 ^ ?w + (?b + escan e) - unat mp + i) = padded ?w S ! (2 ^ ?w + (?b + escan e) + i)" if i: "i < unat ml" for i
  proof -
    have "he_buffer e ! (2 ^ ?w + escan e - unat mp + i) = padded ?w S ! (?b + (2 ^ ?w + escan e - unat mp + i))"
      "he_buffer e ! (2 ^ ?w + escan e + i) = padded ?w S ! (?b + (2 ^ ?w + escan e + i))"
      using i scan mp by (intro buffer_stream [OF c(1)]; auto)+
    moreover have "?b + (2 ^ ?w + escan e - unat mp + i) = 2 ^ ?w + (?b + escan e) - unat mp + i" using mp by auto
    moreover have "?b + (2 ^ ?w + escan e + i) = 2 ^ ?w + (?b + escan e) + i" by simp
    ultimately show ?thesis using rep i by (simp add: repeats_def)
  qed
  then have "copy_back (unat ml) (unat mp) (take (?b + escan e) S) = take (?b + escan e + unat ml) S"
    using c(2) scan mp by (intro copy_back_stream [where w = ?w]) auto
  then have "says ?w (elbits e) ((bytes_bits D @ written e) @ False # nbits ?w (unat mp - 1) @ nbits (elbits e) (unat ml - 1))
      (take (?b + escan e + unat ml) S)"
    using says_backref [of ?w "elbits e" "bytes_bits D @ written e" "take (?b + escan e) S" "unat mp" "unat ml"] ok mp ml
    by (simp add: enc_ok_def enc_says_def)
  moreover have "unat (mp - 1) = unat mp - 1" "unat (ml - 1) = unat ml - 1" using mp ml by (auto simp: unat_sub word_le_nat_alt)
  ultimately show ?thesis
    using ok scan ml by (auto simp: enc_ok_def enc_says_def enc_config_def ready_def stream_held_def is_finishing_def match_ok_def add.assoc)
qed

lemma st_step_search_ok:
  assumes ok: "enc_ok U HSES_SEARCH e S D" and oi: "out_ok W oi"
  shows "\<exists>s e'. st_step_search U e = Some (s, e') \<and> enc_step_ok U HSES_SEARCH e oi S D (s, e', oi)"
proof (cases "int (esize e) - (if is_finishing e then 1 else int (unat (get_lookahead_size e))) < int (escan e)")
  case True
  define s where "s = (if is_finishing e then HSES_FLUSH_BITS else HSES_SAVE_BACKLOG)"
  have "escan e = esize e" if "is_finishing e"
  proof -
    have "int (esize e) - 1 < int (escan e)" using True that by (simp only: if_True)
    moreover have "escan e \<le> esize e" using ok by (simp add: enc_ok_def enc_config_def)
    ultimately show ?thesis by linarith
  qed
  then have "enc_ok U s e S D" using ok by (auto simp: enc_ok_def enc_says_def s_def ready_def)
  then have "enc_step_ok U HSES_SEARCH e oi S D (s, e, oi)" using oi by (intro enc_silent_step) (auto simp: eweight_def s_def)
  then show ?thesis using True by (simp add: st_step_search_def s_def Let_def)
next
  case False
  have c: "enc_config U e" "ready U e" using ok by (simp_all add: enc_ok_def)
  note b = enc_config_bounds [OF c(1)] and sz = unat_sizes [OF c(1)]
  have pos: "(0 :: nat) < 2 ^ elbits e" by simp
  have "1 \<le> unat (get_lookahead_size e)" using sz(2) pos by linarith
  then have "1 \<le> int (unat (get_lookahead_size e))" by linarith
  then have "1 \<le> (if is_finishing e then 1 else int (unat (get_lookahead_size e)))" by (simp only: order_refl simp_thms split: if_split)
  then have scan: "escan e < esize e" using False by linarith
  let ?stop = "get_input_offset e + he_match_scan_index e"
  define maxlen where "maxlen = (if int (esize e) - int (escan e) < int (unat (get_lookahead_size e))
    then he_input_size e - he_match_scan_index e else get_lookahead_size e)"
  have maxlen: "unat maxlen = min (esize e - escan e) (2 ^ elbits e)"
  proof -
    have "(int (esize e) - int (escan e) < int (unat (get_lookahead_size e))) = (esize e - escan e < 2 ^ elbits e)"
      using scan sz(2) by linarith
    then have "maxlen = (if esize e - escan e < 2 ^ elbits e then he_input_size e - he_match_scan_index e else get_lookahead_size e)"
      by (simp only: maxlen_def)
    then show ?thesis using scan sz(2) by (simp add: unat_sub word_le_nat_alt min_def)
  qed
  have ml: "0 < maxlen" "escan e + unat maxlen \<le> esize e" using scan pos maxlen by (auto simp: word_less_nat_alt)
  obtain mp m where res: "find_longest_match U e (?stop - get_input_buffer_size e) ?stop maxlen 0 = Some (mp, m)"
    "mp = MATCH_NOT_FOUND \<or> unat mp \<in> {1..2 ^ ewbits e} \<and> 1 \<le> unat m \<and> unat m \<le> unat maxlen
      \<and> repeats (he_buffer e) (unat ?stop - unat mp) (unat ?stop) (unat m)"
    using find_longest_match_ok [OF c scan ml] by blast
  let ?e = "if mp = MATCH_NOT_FOUND then e\<lparr>he_match_scan_index := he_match_scan_index e + 1, he_match_length := 0\<rparr>
    else e\<lparr>he_match_pos := mp, he_match_length := m\<rparr>"
  have "st_step_search U e = Some (HSES_YIELD_TAG_BIT, ?e)"
    unfolding st_step_search_def Let_def if_not_P [OF False] maxlen_def [symmetric] res(1) by simp
  moreover have "enc_step_ok U HSES_SEARCH e oi S D (HSES_YIELD_TAG_BIT, ?e, oi)"
  proof (cases "mp = MATCH_NOT_FOUND")
    case True
    then show ?thesis using literal_says [OF ok scan] oi scan by (intro enc_silent_step) (simp_all add: eweight_def)
  next
    case False
    have "escan e + unat m \<le> esize e" using False res(2) ml(2) by linarith
    then have "enc_ok U HSES_YIELD_TAG_BIT ?e S D"
      using False match_says [OF ok, of m mp] res(2) maxlen ml(2) search_words(1) [OF c(1) scan] by simp
    then show ?thesis using False oi res(2) by (intro enc_silent_step) (auto simp: eweight_def)
  qed
  ultimately show ?thesis by blast
qed

end
