(* ===== verification/Heatshrink_Encoder_Yield.thy ===== *)
theory Heatshrink_Encoder_Yield
  imports Heatshrink_Encoder_Steps
begin

text \<open>
  The states of the encoder that write bits, the shift of the buffer when a block is finished, and the final
  flush.
\<close>

section \<open>Writing states\<close>

lemma pushed_short:
  assumes "writer_ok e" and "pushed bs e oi (e', oi')" and "length bs \<le> 8" and "can_take_byte oi"
  obtains out where "oi' = emit oi out" "oi_output_size oi + length out \<le> oi_buf_size oi" "writer_frame e e'" "writer_ok e'"
    "bytes_bits out @ written e' = written e @ bs"
proof -
  obtain out where out: "oi' = emit oi out" "writer_frame e e'" "writer_ok e'" "bytes_bits out @ written e' = written e @ bs"
    using assms(2) by (auto simp: pushed_def)
  have "8 * length out + length (written e') = length (written e) + length bs"
    using arg_cong [OF out(4), of length] by simp
  then have "length out \<le> 1" using length_written [OF assms(1)] assms(3) by linarith
  then show ?thesis using out assms(4) that by (simp add: can_take_byte_def)
qed

lemma full_stays: "enc_ok U st e S D \<Longrightarrow> out_ok W oi \<Longrightarrow> \<not> can_take_byte oi \<Longrightarrow> enc_step_ok U st e oi S D (st, e, oi)"
  unfolding enc_step_ok_def by (auto simp: out_ok_def can_take_byte_def intro!: exI [of _ "[]"])

text \<open>A state that pushes some bits of its token and leaves the rest to the next state.\<close>

definition same_input :: "heatshrink_encoder \<Rightarrow> heatshrink_encoder \<Rightarrow> bool" where
  "same_input e e' \<longleftrightarrow> he_input_size e' = he_input_size e \<and> he_flags e' = he_flags e \<and> he_window_sz2 e' = he_window_sz2 e
     \<and> he_lookahead_sz2 e' = he_lookahead_sz2 e \<and> he_buffer e' = he_buffer e \<and> he_index e' = he_index e"

lemma push_step:
  assumes ok: "enc_ok U st e S D" and room: "can_take_byte oi" and p: "pushed bs e oi (e1, oi')" "length bs \<le> 8"
    and e': "same_input e e'" "written e' = written e1" "writer_ok e' = writer_ok e1" "escan e' \<le> esize e"
    and st': "st \<noteq> HSES_DONE" "st' \<noteq> HSES_DONE" "enc_state_ok U st' e'"
    and token: "bs @ rest_bits st' e' = rest_bits st e" "reach st' e' = reach st e"
    and less: "eweight st' e' < eweight st e"
  shows "enc_step_ok U st e oi S D (st', e', oi')"
proof -
  have "writer_ok e" using ok by (simp add: enc_ok_def enc_config_def)
  then obtain out where out: "oi' = emit oi out" "oi_output_size oi + length out \<le> oi_buf_size oi" "writer_ok e1"
      "bytes_bits out @ written e1 = written e @ bs"
    using p room by (rule pushed_short)
  have "bytes_bits (D @ out) @ written e' @ rest_bits st' e' = bytes_bits D @ written e @ rest_bits st e"
    using out(4) e'(2) token(1) by (metis append.assoc bytes_bits_simps(3))
  moreover have "enc_says st e S D" using ok by (simp add: enc_ok_def)
  ultimately have "enc_says st' e' S (D @ out)"
    using st'(1,2) token(2) e'(1) unfolding enc_says_def same_input_def by simp
  then have "enc_ok U st' e' S (D @ out)"
    using ok e' st'(3) out(3) by (simp add: enc_ok_def enc_config_def stream_held_def same_input_def)
  then show ?thesis using out(1,2) less e'(1) by (auto simp: enc_step_ok_def same_input_def)
qed

lemma frame_same_input: "writer_frame e e1 \<Longrightarrow> same_input e e1"
  by (simp add: same_input_def writer_frame_fields [of e e1])

lemma pushed_frame: "pushed bs e oi (e1, oi') \<Longrightarrow> writer_frame e e1"
  by (auto simp: pushed_def)

lemma room_length: "out_ok W oi \<Longrightarrow> can_take_byte oi \<Longrightarrow> oi_output_size oi < length (oi_buf oi)"
  by (simp add: out_ok_def can_take_byte_def)

lemma push_small:
  assumes "enc_ok U st e S D" and "out_ok W oi" and "can_take_byte oi" and "unat count \<le> 8"
  obtains e1 oi' where "push_bits e count bits oi = Some (e1, oi')" "pushed (nbits (unat count) (unat bits)) e oi (e1, oi')"
  using push_bits_pushed [of e count oi bits] room_length [OF assms(2,3)] assms(1,4) by (auto simp: enc_ok_def enc_config_def)

lemma st_yield_tag_bit_enc_ok:
  assumes ok: "enc_ok U HSES_YIELD_TAG_BIT e S D" and oi: "out_ok W oi"
  shows "\<exists>r. st_yield_tag_bit e oi = Some r \<and> enc_step_ok U HSES_YIELD_TAG_BIT e oi S D r"
proof (cases "can_take_byte oi")
  case False
  then show ?thesis using full_stays [OF ok oi] by (simp add: st_yield_tag_bit_def)
next
  case room: True
  have st: "ready U e" "if emlen e = 0 then 1 \<le> escan e else match_ok e" and c: "enc_config U e"
    using ok unfolding enc_ok_def enc_state_ok.simps by blast+
  show ?thesis
  proof (cases "he_match_length e = 0")
    case True
    obtain e1 oi' where p: "push_bits e 1 HEATSHRINK_LITERAL_MARKER oi = Some (e1, oi')" "pushed [True] e oi (e1, oi')"
      using push_small [OF ok oi room, of 1 HEATSHRINK_LITERAL_MARKER] by (auto simp: nbits_def bit_0)
    note f = writer_frame_fields [OF pushed_frame [OF p(2)]]
    have "enc_step_ok U HSES_YIELD_TAG_BIT e oi S D (HSES_YIELD_LITERAL, e1, oi')"
      using st c f True
      by (intro push_step [OF ok room p(2)] frame_same_input [OF pushed_frame [OF p(2)]])
        (auto simp: enc_config_def ready_def last_literal_def is_finishing_def eweight_def)
    then show ?thesis using room True p(1) by (simp add: st_yield_tag_bit_def add_tag_bit_def)
  next
    case False
    obtain e1 oi' where p: "push_bits e 1 HEATSHRINK_BACKREF_MARKER oi = Some (e1, oi')" "pushed [False] e oi (e1, oi')"
      using push_small [OF ok oi room, of 1 HEATSHRINK_BACKREF_MARKER] by (auto simp: nbits_def)
    note f = writer_frame_fields [OF pushed_frame [OF p(2)]]
    let ?e = "e1\<lparr>he_outgoing_bits := he_match_pos e1 - 1, he_outgoing_bits_count := he_window_sz2 e1\<rparr>"
    have "same_input e ?e" using frame_same_input [OF pushed_frame [OF p(2)]] by (simp add: same_input_def)
    moreover have "emlen e \<noteq> 0" using False by (simp add: unat_eq_0)
    ultimately have "enc_step_ok U HSES_YIELD_TAG_BIT e oi S D (HSES_YIELD_BR_INDEX, ?e, oi')"
      using st c f enc_config_bounds [OF c]
      by (intro push_step [OF ok room p(2)]) (auto simp: enc_config_def ready_def is_finishing_def eweight_def match_ok_def)
    then show ?thesis using room False p(1) by (simp add: st_yield_tag_bit_def add_tag_bit_def)
  qed
qed

lemma st_yield_literal_hse_ok:
  assumes ok: "enc_ok U HSES_YIELD_LITERAL e S D" and oi: "out_ok W oi"
  shows "\<exists>r. st_yield_literal_hse e oi = Some r \<and> enc_step_ok U HSES_YIELD_LITERAL e oi S D r"
proof (cases "can_take_byte oi")
  case False
  then show ?thesis using full_stays [OF ok oi] by (simp add: st_yield_literal_hse_def)
next
  case room: True
  have st: "ready U e" "1 \<le> escan e" and c: "enc_config U e" using ok by (simp_all add: enc_ok_def)
  have pred: "unat (he_match_scan_index e - 1) = escan e - 1" using st(2) by (simp add: unat_sub word_le_nat_alt)
  then have at: "unat (get_input_offset e + (he_match_scan_index e - 1)) = 2 ^ ewbits e + escan e - 1"
    using unat_offset [OF c, of "he_match_scan_index e - 1"] enc_config_bounds(3,4) [OF c] st(2) by simp
  have "2 ^ ewbits e + escan e - 1 < length (he_buffer e)"
    using c st(2) unfolding enc_config_def by linarith
  then have rd: "buf_read (2 ^ ewbits e + escan e - 1) (he_buffer e) = Some (last_literal e)" by (simp add: last_literal_def)
  obtain e1 oi' where p: "push_bits e 8 (last_literal e) oi = Some (e1, oi')" "pushed (byte_bits (last_literal e)) e oi (e1, oi')"
    using push_small [OF ok oi room, of 8 "last_literal e"] by (auto simp: byte_bits_nbits)
  note f = writer_frame_fields [OF pushed_frame [OF p(2)]]
  have "enc_step_ok U HSES_YIELD_LITERAL e oi S D (HSES_SEARCH, e1, oi')"
    using st c f
    by (intro push_step [OF ok room p(2)] frame_same_input [OF pushed_frame [OF p(2)]])
      (auto simp: enc_config_def ready_def is_finishing_def eweight_def)
  moreover have "st_yield_literal_hse e oi = Some (HSES_SEARCH, e1, oi')"
    using room p(1) rd by (simp add: st_yield_literal_hse_def push_literal_byte_def at Let_def)
  ultimately show ?thesis by blast
qed

text \<open>The outgoing bits of a back-reference, which take several rounds.\<close>

lemma outgoing_round:
  assumes ok: "enc_ok U st e S D" and oi: "out_ok W oi" and room: "can_take_byte oi" and st: "st = HSES_YIELD_BR_INDEX \<or> st = HSES_YIELD_BR_LENGTH"
    and some: "he_outgoing_bits_count e \<noteq> 0"
  shows "\<exists>count e' oi'. push_outgoing_bits e oi = Some (count, e', oi') \<and> 0 < count \<and> enc_step_ok U st e oi S D (st, e', oi')"
proof -
  have c: "enc_config U e" "enc_state_ok U st e" using ok by (simp_all add: enc_ok_def)
  obtain count e1 oi' bs where p: "push_outgoing_bits e oi = Some (count, e1\<lparr>he_outgoing_bits_count := he_outgoing_bits_count e - count\<rparr>, oi')"
      "0 < count" "unat (he_outgoing_bits_count e - count) = eout e - unat count" "unat count \<le> eout e"
      "pushed bs e oi (e1, oi')" "length bs \<le> 8"
      "nbits (eout e) (unat (he_outgoing_bits e)) = bs @ nbits (eout e - unat count) (unat (he_outgoing_bits e))"
    using outgoing_some [OF _ room_length [OF oi room] some] c(1) by (auto simp: enc_config_def)
  let ?e = "e1\<lparr>he_outgoing_bits_count := he_outgoing_bits_count e - count\<rparr>"
  note f = writer_frame_fields [OF pushed_frame [OF p(5)]]
  have "same_input e ?e" using frame_same_input [OF pushed_frame [OF p(5)]] by (simp add: same_input_def)
  moreover have "0 < unat count" using p(2) by (simp add: word_less_nat_alt)
  ultimately have "enc_step_ok U st e oi S D (st, ?e, oi')"
    using st c p(3,4,7) f
    by (intro push_step [OF ok room p(5,6)])
      (auto simp: enc_config_def ready_def is_finishing_def eweight_def match_ok_def)
  then show ?thesis using p(1,2) by blast
qed

lemma st_yield_br_index_ok:
  assumes ok: "enc_ok U HSES_YIELD_BR_INDEX e S D" and oi: "out_ok W oi"
  shows "\<exists>r. st_yield_br_index e oi = Some r \<and> enc_step_ok U HSES_YIELD_BR_INDEX e oi S D r"
proof -
  consider "\<not> can_take_byte oi" | "can_take_byte oi" "he_outgoing_bits_count e = 0" | "can_take_byte oi" "he_outgoing_bits_count e \<noteq> 0" by blast
  then show ?thesis
  proof cases
    case 1
    then show ?thesis using full_stays [OF ok oi] by (simp add: st_yield_br_index_def)
  next
    case 2
    let ?e = "e\<lparr>he_outgoing_bits := he_match_length e - 1, he_outgoing_bits_count := he_lookahead_sz2 e\<rparr>"
    have c: "enc_config U e" using ok by (simp add: enc_ok_def)
    have "enc_ok U HSES_YIELD_BR_LENGTH ?e S D"
      using ok 2(2) enc_config_bounds [OF c]
      by (auto simp: enc_ok_def enc_says_def enc_config_def stream_held_def ready_def is_finishing_def match_ok_def)
    then have "enc_step_ok U HSES_YIELD_BR_INDEX e oi S D (HSES_YIELD_BR_LENGTH, ?e, oi)"
      using oi enc_config_bounds [OF c] by (intro enc_silent_step) (auto simp: eweight_def)
    then show ?thesis using 2 by (simp add: st_yield_br_index_def outgoing_none)
  next
    case 3
    then show ?thesis using outgoing_round [OF ok oi 3(1) _ 3(2)] by (auto simp: st_yield_br_index_def)
  qed
qed

lemma st_yield_br_length_ok:
  assumes ok: "enc_ok U HSES_YIELD_BR_LENGTH e S D" and oi: "out_ok W oi"
  shows "\<exists>r. st_yield_br_length e oi = Some r \<and> enc_step_ok U HSES_YIELD_BR_LENGTH e oi S D r"
proof -
  consider "\<not> can_take_byte oi" | "can_take_byte oi" "he_outgoing_bits_count e = 0" | "can_take_byte oi" "he_outgoing_bits_count e \<noteq> 0" by blast
  then show ?thesis
  proof cases
    case 1
    then show ?thesis using full_stays [OF ok oi] by (simp add: st_yield_br_length_def)
  next
    case 2
    let ?e = "e\<lparr>he_match_scan_index := he_match_scan_index e + he_match_length e, he_match_length := 0\<rparr>"
    have c: "enc_config U e" and m: "match_ok e" using ok by (simp_all add: enc_ok_def)
    have scan: "unat (he_match_scan_index e + he_match_length e) = escan e + emlen e"
      using m enc_config_bounds(2,3) [OF c] by (intro unat_add16) (simp add: match_ok_def)
    have "enc_ok U HSES_SEARCH ?e S D"
      using ok 2(2) scan m by (auto simp: enc_ok_def enc_says_def enc_config_def stream_held_def ready_def is_finishing_def match_ok_def)
    then have "enc_step_ok U HSES_YIELD_BR_LENGTH e oi S D (HSES_SEARCH, ?e, oi)"
      using oi scan m by (intro enc_silent_step) (auto simp: eweight_def match_ok_def)
    then show ?thesis using 2 by (simp add: st_yield_br_length_def outgoing_none)
  next
    case 3
    then show ?thesis using outgoing_round [OF ok oi 3(1) _ 3(2)] by (auto simp: st_yield_br_length_def)
  qed
qed

section \<open>Backlog and flush\<close>

lemma st_save_backlog_ok:
  assumes ok: "enc_ok U HSES_SAVE_BACKLOG e S D" and oi: "out_ok W oi"
  shows "\<exists>s e'. st_save_backlog e = Some (s, e') \<and> enc_step_ok U HSES_SAVE_BACKLOG e oi S D (s, e', oi)"
proof -
  let ?w = "ewbits e" and ?sz = "get_input_buffer_size e" and ?msi = "he_match_scan_index e"
  have c: "enc_config U e" and st: "\<not> is_finishing e" "esize e = 2 ^ ?w" and held: "stream_held e S" and says: "enc_says HSES_SAVE_BACKLOG e S D"
    using ok by (simp_all add: enc_ok_def)
  note b = enc_config_bounds [OF c] and sz = unat_sizes(1) [OF c]
  have scan: "escan e \<le> 2 ^ ?w" using b(4) st(2) by simp
  have rem: "?sz - ?msi \<le> ?sz" "unat (?sz - ?msi) = 2 ^ ?w - escan e"
    using scan sz by (simp_all add: word_le_nat_alt unat_sub)
  have shift: "unat (?sz + (?sz - ?msi)) = 2 ^ ?w + (2 ^ ?w - escan e)"
    using b(2) sz rem(2) unat_add16 [of ?sz "?sz - ?msi"] by simp
  have from_: "unat ?sz - unat (?sz - ?msi) = escan e" using scan sz rem(2) by simp
  define n where "n = 2 ^ ?w + (2 ^ ?w - escan e)"
  define buf where "buf = take n (drop (escan e) (he_buffer e)) @ drop n (he_buffer e)"
  have len: "2 * 2 ^ ?w \<le> length (he_buffer e)" using c by (simp add: enc_config_def)
  have n: "n \<le> length (he_buffer e)" "n \<le> length (he_buffer e) - escan e" using len scan unfolding n_def by linarith+
  have "buf_blit 0 (drop (escan e) (he_buffer e)) n (he_buffer e) = Some buf"
    using len scan n by (simp add: buf_blit_def buf_def)
  moreover have "he_input_size e - (?sz - (?sz - ?msi)) = he_input_size e - ?msi" by simp
  ultimately have res: "save_backlog e = Some (e\<lparr>he_buffer := buf, he_match_scan_index := 0, he_input_size := he_input_size e - ?msi\<rparr>)"
    using rem(1) shift from_ by (simp add: save_backlog_def Let_def n_def)
  let ?e = "e\<lparr>he_buffer := buf, he_match_scan_index := 0, he_input_size := he_input_size e - ?msi\<rparr>"
  have size: "esize ?e = 2 ^ ?w - escan e" using scan st(2) by (simp add: unat_sub word_le_nat_alt)
  have "take n buf = drop (escan e) (take (2 * 2 ^ ?w) (he_buffer e))"
  proof -
    have "n = 2 * 2 ^ ?w - escan e" using scan unfolding n_def by linarith
    then show ?thesis using n drop_take [of "escan e" "2 * 2 ^ ?w" "he_buffer e"] by (simp add: buf_def)
  qed
  also have "\<dots> = drop (escan e) (drop (length S - 2 ^ ?w) (padded ?w S))"
    using held st(2) by (simp add: stream_held_def mult_2)
  also have "\<dots> = drop (length S - (2 ^ ?w - escan e)) (padded ?w S)"
    using held st(2) scan by (simp add: stream_held_def add.commute)
  finally have kept: "take n buf = drop (length S - (2 ^ ?w - escan e)) (padded ?w S)" .
  have "esize e \<le> length S" using held by (simp add: stream_held_def)
  then have "2 ^ ?w - escan e \<le> length S" using st(2) by linarith
  then have "stream_held ?e S" using kept size by (simp add: stream_held_def n_def)
  moreover have "length S - esize ?e = length S - esize e + escan e" using size held st(2) scan by (simp add: stream_held_def)
  then have "enc_says HSES_NOT_FULL ?e S D" using says by (simp add: enc_says_def)
  moreover have "length buf = length (he_buffer e)" using n by (simp add: buf_def)
  then have "enc_config U ?e" using c size by (simp add: enc_config_def)
  ultimately have "enc_ok U HSES_NOT_FULL ?e S D" using st(1) by (simp add: enc_ok_def is_finishing_def)
  then have "enc_step_ok U HSES_SAVE_BACKLOG e oi S D (HSES_NOT_FULL, ?e, oi)"
    using oi size st(2) by (intro enc_silent_step) (simp_all add: eweight_def)
  then show ?thesis using res by (simp add: st_save_backlog_def)
qed

lemma st_flush_bit_buffer_ok:
  assumes ok: "enc_ok U HSES_FLUSH_BITS e S D" and oi: "out_ok W oi"
  shows "\<exists>s out. st_flush_bit_buffer e oi = Some (s, emit oi out) \<and> oi_output_size oi + length out \<le> oi_buf_size oi
    \<and> enc_ok U s e S (D @ out) \<and> (s = HSES_DONE \<or> s = HSES_FLUSH_BITS \<and> oi_output_size oi + length out = oi_buf_size oi)"
proof -
  have c: "enc_config U e" "writer_ok e" and st: "is_finishing e" "escan e = esize e" and held: "stream_held e S"
    using ok by (auto simp: enc_ok_def enc_config_def)
  have says: "says (ewbits e) (elbits e) (bytes_bits D @ written e) S"
    using ok held st(2) by (auto simp: enc_ok_def enc_says_def stream_held_def)
  have wl: "7 \<le> ewbits e + elbits e" using enc_config_bounds(5,6) [OF c(1)] by simp
  have fin: "enc_ok U HSES_DONE e S D'" if "hs_decode (ewbits e) (elbits e) [] (bytes_bits D') = S" for D'
    using c(1) st held that by (simp add: enc_ok_def enc_says_def)
  consider "he_bit_index e = 0x80" | "he_bit_index e \<noteq> 0x80" "can_take_byte oi" | "he_bit_index e \<noteq> 0x80" "\<not> can_take_byte oi" by blast
  then show ?thesis
  proof cases
    case 1
    then have "hs_decode (ewbits e) (elbits e) [] (bytes_bits D) = S" using says says_padding [OF says, of 0] wl by (simp add: written_def)
    then show ?thesis using 1 oi fin [of D] by (intro exI [of _ HSES_DONE] exI [of _ "[]"]) (simp add: st_flush_bit_buffer_def out_ok_def)
  next
    case 2
    let ?k = "bits_left (he_bit_index e)" and ?c = "he_current_byte e"
    have k: "?k < 8" using 2(1) c(2) by (auto simp: writer_ok_def)
    have "nbits ?k (unat ?c) = replicate ?k False"
      using c(2) by (auto simp: nbits_def writer_ok_def bit_unsigned_iff map_replicate_const intro!: replicate_eqI)
    then have "byte_bits ?c = written e @ replicate ?k False"
      using nbits_add [of "8 - ?k" ?k "unat ?c"] k by (simp add: byte_bits_nbits written_def)
    then have "hs_decode (ewbits e) (elbits e) [] (bytes_bits (D @ [?c])) = S"
      using says_padding [OF says k wl] by simp
    then show ?thesis
      using 2 fin [of "D @ [?c]"] push_byte_emit [OF room_length [OF oi 2(2)], of ?c]
      by (intro exI [of _ HSES_DONE] exI [of _ "[?c]"]) (simp add: st_flush_bit_buffer_def can_take_byte_def)
  next
    case 3
    then show ?thesis using ok oi
      by (intro exI [of _ HSES_FLUSH_BITS] exI [of _ "[]"]) (auto simp: st_flush_bit_buffer_def out_ok_def can_take_byte_def)
  qed
qed

end
