(* ===== verification/Polling.thy ===== *)
theory Polling
  imports Memory
begin

text \<open>
  The interface of a polling loop: the turns of a state machine until one of them returns. A machine whose
  invariant keeps every turn defined and whose weight falls on every turn that goes on, always returns,
  with a result that is right for the state the loop was entered in. The invariant may mention a history
  (a ghost) that the turns extend.
\<close>

locale polling =
  fixes loop :: "'s \<Rightarrow> 'r option"
    and turn :: "'s \<Rightarrow> ('r + 's) option"
    and inv :: "'g \<Rightarrow> 's \<Rightarrow> bool"
    and good :: "'g \<Rightarrow> 's \<Rightarrow> 'r \<Rightarrow> bool"
    and weight :: "'s \<Rightarrow> nat"
  assumes unroll: "loop s = (case turn s of None \<Rightarrow> None | Some (Inl r) \<Rightarrow> Some r | Some (Inr s') \<Rightarrow> loop s')"
    and defined: "inv g s \<Longrightarrow> \<exists>x. turn s = Some x"
    and returns: "inv g s \<Longrightarrow> turn s = Some (Inl r) \<Longrightarrow> good g s r"
    and goes_on: "inv g s \<Longrightarrow> turn s = Some (Inr s') \<Longrightarrow>
      weight s' < weight s \<and> (\<exists>g'. inv g' s' \<and> (\<forall>r. good g' s' r \<longrightarrow> good g s r))"
begin

lemma loop_returns: "inv g s \<Longrightarrow> \<exists>r. loop s = Some r \<and> good g s r"
proof (induction "weight s" arbitrary: g s rule: less_induct)
  case less
  obtain x where x: "turn s = Some x" using defined [OF less.prems] by blast
  show ?case
  proof (cases x)
    case (Inl r)
    then show ?thesis using x returns [OF less.prems] unroll [of s] by simp
  next
    case (Inr s')
    then obtain g' where "weight s' < weight s" "inv g' s'" "\<forall>r. good g' s' r \<longrightarrow> good g s r"
      using goes_on [OF less.prems] x by blast
    then show ?thesis using less.hyps [of s' g'] x Inr unroll [of s] by auto
  qed
qed

end

end
