(* ===== verification/Heatshrink_Encoder_Poll.thy ===== *)
theory Heatshrink_Encoder_Poll
  imports Heatshrink_Encoder_Yield Polling
begin

text \<open>
  The polling loop of the encoder as a polling machine, and the calls of its interface: an invariant that
  relates the encoder to the bytes it was fed and the bytes it delivered.
\<close>

section \<open>The loop\<close>

lemma HSE_of_byte [simp]: "HSE_of (HSE_byte st) = Some st"
  by (cases st) (simp_all add: HSE_of_def)

lemma HSE_byte_inject [simp]: "HSE_byte s = HSE_byte t \<longleftrightarrow> s = t"
  by (metis HSE_of_byte option.inject)

lemma enc_ok_state [simp]: "enc_ok U st (e\<lparr>he_state := s\<rparr>) S D = enc_ok U st e S D"
  by (cases st) (simp_all add: enc_ok_def enc_says_def enc_config_def stream_held_def ready_def is_finishing_def match_ok_def last_literal_def)

lemma eweight_state [simp]: "eweight st (e\<lparr>he_state := s\<rparr>) = eweight st e"
  by (cases st) (simp_all add: eweight_def)

text \<open>The states between which a turn of the loop moves.\<close>

definition working :: "HSE_state \<Rightarrow> bool" where
  "working st \<longleftrightarrow> st \<noteq> HSES_NOT_FULL \<and> st \<noteq> HSES_FLUSH_BITS \<and> st \<noteq> HSES_DONE"

lemma encoder_step_ok:
  assumes ok: "enc_ok U st e S D" and oi: "out_ok W oi" and w: "working st"
  shows "\<exists>s e' oi'. encoder_step U st e oi = Some (s, e', oi') \<and> enc_step_ok U st e oi S D (s, e', oi') \<and> (s = st \<longrightarrow> st \<noteq> HSES_SAVE_BACKLOG)"
proof (cases st)
  case HSES_FILLED
  then show ?thesis using do_indexing_ok [of U e S D W oi] ok oi by (auto simp: encoder_step_def)
next
  case HSES_SEARCH
  then show ?thesis using st_step_search_ok [of U e S D W oi] ok oi by (auto simp: encoder_step_def)
next
  case HSES_YIELD_TAG_BIT
  then show ?thesis using st_yield_tag_bit_enc_ok [of U e S D W oi] ok oi by (auto simp: encoder_step_def)
next
  case HSES_YIELD_LITERAL
  then show ?thesis using st_yield_literal_hse_ok [of U e S D W oi] ok oi by (auto simp: encoder_step_def)
next
  case HSES_YIELD_BR_INDEX
  then show ?thesis using st_yield_br_index_ok [of U e S D W oi] ok oi by (auto simp: encoder_step_def)
next
  case HSES_YIELD_BR_LENGTH
  then show ?thesis using st_yield_br_length_ok [of U e S D W oi] ok oi by (auto simp: encoder_step_def)
next
  case HSES_SAVE_BACKLOG
  then show ?thesis using st_save_backlog_ok [of U e S D W oi] ok oi by (auto simp: encoder_step_def st_save_backlog_def)
qed (use w in \<open>simp_all add: working_def\<close>)

definition encoder_turn ::
  "bool \<Rightarrow> heatshrink_encoder \<times> output_info \<Rightarrow> ((HSE_poll_res \<times> heatshrink_encoder \<times> output_info) + (heatshrink_encoder \<times> output_info)) option" where
  "encoder_turn U = (\<lambda>(e, oi). case HSE_of (he_state e) of
     None \<Rightarrow> Some (Inl (HSER_POLL_ERROR_MISUSE, e, oi))
   | Some st \<Rightarrow>
       if st = HSES_NOT_FULL \<or> st = HSES_DONE then Some (Inl (HSER_POLL_EMPTY, e, oi))
       else if st = HSES_FLUSH_BITS
       then map_option (\<lambda>(s, oi'). Inl (HSER_POLL_EMPTY, e\<lparr>he_state := HSE_byte s\<rparr>, oi')) (st_flush_bit_buffer e oi)
       else map_option (\<lambda>(s, e', oi').
         if s = st \<and> oi_output_size oi' = oi_buf_size oi' then Inl (HSER_POLL_MORE, e'\<lparr>he_state := HSE_byte s\<rparr>, oi')
         else Inr (e'\<lparr>he_state := HSE_byte s\<rparr>, oi')) (encoder_step U st e oi))"

definition encoder_inv :: "bool \<Rightarrow> nat \<Rightarrow> u8 list \<Rightarrow> u8 list \<Rightarrow> heatshrink_encoder \<times> output_info \<Rightarrow> bool" where
  "encoder_inv U W S D = (\<lambda>(e, oi). \<exists>st. enc_ok U st e S D \<and> he_state e = HSE_byte st \<and> out_ok W oi)"

text \<open>
  A poll ends with the output buffer full, or waiting for input, or done; \<open>MORE\<close> means that the buffer is full.
\<close>

definition encoder_good ::
  "bool \<Rightarrow> u8 list \<Rightarrow> u8 list \<Rightarrow> heatshrink_encoder \<times> output_info \<Rightarrow> HSE_poll_res \<times> heatshrink_encoder \<times> output_info \<Rightarrow> bool" where
  "encoder_good U S D = (\<lambda>(e, oi) (res, e', oi'). \<exists>st' out. oi' = emit oi out \<and> oi_output_size oi + length out \<le> oi_buf_size oi
     \<and> enc_ok U st' e' S (D @ out) \<and> he_state e' = HSE_byte st' \<and> st' \<noteq> HSES_SAVE_BACKLOG
     \<and> (ewbits e', elbits e', he_flags e') = (ewbits e, elbits e, he_flags e)
     \<and> (res = HSER_POLL_EMPTY \<or> res = HSER_POLL_MORE \<and> oi_output_size oi' = oi_buf_size oi')
     \<and> (oi_output_size oi' = oi_buf_size oi' \<or> st' = HSES_NOT_FULL \<or> st' = HSES_DONE))"

definition encoder_weight :: "heatshrink_encoder \<times> output_info \<Rightarrow> nat" where
  "encoder_weight = (\<lambda>(e, oi). eweight (the (HSE_of (he_state e))) e)"

lemma encoder_unroll:
  "encoder_poll_loop U e oi = (case encoder_turn U (e, oi) of None \<Rightarrow> None | Some (Inl r) \<Rightarrow> Some r | Some (Inr (e', oi')) \<Rightarrow> encoder_poll_loop U e' oi')"
  by (subst encoder_poll_loop.simps) (auto simp: encoder_turn_def split: option.splits bind_splits prod.splits)

lemma encoder_good_stop:
  assumes "enc_ok U st e S D" and "he_state e = HSE_byte st" and "out_ok W oi" and "st = HSES_NOT_FULL \<or> st = HSES_DONE"
  shows "encoder_good U S D (e, oi) (HSER_POLL_EMPTY, e, oi)"
  using assms unfolding encoder_good_def by (auto simp: out_ok_def intro!: exI [of _ st] exI [of _ "[]"])

lemma encoder_good_flush:
  assumes "enc_ok U HSES_FLUSH_BITS e S D" and "he_state e = HSE_byte HSES_FLUSH_BITS" and "out_ok W oi"
    and "st_flush_bit_buffer e oi = Some (s, oi')"
  shows "encoder_good U S D (e, oi) (HSER_POLL_EMPTY, e\<lparr>he_state := HSE_byte s\<rparr>, oi')"
proof -
  obtain out where out: "oi' = emit oi out" "oi_output_size oi + length out \<le> oi_buf_size oi" "enc_ok U s e S (D @ out)"
    "s = HSES_DONE \<or> s = HSES_FLUSH_BITS \<and> oi_output_size oi + length out = oi_buf_size oi"
    using st_flush_bit_buffer_ok [OF assms(1,3)] assms(4) by auto
  then show ?thesis unfolding encoder_good_def by (auto intro!: exI [of _ s] exI [of _ out])
qed

lemma encoder_good_stay:
  assumes "enc_step_ok U st e oi S D (st, e', oi')" and "oi_output_size oi' = oi_buf_size oi'" and "st \<noteq> HSES_SAVE_BACKLOG"
  shows "encoder_good U S D (e, oi) (HSER_POLL_MORE, e'\<lparr>he_state := HSE_byte st\<rparr>, oi')"
proof -
  obtain out where "oi' = emit oi out" "oi_output_size oi + length out \<le> oi_buf_size oi" "enc_ok U st e' S (D @ out)"
    "(ewbits e', elbits e', he_flags e') = (ewbits e, elbits e, he_flags e)"
    using assms(1) by (auto simp: enc_step_ok_def)
  then show ?thesis using assms(2,3) unfolding encoder_good_def by (auto intro!: exI [of _ st] exI [of _ out])
qed

lemma encoder_good_step:
  assumes "enc_step_ok U st e oi S D (s, e', oi')" and "out_ok W oi" and "\<not> (s = st \<and> oi_output_size oi' = oi_buf_size oi')"
  shows "eweight s e' < eweight st e \<and> (\<exists>D'. encoder_inv U W S D' (e'\<lparr>he_state := HSE_byte s\<rparr>, oi')
    \<and> (\<forall>r. encoder_good U S D' (e'\<lparr>he_state := HSE_byte s\<rparr>, oi') r \<longrightarrow> encoder_good U S D (e, oi) r))"
proof -
  obtain out where out: "oi' = emit oi out" "oi_output_size oi + length out \<le> oi_buf_size oi" "enc_ok U s e' S (D @ out)"
    "(ewbits e', elbits e', he_flags e') = (ewbits e, elbits e, he_flags e)" "eweight s e' < eweight st e"
    using assms(1,3) by (auto simp: enc_step_ok_def)
  have "emit (emit oi out) more = emit oi (out @ more)" for more
    using assms(2) by (intro emit_emit) (simp add: out_ok_def)
  then have "encoder_good U S (D @ out) (e'\<lparr>he_state := HSE_byte s\<rparr>, oi') r \<Longrightarrow> encoder_good U S D (e, oi) r" for r
    using out unfolding encoder_good_def by (cases r) (fastforce simp: add.assoc intro: exI [of _ "out @ _"])
  moreover have "encoder_inv U W S (D @ out) (e'\<lparr>he_state := HSE_byte s\<rparr>, oi')"
    using out out_ok_emit [OF assms(2) out(2)] by (auto simp: encoder_inv_def)
  ultimately show ?thesis using out(5) by blast
qed

lemma encoder_turn_cases:
  assumes inv: "encoder_inv U W S D (e, oi)"
  obtains (stop) st where "enc_ok U st e S D" "he_state e = HSE_byte st" "out_ok W oi" "st = HSES_NOT_FULL \<or> st = HSES_DONE"
      "encoder_turn U (e, oi) = Some (Inl (HSER_POLL_EMPTY, e, oi))"
  | (flush) s oi' where "enc_ok U HSES_FLUSH_BITS e S D" "he_state e = HSE_byte HSES_FLUSH_BITS" "out_ok W oi"
      "st_flush_bit_buffer e oi = Some (s, oi')" "encoder_turn U (e, oi) = Some (Inl (HSER_POLL_EMPTY, e\<lparr>he_state := HSE_byte s\<rparr>, oi'))"
  | (step) st s e' oi' where "he_state e = HSE_byte st" "out_ok W oi" "enc_step_ok U st e oi S D (s, e', oi')" "s = st \<longrightarrow> st \<noteq> HSES_SAVE_BACKLOG"
      "encoder_turn U (e, oi) = Some (if s = st \<and> oi_output_size oi' = oi_buf_size oi'
        then Inl (HSER_POLL_MORE, e'\<lparr>he_state := HSE_byte s\<rparr>, oi') else Inr (e'\<lparr>he_state := HSE_byte s\<rparr>, oi'))"
proof -
  obtain st where st: "enc_ok U st e S D" "he_state e = HSE_byte st" "out_ok W oi" using inv by (auto simp: encoder_inv_def)
  have hse: "HSE_of (he_state e) = Some st" by (simp only: st(2) HSE_of_byte)
  consider "st = HSES_NOT_FULL \<or> st = HSES_DONE" | "st = HSES_FLUSH_BITS" | "working st" by (auto simp: working_def)
  then show thesis
  proof cases
    case 1
    then show thesis using stop [OF st] hse by (simp add: encoder_turn_def)
  next
    case 2
    obtain s out where fl: "st_flush_bit_buffer e oi = Some (s, emit oi out)" using st_flush_bit_buffer_ok [of U e S D W oi] st 2 by auto
    then show thesis using flush [OF _ _ st(3) fl] st(1,2) hse 2 by (simp add: encoder_turn_def)
  next
    case 3
    obtain s e' oi' where r: "encoder_step U st e oi = Some (s, e', oi')" "enc_step_ok U st e oi S D (s, e', oi')" "s = st \<longrightarrow> st \<noteq> HSES_SAVE_BACKLOG"
      using encoder_step_ok [OF st(1,3) 3] by auto
    then have "encoder_turn U (e, oi) = Some (if s = st \<and> oi_output_size oi' = oi_buf_size oi'
        then Inl (HSER_POLL_MORE, e'\<lparr>he_state := HSE_byte s\<rparr>, oi') else Inr (e'\<lparr>he_state := HSE_byte s\<rparr>, oi'))"
      using hse 3 by (simp add: encoder_turn_def working_def)
    then show thesis using step [OF st(2,3) r(2,3)] by simp
  qed
qed

interpretation enc_poll: polling "\<lambda>(e, oi). encoder_poll_loop U e oi" "encoder_turn U" "encoder_inv U W S" "encoder_good U S" encoder_weight for U W S
proof
  fix s
  show "(case s of (e, oi) \<Rightarrow> encoder_poll_loop U e oi)
      = (case encoder_turn U s of None \<Rightarrow> None | Some (Inl r) \<Rightarrow> Some r | Some (Inr s') \<Rightarrow> (case s' of (e, oi) \<Rightarrow> encoder_poll_loop U e oi))"
    using encoder_unroll by (cases s) simp
next
  fix D s assume "encoder_inv U W S D s"
  then show "\<exists>x. encoder_turn U s = Some x" by (cases s) (blast elim: encoder_turn_cases)
next
  fix D s r assume inv: "encoder_inv U W S D s" and turn: "encoder_turn U s = Some (Inl r)"
  obtain e oi where s: "s = (e, oi)" by (cases s)
  show "encoder_good U S D s r"
    using inv turn unfolding s
    by (elim encoder_turn_cases) (auto dest: encoder_good_stop encoder_good_flush encoder_good_stay split: if_splits)
next
  fix D s s' assume inv: "encoder_inv U W S D s" and turn: "encoder_turn U s = Some (Inr s')"
  obtain e oi where s: "s = (e, oi)" by (cases s)
  show "encoder_weight s' < encoder_weight s \<and> (\<exists>D'. encoder_inv U W S D' s' \<and> (\<forall>r. encoder_good U S D' s' r \<longrightarrow> encoder_good U S D s r))"
    using inv turn unfolding s
  proof (elim encoder_turn_cases)
    fix st st' e' oi' assume step: "he_state e = HSE_byte st" "out_ok W oi" "enc_step_ok U st e oi S D (st', e', oi')"
      and t: "encoder_turn U (e, oi) = Some (if st' = st \<and> oi_output_size oi' = oi_buf_size oi'
        then Inl (HSER_POLL_MORE, e'\<lparr>he_state := HSE_byte st'\<rparr>, oi') else Inr (e'\<lparr>he_state := HSE_byte st'\<rparr>, oi'))"
    have "\<not> (st' = st \<and> oi_output_size oi' = oi_buf_size oi')" "s' = (e'\<lparr>he_state := HSE_byte st'\<rparr>, oi')"
      using t turn unfolding s by (auto split: if_splits)
    then show "encoder_weight s' < encoder_weight (e, oi) \<and> (\<exists>D'. encoder_inv U W S D' s' \<and> (\<forall>r. encoder_good U S D' s' r \<longrightarrow> encoder_good U S D (e, oi) r))"
      using encoder_good_step [OF step(3,2)] step(1) by (simp add: encoder_weight_def)
  qed (use turn s in auto)
qed

lemma encoder_poll_loop_ok:
  "enc_ok U st e S D \<Longrightarrow> he_state e = HSE_byte st \<Longrightarrow> out_ok W oi \<Longrightarrow>
    \<exists>r. encoder_poll_loop U e oi = Some r \<and> encoder_good U S D (e, oi) r"
  using enc_poll.loop_returns [of U W S D "(e, oi)"] by (auto simp: encoder_inv_def)

end
