(* ===== verification/Heatshrink_Window.thy ===== *)
theory Heatshrink_Window
  imports Heatshrink_Reader
begin

text \<open>
  The circular window of the decoder holds the last \<open>2 ^ window_sz2\<close> bytes of the output, with zeros where
  nothing has been written; a copy through it is the copy of the format.
\<close>

section \<open>The window and the history\<close>

definition window_holds :: "nat \<Rightarrow> u8 list \<Rightarrow> u8 list \<Rightarrow> bool" where
  "window_holds w win h \<longleftrightarrow> 2 ^ w \<le> length win
     \<and> (\<forall>i < length h. length h \<le> i + 2 ^ w \<longrightarrow> win ! (i mod 2 ^ w) = h ! i)
     \<and> (\<forall>i < 2 ^ w. length h \<le> i \<longrightarrow> win ! i = 0)"

lemma window_holds_length: "window_holds w win h \<Longrightarrow> i mod 2 ^ w < length win"
  unfolding window_holds_def by (meson less_le_trans mod_less_divisor zero_less_numeral zero_less_power)

lemma mod_near_neq:
  assumes "i < (n :: nat)" and "n < i + m"
  shows "i mod m \<noteq> n mod m"
proof
  assume "i mod m = n mod m"
  then have "m dvd n - i" using assms mod_eq_dvd_iff_nat [of i n m] by simp
  then show False using assms by (auto dest: dvd_imp_le)
qed

lemma window_push:
  assumes "window_holds w win h"
  shows "window_holds w (win[length h mod 2 ^ w := c]) (h @ [c])"
proof -
  have "win[length h mod 2 ^ w := c] ! (i mod 2 ^ w) = (h @ [c]) ! i" if "i < Suc (length h)" "Suc (length h) \<le> i + 2 ^ w" for i
  proof (cases "i = length h")
    case True
    then show ?thesis using window_holds_length [OF assms] by simp
  next
    case False
    then have "length h mod 2 ^ w \<noteq> i mod 2 ^ w" using that mod_near_neq [of i "length h" "2 ^ w"] by simp
    then show ?thesis using False that assms by (simp add: window_holds_def nth_append)
  qed
  moreover have "win[length h mod 2 ^ w := c] ! i = 0" if "i < 2 ^ w" "Suc (length h) \<le> i" for i
    using that assms by (simp add: window_holds_def)
  ultimately show ?thesis using assms by (simp add: window_holds_def)
qed

text \<open>The slot that lies \<open>off\<close> bytes back.\<close>

lemma window_back:
  assumes "window_holds w win h" and "1 \<le> off" and "off \<le> 2 ^ w"
  shows "win ! nat ((int (length h) - int off) mod 2 ^ w) = look_back h off"
proof (cases "off \<le> length h")
  case True
  then have "nat ((int (length h) - int off) mod 2 ^ w) = (length h - off) mod 2 ^ w"
    by (simp add: nat_mod_distrib nat_diff_distrib nat_power_eq flip: of_nat_diff)
  moreover have "win ! ((length h - off) mod 2 ^ w) = h ! (length h - off)"
    using assms True by (simp add: window_holds_def)
  ultimately show ?thesis using True by (simp add: look_back_def)
next
  case False
  have "(int (length h) - int off) mod 2 ^ w = (int (length h) - int off + int (2 ^ w)) mod int (2 ^ w)" by simp
  also have "\<dots> = int (length h) - int off + int (2 ^ w)"
    using False assms(2) of_nat_mono [OF assms(3), where ?'a = int] by (intro mod_pos_pos_trivial; linarith)
  also have "\<dots> = int (length h + 2 ^ w - off)" using assms(3) by (simp add: of_nat_diff trans_le_add2)
  finally have "nat ((int (length h) - int off) mod 2 ^ w) = length h + 2 ^ w - off" by simp
  moreover have "win ! (length h + 2 ^ w - off) = 0"
    using assms False by (simp add: window_holds_def)
  ultimately show ?thesis using False by (simp add: look_back_def)
qed

section \<open>Indices as words\<close>

lemma uint_of_nat: "uint (of_nat n :: 'a::len word) = int n mod 2 ^ LENGTH('a)"
  by (simp add: unsigned_of_nat take_bit_eq_mod zmod_int)

lemma mod_pow16: "w \<le> 16 \<Longrightarrow> (x mod 2 ^ LENGTH(16)) mod 2 ^ w = x mod 2 ^ w" for x :: int
  by (rule mod_mod_cancel) (intro le_imp_power_dvd; simp)

lemma head_slot:
  assumes "w \<le> 16"
  shows "unat (of_nat n AND (shl 1 w - 1) :: u16) = n mod 2 ^ w"
proof -
  have "uint (of_nat n AND (shl 1 w - 1) :: u16) = int (n mod 2 ^ w)"
    by (simp only: uint_and_low uint_of_nat mod_pow16 [OF assms] zmod_int of_nat_power of_nat_numeral)
  then show ?thesis by (simp only: unat_eq_nat_uint nat_int)
qed

lemma back_slot:
  assumes "w \<le> 16"
  shows "unat ((of_nat n - off) AND (shl 1 w - 1) :: u16) = nat ((int n - int (unat off)) mod 2 ^ w)"
proof -
  have "uint ((of_nat n - off) AND (shl 1 w - 1) :: u16) = (int n - uint off) mod 2 ^ w"
    by (simp only: uint_and_low uint_word_ariths uint_of_nat mod_diff_left_eq mod_pow16 [OF assms])
  then show ?thesis by (simp only: unat_eq_nat_uint int_nat_eq uint_ge_0 if_True)
qed

end
