(* ===== verification/Heatshrink_Steps.thy ===== *)
theory Heatshrink_Steps
  imports Heatshrink_Window
begin

text \<open>
  Every state of the decoder's polling machine keeps the decoder well formed, touches memory only inside
  its objects, and leaves the remaining meaning of the stream unchanged.
\<close>

section \<open>Well-formed decoders and what they stand for\<close>

abbreviation wbits :: "heatshrink_decoder \<Rightarrow> nat" where "wbits d \<equiv> unat (hd_window_sz2 d)"
abbreviation lbits :: "heatshrink_decoder \<Rightarrow> nat" where "lbits d \<equiv> unat (hd_lookahead_sz2 d)"
abbreviation oindex :: "heatshrink_decoder \<Rightarrow> nat" where "oindex d \<equiv> unat (hd_output_index d)"
abbreviation ocount :: "heatshrink_decoder \<Rightarrow> nat" where "ocount d \<equiv> unat (hd_output_count d)"

definition config_ok :: "heatshrink_decoder \<Rightarrow> bool" where
  "config_ok d \<longleftrightarrow> wbits d \<le> 15 \<and> 3 \<le> lbits d \<and> lbits d < wbits d
     \<and> unat (hd_input_size d) \<le> unat (hd_input_buffer_size d) \<and> unat (hd_input_buffer_size d) \<le> length (hd_input_buffer d)"

fun token_ok :: "HSD_state \<Rightarrow> heatshrink_decoder \<Rightarrow> bool" where
  "token_ok HSDS_BACKREF_INDEX_MSB d \<longleftrightarrow> 8 < wbits d"
| "token_ok HSDS_BACKREF_INDEX_LSB d \<longleftrightarrow> 2 ^ min 8 (wbits d) dvd oindex d \<and> oindex d < 2 ^ wbits d"
| "token_ok HSDS_BACKREF_COUNT_MSB d \<longleftrightarrow> 8 < lbits d \<and> oindex d \<in> {1..2 ^ wbits d}"
| "token_ok HSDS_BACKREF_COUNT_LSB d \<longleftrightarrow>
     2 ^ min 8 (lbits d) dvd ocount d \<and> ocount d < 2 ^ lbits d \<and> oindex d \<in> {1..2 ^ wbits d}"
| "token_ok HSDS_YIELD_BACKREF d \<longleftrightarrow> ocount d \<in> {1..2 ^ lbits d} \<and> oindex d \<in> {1..2 ^ wbits d}"
| "token_ok _ d \<longleftrightarrow> True"

definition dec_ok :: "HSD_state \<Rightarrow> heatshrink_decoder \<Rightarrow> u8 list \<Rightarrow> bool" where
  "dec_ok st d h \<longleftrightarrow> config_ok d \<and> reader_ok d \<and> token_ok st d
     \<and> hd_head_index d = of_nat (length h) \<and> window_holds (wbits d) (hd_window_buffer d) h"

text \<open>The output that the decoder stands for, when \<open>h\<close> has been written and \<open>bs\<close> are the bits to come.\<close>

fun hs_from :: "HSD_state \<Rightarrow> heatshrink_decoder \<Rightarrow> u8 list \<Rightarrow> bool list \<Rightarrow> u8 list" where
  "hs_from HSDS_TAG_BIT d h bs = hs_decode (wbits d) (lbits d) h bs"
| "hs_from HSDS_YIELD_LITERAL d h bs = hs_decode (wbits d) (lbits d) h (True # bs)"
| "hs_from HSDS_BACKREF_INDEX_MSB d h bs = hs_backref (wbits d) (lbits d) h 0 (wbits d) 0 (lbits d) bs"
| "hs_from HSDS_BACKREF_INDEX_LSB d h bs = hs_backref (wbits d) (lbits d) h (oindex d) (min 8 (wbits d)) 0 (lbits d) bs"
| "hs_from HSDS_BACKREF_COUNT_MSB d h bs = hs_backref (wbits d) (lbits d) h (oindex d - 1) 0 0 (lbits d) bs"
| "hs_from HSDS_BACKREF_COUNT_LSB d h bs = hs_backref (wbits d) (lbits d) h (oindex d - 1) 0 (ocount d) (min 8 (lbits d)) bs"
| "hs_from HSDS_YIELD_BACKREF d h bs = hs_decode (wbits d) (lbits d) (copy_back (ocount d) (oindex d) h) bs"

text \<open>The bits a state needs to advance.\<close>

fun needed :: "HSD_state \<Rightarrow> heatshrink_decoder \<Rightarrow> nat" where
  "needed HSDS_TAG_BIT d = 1"
| "needed HSDS_YIELD_LITERAL d = 8"
| "needed HSDS_BACKREF_INDEX_MSB d = wbits d - 8"
| "needed HSDS_BACKREF_INDEX_LSB d = min 8 (wbits d)"
| "needed HSDS_BACKREF_COUNT_MSB d = lbits d - 8"
| "needed HSDS_BACKREF_COUNT_LSB d = min 8 (lbits d)"
| "needed HSDS_YIELD_BACKREF d = 0"

definition weight :: "HSD_state \<Rightarrow> heatshrink_decoder \<Rightarrow> nat" where
  "weight st d = 2 * length (pending d) + of_bool (st = HSDS_YIELD_BACKREF)"

definition starved :: "HSD_state \<Rightarrow> heatshrink_decoder \<Rightarrow> bool" where
  "starved st d \<longleftrightarrow> length (pending d) < needed st d"

text \<open>Why a state does not advance: too few bits, or no room for the output of a yielding state.\<close>

definition stopped :: "HSD_state \<Rightarrow> heatshrink_decoder \<Rightarrow> output_info \<Rightarrow> bool" where
  "stopped st d oi \<longleftrightarrow> starved st d
     \<or> oi_output_size oi = oi_buf_size oi \<and> (st = HSDS_YIELD_LITERAL \<or> st = HSDS_YIELD_BACKREF)"

definition step_ok ::
  "HSD_state \<Rightarrow> heatshrink_decoder \<Rightarrow> u8 list \<Rightarrow> output_info \<Rightarrow> HSD_state \<times> heatshrink_decoder \<times> output_info \<Rightarrow> bool" where
  "step_ok st d h oi = (\<lambda>(st', d', oi'). \<exists>out. oi' = emit oi out \<and> oi_output_size oi + length out \<le> oi_buf_size oi
     \<and> dec_ok st' d' (h @ out) \<and> hd_state d' = hd_state d \<and> (wbits d', lbits d') = (wbits d, lbits d)
     \<and> (\<forall>X. hs_from st' d' (h @ out) (pending d' @ X) = hs_from st d h (pending d @ X))
     \<and> (if st' = st then stopped st d' oi' else weight st' d' < weight st d))"

lemma pending_simps [simp]:
  "pending (d\<lparr>hd_output_index := i\<rparr>) = pending d" "pending (d\<lparr>hd_output_count := c\<rparr>) = pending d"
  "pending (d\<lparr>hd_window_buffer := win, hd_head_index := k\<rparr>) = pending d" "pending (d\<lparr>hd_state := s\<rparr>) = pending d"
  "pending (d\<lparr>hd_output_index := i, hd_output_count := c\<rparr>) = pending d"
  by (simp_all add: pending_def)

lemma reader_ok_simps [simp]:
  "reader_ok (d\<lparr>hd_output_index := i\<rparr>) = reader_ok d" "reader_ok (d\<lparr>hd_output_count := c\<rparr>) = reader_ok d"
  "reader_ok (d\<lparr>hd_window_buffer := win, hd_head_index := k\<rparr>) = reader_ok d" "reader_ok (d\<lparr>hd_state := s\<rparr>) = reader_ok d"
  "reader_ok (d\<lparr>hd_output_index := i, hd_output_count := c\<rparr>) = reader_ok d"
  by (simp_all add: reader_ok_def)

lemma frame_config: "reader_frame d d' \<Longrightarrow> config_ok d \<Longrightarrow> config_ok d'"
  using reader_frame_shrinks [of d d'] by (simp add: config_ok_def reader_frame_fields [of d d'])

text \<open>
  Reading \<open>needed\<close> bits, as the states do: either the decoder is starved and unchanged, or the value is
  read and the invariant holds of everything but the token.
\<close>

lemma needed_bits:
  "dec_ok st d h \<Longrightarrow> st \<noteq> HSDS_YIELD_BACKREF \<Longrightarrow> 0 < needed st d \<and> needed st d \<le> 8"
  by (cases st) (auto simp: dec_ok_def config_ok_def)

lemma read_needed:
  assumes "dec_ok st d h" and "st \<noteq> HSDS_YIELD_BACKREF" and "\<not> starved st d"
  obtains d' where "get_bits d (needed st d) = Some (of_nat (bits_value (take (needed st d) (pending d))), d')"
    "reader_frame d d'" "reader_ok d'" "config_ok d'" "pending d' = drop (needed st d) (pending d)"
  using assms needed_bits [OF assms(1,2)] get_bits_enough [of d "needed st d"] frame_config [of d]
  unfolding dec_ok_def starved_def by fastforce

lemma starved_read:
  "dec_ok st d h \<Longrightarrow> st \<noteq> HSDS_YIELD_BACKREF \<Longrightarrow> starved st d \<Longrightarrow> get_bits d (needed st d) = Some (NO_BITS, d)"
  using needed_bits [of st d h] get_bits_short [of d "needed st d"] by (simp add: dec_ok_def starved_def)

lemma starved_step: "dec_ok st d h \<Longrightarrow> starved st d \<Longrightarrow> out_ok W oi \<Longrightarrow> step_ok st d h oi (st, d, oi)"
  unfolding step_ok_def stopped_def by (auto simp: out_ok_def intro: exI [of _ "[]"])

lemma silent_step:
  assumes "dec_ok st' d' h" and "hd_state d' = hd_state d" and "(wbits d', lbits d') = (wbits d, lbits d)" and "out_ok W oi"
    and "\<And>X. hs_from st' d' h (pending d' @ X) = hs_from st d h (pending d @ X)"
    and "st' \<noteq> st" and "length (pending d') < length (pending d)"
  shows "step_ok st d h oi (st', d', oi)"
  using assms unfolding step_ok_def by (auto simp: out_ok_def weight_def intro!: exI [of _ "[]"])

section \<open>Words\<close>

lemma unat_or_low:
  fixes x y :: "'a::len word"
  assumes "2 ^ k dvd unat x" and "unat y < 2 ^ k"
  shows "unat (x OR y) = unat x + unat y"
proof -
  have "take_bit k (unat x) = 0" using assms(1) by (simp add: take_bit_eq_0_iff)
  then have "\<not> bit (unat x) n" if "n < k" for n using that by (metis bit_0 bit_take_bit_iff bit_0_eq bot_apply bot_bool_def)
  moreover have "\<not> bit (unat y) n" if "k \<le> n" for n
    using that assms(2) by (metis bit_take_bit_iff linorder_not_less take_bit_nat_eq_self)
  ultimately have "unat x + unat y = unat x OR unat y" by (intro disjunctive_add) (meson not_le_imp_less)
  then show ?thesis by (simp add: unsigned_or_eq)
qed

lemma unat_small_of_nat: "v < 2 ^ LENGTH('a) \<Longrightarrow> unat (of_nat v :: 'a::len word) = v"
  by (simp add: unsigned_of_nat take_bit_nat_eq_self)

lemma unat_shl8: "v < 2 ^ 7 \<Longrightarrow> unat (shl (of_nat v) 8 :: u16) = v * 2 ^ 8"
  using unat_small_of_nat [of "v * 2 ^ 8", where ?'a = 16] by (simp add: push_bit_eq_mult)

lemma unat_or_succ:
  assumes "2 ^ k dvd unat x" and "v < 2 ^ k" and "k \<le> 8" and "unat x < 2 ^ n" and "n \<le> 15" and "k \<le> n"
  shows "unat ((x OR of_nat v) + 1 :: u16) = unat x + v + 1" and "unat x + v < 2 ^ n"
proof -
  have v: "unat (of_nat v :: u16) = v"
    using assms(2,3) power_increasing [of k 8 "2 :: nat"] by (intro unat_small_of_nat) simp
  obtain q where q: "unat x = 2 ^ k * q" using assms(1) by blast
  have "q < 2 ^ (n - k)" using assms(4,6) unfolding q by (metis le_add_diff_inverse nat_mult_less_cancel1 power_add zero_less_numeral zero_less_power)
  then have "2 ^ k * Suc q \<le> 2 ^ k * 2 ^ (n - k)" by (intro mult_le_mono) auto
  then show less: "unat x + v < 2 ^ n" using assms(2,6) unfolding q by (simp flip: power_add)
  have "unat (x OR of_nat v) = unat x + v" using unat_or_low [of k x "of_nat v"] assms(1,2) v by simp
  moreover have "Suc (unat x + v) < 2 ^ 16" using less assms(5) power_increasing [of n 15 "2 :: nat"] by simp
  ultimately show "unat ((x OR of_nat v) + 1 :: u16) = unat x + v + 1" by (simp add: unat_word_ariths)
qed

lemma high_bits: "n \<le> 7 \<Longrightarrow> bits_value (take n bs) < 2 ^ 7"
  using bits_value_take_less [of n bs] power_increasing [of n 7 "2 :: nat"] by simp

lemma high_value: "8 < n \<Longrightarrow> v < 2 ^ (n - 8) \<Longrightarrow> v * 2 ^ 8 < (2 :: nat) ^ n"
  using power_add [of "2 :: nat" "n - 8" 8] by simp

section \<open>Reading states\<close>

text \<open>The common shape of the states that only read: stay when starved, otherwise go on with the value.\<close>

definition got_bits :: "HSD_state \<Rightarrow> heatshrink_decoder \<Rightarrow> nat \<Rightarrow> heatshrink_decoder \<Rightarrow> bool" where
  "got_bits st d v d' \<longleftrightarrow> v = bits_value (take (needed st d) (pending d)) \<and> needed st d \<le> length (pending d)
     \<and> reader_frame d d' \<and> reader_ok d' \<and> config_ok d' \<and> pending d' = drop (needed st d) (pending d)"

lemma reading_step:
  assumes ok: "dec_ok st d h" and oi: "out_ok W oi" and st: "st \<noteq> HSDS_YIELD_BACKREF"
    and f: "f = Option.bind (get_bits d (needed st d)) (\<lambda>(bits, d'). Some (if bits = NO_BITS then (st, d') else g bits d'))"
    and g: "\<And>d' v. got_bits st d v d' \<Longrightarrow> step_ok st d h oi (fst (g (of_nat v) d'), snd (g (of_nat v) d'), oi)"
  shows "\<exists>s d'. f = Some (s, d') \<and> step_ok st d h oi (s, d', oi)"
proof (cases "starved st d")
  case True
  then show ?thesis using starved_step [OF ok True oi] starved_read [OF ok st True] f by simp
next
  case False
  then obtain d' v where "get_bits d (needed st d) = Some (of_nat v, d')" and got: "got_bits st d v d'"
    using read_needed [OF ok st False] by (auto simp: got_bits_def starved_def)
  moreover have "of_nat v \<noteq> NO_BITS"
    using got needed_bits [OF ok st] bits_value_not_NO_BITS [of "needed st d"] by (simp add: got_bits_def)
  ultimately show ?thesis using g [OF got] f by (intro exI [of _ "fst (g (of_nat v) d')"] exI [of _ "snd (g (of_nat v) d')"]) simp
qed

lemma st_tag_bit_ok:
  assumes ok: "dec_ok HSDS_TAG_BIT d h" and oi: "out_ok W oi"
  shows "\<exists>s d'. st_tag_bit d = Some (s, d') \<and> step_ok HSDS_TAG_BIT d h oi (s, d', oi)"
proof (rule reading_step [OF ok oi, where g = "\<lambda>bits d. if 0 < bits then (HSDS_YIELD_LITERAL, d)
      else if 8 < hd_window_sz2 d then (HSDS_BACKREF_INDEX_MSB, d) else (HSDS_BACKREF_INDEX_LSB, d\<lparr>hd_output_index := 0\<rparr>)"])
  fix d' v assume got: "got_bits HSDS_TAG_BIT d v d'"
  then have d': "reader_frame d d'" "reader_ok d'" "config_ok d'" by (auto simp: got_bits_def)
  note f = reader_frame_fields [OF d'(1)]
  obtain b bs where bs: "pending d = b # bs" "pending d' = bs" "v = of_bool b"
    using got by (cases "pending d") (auto simp: got_bits_def bits_value_Cons)
  have "step_ok HSDS_TAG_BIT d h oi (HSDS_YIELD_LITERAL, d', oi)" if b
    using ok oi d' f bs that by (intro silent_step) (auto simp: dec_ok_def)
  moreover have "step_ok HSDS_TAG_BIT d h oi (HSDS_BACKREF_INDEX_MSB, d', oi)" if "\<not> b" "8 < hd_window_sz2 d'"
    using ok oi d' f bs that
    by (intro silent_step) (auto simp: dec_ok_def hs_decode_backref word_less_nat_alt simp del: hs_decode.simps)
  moreover have "step_ok HSDS_TAG_BIT d h oi (HSDS_BACKREF_INDEX_LSB, d'\<lparr>hd_output_index := 0\<rparr>, oi)"
    if "\<not> b" "\<not> 8 < hd_window_sz2 d'"
    using ok oi d' f bs that
    by (intro silent_step)
      (auto simp: dec_ok_def config_ok_def hs_decode_backref word_less_nat_alt min_def simp del: hs_decode.simps)
  ultimately show "step_ok HSDS_TAG_BIT d h oi (fst (if 0 < (of_nat v :: u16) then (HSDS_YIELD_LITERAL, d')
      else if 8 < hd_window_sz2 d' then (HSDS_BACKREF_INDEX_MSB, d') else (HSDS_BACKREF_INDEX_LSB, d'\<lparr>hd_output_index := 0\<rparr>)),
    snd (if 0 < (of_nat v :: u16) then (HSDS_YIELD_LITERAL, d')
      else if 8 < hd_window_sz2 d' then (HSDS_BACKREF_INDEX_MSB, d') else (HSDS_BACKREF_INDEX_LSB, d'\<lparr>hd_output_index := 0\<rparr>)), oi)"
    using bs by (cases b) simp_all
qed (simp_all add: st_tag_bit_def)

lemma st_backref_index_msb_ok:
  assumes ok: "dec_ok HSDS_BACKREF_INDEX_MSB d h" and oi: "out_ok W oi"
  shows "\<exists>s d'. st_backref_index_msb d = Some (s, d') \<and> step_ok HSDS_BACKREF_INDEX_MSB d h oi (s, d', oi)"
proof -
  have w: "8 < wbits d" "wbits d \<le> 15" using ok by (auto simp: dec_ok_def config_ok_def)
  have "step_ok HSDS_BACKREF_INDEX_MSB d h oi (HSDS_BACKREF_INDEX_LSB, d'\<lparr>hd_output_index := shl (of_nat v) 8\<rparr>, oi)"
    if got: "got_bits HSDS_BACKREF_INDEX_MSB d v d'" for d' v
  proof -
    have d': "reader_frame d d'" "reader_ok d'" "config_ok d'" "pending d' = drop (wbits d - 8) (pending d)"
      and len: "wbits d - 8 \<le> length (pending d)" and v: "v = bits_value (take (wbits d - 8) (pending d))"
      using got by (simp_all add: got_bits_def)
    note f = reader_frame_fields [OF d'(1)]
    have less: "v < 2 ^ (wbits d - 8)" "v < 2 ^ 7" using w high_bits bits_value_take_less by (auto simp: v)
    show ?thesis
      using ok oi d' f less w len high_value [of "wbits d" v]
        hs_backref_index [of "wbits d - 8" "pending d @ _" "wbits d" "lbits d" h 0 8 0 "lbits d"]
      by (intro silent_step) (simp_all add: dec_ok_def config_ok_def unat_shl8 flip: v)
  qed
  moreover have "unat (hd_window_sz2 d - 8) = wbits d - 8" using w by (simp add: unat_sub word_le_nat_alt)
  ultimately show ?thesis
    by (intro reading_step [OF ok oi, where g = "\<lambda>bits d. (HSDS_BACKREF_INDEX_LSB, d\<lparr>hd_output_index := shl bits 8\<rparr>)"])
      (simp_all add: st_backref_index_msb_def)
qed

lemma st_backref_count_msb_ok:
  assumes ok: "dec_ok HSDS_BACKREF_COUNT_MSB d h" and oi: "out_ok W oi"
  shows "\<exists>s d'. st_backref_count_msb d = Some (s, d') \<and> step_ok HSDS_BACKREF_COUNT_MSB d h oi (s, d', oi)"
proof -
  have w: "8 < lbits d" "lbits d \<le> 15" using ok by (auto simp: dec_ok_def config_ok_def)
  have "step_ok HSDS_BACKREF_COUNT_MSB d h oi (HSDS_BACKREF_COUNT_LSB, d'\<lparr>hd_output_count := shl (of_nat v) 8\<rparr>, oi)"
    if got: "got_bits HSDS_BACKREF_COUNT_MSB d v d'" for d' v
  proof -
    have d': "reader_frame d d'" "reader_ok d'" "config_ok d'" "pending d' = drop (lbits d - 8) (pending d)"
      and len: "lbits d - 8 \<le> length (pending d)" and v: "v = bits_value (take (lbits d - 8) (pending d))"
      using got by (simp_all add: got_bits_def)
    note f = reader_frame_fields [OF d'(1)]
    have less: "v < 2 ^ (lbits d - 8)" "v < 2 ^ 7" using w high_bits bits_value_take_less by (auto simp: v)
    show ?thesis
      using ok oi d' f less w len high_value [of "lbits d" v]
        hs_backref_count [of "lbits d - 8" "pending d @ _" "wbits d" "lbits d" h "oindex d - 1" 0 8]
      by (intro silent_step) (simp_all add: dec_ok_def config_ok_def unat_shl8 flip: v)
  qed
  moreover have "unat (hd_lookahead_sz2 d - 8) = lbits d - 8" using w by (simp add: unat_sub word_le_nat_alt)
  ultimately show ?thesis
    by (intro reading_step [OF ok oi, where g = "\<lambda>bits d. (HSDS_BACKREF_COUNT_LSB, d\<lparr>hd_output_count := shl bits 8\<rparr>)"])
      (simp_all add: st_backref_count_msb_def)
qed

lemma low_bits_needed: "(if x < 8 then unat x else 8) = min 8 (unat x)" for x :: u8
  by (simp add: word_less_nat_alt)

lemma st_backref_index_lsb_ok:
  assumes ok: "dec_ok HSDS_BACKREF_INDEX_LSB d h" and oi: "out_ok W oi"
  shows "\<exists>s d'. st_backref_index_lsb d = Some (s, d') \<and> step_ok HSDS_BACKREF_INDEX_LSB d h oi (s, d', oi)"
proof -
  let ?g = "\<lambda>bits d. (if 8 < hd_lookahead_sz2 d then HSDS_BACKREF_COUNT_MSB else HSDS_BACKREF_COUNT_LSB,
    d\<lparr>hd_output_index := (hd_output_index d OR bits) + 1, hd_output_count := 0\<rparr>)"
  let ?n = "min 8 (wbits d)"
  have w: "wbits d \<le> 15" "2 ^ ?n dvd oindex d" "oindex d < 2 ^ wbits d" "0 < wbits d" using ok by (auto simp: dec_ok_def config_ok_def)
  have "step_ok HSDS_BACKREF_INDEX_LSB d h oi (fst (?g (of_nat v) d'), snd (?g (of_nat v) d'), oi)"
    if got: "got_bits HSDS_BACKREF_INDEX_LSB d v d'" for d' v
  proof -
    have d': "reader_frame d d'" "reader_ok d'" "config_ok d'" "pending d' = drop ?n (pending d)"
      and len: "?n \<le> length (pending d)" and v: "v = bits_value (take ?n (pending d))"
      using got by (simp_all add: got_bits_def)
    note f = reader_frame_fields [OF d'(1)]
    have "v < 2 ^ ?n" by (simp only: v bits_value_take_less)
    then have or: "unat ((hd_output_index d OR of_nat v) + 1) = oindex d + v + 1" "oindex d + v < 2 ^ wbits d"
      using unat_or_succ [of ?n "hd_output_index d" v "wbits d"] w by simp_all
    have sem: "hs_backref (wbits d) (lbits d) h (oindex d + v) 0 0 (lbits d) (pending d' @ X)
        = hs_backref (wbits d) (lbits d) h (oindex d) ?n 0 (lbits d) (pending d @ X)" for X
      using hs_backref_index [of ?n "pending d @ X" "wbits d" "lbits d" h "oindex d" 0 0 "lbits d"] len d'(4)
      by (simp flip: v)
    show ?thesis
      using ok oi d' f w len or sem
      by (intro silent_step) (auto simp: dec_ok_def config_ok_def word_less_nat_alt min_def split: if_splits)
  qed
  then show ?thesis
    by (intro reading_step [OF ok oi, where g = ?g]) (simp_all add: st_backref_index_lsb_def low_bits_needed)
qed

lemma st_backref_count_lsb_ok:
  assumes ok: "dec_ok HSDS_BACKREF_COUNT_LSB d h" and oi: "out_ok W oi"
  shows "\<exists>s d'. st_backref_count_lsb d = Some (s, d') \<and> step_ok HSDS_BACKREF_COUNT_LSB d h oi (s, d', oi)"
proof -
  let ?g = "\<lambda>bits d. (HSDS_YIELD_BACKREF, d\<lparr>hd_output_count := (hd_output_count d OR bits) + 1\<rparr>)" and ?n = "min 8 (lbits d)"
  have w: "lbits d \<le> 15" "2 ^ ?n dvd ocount d" "ocount d < 2 ^ lbits d" "0 < lbits d" using ok by (auto simp: dec_ok_def config_ok_def)
  have "step_ok HSDS_BACKREF_COUNT_LSB d h oi (fst (?g (of_nat v) d'), snd (?g (of_nat v) d'), oi)"
    if got: "got_bits HSDS_BACKREF_COUNT_LSB d v d'" for d' v
  proof -
    have d': "reader_frame d d'" "reader_ok d'" "config_ok d'" "pending d' = drop ?n (pending d)"
      and len: "?n \<le> length (pending d)" and v: "v = bits_value (take ?n (pending d))"
      using got by (simp_all add: got_bits_def)
    note f = reader_frame_fields [OF d'(1)]
    have "v < 2 ^ ?n" by (simp only: v bits_value_take_less)
    then have or: "unat ((hd_output_count d OR of_nat v) + 1) = ocount d + v + 1" "ocount d + v < 2 ^ lbits d"
      using unat_or_succ [of ?n "hd_output_count d" v "lbits d"] w by simp_all
    have "hs_decode (wbits d) (lbits d) (copy_back (Suc (ocount d + v)) (Suc (oindex d - 1)) h) (pending d' @ X)
        = hs_backref (wbits d) (lbits d) h (oindex d - 1) 0 (ocount d) ?n (pending d @ X)" for X
      using hs_backref_count [of ?n "pending d @ X" "wbits d" "lbits d" h "oindex d - 1" "ocount d" 0] len d'(4)
      by (simp add: hs_backref_done del: copy_back.simps flip: v)
    moreover have "Suc (oindex d - 1) = oindex d" using ok by (auto simp: dec_ok_def)
    ultimately show ?thesis
      using ok oi d' f w len or
      by (intro silent_step) (auto simp: dec_ok_def config_ok_def simp del: copy_back.simps)
  qed
  then show ?thesis
    by (intro reading_step [OF ok oi, where g = ?g]) (simp_all add: st_backref_count_lsb_def low_bits_needed)
qed

end
