(* ===== verification/Heatshrink_Poll.thy ===== *)
theory Heatshrink_Poll
  imports Heatshrink_Steps Polling
begin

text \<open>
  The two states that write output, the polling loop, and the calls of the decoder's interface as
  transitions of a specification: the bytes accepted so far and the bytes delivered so far.
\<close>

section \<open>Yielding states\<close>

lemma full_step:
  "dec_ok st d h \<Longrightarrow> out_ok W oi \<Longrightarrow> \<not> oi_output_size oi < oi_buf_size oi \<Longrightarrow> st \<in> {HSDS_YIELD_LITERAL, HSDS_YIELD_BACKREF} \<Longrightarrow>
    step_ok st d h oi (st, d, oi)"
  unfolding step_ok_def stopped_def by (auto simp: out_ok_def intro: exI [of _ "[]"])

lemma ucast_low_byte: "v < 256 \<Longrightarrow> ucast (of_nat v AND 0xFF :: u16) = (of_nat v :: u8)"
proof -
  assume "v < 256"
  then have "of_nat v AND 0xFF = (of_nat v :: u16)"
    by (intro word_uint_eqI) (simp add: uint_and_low [of _ 8, simplified] uint_of_nat)
  then show ?thesis using \<open>v < 256\<close> by (simp add: unsigned_of_nat take_bit_nat_eq_self)
qed

lemma window_mask_slot: "config_ok d \<Longrightarrow> unat (of_nat n AND window_mask d) = n mod 2 ^ wbits d"
  unfolding window_mask_def config_ok_def by (rule head_slot) simp

lemma st_yield_literal_ok:
  assumes ok: "dec_ok HSDS_YIELD_LITERAL d h" and oi: "out_ok W oi"
  shows "\<exists>r. st_yield_literal d oi = Some r \<and> step_ok HSDS_YIELD_LITERAL d h oi r"
proof -
  let ?st = HSDS_YIELD_LITERAL
  consider "\<not> oi_output_size oi < oi_buf_size oi" | "starved ?st d" "oi_output_size oi < oi_buf_size oi"
    | "\<not> starved ?st d" "oi_output_size oi < oi_buf_size oi" by blast
  then show ?thesis
  proof cases
    case 1
    then show ?thesis using full_step [OF ok oi 1] by (simp add: st_yield_literal_def)
  next
    case 2
    then show ?thesis using starved_step [OF ok 2(1) oi] starved_read [OF ok _ 2(1)] by (simp add: st_yield_literal_def)
  next
    case 3
    define v where "v = bits_value (take 8 (pending d))"
    obtain d' where d': "get_bits d 8 = Some (of_nat v, d')" "reader_frame d d'" "reader_ok d'" "config_ok d'"
        "pending d' = drop 8 (pending d)"
      using read_needed [OF ok _ 3(1)] by (auto simp: v_def)
    note f = reader_frame_fields [OF d'(2)]
    have v: "v < 256" "of_nat v \<noteq> NO_BITS" using bits_value_take_less [of 8] bits_value_not_NO_BITS [of 8] by (simp_all add: v_def)
    have len: "8 \<le> length (pending d)" using 3(1) by (simp add: starved_def)
    let ?win = "(hd_window_buffer d)[length h mod 2 ^ wbits d := of_nat v]"
    let ?d = "d'\<lparr>hd_window_buffer := ?win, hd_head_index := hd_head_index d' + 1\<rparr>"
    have win: "window_holds (wbits d) ?win (h @ [of_nat v])" using ok by (simp add: dec_ok_def window_push)
    have slot: "unat (hd_head_index d' AND window_mask d') = length h mod 2 ^ wbits d"
      using ok f d'(4) window_mask_slot [of d' "length h"] by (simp add: dec_ok_def)
    have wr: "buf_write (length h mod 2 ^ wbits d) (of_nat v) (hd_window_buffer d) = Some ?win"
      using ok window_holds_length by (auto simp: dec_ok_def buf_write_def)
    have "st_yield_literal d oi = Some (HSDS_TAG_BIT, ?d, emit oi [of_nat v])"
      using 3 oi d'(1) v slot wr f push_byte_emit [of oi "of_nat v"]
      by (simp add: st_yield_literal_def ucast_low_byte out_ok_def Let_def)
    moreover have "step_ok ?st d h oi (HSDS_TAG_BIT, ?d, emit oi [of_nat v])"
      using ok 3 d' f win len unfolding step_ok_def
      by (auto simp: dec_ok_def config_ok_def weight_def v_def intro!: exI [of _ "[of_nat v]"])
    ultimately show ?thesis by blast
  qed
qed

lemma backref_loop_copies:
  assumes "config_ok d" and "hd_head_index d = of_nat (length h)" and "window_holds (wbits d) (hd_window_buffer d) h"
    and "unat off \<in> {1..2 ^ wbits d}" and "oi_output_size oi + n \<le> length (oi_buf oi)"
  shows "\<exists>win. backref_loop n off (window_mask d) d oi
      = Some (d\<lparr>hd_window_buffer := win, hd_head_index := of_nat (length h + n)\<rparr>, emit oi (drop (length h) (copy_back n (unat off) h)))
    \<and> window_holds (wbits d) win (copy_back n (unat off) h)"
  using assms
proof (induction n arbitrary: d oi h)
  case 0
  then show ?case by (intro exI [of _ "hd_window_buffer d"]) (cases d; simp)
next
  case (Suc n)
  let ?c = "look_back h (unat off)" and ?i = "length h mod 2 ^ wbits d" and ?m = "window_mask d"
  let ?d = "d\<lparr>hd_window_buffer := (hd_window_buffer d)[?i := ?c], hd_head_index := of_nat (length h + 1)\<rparr>"
  have slot: "unat ((hd_head_index d - off) AND ?m) = nat ((int (length h) - int (unat off)) mod 2 ^ wbits d)"
    using Suc.prems(1,2) back_slot [of "wbits d" "length h" off] by (simp add: window_mask_def config_ok_def)
  have "nat ((int (length h) - int (unat off)) mod 2 ^ wbits d) < length (hd_window_buffer d)"
    using Suc.prems(3) unfolding window_holds_def by (meson nat_less_numeral_power_cancel_iff order.strict_trans2 pos_mod_bound zero_less_numeral zero_less_power)
  then have rd: "buf_read (unat ((hd_head_index d - off) AND ?m)) (hd_window_buffer d) = Some ?c"
    using slot window_back [OF Suc.prems(3), of "unat off"] Suc.prems(4) by simp
  have wr: "buf_write (unat (hd_head_index d AND ?m)) ?c (hd_window_buffer d) = Some ((hd_window_buffer d)[?i := ?c])"
    using Suc.prems(1,2) window_mask_slot [of d "length h"] window_holds_length [OF Suc.prems(3)] by (simp add: buf_write_def)
  have out: "push_byte oi ?c = Some (emit oi [?c])" using Suc.prems(5) by (intro push_byte_emit) simp
  obtain win where win: "backref_loop n off ?m ?d (emit oi [?c])
      = Some (?d\<lparr>hd_window_buffer := win, hd_head_index := of_nat (length (h @ [?c]) + n)\<rparr>,
          emit (emit oi [?c]) (drop (length (h @ [?c])) (copy_back n (unat off) (h @ [?c]))))"
      "window_holds (wbits d) win (copy_back n (unat off) (h @ [?c]))"
    using Suc.IH [of ?d "h @ [?c]" "emit oi [?c]"] Suc.prems window_push [OF Suc.prems(3), of ?c] length_emit [of oi "[?c]"]
    by (auto simp: config_ok_def window_mask_def)
  have "drop (length h) (copy_back n (unat off) (h @ [?c])) = ?c # drop (length (h @ [?c])) (copy_back n (unat off) (h @ [?c]))"
    using copy_back_extends [of n "unat off" "h @ [?c]"] by auto
  then have "emit (emit oi [?c]) (drop (length (h @ [?c])) (copy_back n (unat off) (h @ [?c])))
      = emit oi (drop (length h) (copy_back (Suc n) (unat off) h))"
    using Suc.prems(5) by (simp add: emit_emit)
  then show ?case using rd wr out win Suc.prems(2) by (intro exI [of _ win]) (simp add: add.commute)
qed

lemma st_yield_backref_ok:
  assumes ok: "dec_ok HSDS_YIELD_BACKREF d h" and oi: "out_ok W oi"
  shows "\<exists>r. st_yield_backref W d oi = Some r \<and> step_ok HSDS_YIELD_BACKREF d h oi r"
proof (cases "oi_output_size oi < oi_buf_size oi")
  case False
  then show ?thesis using full_step [OF ok oi False] oi by (simp add: st_yield_backref_def out_ok_def size_diff_exact)
next
  case True
  define room where "room = oi_buf_size oi - oi_output_size oi"
  define n where "n = min (ocount d) room"
  have room: "size_diff W (oi_buf_size oi) (oi_output_size oi) = room" "0 < room"
    using True oi by (auto simp: room_def size_diff_exact out_ok_def)
  have fit: "oi_output_size oi + n \<le> oi_buf_size oi" using oi by (auto simp: n_def room_def out_ok_def min_def)
  have tok: "ocount d \<in> {1..2 ^ lbits d}" "oindex d \<in> {1..2 ^ wbits d}" using ok by (simp_all add: dec_ok_def)
  have count: "(if ocount d < room then ocount d else room) = n" by (simp add: n_def)
  let ?h = "copy_back n (oindex d) h"
  obtain win where loop: "backref_loop n (hd_output_index d) (window_mask d) d oi
      = Some (d\<lparr>hd_window_buffer := win, hd_head_index := of_nat (length h + n)\<rparr>, emit oi (drop (length h) ?h))"
    and win: "window_holds (wbits d) win ?h"
    using backref_loop_copies [of d h "hd_output_index d" oi n] ok tok(2) fit oi by (auto simp: dec_ok_def out_ok_def)
  have h: "h @ drop (length h) ?h = ?h" using append_take_drop_id [of "length h" ?h] by simp
  have n: "0 < n" "n \<le> ocount d" using room tok(1) by (auto simp: n_def)
  define left where "left = hd_output_count d - of_nat n"
  have "unat (of_nat n :: u16) = n" using n unsigned_less [of "hd_output_count d", where ?'a = nat] by (intro unat_small_of_nat) simp
  then have left: "unat left = ocount d - n" using n by (simp add: left_def unat_sub word_le_nat_alt)
  let ?d = "d\<lparr>hd_window_buffer := win, hd_head_index := of_nat (length h + n), hd_output_count := left\<rparr>"
  let ?s = "if left = 0 then HSDS_TAG_BIT else HSDS_YIELD_BACKREF"
  have pend: "pending ?d = pending d" "reader_ok ?d = reader_ok d" by (simp_all add: pending_def reader_ok_def)
  have "st_yield_backref W d oi = Some (?s, ?d, emit oi (drop (length h) ?h))"
    using room(2) by (simp add: st_yield_backref_def room(1) Let_def count loop left_def)
  moreover have "1 \<le> unat left" if "left \<noteq> 0" using that unat_eq_0 [of left] by linarith
  moreover from this have "dec_ok ?s ?d ?h" using ok win n left tok pend by (auto simp: dec_ok_def config_ok_def unat_eq_0)
  moreover have "hs_from ?s ?d ?h (pending ?d @ X) = hs_from HSDS_YIELD_BACKREF d h (pending d @ X)" for X
    using left n copy_back_add [of n "ocount d - n" "oindex d" h] pend by (auto simp: unat_eq_0)
  moreover have "n = room" if "left \<noteq> 0" using that left n by (auto simp: n_def unat_eq_0 min_def split: if_splits)
  ultimately show ?thesis
    using fit h pend True by (auto simp: step_ok_def stopped_def weight_def room_def intro!: exI [of _ "drop (length h) ?h"])
qed

section \<open>The polling loop\<close>

lemma poll_step_ok:
  assumes "dec_ok st d h" and "out_ok W oi"
  shows "\<exists>r. poll_step W st d oi = Some r \<and> step_ok st d h oi r"
proof (cases st)
  case HSDS_TAG_BIT
  then show ?thesis using st_tag_bit_ok [of d h W oi] assms by (auto simp: poll_step_def)
next
  case HSDS_YIELD_LITERAL
  then show ?thesis using st_yield_literal_ok [of d h W oi] assms by (simp add: poll_step_def)
next
  case HSDS_BACKREF_INDEX_MSB
  then show ?thesis using st_backref_index_msb_ok [of d h W oi] assms by (auto simp: poll_step_def)
next
  case HSDS_BACKREF_INDEX_LSB
  then show ?thesis using st_backref_index_lsb_ok [of d h W oi] assms by (auto simp: poll_step_def)
next
  case HSDS_BACKREF_COUNT_MSB
  then show ?thesis using st_backref_count_msb_ok [of d h W oi] assms by (auto simp: poll_step_def)
next
  case HSDS_BACKREF_COUNT_LSB
  then show ?thesis using st_backref_count_lsb_ok [of d h W oi] assms by (auto simp: poll_step_def)
next
  case HSDS_YIELD_BACKREF
  then show ?thesis using st_yield_backref_ok [of d h W oi] assms by (simp add: poll_step_def)
qed

lemma HSD_of_byte [simp]: "HSD_of (HSD_byte st) = Some st"
  by (cases st) (simp_all add: HSD_of_def)

lemma HSD_byte_inject [simp]: "HSD_byte s = HSD_byte t \<longleftrightarrow> s = t"
  by (metis HSD_of_byte option.inject)

lemma dec_ok_state [simp]: "dec_ok st (d\<lparr>hd_state := s\<rparr>) h = dec_ok st d h"
  by (cases st) (simp_all add: dec_ok_def config_ok_def)

lemma hs_from_state [simp]: "hs_from st (d\<lparr>hd_state := s\<rparr>) h bs = hs_from st d h bs"
  by (cases st) simp_all

lemma weight_state [simp]: "weight st (d\<lparr>hd_state := s\<rparr>) = weight st d"
  by (simp add: weight_def)

text \<open>
  The loop ends from every well-formed decoder, with the output full or the input too short to go on;
  \<open>poll_result\<close> collects what then holds.
\<close>

definition poll_result ::
  "HSD_state \<Rightarrow> heatshrink_decoder \<Rightarrow> u8 list \<Rightarrow> output_info \<Rightarrow> HSD_poll_res \<times> heatshrink_decoder \<times> output_info \<Rightarrow> bool" where
  "poll_result st d h oi = (\<lambda>(res, d', oi'). \<exists>st' out. oi' = emit oi out \<and> oi_output_size oi + length out \<le> oi_buf_size oi
     \<and> dec_ok st' d' (h @ out) \<and> hd_state d' = HSD_byte st' \<and> (wbits d', lbits d') = (wbits d, lbits d)
     \<and> (\<forall>X. hs_from st' d' (h @ out) (pending d' @ X) = hs_from st d h (pending d @ X))
     \<and> stopped st' d' oi'
     \<and> res = (if oi_output_size oi' = oi_buf_size oi' then HSDR_POLL_MORE else HSDR_POLL_EMPTY))"

text \<open>One turn of the loop, and the loop as a polling machine.\<close>

definition decoder_turn ::
  "nat \<Rightarrow> heatshrink_decoder \<times> output_info \<Rightarrow> ((HSD_poll_res \<times> heatshrink_decoder \<times> output_info) + (heatshrink_decoder \<times> output_info)) option" where
  "decoder_turn W = (\<lambda>(d, oi). case HSD_of (hd_state d) of
     None \<Rightarrow> Some (Inl (HSDR_POLL_ERROR_UNKNOWN, d, oi))
   | Some st \<Rightarrow> map_option (\<lambda>(s, d', oi').
       if HSD_byte s = hd_state d
       then Inl (if oi_output_size oi' = oi_buf_size oi' then HSDR_POLL_MORE else HSDR_POLL_EMPTY, d', oi')
       else Inr (d'\<lparr>hd_state := HSD_byte s\<rparr>, oi')) (poll_step W st d oi))"

definition decoder_inv :: "nat \<Rightarrow> u8 list \<Rightarrow> heatshrink_decoder \<times> output_info \<Rightarrow> bool" where
  "decoder_inv W h = (\<lambda>(d, oi). \<exists>st. dec_ok st d h \<and> hd_state d = HSD_byte st \<and> out_ok W oi)"

definition decoder_good ::
  "u8 list \<Rightarrow> heatshrink_decoder \<times> output_info \<Rightarrow> HSD_poll_res \<times> heatshrink_decoder \<times> output_info \<Rightarrow> bool" where
  "decoder_good h = (\<lambda>(d, oi) r. poll_result (the (HSD_of (hd_state d))) d h oi r)"

definition decoder_weight :: "heatshrink_decoder \<times> output_info \<Rightarrow> nat" where
  "decoder_weight = (\<lambda>(d, oi). weight (the (HSD_of (hd_state d))) d)"

lemma decoder_unroll:
  "poll_loop W d oi = (case decoder_turn W (d, oi) of None \<Rightarrow> None | Some (Inl r) \<Rightarrow> Some r | Some (Inr (d', oi')) \<Rightarrow> poll_loop W d' oi')"
  by (subst poll_loop.simps) (auto simp: decoder_turn_def split: option.splits bind_splits prod.splits)

lemma decoder_step:
  assumes "decoder_inv W h (d, oi)"
  obtains st s d' oi' where "hd_state d = HSD_byte st" "poll_step W st d oi = Some (s, d', oi')" "step_ok st d h oi (s, d', oi')"
    "decoder_turn W (d, oi) = Some (if s = st
       then Inl (if oi_output_size oi' = oi_buf_size oi' then HSDR_POLL_MORE else HSDR_POLL_EMPTY, d', oi')
       else Inr (d'\<lparr>hd_state := HSD_byte s\<rparr>, oi'))" "out_ok W oi"
proof -
  obtain st where st: "dec_ok st d h" "hd_state d = HSD_byte st" "out_ok W oi" using assms by (auto simp: decoder_inv_def)
  then obtain s d' oi' where "poll_step W st d oi = Some (s, d', oi')" "step_ok st d h oi (s, d', oi')"
    using poll_step_ok [of st d h W oi] by auto
  then show ?thesis using st that [of st s d' oi'] by (simp add: decoder_turn_def)
qed

lemma poll_result_step:
  assumes "step_ok st d h oi (st', d', oi')" and "out_ok W oi" and "st' \<noteq> st"
  shows "weight st' d' < weight st d \<and> (\<exists>h'. decoder_inv W h' (d'\<lparr>hd_state := HSD_byte st'\<rparr>, oi')
    \<and> (\<forall>r. poll_result st' (d'\<lparr>hd_state := HSD_byte st'\<rparr>) h' oi' r \<longrightarrow> poll_result st d h oi r))"
proof -
  obtain out where out: "oi' = emit oi out" "oi_output_size oi + length out \<le> oi_buf_size oi" "dec_ok st' d' (h @ out)"
    "(wbits d', lbits d') = (wbits d, lbits d)" "\<forall>X. hs_from st' d' (h @ out) (pending d' @ X) = hs_from st d h (pending d @ X)"
    "weight st' d' < weight st d"
    using assms(1,3) by (auto simp: step_ok_def)
  have "emit (emit oi out) more = emit oi (out @ more)" for more
    using assms(2) by (intro emit_emit) (simp add: out_ok_def)
  then have "poll_result st' (d'\<lparr>hd_state := HSD_byte st'\<rparr>) (h @ out) oi' r \<Longrightarrow> poll_result st d h oi r" for r
    using out unfolding poll_result_def by (auto simp: add.assoc intro!: exI [of _ "out @ _"])
  moreover have "decoder_inv W (h @ out) (d'\<lparr>hd_state := HSD_byte st'\<rparr>, oi')"
    using out out_ok_emit [OF assms(2) out(2)] by (auto simp: decoder_inv_def)
  ultimately show ?thesis using out(6) by blast
qed

lemma poll_result_stay:
  "step_ok st d h oi (st, d', oi') \<Longrightarrow> hd_state d = HSD_byte st \<Longrightarrow>
    poll_result st d h oi (if oi_output_size oi' = oi_buf_size oi' then HSDR_POLL_MORE else HSDR_POLL_EMPTY, d', oi')"
  by (auto simp: step_ok_def poll_result_def)

interpretation dec_poll: polling "\<lambda>(d, oi). poll_loop W d oi" "decoder_turn W" "decoder_inv W" decoder_good decoder_weight for W
proof
  fix s
  show "(case s of (d, oi) \<Rightarrow> poll_loop W d oi)
      = (case decoder_turn W s of None \<Rightarrow> None | Some (Inl r) \<Rightarrow> Some r | Some (Inr s') \<Rightarrow> (case s' of (d, oi) \<Rightarrow> poll_loop W d oi))"
    using decoder_unroll by (cases s) simp
next
  fix h s assume "decoder_inv W h s"
  then show "\<exists>x. decoder_turn W s = Some x" by (cases s) (blast elim: decoder_step)
next
  fix h s r assume inv: "decoder_inv W h s" and turn: "decoder_turn W s = Some (Inl r)"
  obtain d oi where s: "s = (d, oi)" by (cases s)
  show "decoder_good h s r"
    using inv turn unfolding s
    by (elim decoder_step) (auto simp: decoder_good_def dest: poll_result_stay split: if_splits)
next
  fix h s s' assume inv: "decoder_inv W h s" and turn: "decoder_turn W s = Some (Inr s')"
  obtain d oi where s: "s = (d, oi)" by (cases s)
  show "decoder_weight s' < decoder_weight s \<and> (\<exists>h'. decoder_inv W h' s' \<and> (\<forall>r. decoder_good h' s' r \<longrightarrow> decoder_good h s r))"
    using inv turn unfolding s
    by (elim decoder_step) (auto simp: decoder_good_def decoder_weight_def dest!: poll_result_step split: if_splits)
qed

lemma poll_loop_ok:
  "dec_ok st d h \<Longrightarrow> hd_state d = HSD_byte st \<Longrightarrow> out_ok W oi \<Longrightarrow> \<exists>r. poll_loop W d oi = Some r \<and> poll_result st d h oi r"
  using dec_poll.loop_returns [of W h "(d, oi)"] by (auto simp: decoder_inv_def decoder_good_def)

end
