(* ===== verification/Heatshrink_Decoder_Props.thy ===== *)
theory Heatshrink_Decoder_Props
  imports Heatshrink_Poll
begin

text \<open>
  The decoder as its callers see it: initialised once, then any sequence of \<open>sink\<close> and \<open>poll\<close> calls. The
  invariant relates the decoder to the bytes accepted and the bytes delivered.
\<close>

section \<open>The invariant of the interface\<close>

definition hs_output :: "heatshrink_decoder \<Rightarrow> u8 list \<Rightarrow> u8 list" where
  "hs_output d fed = hs_decode (wbits d) (lbits d) [] (bytes_bits fed)"

definition hs_tracks :: "heatshrink_decoder \<Rightarrow> u8 list \<Rightarrow> u8 list \<Rightarrow> bool" where
  "hs_tracks d fed out \<longleftrightarrow> (\<exists>st. dec_ok st d out \<and> hd_state d = HSD_byte st
     \<and> (\<forall>X. hs_from st d out (pending d @ X) = hs_decode (wbits d) (lbits d) [] (bytes_bits fed @ X))
     \<and> (hd_input_size d = 0 \<longrightarrow> st = HSDS_YIELD_BACKREF \<or> starved st d))"

lemma starved_hs_from: "dec_ok st d h \<Longrightarrow> starved st d \<Longrightarrow> hs_from st d h (pending d) = h"
  by (cases st) (auto simp: starved_def dec_ok_def config_ok_def intro!: hs_backref_short)

lemma hs_from_extends: "\<exists>more. hs_from st d h bs = h @ more"
proof (cases st)
  case HSDS_YIELD_BACKREF
  then show ?thesis
    using hs_decode_extends [of "wbits d" "lbits d" "copy_back (ocount d) (oindex d) h" bs] copy_back_extends [of "ocount d" "oindex d" h]
    by auto
next
  case HSDS_YIELD_LITERAL
  then show ?thesis using hs_decode_extends by (simp del: hs_decode.simps)
next
  case HSDS_TAG_BIT
  then show ?thesis using hs_decode_extends by simp
qed (use hs_decode_extends hs_backref_extends in auto)

lemma hs_tracks_prefix: "hs_tracks d fed out \<Longrightarrow> \<exists>more. hs_output d fed = out @ more"
  using hs_from_extends unfolding hs_tracks_def hs_output_def by (metis append_Nil2)

lemma hs_tracks_complete:
  assumes "hs_tracks d fed out" and "heatshrink_decoder_finish (Some d) = HSDR_FINISH_DONE"
  shows "out = hs_output d fed"
proof -
  obtain st where st: "dec_ok st d out" "hd_state d = HSD_byte st"
    "hs_from st d out (pending d) = hs_output d fed" "hd_input_size d = 0 \<longrightarrow> st = HSDS_YIELD_BACKREF \<or> starved st d"
    using assms(1) unfolding hs_tracks_def hs_output_def by (metis append_Nil2)
  have "HSD_of (hd_state d) = Some st" by (simp only: st(2) HSD_of_byte)
  then have "starved st d"
    using assms(2) st(4) by (cases st) (auto simp: heatshrink_decoder_finish_def split: if_splits)
  then show ?thesis using st starved_hs_from by metis
qed

section \<open>Construction\<close>

lemma reset_tracks:
  assumes "heatshrink_decoder_reset d = Some d'" and "wbits d \<le> 15" and "3 \<le> lbits d" and "lbits d < wbits d"
  shows "hs_tracks d' [] [] \<and> wbits d' = wbits d \<and> lbits d' = lbits d"
proof -
  obtain input win where bufs: "buf_fill (unat (hd_input_buffer_size d)) 0 (hd_input_buffer d) = Some input"
      "buf_fill (2 ^ wbits d) 0 (hd_window_buffer d) = Some win"
    and d': "d' = d\<lparr>hd_input_buffer := input, hd_window_buffer := win, hd_state := HSD_byte HSDS_TAG_BIT,
       hd_input_size := 0, hd_input_index := 0, hd_bit_index := 0, hd_current_byte := 0,
       hd_output_count := 0, hd_output_index := 0, hd_head_index := 0\<rparr>"
    using assms(1) by (auto simp: heatshrink_decoder_reset_def Let_def split: bind_splits)
  have "window_holds (wbits d) win []"
    using bufs(2) buf_fill_length [OF bufs(2)] buf_fill_Some [of "2 ^ wbits d" "hd_window_buffer d" 0]
    by (auto simp: window_holds_def nth_append)
  then have "dec_ok HSDS_TAG_BIT d' []"
    using assms(2-4) buf_fill_length [OF bufs(1)] by (simp add: d' dec_ok_def config_ok_def reader_ok_def)
  then show ?thesis by (auto simp: hs_tracks_def d' pending_def starved_def)
qed

lemma not_misuse:
  "\<not> decoder_misuse sz w l \<Longrightarrow> unat w \<le> 15 \<and> 3 \<le> unat l \<and> unat l < unat w"
  by (auto simp: decoder_misuse_def word_less_nat_alt word_le_nat_alt)

lemma init_tracks:
  assumes "heatshrink_decoder_init hsd sz w l ib wb n = Some (HSDR_INIT_OK, Some d)"
  shows "hs_tracks d [] [] \<and> wbits d = unat w \<and> lbits d = unat l"
proof -
  have ok: "\<not> decoder_misuse sz w l" using assms by (auto simp: heatshrink_decoder_init_def split: option.splits if_splits bind_splits)
  obtain d0 where "heatshrink_decoder_reset d0 = Some d" "hd_window_sz2 d0 = w" "hd_lookahead_sz2 d0 = l"
    using assms by (auto simp: heatshrink_decoder_init_def split: option.splits if_splits bind_splits)
  then show ?thesis using reset_tracks [of d0 d] not_misuse [OF ok] by auto
qed

section \<open>Sink\<close>

lemma buf_blit_Some:
  "off + n \<le> length dst \<Longrightarrow> n \<le> length src \<Longrightarrow> buf_blit off src n dst = Some (take off dst @ take n src @ drop (off + n) dst)"
  by (simp add: buf_blit_def)

lemma size_diff_u16: "16 \<le> W \<Longrightarrow> unat b \<le> unat a \<Longrightarrow> size_diff W (unat a) (unat b) = unat a - unat b" for a b :: u16
  using unsigned_less [of a, where ?'a = nat] power_increasing [of 16 W "2 :: nat"] by (intro size_diff_exact) simp_all

text \<open>The bytes that \<open>sink\<close> copies are appended to the unread bits.\<close>

definition sunk :: "heatshrink_decoder \<Rightarrow> u8 list \<Rightarrow> heatshrink_decoder" where
  "sunk d bs = d\<lparr>hd_input_buffer := take (unat (hd_input_size d)) (hd_input_buffer d) @ bs
       @ drop (unat (hd_input_size d) + length bs) (hd_input_buffer d), hd_input_size := hd_input_size d + of_nat (length bs)\<rparr>"

lemma sunk_fields:
  assumes "config_ok d" and "reader_ok d" and "unat (hd_input_size d) + length bs \<le> unat (hd_input_buffer_size d)"
  shows "unat (hd_input_size (sunk d bs)) = unat (hd_input_size d) + length bs"
    and "reader_ok (sunk d bs)" and "config_ok (sunk d bs)" and "pending (sunk d bs) = pending d @ bytes_bits bs"
proof -
  let ?s = "unat (hd_input_size d)"
  have "?s + length bs < 2 ^ 16" using assms(3) unsigned_less [of "hd_input_buffer_size d", where ?'a = nat] by simp
  then show size: "unat (hd_input_size (sunk d bs)) = ?s + length bs"
    by (simp add: sunk_def unat_word_ariths unsigned_of_nat take_bit_nat_eq_self)
  have len: "?s + length bs \<le> length (hd_input_buffer d)" "?s \<le> length (hd_input_buffer d)" using assms(1,3) by (auto simp: config_ok_def)
  show "config_ok (sunk d bs)" using assms(1,3) len size by (simp add: config_ok_def sunk_def)
  have i: "unat (hd_input_index d) \<le> ?s" using assms(2) by (auto simp: reader_ok_def word_less_nat_alt)
  have "hd_input_index d < hd_input_size (sunk d bs) \<or> hd_input_index d = 0 \<and> hd_input_size (sunk d bs) = 0"
    using assms(2) size unat_eq_0 [of "hd_input_size (sunk d bs)"] by (auto simp: reader_ok_def word_less_nat_alt)
  then show "reader_ok (sunk d bs)" using assms(2) len size by (auto simp: reader_ok_def sunk_def)
  have "take (?s + length bs) (hd_input_buffer (sunk d bs)) = take ?s (hd_input_buffer d) @ bs" using len by (simp add: sunk_def)
  then show "pending (sunk d bs) = pending d @ bytes_bits bs"
    using size i len by (simp add: pending_def) (simp add: sunk_def)
qed

lemma sink_tracks:
  assumes inv: "hs_tracks d fed out" and W: "16 \<le> W"
  defines "room \<equiv> unat (hd_input_buffer_size d) - unat (hd_input_size d)"
  shows "\<exists>d'. heatshrink_decoder_sink W (Some d) (Some src) (length src) (Some x)
      = Some (if room = 0 then HSDR_SINK_FULL else HSDR_SINK_OK, Some d', Some (min room (length src)))
    \<and> hs_tracks d' (fed @ take room src) out \<and> wbits d' = wbits d \<and> lbits d' = lbits d"
proof -
  obtain st where st: "dec_ok st d out" "hd_state d = HSD_byte st"
    "\<forall>X. hs_from st d out (pending d @ X) = hs_decode (wbits d) (lbits d) [] (bytes_bits fed @ X)"
    "hd_input_size d = 0 \<longrightarrow> st = HSDS_YIELD_BACKREF \<or> starved st d"
    using inv by (auto simp: hs_tracks_def)
  have c: "config_ok d" "reader_ok d" using st(1) by (auto simp: dec_ok_def)
  have room: "size_diff W (unat (hd_input_buffer_size d)) (unat (hd_input_size d)) = room"
    using c(1) W by (simp add: room_def config_ok_def size_diff_u16)
  show ?thesis
  proof (cases "room = 0")
    case True
    then show ?thesis using room inv by (simp add: heatshrink_decoder_sink_def)
  next
    case False
    define bs where "bs = take room src"
    have fit: "unat (hd_input_size d) + length bs \<le> unat (hd_input_buffer_size d)"
      using c(1) by (auto simp: bs_def room_def config_ok_def)
    note f = sunk_fields [OF c fit]
    have "heatshrink_decoder_sink W (Some d) (Some src) (length src) (Some x)
        = Some (HSDR_SINK_OK, Some (sunk d bs), Some (min room (length src)))"
      using room False fit c(1) buf_blit_Some [of "unat (hd_input_size d)" "length bs" "hd_input_buffer d" src]
      by (auto simp: heatshrink_decoder_sink_def sunk_def bs_def Let_def config_ok_def min_def)
    moreover have "dec_ok st (sunk d bs) out" using st(1) f by (cases st) (simp_all add: dec_ok_def sunk_def)
    moreover have "hs_from st (sunk d bs) out b = hs_from st d out b" for b by (cases st) (simp_all add: sunk_def)
    moreover have "needed st (sunk d bs) = needed st d" by (cases st) (simp_all add: sunk_def)
    then have "starved st (sunk d bs) = starved st d" if "hd_input_size (sunk d bs) = 0"
      using that f(1,4) by (simp add: starved_def)
    ultimately show ?thesis
      using False st f by (intro exI [of _ "sunk d bs"]) (auto simp: hs_tracks_def bs_def sunk_def unat_eq_0 simp flip: bs_def)
  qed
qed

section \<open>Poll\<close>

lemma emit_whole:
  "emit \<lparr>oi_buf = buf, oi_buf_size = n, oi_output_size = 0\<rparr> out
     = \<lparr>oi_buf = out @ drop (length out) buf, oi_buf_size = n, oi_output_size = length out\<rparr>"
  by (simp add: emit_def)

lemma short_literal: "dec_ok HSDS_YIELD_LITERAL d h \<Longrightarrow> hd_input_size d = 0 \<Longrightarrow> starved HSDS_YIELD_LITERAL d"
  using bits_left_le [of "hd_bit_index d"] by (simp add: starved_def dec_ok_def length_pending) (simp add: reader_ok_def)

lemma poll_tracks:
  assumes inv: "hs_tracks d fed out" and W: "n < 2 ^ W" and n: "n \<le> length buf"
  defines "new \<equiv> take n (drop (length out) (hs_output d fed))"
  shows "\<exists>d'. heatshrink_decoder_poll W (Some d) (Some buf) n (Some x)
      = Some (if length new = n then HSDR_POLL_MORE else HSDR_POLL_EMPTY, Some d', Some (new @ drop (length new) buf), Some (length new))
    \<and> hs_tracks d' fed (out @ new) \<and> wbits d' = wbits d \<and> lbits d' = lbits d"
proof -
  let ?oi = "\<lparr>oi_buf = buf, oi_buf_size = n, oi_output_size = 0\<rparr>"
  obtain st where st: "dec_ok st d out" "hd_state d = HSD_byte st"
    "\<forall>X. hs_from st d out (pending d @ X) = hs_decode (wbits d) (lbits d) [] (bytes_bits fed @ X)"
    using inv by (auto simp: hs_tracks_def)
  obtain r where r: "poll_loop W d ?oi = Some r" "poll_result st d out ?oi r"
    using poll_loop_ok [OF st(1,2), of W ?oi] W n by (auto simp: out_ok_def)
  obtain res d' oi' where r': "r = (res, d', oi')" by (cases r)
  obtain st' bs where oi': "oi' = emit ?oi bs" "oi_output_size ?oi + length bs \<le> oi_buf_size ?oi" "stopped st' d' oi'"
      "res = (if oi_output_size oi' = oi_buf_size oi' then HSDR_POLL_MORE else HSDR_POLL_EMPTY)"
    and bs: "(wbits d', lbits d') = (wbits d, lbits d)" "dec_ok st' d' (out @ bs)" "hd_state d' = HSD_byte st'"
      "\<forall>X. hs_from st' d' (out @ bs) (pending d' @ X) = hs_from st d out (pending d @ X)"
    using r(2) unfolding poll_result_def r' prod.case by blast
  have stop: "starved st' d' \<or> length bs = n \<and> (st' = HSDS_YIELD_LITERAL \<or> st' = HSDS_YIELD_BACKREF)" "length bs \<le> n"
    using oi'(2,3) by (simp_all add: oi'(1) emit_whole stopped_def)
  have tr: "hs_tracks d' fed (out @ bs)"
    unfolding hs_tracks_def using bs st(3) stop(1) short_literal [of d' "out @ bs"] by (intro exI [of _ st'] conjI) auto
  obtain more where more: "hs_output d fed = (out @ bs) @ more"
    using hs_tracks_prefix [OF tr] bs(1) by (auto simp: hs_output_def)
  have "more = []" if "starved st' d'"
    using starved_hs_from [OF bs(2) that] bs(4) [THEN spec, of "[]"] st(3) [THEN spec, of "[]"] more by (simp add: hs_output_def)
  then have "new = bs" using stop more by (auto simp: new_def)
  then show ?thesis
    using r(1) tr bs(1) oi'(4) by (auto simp: heatshrink_decoder_poll_def r' oi'(1) emit_whole)
qed

section \<open>Sequences of calls\<close>

datatype hs_call = Sink "u8 list" | Poll "u8 list"

text \<open>
  A client that records the bytes the decoder accepted and the bytes it delivered. \<open>Sink src\<close> offers the whole
  of \<open>src\<close>; \<open>Poll buf\<close> polls into an output buffer whose previous content is \<open>buf\<close>.
\<close>

fun hs_run :: "nat \<Rightarrow> hs_call list \<Rightarrow> heatshrink_decoder \<times> u8 list \<times> u8 list \<Rightarrow> (heatshrink_decoder \<times> u8 list \<times> u8 list) option" where
  "hs_run W [] s = Some s"
| "hs_run W (Sink src # calls) (d, fed, out) =
     (case heatshrink_decoder_sink W (Some d) (Some src) (length src) (Some 0) of
        Some (_, Some d', Some n) \<Rightarrow> hs_run W calls (d', fed @ take n src, out)
      | _ \<Rightarrow> None)"
| "hs_run W (Poll buf # calls) (d, fed, out) =
     (case heatshrink_decoder_poll W (Some d) (Some buf) (length buf) (Some 0) of
        Some (_, Some d', Some buf', Some n) \<Rightarrow> hs_run W calls (d', fed, out @ take n buf')
      | _ \<Rightarrow> None)"

fun call_ok :: "nat \<Rightarrow> hs_call \<Rightarrow> bool" where
  "call_ok W (Sink src) \<longleftrightarrow> True"
| "call_ok W (Poll buf) \<longleftrightarrow> length buf < 2 ^ W"

lemma hs_run_tracks:
  "hs_tracks d fed out \<Longrightarrow> 16 \<le> W \<Longrightarrow> list_all (call_ok W) calls \<Longrightarrow>
    \<exists>d' fed' out'. hs_run W calls (d, fed, out) = Some (d', fed', out') \<and> hs_tracks d' fed' out' \<and> wbits d' = wbits d \<and> lbits d' = lbits d"
proof (induction calls arbitrary: d fed out)
  case (Cons c calls)
  show ?case
  proof (cases c)
    case (Sink src)
    let ?room = "unat (hd_input_buffer_size d) - unat (hd_input_size d)"
    obtain d' where "heatshrink_decoder_sink W (Some d) (Some src) (length src) (Some 0)
        = Some (if ?room = 0 then HSDR_SINK_FULL else HSDR_SINK_OK, Some d', Some (min ?room (length src)))"
      "hs_tracks d' (fed @ take ?room src) out" "wbits d' = wbits d" "lbits d' = lbits d"
      using sink_tracks [OF Cons.prems(1,2)] by blast
    moreover have "take (min ?room (length src)) src = take ?room src" by (simp add: min_def)
    ultimately show ?thesis using Sink Cons.IH [of d' "fed @ take ?room src" out] Cons.prems by simp
  next
    case (Poll buf)
    define new where "new = take (length buf) (drop (length out) (hs_output d fed))"
    obtain d' where "heatshrink_decoder_poll W (Some d) (Some buf) (length buf) (Some 0)
        = Some (if length new = length buf then HSDR_POLL_MORE else HSDR_POLL_EMPTY, Some d',
            Some (new @ drop (length new) buf), Some (length new))"
      "hs_tracks d' fed (out @ new)" "wbits d' = wbits d" "lbits d' = lbits d"
      using poll_tracks [OF Cons.prems(1), of "length buf" W buf] Poll Cons.prems(3) by (auto simp: new_def)
    then show ?thesis using Poll Cons.IH [of d' fed "out @ new"] Cons.prems by simp
  qed
qed auto

lemma decoder_reaches:
  assumes "heatshrink_decoder_init hsd sz w l ib wb n = Some (HSDR_INIT_OK, Some d)" and "16 \<le> W"
    and "list_all (call_ok W) calls" and "hs_run W calls (d, [], []) = Some (d', fed, out)"
  shows "hs_tracks d' fed out \<and> wbits d' = unat w \<and> lbits d' = unat l"
  using init_tracks [OF assms(1)] hs_run_tracks [of d "[]" "[]" W calls] assms(2-4) by auto

section \<open>A concrete decoder\<close>

text \<open>
  Four window bits, three lookahead bits, two bytes of input buffer; the stream is the literal \<open>97\<close> followed by a
  copy of three bytes from one byte back, in pieces that fit neither the input nor the output buffer.
\<close>

definition demo_garbage :: heatshrink_decoder where
  "demo_garbage = \<lparr>hd_input_size = 9, hd_input_index = 9, hd_output_count = 9, hd_output_index = 9, hd_head_index = 9,
     hd_state = 9, hd_current_byte = 9, hd_bit_index = 9, hd_window_sz2 = 9, hd_lookahead_sz2 = 9, hd_input_buffer_size = 9,
     hd_input_buffer = [], hd_window_buffer = []\<rparr>"

definition demo_decoder :: heatshrink_decoder where
  "demo_decoder = the (snd (the (heatshrink_decoder_init (Some demo_garbage) 2 4 3 (Some [7, 7]) (Some (replicate 16 7)) 16)))"

definition demo_calls :: "hs_call list" where
  "demo_calls = [Sink [0xB0, 0x81, 0x00], Poll [9, 9], Sink [0x00], Poll [9, 9, 9]]"

definition demo_run :: "hs_call list \<Rightarrow> heatshrink_decoder" where
  "demo_run calls = fst (the (hs_run 16 calls (demo_decoder, [], [])))"

lemma demo_init:
  "heatshrink_decoder_init (Some demo_garbage) 2 4 3 (Some [7, 7]) (Some (replicate 16 7)) 16 = Some (HSDR_INIT_OK, Some demo_decoder)"
  by code_simp

lemma demo_calls_ok: "list_all (call_ok 16) demo_calls" "list_all (call_ok 16) (take 3 demo_calls)"
  by (simp_all add: demo_calls_def)

lemma demo_run_all:
  "hs_run 16 demo_calls (demo_decoder, [], []) = Some (demo_run demo_calls, [0xB0, 0x81, 0x00], [97, 97, 97, 97])"
  by code_simp

lemma demo_run_three:
  "hs_run 16 (take 3 demo_calls) (demo_decoder, [], []) = Some (demo_run (take 3 demo_calls), [0xB0, 0x81, 0x00], [97])"
  by code_simp

lemma demo_finish: "heatshrink_decoder_finish (Some (demo_run demo_calls)) = HSDR_FINISH_DONE"
  by code_simp

section \<open>Properties\<close>

text \<open>
  C13: However the calls of a correctly initialised decoder are interleaved, and whatever bytes they carry, every
  one of them returns: the polling loop ends, and no buffer is accessed outside its bounds.
\<close>

theorem decoder_calls_return:
  assumes "heatshrink_decoder_init hsd sz w l ib wb n = Some (HSDR_INIT_OK, Some d)" and "16 \<le> W"
    and "list_all (call_ok W) calls"
  shows "\<exists>s. hs_run W calls (d, [], []) = Some s"
  using hs_run_tracks [OF conjunct1 [OF init_tracks [OF assms(1)]] assms(2,3)] by blast

theorem decoder_calls_return_witness: "\<exists>s. hs_run 16 demo_calls (demo_decoder, [], []) = Some s"
  by (rule decoder_calls_return [OF demo_init _ demo_calls_ok(1)]) simp

text \<open>
  C5: What a decoder has delivered after any sequence of calls is a prefix of the format's meaning of the bytes
  it accepted, and the whole of it once \<open>finish\<close> reports that the output is done: how the input was cut into
  pieces and how large the output buffers were makes no difference.
\<close>

theorem decoder_refines_format:
  assumes "heatshrink_decoder_init hsd sz w l ib wb n = Some (HSDR_INIT_OK, Some d)" and "16 \<le> W"
    and "list_all (call_ok W) calls" and "hs_run W calls (d, [], []) = Some (d', fed, out)"
  shows "take (length out) (hs_decode (unat w) (unat l) [] (bytes_bits fed)) = out
    \<and> (heatshrink_decoder_finish (Some d') = HSDR_FINISH_DONE \<longrightarrow> out = hs_decode (unat w) (unat l) [] (bytes_bits fed))"
proof -
  have d': "hs_tracks d' fed out" "wbits d' = unat w" "lbits d' = unat l" using decoder_reaches [OF assms(1-4)] by auto
  show ?thesis using hs_tracks_prefix [OF d'(1)] hs_tracks_complete [OF d'(1)] d'(2,3) by (auto simp: hs_output_def)
qed

theorem decoder_refines_format_witness:
  "heatshrink_decoder_finish (Some (demo_run demo_calls)) = HSDR_FINISH_DONE
   \<and> [97, 97, 97, 97] = hs_decode 4 3 [] (bytes_bits [0xB0, 0x81, 0x00])"
  using decoder_refines_format [OF demo_init _ demo_calls_ok(1) demo_run_all] demo_finish by simp

text \<open>
  C11: After any sequence of calls, a poll delivers exactly the next bytes of the format's output, as many as
  there are and as fit, leaves the rest of the caller's buffer alone, and reports more to come exactly
  when it filled the buffer.
\<close>

theorem poll_delivers_next_bytes:
  assumes "heatshrink_decoder_init hsd sz w l ib wb n = Some (HSDR_INIT_OK, Some d)" and "16 \<le> W"
    and "list_all (call_ok W) calls" and "hs_run W calls (d, [], []) = Some (d', fed, out)"
    and "room \<le> length buf" and "room < 2 ^ W"
    and "new = take room (drop (length out) (hs_decode (unat w) (unat l) [] (bytes_bits fed)))"
  shows "\<exists>d''. heatshrink_decoder_poll W (Some d') (Some buf) room (Some x)
    = Some (if length new = room then HSDR_POLL_MORE else HSDR_POLL_EMPTY, Some d'',
        Some (new @ drop (length new) buf), Some (length new))"
proof -
  have d': "hs_tracks d' fed out" "wbits d' = unat w" "lbits d' = unat l" using decoder_reaches [OF assms(1-4)] by auto
  show ?thesis using poll_tracks [OF d'(1) assms(6,5)] d'(2,3) unfolding assms(7) hs_output_def by metis
qed

theorem poll_delivers_next_bytes_witness:
  "\<exists>d. heatshrink_decoder_poll 16 (Some (demo_run (take 3 demo_calls))) (Some [9, 9, 9]) 2 (Some 0)
     = Some (HSDR_POLL_MORE, Some d, Some [97, 97, 9], Some 2)"
proof -
  have "take 2 (drop (length [97]) (hs_decode (unat (4 :: u8)) (unat (3 :: u8)) [] (bytes_bits [0xB0, 0x81, 0x00]))) = ([97, 97] :: u8 list)"
    by code_simp
  then show ?thesis
    using poll_delivers_next_bytes [OF demo_init _ demo_calls_ok(2) demo_run_three, of 2 "[9, 9, 9]" "[97, 97]" 0] by (simp flip: numeral_2_eq_2)
qed

end
