(* ===== verification/Heatshrink_Encoder_Props.thy ===== *)
theory Heatshrink_Encoder_Props
  imports Heatshrink_Encoder_Poll Heatshrink_Decoder_Props
begin

text \<open>
  The encoder as its callers see it, the round trip through encoder and decoder, and the window sizes for which
  the indexing loop leaves the buffer.
\<close>

section \<open>The invariant of the interface\<close>

definition hse_tracks :: "bool \<Rightarrow> heatshrink_encoder \<Rightarrow> u8 list \<Rightarrow> u8 list \<Rightarrow> bool" where
  "hse_tracks U e S D \<longleftrightarrow> (\<exists>st. enc_ok U st e S D \<and> he_state e = HSE_byte st \<and> st \<noteq> HSES_SAVE_BACKLOG)"

lemma hse_tracks_state:
  assumes "hse_tracks U e S D" and "he_state e = HSE_byte st"
  shows "enc_ok U st e S D"
proof -
  obtain st' where st': "enc_ok U st' e S D" "he_state e = HSE_byte st'" using assms(1) by (auto simp: hse_tracks_def)
  then have "HSE_byte st' = HSE_byte st" using assms(2) by metis
  then show ?thesis using st'(1) by (simp only: HSE_byte_inject)
qed

lemma encoder_reset_tracks:
  assumes "heatshrink_encoder_reset e = Some e'" and "ewbits e \<le> max_window U" and "3 \<le> elbits e" and "elbits e < ewbits e"
    and "U \<longrightarrow> 2 * 2 ^ ewbits e \<le> length (he_index e)"
  shows "hse_tracks U e' [] [] \<and> ewbits e' = ewbits e \<and> elbits e' = elbits e"
proof -
  obtain buffer where buf: "buf_fill (2 * 2 ^ ewbits e) 0 (he_buffer e) = Some buffer"
    and e': "e' = e\<lparr>he_buffer := buffer, he_input_size := 0, he_state := HSE_byte HSES_NOT_FULL, he_match_scan_index := 0,
       he_flags := 0, he_bit_index := 0x80, he_current_byte := 0, he_match_length := 0,
       he_outgoing_bits := 0, he_outgoing_bits_count := 0\<rparr>"
    using assms(1) by (auto simp: heatshrink_encoder_reset_def Let_def split: bind_splits)
  have len: "2 * 2 ^ ewbits e \<le> length buffer" using buf_fill_length [OF buf] by simp
  have "buffer = replicate (2 * 2 ^ ewbits e) 0 @ drop (2 * 2 ^ ewbits e) (he_buffer e)"
    using buf buf_fill_length [OF buf] buf_fill_Some [of "2 * 2 ^ ewbits e" "he_buffer e" 0] by simp
  then have "take (2 ^ ewbits e) buffer = replicate (2 ^ ewbits e) 0" by (simp add: min_def)
  then have "stream_held e' []" by (simp add: stream_held_def padded_def e')
  moreover have "written e' = []" "writer_ok e'" by (simp_all add: e' written_def writer_ok_def)
  ultimately have "enc_ok U HSES_NOT_FULL e' [] []"
    using assms(2-5) len by (simp add: enc_ok_def enc_config_def enc_says_def says_Nil is_finishing_def) (simp add: e')
  then show ?thesis by (auto simp: hse_tracks_def e')
qed

text \<open>The index buffer really has the size that the caller declares.\<close>

lemma encoder_init_tracks:
  assumes "heatshrink_encoder_init U hse w l wb wn ib iw = Some (HSER_INIT_OK, Some e)" and "unat w \<le> max_window U"
    and "U \<longrightarrow> iw \<le> 2 + 2 * length (the ib)"
  shows "hse_tracks U e [] [] \<and> ewbits e = unat w \<and> elbits e = unat l"
proof -
  have ok: "\<not> encoder_misuse w l" "U \<longrightarrow> 2 + 2 * 2 ^ unat w * 2 \<le> iw"
    using assms(1) by (auto simp: heatshrink_encoder_init_def split: option.splits if_splits bind_splits)
  obtain e0 where e0: "heatshrink_encoder_reset e0 = Some e" "he_window_sz2 e0 = w" "he_lookahead_sz2 e0 = l" "U \<longrightarrow> he_index e0 = the ib"
    using assms(1) by (auto simp: heatshrink_encoder_init_def Let_def split: option.splits if_splits bind_splits)
  moreover have "3 \<le> unat l" "unat l < unat w" using ok(1) by (auto simp: encoder_misuse_def word_less_nat_alt word_le_nat_alt)
  moreover have "U \<longrightarrow> 2 * 2 ^ unat w \<le> length (the ib)" using ok(2) assms(3) by auto
  ultimately show ?thesis using encoder_reset_tracks [of e0 e U] assms(2) by auto
qed

section \<open>The calls\<close>

lemma encoder_sink_misuse:
  assumes "hse_tracks U e S D" and "he_state e \<noteq> HSE_byte HSES_NOT_FULL \<or> is_finishing e"
  shows "heatshrink_encoder_sink (Some e) (Some src) n (Some x) = Some (HSER_SINK_ERROR_MISUSE, Some e, Some x)"
  using assms(2) by (auto simp: heatshrink_encoder_sink_def)

lemma encoder_sink_tracks:
  assumes tr: "hse_tracks U e S D" and st: "he_state e = HSE_byte HSES_NOT_FULL"
  defines "room \<equiv> 2 ^ ewbits e - esize e"
  shows "\<exists>e'. heatshrink_encoder_sink (Some e) (Some src) (length src) (Some x) = Some (HSER_SINK_OK, Some e', Some (min room (length src)))
    \<and> hse_tracks U e' (S @ take room src) D \<and> ewbits e' = ewbits e \<and> elbits e' = elbits e"
proof -
  have ok: "enc_ok U HSES_NOT_FULL e S D" using tr st by (rule hse_tracks_state)
  then have c: "enc_config U e" and held: "stream_held e S" and fin: "\<not> is_finishing e" "escan e = 0" by (simp_all add: enc_ok_def)
  note b = enc_config_bounds [OF c] and sz = unat_sizes(1) [OF c]
  let ?rem = "get_input_buffer_size e - he_input_size e"
  have rem: "unat ?rem = room" using sz b(3) by (simp add: room_def unat_sub word_le_nat_alt)
  define cp where "cp = (if unat ?rem < length src then ?rem else of_nat (length src))"
  define bs where "bs = take room src"
  have small: "room < 2 ^ 16" using b(2) by (simp add: room_def)
  have cp: "unat cp = min room (length src)" "length bs = min room (length src)"
    using rem small by (auto simp: cp_def bs_def unsigned_of_nat take_bit_nat_eq_self)
  have off: "unat (get_input_offset e + he_input_size e) = 2 ^ ewbits e + esize e" using unat_offset [OF c] b(3) by simp
  have size: "unat (he_input_size e + cp) = esize e + length bs"
    using cp b(2,3) unat_add16 [of "he_input_size e" cp] by (simp add: room_def)
  have len: "2 * 2 ^ ewbits e \<le> length (he_buffer e)" using c by (simp add: enc_config_def)
  let ?k = "2 ^ ewbits e + esize e"
  define buf where "buf = take ?k (he_buffer e) @ bs @ drop (?k + length bs) (he_buffer e)"
  have fit: "?k + length bs \<le> length (he_buffer e)" "esize e + length bs \<le> 2 ^ ewbits e"
    using len cp(2) b(3) by (simp_all add: room_def)
  have bs_min: "take (min room (length src)) src = bs" by (simp add: bs_def min_def)
  have blit: "buf_blit ?k src (unat cp) (he_buffer e) = Some buf"
    using fit(1) cp buf_blit_Some [of ?k "length bs" "he_buffer e" src] by (simp add: buf_def bs_min)
  define e1 where "e1 = e\<lparr>he_buffer := buf, he_input_size := he_input_size e + cp\<rparr>"
  define e' where "e' = (if cp = ?rem then e1\<lparr>he_state := HSE_byte HSES_FILLED\<rparr> else e1)"
  have e1: "he_buffer e1 = buf" "esize e1 = esize e + length bs" by (simp_all add: e1_def size)
  have f: "he_buffer e' = he_buffer e1" "he_input_size e' = he_input_size e1" "he_window_sz2 e' = he_window_sz2 e"
    "he_lookahead_sz2 e' = he_lookahead_sz2 e" "he_flags e' = he_flags e" "he_index e' = he_index e"
    "he_match_scan_index e' = he_match_scan_index e" "written e' = written e" "writer_ok e' = writer_ok e"
    by (simp_all add: e'_def e1_def)
  have "heatshrink_encoder_sink (Some e) (Some src) (length src) (Some x) = Some (HSER_SINK_OK, Some e', Some (min room (length src)))"
    using st fin(1) blit off unfolding heatshrink_encoder_sink_def e'_def e1_def
    by (simp add: Let_def cp(1) flip: cp_def)
  moreover have "take (?k + length bs) buf = drop (length S - esize e) (padded (ewbits e) (S @ bs))"
    using held fit(1) by (simp add: buf_def stream_held_def padded_def)
  then have "stream_held e' (S @ bs)" using held by (simp add: stream_held_def f e1 add.assoc)
  moreover have "enc_says HSES_NOT_FULL e S D" using ok by (simp add: enc_ok_def)
  then have "says (ewbits e') (elbits e') (bytes_bits D @ written e') (take (length (S @ bs) - esize e' + escan e') (S @ bs))"
    using fin(2) held by (simp add: enc_says_def f e1 stream_held_def)
  moreover have "enc_config U e'" using c fit fin(2) by (simp add: enc_config_def f e1 buf_def)
  moreover have "esize e' = 2 ^ ewbits e'" if "cp = ?rem"
  proof -
    have "min room (length src) = room" using that cp rem by simp
    then show ?thesis using cp(2) b(3) by (simp add: f e1 room_def)
  qed
  then have "\<exists>s. he_state e' = HSE_byte s \<and> (s = HSES_FILLED \<or> s = HSES_NOT_FULL) \<and> enc_state_ok U s e'"
    using st fin by (cases "cp = ?rem") (auto simp: e'_def e1_def is_finishing_def intro: exI [of _ HSES_FILLED] exI [of _ HSES_NOT_FULL])
  then obtain s where "he_state e' = HSE_byte s" "s = HSES_FILLED \<or> s = HSES_NOT_FULL" "enc_state_ok U s e'" by blast
  ultimately show ?thesis
    by (intro exI [of _ e'] conjI) (auto simp: hse_tracks_def enc_ok_def enc_says_def bs_def f intro!: exI [of _ s])
qed

lemma is_finishing_or: "is_finishing (e\<lparr>he_flags := he_flags e OR FLAG_IS_FINISHING\<rparr>)"
proof -
  have "bit ((he_flags e OR 1) AND 1) 0" by (simp add: bit_and_iff bit_or_iff)
  then have "(he_flags e OR 1) AND 1 \<noteq> 0" by (metis bit_0_eq bot_apply bot_bool_def)
  then show ?thesis by (simp add: is_finishing_def)
qed

lemma encoder_finish_tracks:
  assumes "hse_tracks U e S D"
  shows "\<exists>e'. heatshrink_encoder_finish (Some e) = (if he_state e = HSE_byte HSES_DONE then HSER_FINISH_DONE else HSER_FINISH_MORE, Some e')
    \<and> hse_tracks U e' S D \<and> ewbits e' = ewbits e \<and> elbits e' = elbits e"
proof -
  obtain st where st: "enc_ok U st e S D" "he_state e = HSE_byte st" "st \<noteq> HSES_SAVE_BACKLOG" using assms by (auto simp: hse_tracks_def)
  define e1 where "e1 = e\<lparr>he_flags := he_flags e OR FLAG_IS_FINISHING\<rparr>"
  have fin: "is_finishing e1" unfolding e1_def by (rule is_finishing_or)
  define s where "s = (if st = HSES_NOT_FULL then HSES_FILLED else st)"
  have "enc_config U e1" "stream_held e1 S" using st(1) by (simp_all add: enc_ok_def enc_config_def stream_held_def e1_def)
  moreover have "rest_bits s e1 = rest_bits st e" "reach s e1 = reach st e" "s = HSES_DONE \<longleftrightarrow> st = HSES_DONE"
    by (cases st; simp add: s_def e1_def last_literal_def)+
  then have "enc_says s e1 S D" using st(1) by (simp add: enc_ok_def enc_says_def e1_def)
  moreover have "enc_state_ok U s e1"
    using st(1,3) fin by (cases st) (simp_all add: enc_ok_def s_def ready_def match_ok_def e1_def split: if_splits)
  ultimately have ok: "enc_ok U s e1 S D" by (simp add: enc_ok_def)
  have "s \<noteq> HSES_SAVE_BACKLOG" using st(3) by (simp add: s_def)
  then have tr: "hse_tracks U (e1\<lparr>he_state := HSE_byte s\<rparr>) S D" using ok by (auto simp: hse_tracks_def)
  have eq: "(if he_state e1 = HSE_byte HSES_NOT_FULL then e1\<lparr>he_state := HSE_byte HSES_FILLED\<rparr> else e1) = e1\<lparr>he_state := HSE_byte s\<rparr>"
  proof (cases "st = HSES_NOT_FULL")
    case True
    have "he_state e1 = HSE_byte HSES_NOT_FULL" using st(2) True by (simp add: e1_def)
    then show ?thesis by (simp add: s_def True)
  next
    case False
    have state: "he_state e1 = HSE_byte st" by (simp add: e1_def st(2))
    then have "\<not> he_state e1 = HSE_byte HSES_NOT_FULL" using False by (simp only: HSE_byte_inject not_False_eq_True)
    moreover have "e1\<lparr>he_state := HSE_byte st\<rparr> = e1" by (simp add: heatshrink_encoder.equality flip: state)
    ultimately show ?thesis using False by (simp only: if_False s_def)
  qed
  have "HSE_byte s = HSE_byte HSES_DONE \<longleftrightarrow> he_state e = HSE_byte HSES_DONE"
    by (simp only: st(2) HSE_byte_inject s_def split: if_split) simp
  then have "heatshrink_encoder_finish (Some e)
      = (if he_state e = HSE_byte HSES_DONE then HSER_FINISH_DONE else HSER_FINISH_MORE, Some (e1\<lparr>he_state := HSE_byte s\<rparr>))"
    unfolding heatshrink_encoder_finish_def option.case Let_def e1_def [symmetric] eq by (simp del: HSE_byte.simps)
  then show ?thesis using tr by (intro exI [of _ "e1\<lparr>he_state := HSE_byte s\<rparr>"]) (simp add: e1_def)
qed

lemma encoder_poll_tracks:
  assumes tr: "hse_tracks U e S D" and n: "0 < n" "n \<le> length buf"
  shows "\<exists>res e' new. heatshrink_encoder_poll U (Some e) (Some buf) n (Some x)
      = Some (res, Some e', Some (new @ drop (length new) buf), Some (length new))
    \<and> length new \<le> n \<and> hse_tracks U e' S (D @ new) \<and> ewbits e' = ewbits e \<and> elbits e' = elbits e
    \<and> (res = HSER_POLL_EMPTY \<or> res = HSER_POLL_MORE \<and> length new = n)
    \<and> (length new = n \<or> he_state e' = HSE_byte HSES_NOT_FULL \<or> he_state e' = HSE_byte HSES_DONE)
    \<and> he_flags e' = he_flags e"
proof -
  let ?oi = "\<lparr>oi_buf = buf, oi_buf_size = n, oi_output_size = 0\<rparr>"
  obtain st where st: "enc_ok U st e S D" "he_state e = HSE_byte st" using tr by (auto simp: hse_tracks_def)
  have "out_ok n ?oi" using n(2) by (simp add: out_ok_def)
  then obtain r where r: "encoder_poll_loop U e ?oi = Some r" "encoder_good U S D (e, ?oi) r"
    using encoder_poll_loop_ok [OF st] by blast
  obtain res e' oi' where r': "r = (res, e', oi')" by (cases r)
  obtain st' new where new: "oi' = emit ?oi new" "length new \<le> n" "enc_ok U st' e' S (D @ new)" "he_state e' = HSE_byte st'" "st' \<noteq> HSES_SAVE_BACKLOG"
    "(ewbits e', elbits e', he_flags e') = (ewbits e, elbits e, he_flags e)"
    "res = HSER_POLL_EMPTY \<or> res = HSER_POLL_MORE \<and> length new = n" "length new = n \<or> st' = HSES_NOT_FULL \<or> st' = HSES_DONE"
    using r(2) unfolding r' encoder_good_def by (auto simp: emit_whole)
  have "heatshrink_encoder_poll U (Some e) (Some buf) n (Some x) = Some (res, Some e', Some (new @ drop (length new) buf), Some (length new))"
    using r(1) n(1) by (simp add: heatshrink_encoder_poll_def r' new(1) emit_whole)
  moreover have "hse_tracks U e' S (D @ new)" using new(3-5) by (auto simp: hse_tracks_def)
  ultimately show ?thesis using new(2,4,6-8) by blast
qed

section \<open>Sequences of calls\<close>

datatype hse_call = Feed "u8 list" | Drain "u8 list" | Finish

text \<open>
  A client that records the bytes the encoder accepted and the bytes it delivered. A rejected call leaves the
  count it returns at zero.
\<close>

fun hse_run :: "bool \<Rightarrow> hse_call list \<Rightarrow> heatshrink_encoder \<times> u8 list \<times> u8 list \<Rightarrow> (heatshrink_encoder \<times> u8 list \<times> u8 list) option" where
  "hse_run U [] s = Some s"
| "hse_run U (Feed src # calls) (e, fed, out) =
     (case heatshrink_encoder_sink (Some e) (Some src) (length src) (Some 0) of
        Some (_, Some e', Some n) \<Rightarrow> hse_run U calls (e', fed @ take n src, out)
      | _ \<Rightarrow> None)"
| "hse_run U (Drain buf # calls) (e, fed, out) =
     (case heatshrink_encoder_poll U (Some e) (Some buf) (length buf) (Some 0) of
        Some (_, Some e', Some buf', Some n) \<Rightarrow> hse_run U calls (e', fed, out @ take n buf')
      | _ \<Rightarrow> None)"
| "hse_run U (Finish # calls) (e, fed, out) =
     (case heatshrink_encoder_finish (Some e) of (_, Some e') \<Rightarrow> hse_run U calls (e', fed, out) | _ \<Rightarrow> None)"

lemma hse_call_tracks:
  assumes tr: "hse_tracks U e S D"
  shows "\<exists>e' S' D'. hse_run U [c] (e, S, D) = Some (e', S', D') \<and> hse_tracks U e' S' D' \<and> ewbits e' = ewbits e \<and> elbits e' = elbits e
    \<and> (\<forall>calls. hse_run U (c # calls) (e, S, D) = hse_run U calls (e', S', D'))"
proof (cases c)
  case (Feed src)
  show ?thesis
  proof (cases "he_state e = HSE_byte HSES_NOT_FULL")
    case True
    define room where "room = 2 ^ ewbits e - esize e"
    have "take (min room (length src)) src = take room src" by (simp add: min_def)
    then show ?thesis using Feed encoder_sink_tracks [OF tr True, of src 0, folded room_def] by auto
  next
    case False
    then show ?thesis using Feed encoder_sink_misuse [OF tr disjI1 [OF False]] tr by simp
  qed
next
  case (Drain buf)
  show ?thesis
  proof (cases "buf = []")
    case True
    then show ?thesis using Drain tr by (simp add: heatshrink_encoder_poll_def)
  next
    case False
    then show ?thesis using Drain encoder_poll_tracks [OF tr, of "length buf" buf 0] by auto
  qed
next
  case Finish
  then show ?thesis using encoder_finish_tracks [OF tr] by auto
qed

lemma hse_run_tracks:
  "hse_tracks U e S D \<Longrightarrow>
    \<exists>e' S' D'. hse_run U calls (e, S, D) = Some (e', S', D') \<and> hse_tracks U e' S' D' \<and> ewbits e' = ewbits e \<and> elbits e' = elbits e"
proof (induction calls arbitrary: e S D)
  case (Cons c calls)
  obtain e1 S1 D1 where "hse_tracks U e1 S1 D1" "ewbits e1 = ewbits e" "elbits e1 = elbits e"
    "hse_run U (c # calls) (e, S, D) = hse_run U calls (e1, S1, D1)"
    using hse_call_tracks [OF Cons.prems, of c] by blast
  then show ?case using Cons.IH [of e1 S1 D1] by simp
qed auto

lemma hse_run_append:
  "hse_tracks U e S D \<Longrightarrow> hse_run U (calls @ calls') (e, S, D) = Option.bind (hse_run U calls (e, S, D)) (hse_run U calls')"
proof (induction calls arbitrary: e S D)
  case (Cons c calls)
  obtain e1 S1 D1 where "hse_tracks U e1 S1 D1" "\<And>rest. hse_run U (c # rest) (e, S, D) = hse_run U rest (e1, S1, D1)"
    using hse_call_tracks [OF Cons.prems, of c] by blast
  then show ?case using Cons.IH [of e1 S1 D1 ] by simp
qed simp

lemma encoder_complete:
  assumes "hse_tracks U e S D" and "fst (heatshrink_encoder_finish (Some e)) = HSER_FINISH_DONE"
  shows "hs_decode (ewbits e) (elbits e) [] (bytes_bits D) = S"
proof -
  have "he_state e = HSE_byte HSES_DONE" using encoder_finish_tracks [OF assms(1)] assms(2) by (auto split: if_splits)
  then have "enc_ok U HSES_DONE e S D" using assms(1) by (intro hse_tracks_state)
  then show ?thesis by (simp add: enc_ok_def enc_says_def)
qed

lemma encoder_reaches:
  assumes "heatshrink_encoder_init U hse w l wb wn ib iw = Some (HSER_INIT_OK, Some e)" and "unat w \<le> max_window U"
    and "U \<longrightarrow> iw \<le> 2 + 2 * length (the ib)" and "hse_run U calls (e, [], []) = Some (e', fed, out)"
  shows "hse_tracks U e' fed out \<and> ewbits e' = unat w \<and> elbits e' = unat l"
  using encoder_init_tracks [OF assms(1-3)] hse_run_tracks [of U e "[]" "[]" calls] assms(4) by auto

section \<open>The indexing loop outside the supported windows\<close>

lemma do_indexing_loop_overruns: "2 ^ 15 \<le> unat stop \<Longrightarrow> do_indexing_loop stop data i lasts index = None"
proof (induction stop data i lasts index rule: do_indexing_loop.induct)
  case (1 stop data i lasts index)
  have "sint i < 2 ^ 15" using sint_range_size [of i] by (simp add: word_size)
  also have "2 ^ 15 \<le> int (unat stop)" using of_nat_mono [OF 1(2), where ?'a = int] by simp
  finally have "sint i < int (unat stop)" .
  then show ?case using 1 by (subst do_indexing_loop.simps) (auto split: bind_splits)
qed

section \<open>A concrete encoder\<close>

text \<open>Four window bits, three lookahead bits; the input is fed in two pieces and contains a repetition.\<close>

definition enc_garbage :: heatshrink_encoder where
  "enc_garbage = \<lparr>he_input_size = 9, he_match_scan_index = 9, he_match_length = 9, he_match_pos = 9, he_outgoing_bits = 9,
     he_outgoing_bits_count = 9, he_flags = 9, he_state = 9, he_current_byte = 9, he_bit_index = 9, he_window_sz2 = 9,
     he_lookahead_sz2 = 9, he_index_size = 9, he_index = [], he_buffer = []\<rparr>"

definition demo_encoder :: heatshrink_encoder where
  "demo_encoder = the (snd (the (heatshrink_encoder_init True (Some enc_garbage) 4 3 (Some (replicate 32 7)) 32 (Some (replicate 32 7)) 66)))"

text \<open>An encoder with a window of fourteen bits, to fill its buffer.\<close>

lemma wide_encoder:
  "\<exists>e. heatshrink_encoder_init True (Some enc_garbage) 14 3 (Some (replicate 32768 7)) 32768 (Some (replicate 32768 7)) 65538
      = Some (HSER_INIT_OK, Some e)
    \<and> (\<exists>r e' k. heatshrink_encoder_sink (Some e) (Some (replicate 16384 1)) (length (replicate 16384 (1 :: u8))) (Some 0) = Some (r, Some e', k))"
proof -
  let ?e = "enc_garbage\<lparr>he_window_sz2 := 14, he_lookahead_sz2 := 3, he_buffer := replicate 32768 7, he_index := replicate 32768 7, he_index_size := 65536\<rparr>"
  have fill: "buf_fill (2 * 2 ^ ewbits ?e) 0 (he_buffer ?e) = Some (replicate 32768 0)"
    using buf_fill_Some [of 32768 "replicate 32768 7" "0 :: u8"] by simp
  then obtain e where e: "heatshrink_encoder_reset ?e = Some e" "he_state e = HSE_byte HSES_NOT_FULL"
    by (auto simp: heatshrink_encoder_reset_def Let_def)
  then have init: "heatshrink_encoder_init True (Some enc_garbage) 14 3 (Some (replicate 32768 7)) 32768 (Some (replicate 32768 7)) 65538
      = Some (HSER_INIT_OK, Some e)"
    by (simp add: heatshrink_encoder_init_def encoder_misuse_def Let_def enc_garbage_def)
  have "hse_tracks False e [] []"
    using encoder_reset_tracks [OF e(1), of False] by (simp add: max_window_def)
  then show ?thesis using init encoder_sink_tracks [OF _ e(2)] by blast
qed

definition demo_feed :: "hse_call list" where
  "demo_feed = [Feed [97, 98, 97, 98], Feed [97, 98, 97], Finish, Drain [0]]"

definition demo_encoded :: "hse_call list \<Rightarrow> heatshrink_encoder" where
  "demo_encoded calls = fst (the (hse_run True calls (demo_encoder, [], [])))"

lemma demo_enc_init:
  "heatshrink_encoder_init True (Some enc_garbage) 4 3 (Some (replicate 32 7)) 32 (Some (replicate 32 7)) 66 = Some (HSER_INIT_OK, Some demo_encoder)"
  by code_simp

lemma demo_window: "unat (4 :: u8) \<le> max_window True" "True \<longrightarrow> 66 \<le> 2 + 2 * length (the (Some (replicate 32 (7 :: i16))))"
  by (simp_all add: max_window_def)

lemma demo_enc_part:
  "hse_run True demo_feed (demo_encoder, [], []) = Some (demo_encoded demo_feed, [97, 98, 97, 98, 97, 98, 97], [176])"
  by code_simp

lemma demo_enc_all:
  "hse_run True (demo_feed @ [Drain [9, 9, 9]]) (demo_encoder, [], [])
     = Some (demo_encoded (demo_feed @ [Drain [9, 9, 9]]), [97, 98, 97, 98, 97, 98, 97], [176, 216, 131, 0])"
  by code_simp

lemma demo_enc_done: "fst (heatshrink_encoder_finish (Some (demo_encoded (demo_feed @ [Drain [9, 9, 9]])))) = HSER_FINISH_DONE"
  by code_simp

definition demo_unpack :: "hs_call list" where
  "demo_unpack = [Sink [176, 216], Poll [0, 0, 0], Sink [131, 0], Poll [0, 0, 0, 0, 0, 0, 0]]"

lemma demo_unpack_ok: "list_all (call_ok 16) demo_unpack"
  by (simp add: demo_unpack_def)

lemma demo_unpack_run:
  "hs_run 16 demo_unpack (demo_decoder, [], []) = Some (demo_run demo_unpack, [176, 216, 131, 0], [97, 98, 97, 98, 97, 98, 97])"
  by code_simp

lemma demo_unpack_done: "heatshrink_decoder_finish (Some (demo_run demo_unpack)) = HSDR_FINISH_DONE"
  by code_simp

section \<open>Properties\<close>

text \<open>
  C12: for an encoder with a window of at most thirteen bits, fourteen without the search index, that was
  initialised with a search index whose stated size is not more than the memory supplied for it: whatever it
  is fed, and however its calls are interleaved, every call returns. The searches and the polling loop end, and no buffer is accessed outside
  its bounds. Larger windows are accepted by the constructors and are excluded here, since the
  indexing loop then leaves its buffer (\<open>do_indexing\<close>).
\<close>

theorem encoder_calls_return:
  assumes "heatshrink_encoder_init U hse w l wb wn ib iw = Some (HSER_INIT_OK, Some e)" and "unat w \<le> max_window U"
    and "U \<longrightarrow> iw \<le> 2 + 2 * length (the ib)"
  shows "\<exists>s. hse_run U calls (e, [], []) = Some s"
  using hse_run_tracks [OF conjunct1 [OF encoder_init_tracks [OF assms]]] by blast

theorem encoder_calls_return_witness: "\<exists>s. hse_run True demo_feed (demo_encoder, [], []) = Some s"
  by (rule encoder_calls_return [OF demo_enc_init demo_window])

text \<open>
  C6: Once \<open>finish\<close> reports that the encoding is done, the bytes delivered, decoded by the format, are exactly
  the bytes fed, for any input, any way of cutting it into pieces, and both builds of the search.
\<close>

theorem encoder_output_decodes:
  assumes "heatshrink_encoder_init U hse w l wb wn ib iw = Some (HSER_INIT_OK, Some e)" and "unat w \<le> max_window U"
    and "U \<longrightarrow> iw \<le> 2 + 2 * length (the ib)" and "hse_run U calls (e, [], []) = Some (e', fed, out)"
    and "fst (heatshrink_encoder_finish (Some e')) = HSER_FINISH_DONE"
  shows "hs_decode (unat w) (unat l) [] (bytes_bits out) = fed"
  using encoder_reaches [OF assms(1-4)] encoder_complete [OF _ assms(5)] by metis

theorem encoder_output_decodes_witness: "hs_decode 4 3 [] (bytes_bits [176, 216, 131, 0]) = [97, 98, 97, 98, 97, 98, 97]"
  using encoder_output_decodes [OF demo_enc_init demo_window demo_enc_all demo_enc_done] by simp

text \<open>
  C1: Compression is lossless: a decoder with the same parameters that was given all the encoder's output, in any
  pieces, and reports that it is done, has delivered exactly the bytes the encoder was fed.
\<close>

theorem heatshrink_roundtrip:
  assumes "heatshrink_encoder_init U hse w l wb wn ib iw = Some (HSER_INIT_OK, Some e)" and "unat w \<le> max_window U"
    and "U \<longrightarrow> iw \<le> 2 + 2 * length (the ib)" and "hse_run U calls (e, [], []) = Some (e', input, compressed)"
    and "fst (heatshrink_encoder_finish (Some e')) = HSER_FINISH_DONE"
    and "heatshrink_decoder_init hsd sz w l db dw n = Some (HSDR_INIT_OK, Some d)" and "16 \<le> W" and "list_all (call_ok W) dcalls"
    and "hs_run W dcalls (d, [], []) = Some (d', compressed, output)" and "heatshrink_decoder_finish (Some d') = HSDR_FINISH_DONE"
  shows "output = input"
proof -
  have "hs_decode (unat w) (unat l) [] (bytes_bits compressed) = input"
    using encoder_reaches [OF assms(1-4)] encoder_complete [OF _ assms(5)] by metis
  then show ?thesis
    using decoder_reaches [OF assms(6-9)] hs_tracks_complete [OF _ assms(10), of compressed "output"] by (simp add: hs_output_def)
qed

theorem heatshrink_roundtrip_witness:
  "snd (snd (the (hs_run 16 demo_unpack (demo_decoder, [], [])))) = [97, 98, 97, 98, 97, 98, 97]"
  using heatshrink_roundtrip [OF demo_enc_init demo_window demo_enc_all demo_enc_done demo_init _ demo_unpack_ok demo_unpack_run demo_unpack_done]
  by (simp only: demo_unpack_run option.sel snd_conv)

text \<open>
  C14: After \<open>finish\<close> the encoder always gets to the end: a poll either fills its output buffer or completes the
  stream, so polling with nonempty buffers terminates with the whole encoding.
\<close>

theorem encoder_finishes:
  assumes "heatshrink_encoder_init U hse w l wb wn ib iw = Some (HSER_INIT_OK, Some e)" and "unat w \<le> max_window U"
    and "U \<longrightarrow> iw \<le> 2 + 2 * length (the ib)" and "hse_run U calls (e, [], []) = Some (e1, fed, out)"
    and "hse_run U [Finish, Drain buf] (e1, fed, out) = Some (e2, fed2, out2)"
    and "length out2 < length out + length buf"
  shows "fed2 = fed \<and> fst (heatshrink_encoder_finish (Some e2)) = HSER_FINISH_DONE"
proof -
  have tr: "hse_tracks U e1 fed out" using encoder_reaches [OF assms(1-4)] by simp
  obtain f where f: "heatshrink_encoder_finish (Some e1) = (if he_state e1 = HSE_byte HSES_DONE then HSER_FINISH_DONE else HSER_FINISH_MORE, Some f)"
      "hse_tracks U f fed out"
    using encoder_finish_tracks [OF tr] by blast
  have fin: "is_finishing f"
    using f(1) is_finishing_or [of e1] by (auto simp: heatshrink_encoder_finish_def Let_def is_finishing_def split: if_splits)
  have "0 < length buf" using assms(6) f(1) assms(5) by (cases buf) (auto simp: heatshrink_encoder_poll_def)
  then obtain res g new where g: "heatshrink_encoder_poll U (Some f) (Some buf) (length buf) (Some 0)
        = Some (res, Some g, Some (new @ drop (length new) buf), Some (length new))"
      "hse_tracks U g fed (out @ new)" "length new = length buf \<or> he_state g = HSE_byte HSES_NOT_FULL \<or> he_state g = HSE_byte HSES_DONE"
      "he_flags g = he_flags f"
    using encoder_poll_tracks [OF f(2), of "length buf" buf 0] by blast
  have run: "e2 = g" "fed2 = fed" "out2 = out @ new" using assms(5) f(1) g(1) by simp_all
  have "he_state g \<noteq> HSE_byte HSES_NOT_FULL"
    using hse_tracks_state [OF g(2), of HSES_NOT_FULL] fin g(4) by (auto simp: enc_ok_def is_finishing_def)
  then have "he_state g = HSE_byte HSES_DONE" using g(3) assms(6) run(3) by simp
  then show ?thesis using encoder_finish_tracks [OF g(2)] run by auto
qed

theorem encoder_finishes_witness:
  "\<exists>e out. hse_run True [Finish, Drain [9, 9, 9, 9]] (demo_encoded demo_feed, [97, 98, 97, 98, 97, 98, 97], [176])
     = Some (e, [97, 98, 97, 98, 97, 98, 97], out) \<and> fst (heatshrink_encoder_finish (Some e)) = HSER_FINISH_DONE"
proof -
  have run: "hse_run True [Finish, Drain [9, 9, 9, 9]] (demo_encoded demo_feed, [97, 98, 97, 98, 97, 98, 97], [176])
      = Some (demo_encoded (demo_feed @ [Finish, Drain [9, 9, 9, 9]]), [97, 98, 97, 98, 97, 98, 97], [176, 216, 131, 0])"
    by code_simp
  show ?thesis
    using encoder_finishes [OF demo_enc_init demo_window demo_enc_part run] run by simp
qed

text \<open>
  C15: The window sizes that the constructor accepts are not all safe: with fourteen bits and the search index, the
  indexing loop of a full buffer counts an \<open>int16_t\<close> past its maximum and reads before the buffer, so the
  first poll after the buffer has been filled leaves the program's objects.
\<close>

theorem encoder_index_overrun:
  assumes "heatshrink_encoder_init True hse 14 l wb wn ib iw = Some (HSER_INIT_OK, Some e)" and "2 ^ 14 \<le> length src"
    and "heatshrink_encoder_sink (Some e) (Some src) (length src) (Some x) = Some (r, Some e', k)" and "0 < n"
  shows "heatshrink_encoder_poll True (Some e') (Some buf) n (Some y) = None"
proof -
  have e: "he_window_sz2 e = 14" "he_input_size e = 0" "he_state e = HSE_byte HSES_NOT_FULL" "he_flags e = 0"
    using assms(1) by (auto simp: heatshrink_encoder_init_def heatshrink_encoder_reset_def Let_def split: option.splits if_splits bind_splits)
  have sz: "get_input_buffer_size e = 2 ^ 14" by (simp add: get_input_buffer_size_def e)
  have "(if unat (2 ^ 14 :: u16) < length src then 2 ^ 14 else of_nat (length src)) = (2 ^ 14 :: u16)"
    using assms(2) by (cases "length src = 2 ^ 14") (simp_all add: nat_less_le)
  then have e': "he_window_sz2 e' = 14" "he_input_size e' = 2 ^ 14" "he_state e' = HSE_byte HSES_FILLED"
    using assms(3) e sz by (auto simp: heatshrink_encoder_sink_def is_finishing_def Let_def split: bind_splits)
  have "get_input_offset e' + he_input_size e' = 2 ^ 15" by (simp add: get_input_offset_def get_input_buffer_size_def e')
  then have "do_indexing True e' = None"
    using do_indexing_loop_overruns [of "2 ^ 15" "he_buffer e'"] by (simp add: do_indexing_def)
  moreover have "HSE_of (he_state e') = Some HSES_FILLED" by (simp only: e'(3) HSE_of_byte)
  ultimately have "encoder_poll_loop True e' oi = None" for oi
    by (subst encoder_poll_loop.simps) (simp add: encoder_step_def)
  then show ?thesis using assms(4) by (simp add: heatshrink_encoder_poll_def)
qed

theorem encoder_index_overrun_witness:
  "\<exists>e r e' k. heatshrink_encoder_init True (Some enc_garbage) 14 3 (Some (replicate 32768 7)) 32768 (Some (replicate 32768 7)) 65538
      = Some (HSER_INIT_OK, Some e)
    \<and> heatshrink_encoder_sink (Some e) (Some (replicate 16384 1)) (length (replicate 16384 (1 :: u8))) (Some 0) = Some (r, Some e', k)
    \<and> heatshrink_encoder_poll True (Some e') (Some [0]) 1 (Some 0) = None"
proof -
  obtain e r e' k where run: "heatshrink_encoder_init True (Some enc_garbage) 14 3 (Some (replicate 32768 7)) 32768 (Some (replicate 32768 7)) 65538
      = Some (HSER_INIT_OK, Some e)"
    "heatshrink_encoder_sink (Some e) (Some (replicate 16384 1)) (length (replicate 16384 (1 :: u8))) (Some 0) = Some (r, Some e', k)"
    using wide_encoder by blast
  have "heatshrink_encoder_poll True (Some e') (Some [0]) 1 (Some 0) = None"
    by (rule encoder_index_overrun [OF run(1) _ run(2)]) simp_all
  then show ?thesis using run by blast
qed

end
