(* ===== verification/Spec2Isabelle.thy ===== *)
theory Spec2Isabelle
  imports Numeric_Props Base64_Native Bitmap Fc_Pid_Props Filters_Median Fc_Speed_Props Fc_Dtc_Props Fc_Smo_Props Kalman_Scalar_Props Linears_Props Sha256_Props Heatshrink_Encoder_Props
begin

text \<open>
  Verification of the libraries of the xhive embedded SDK (\<open>libs/\<close>, \<open>native_modules/\<close>): fixed-point arithmetic,
  matrices, filters, motor control, bitmaps, SHA-256, Base64 and heatshrink compression.

  \<^bold>\<open>The program.\<close> The SDK is C without dynamic memory. Its numeric stack has four layers.
  \<open>libs/linears/src/numeric.c\<close> is 64-bit fixed-point arithmetic with 31 fraction bits and a 128-bit
  accumulator of two limbs. \<open>libs/linears/src/basic.c\<close> builds dense matrix operations on it,
  \<open>libs/filters\<close> the digital filters, and \<open>libs/fieldctrl\<close> the transforms, the PID controller, the
  field-oriented and direct torque controllers and the sliding-mode observer. Beside it stand the
  bitmap of \<open>libs/bitmap\<close>, the streaming compression of \<open>libs/heatshrink\<close>, SHA-256 (\<open>libs/sha256\<close>) and Base64 (\<open>libs/base64\<close>, and the Lua module \<open>native_modules/xhive/base64\<close>).
  Every fallible function returns a \<open>linears_status_t\<close>, writes through an output pointer, and promises to
  leave output and context alone when it fails.

  \<^bold>\<open>Model.\<close> Integers keep their width (\<open>i16\<close>, \<open>i32\<close>, \<open>i64\<close>, \<open>u64\<close> are words); a pointer that may be NULL is an
  option; a fallible function returns its status with the pointed-to values after the call; a
  sequence of \<open>FC_ADD\<close> style macros is a run of the state monad of \<open>Status_Monad\<close>, whose state is the sticky status. The step functions of the
  controllers compute in local variables and write context and output last, when no call has failed; this order is
  the definition \<open>fc_commit2\<close>, so it is part of the model and not a theorem. A buffer is a
  list with bounds-checked access (\<open>Memory\<close>), so an access out of bounds is the value \<open>None\<close>; matrices of
  \<open>basic.c\<close>, whose storage may overlap, live in a map from addresses to elements. Code compiled once per
  number format is one definition with a record of format operations as argument (\<open>fc_format\<close>,
  \<open>f_format\<close>, \<open>q_kind\<close>), applied to the q15 and q31 records. The width of \<open>size_t\<close> is the argument \<open>W\<close>.

  \<^bold>\<open>Theories.\<close>
  \<^item> \<open>Prelude\<close>, \<open>Memory\<close>, \<open>Out_Contract\<close>, \<open>Status_Monad\<close>, \<open>Status_Laws\<close>: words, buffers, the contract of functions with
    an output pointer, the status monad with its two commit forms, and their laws.
  \<^item> \<open>Numeric\<close>, \<open>Numeric_Limbs\<close>, \<open>Numeric_Spec\<close>, \<open>Numeric_Props\<close> (\<open>numeric.c\<close>, \<open>numeric_internal.h\<close>): every operation
    equals its specification over the integers, with one rounding to nearest, halves away from zero, and
    the exact condition for a range error; products, square roots, sums of products, means.
  \<^item> \<open>Linears_Basic\<close> (model of \<open>basic.c\<close>, \<open>basic_q_impl.h\<close>), \<open>Linears_Basic_Laws\<close> (staging and commit), \<open>Linears_Kernel\<close>
    (exactness of the accumulations), \<open>Linears_Exact\<close> (specification of all operations), \<open>Linears_Safe\<close>,
    \<open>Linears_Props\<close>: an operation is exact up to one rounding for any overlap of its matrices, memory safe,
    and a transaction.
  \<^item> \<open>Base64\<close>, \<open>Base64_Native\<close> (\<open>base64.c\<close> of the library and of the Lua module): functional correctness, round
    trip, agreement of the decoder variants, bounds of the Lua decoder and the input on which it overflows.
  \<^item> \<open>Sha256\<close> (model of \<open>sha256.c\<close>), \<open>Sha256_Spec\<close> (FIPS 180-4 and the compression function), \<open>Sha256_Props\<close>
    (buffering, bit count, padding and output refine it).
  \<^item> \<open>Heatshrink_Spec\<close> (the compressed format as a function on bit lists), \<open>Heatshrink_Output\<close>, \<open>Heatshrink_Decoder\<close> (model of
    \<open>heatshrink_decoder.c\<close>), \<open>Heatshrink_Reader\<close> (all-or-nothing bit reads), \<open>Heatshrink_Window\<close> (the circular window),
    \<open>Heatshrink_Steps\<close>, \<open>Heatshrink_Poll\<close> (every state keeps the meaning of the rest of the stream; the loop ends),
    \<open>Heatshrink_Decoder_Props\<close> (any interleaving of calls refines the format); \<open>Polling\<close> (the interface of a polling loop,
    interpreted on both machines).
  \<^item> \<open>Heatshrink_Encoder\<close> (model of \<open>heatshrink_encoder.c\<close>), \<open>Heatshrink_Writer\<close> (writing bits appends them), \<open>Heatshrink_Tokens\<close>
    (tokens as extensions of the decoded prefix), \<open>Heatshrink_Search\<close> (the index and both searches report repetitions),
    \<open>Heatshrink_Encoder_Steps\<close>, \<open>Heatshrink_Encoder_Yield\<close>, \<open>Heatshrink_Encoder_Poll\<close> (the states and the loop),
    \<open>Heatshrink_Encoder_Props\<close> (termination, round trip with the decoder, and the window sizes for which the
    indexing loop overruns; the round trip is stated for at most 13 window bits, 14 without the index).
  \<^item> \<open>Bitmap\<close> (\<open>bitmap.h\<close>): updates refine sets, counting and searching, and where the search from the left has no
    defined result or misses a zero bit.
  \<^item> \<open>Filters\<close> with \<open>Filters_Laws\<close>, \<open>Filters_Ema\<close>, \<open>Filters_Window\<close>, \<open>Filters_Mean\<close>, \<open>Filters_Median\<close> (\<open>filters_impl.h\<close>,
    \<open>filters_scalar_impl.h\<close>, \<open>filters_work.c\<close>): the ring buffers refine windows over the whole input
    sequence; convolution, mean, median, and the recurrence of the exponential average.
  \<^item> \<open>Kalman_Scalar\<close>, \<open>Kalman_Scalar_Props\<close> (\<open>kalman_scalar.c\<close>, \<open>kalman_scalar_impl.h\<close>): the scalar Kalman filter; its
    variance never becomes negative, and a direct measurement is accepted and never increases it.
  \<^item> \<open>Fc_Arith\<close>, \<open>Fc_Base\<close> with \<open>Fc_Laws\<close>, \<open>Fc_Format\<close>, \<open>Fc_Base_Props\<close>, \<open>Fc_Total\<close> (\<open>fieldctrl_arith.h\<close>, \<open>cordic.c\<close>,
    \<open>base_impl.h\<close>): angles, voltage limiting, modulation.
  \<^item> \<open>Fc_Pid\<close>, \<open>Fc_Pid_Props\<close>: the PID controller and the V/f generator; limits, anti-windup, coefficient cache.
  \<^item> \<open>Fc_Foc\<close>, \<open>Fc_Foc_Props\<close>, \<open>Fc_Speed_Props\<close> (\<open>foc_impl.h\<close>): current loop and cascaded speed loop.
  \<^item> \<open>Fc_Dtc\<close>, \<open>Fc_Dtc_Props\<close> (\<open>dtc_impl.h\<close>, \<open>dtc.c\<close>) and \<open>Fc_Smo\<close>, \<open>Fc_Smo_Props\<close> (\<open>smo_impl.h\<close>): direct torque
    control and the observer. The voltage vector that direct torque control selects is related to the flux
    estimate itself, through the sector in which the comparison of slopes places it.

  \<^bold>\<open>Loops.\<close> Nearly all loops of the modelled code are bounded by a count or shrink a word; the definitions are
  total functions with a measure where the recursion is not structural, so there is no fuel, and the
  totality theorems show that no access leaves its buffer. The polling loops and the match searches of heatshrink are
  partial functions into options, and that they return is a theorem.

  \<^bold>\<open>Not modelled.\<close> The floating-point instantiations (f32 and f64) of all libraries, since they rest on the
  rounding of the C implementation and its mathematical library; the matrix decompositions, the matrix Kalman,
  unscented and particle filters and the filter design functions of \<open>libs/filters\<close>; \<open>libs/ezctrl\<close>, the
  static-allocation build of heatshrink, and the third-party code the SDK carries (mbedtls, llhttp,
  micro-ecc, cjson, xxhash, divsufsort); the Lua module \<open>mecc\<close>, which only binds
  micro-ecc; the start-up code of \<open>templates/\<close>, which is memory initialisation driven by linker symbols.
\<close>

end
